(* ===== verification/Storage_Prelude.thy ===== *)
theory Storage_Prelude
  imports Main "HOL-Library.Word" "HOL-Library.Monad_Syntax"
begin

unbundle bit_operations_syntax

text \<open>
  Shared vocabulary of the development: the C integer types, the kernel's error numbers,
  bounded access to C arrays, \<open>memcpy\<close> on byte buffers, little-endian layout of integers
  in memory and the C string functions the drivers call.

  Conventions used by every component theory:
  \<^item> \<open>unsigned char\<close>, \<open>unsigned int\<close> and \<open>unsigned long long\<close> are \<open>u8\<close>, \<open>u32\<close>, \<open>u64\<close>;
    a C \<open>int\<close> that only carries a return code or a small index is \<open>int\<close> or \<open>nat\<close>;
  \<^item> an access outside a C object is the value \<open>None\<close> (undefined behaviour is visible in
    the type, never a silent default), and the code's own error returns are values of
    the result, written \<open>- EIO\<close> etc. as in the source;
  \<^item> structures are laid out as on the little-endian machines the drivers run on.
\<close>

section \<open>Integer types and error numbers\<close>

type_synonym u8 = "8 word"
type_synonym u16 = "16 word"
type_synonym u32 = "32 word"
type_synonym u64 = "64 word"

abbreviation (input) ENOENT :: int where "ENOENT \<equiv> 2"
abbreviation (input) EIO :: int where "EIO \<equiv> 5"
abbreviation (input) ENOMEM :: int where "ENOMEM \<equiv> 12"
abbreviation (input) EACCES :: int where "EACCES \<equiv> 13"
abbreviation (input) EFAULT :: int where "EFAULT \<equiv> 14"
abbreviation (input) EBUSY :: int where "EBUSY \<equiv> 16"
abbreviation (input) ENODEV :: int where "ENODEV \<equiv> 19"
abbreviation (input) EINVAL :: int where "EINVAL \<equiv> 22"
abbreviation (input) ENOSPC :: int where "ENOSPC \<equiv> 28"
abbreviation (input) ETIMEDOUT :: int where "ETIMEDOUT \<equiv> 110"

named_theorems mem_simps \<open>rewriting of bounded memory accesses\<close>
named_theorems layout_simps \<open>sizes and fields of encoded structures\<close>

section \<open>Arrays and memory\<close>

text \<open>\<open>arr_get\<close> and \<open>arr_set\<close> are \<open>a[i]\<close> read and written; outside the array there is no value.\<close>

definition arr_get :: "'a list \<Rightarrow> nat \<Rightarrow> 'a option" where
  "arr_get xs i = (if i < length xs then Some (xs ! i) else None)"

definition arr_set :: "'a list \<Rightarrow> nat \<Rightarrow> 'a \<Rightarrow> 'a list option" where
  "arr_set xs i v = (if i < length xs then Some (xs[i := v]) else None)"

text \<open>\<open>mem_read m off n\<close> is \<open>memcpy(_, m + off, n)\<close>, \<open>mem_write m off bs\<close> is \<open>memcpy(m + off, bs, length bs)\<close>.\<close>

definition mem_read :: "'a list \<Rightarrow> nat \<Rightarrow> nat \<Rightarrow> 'a list option" where
  "mem_read m off n = (if off + n \<le> length m then Some (take n (drop off m)) else None)"

definition mem_write :: "'a list \<Rightarrow> nat \<Rightarrow> 'a list \<Rightarrow> 'a list option" where
  "mem_write m off bs =
     (if off + length bs \<le> length m
      then Some (take off m @ bs @ drop (off + length bs) m) else None)"

lemma arr_get_in [mem_simps]: "i < length xs \<Longrightarrow> arr_get xs i = Some (xs ! i)"
  by (simp add: arr_get_def)

lemma arr_set_in [mem_simps]: "i < length xs \<Longrightarrow> arr_set xs i v = Some (xs[i := v])"
  by (simp add: arr_set_def)

lemma arr_get_SomeD: "arr_get xs i = Some v \<Longrightarrow> i < length xs \<and> v = xs ! i"
  by (auto simp: arr_get_def split: if_splits)

lemma arr_set_SomeD: "arr_set xs i v = Some ys \<Longrightarrow> i < length xs \<and> ys = xs[i := v]"
  by (auto simp: arr_set_def split: if_splits)

lemma mem_read_length: "mem_read m off n = Some bs \<Longrightarrow> length bs = n"
  by (auto simp: mem_read_def split: if_splits)

lemma mem_write_length: "mem_write m off bs = Some m' \<Longrightarrow> length m' = length m"
  by (auto simp: mem_write_def split: if_splits)

lemma mem_read_in [mem_simps]: "off + n \<le> length m \<Longrightarrow> mem_read m off n = Some (take n (drop off m))"
  by (simp add: mem_read_def)

lemma mem_write_in [mem_simps]:
  "off + length bs \<le> length m \<Longrightarrow>
   mem_write m off bs = Some (take off m @ bs @ drop (off + length bs) m)"
  by (simp add: mem_write_def)

lemma mem_write_ex: "off + length bs \<le> length m \<Longrightarrow> \<exists>m'. mem_write m off bs = Some m'"
  by (simp add: mem_write_def)

lemma mem_write_nth:
  assumes "mem_write m off bs = Some m'" and "i < length m"
  shows "m' ! i = (if off \<le> i \<and> i < off + length bs then bs ! (i - off) else m ! i)"
  using assms by (auto simp: mem_write_def nth_append split: if_splits)

lemma mem_read_write_same:
  "mem_write m off bs = Some m' \<Longrightarrow> mem_read m' off (length bs) = Some bs"
  by (auto simp: mem_write_def mem_read_def split: if_splits)

lemma mem_read_write_disjoint:
  assumes w: "mem_write m off bs = Some m'"
    and d: "off' + n \<le> off \<or> off + length bs \<le> off'"
  shows "mem_read m' off' n = mem_read m off' n"
proof (cases "off' + n \<le> length m")
  case True
  have len: "length m' = length m" using w by (rule mem_write_length)
  have "take n (drop off' m') = take n (drop off' m)"
  proof (rule nth_equalityI)
    fix i assume "i < length (take n (drop off' m'))"
    then have i: "i < n" and ii: "off' + i < length m" using True by (auto simp: len)
    with d have "\<not> (off \<le> off' + i \<and> off' + i < off + length bs)" by auto
    with mem_write_nth [OF w ii] i ii len
    show "take n (drop off' m') ! i = take n (drop off' m) ! i" by simp
  qed (simp add: len)
  with True len show ?thesis by (simp add: mem_read_def)
next
  case False
  with mem_write_length [OF w] show ?thesis by (simp add: mem_read_def)
qed

lemma mem_read_nth:
  "mem_read m off n = Some bs \<Longrightarrow> i < n \<Longrightarrow> bs ! i = m ! (off + i)"
  by (auto simp: mem_read_def split: if_splits)

lemma take_drop_split: "take n (drop k xs) @ drop (k + n) xs = drop k xs"
  by (metis add.commute append_take_drop_id drop_drop)

text \<open>A second write inside the range of a first one is one write of the patched bytes.\<close>

lemma mem_write_overlay:
  assumes w: "mem_write m off bs = Some m'" and k: "k + length cs \<le> length bs"
  shows "mem_write m' (off + k) cs = mem_write m off (take k bs @ cs @ drop (k + length cs) bs)"
proof -
  have fit: "off + length bs \<le> length m" using w by (auto simp: mem_write_def split: if_splits)
  then have m': "m' = take off m @ bs @ drop (off + length bs) m"
    using w by (simp add: mem_write_def)
  have "off + k + length cs - off = k + length cs" by simp
  with fit k show ?thesis
    by (simp add: m' mem_write_def min_absorb2 min_absorb1 algebra_simps)
qed

lemma mem_write_append:
  assumes "mem_write m off xs = Some m1"
  shows "mem_write m1 (off + length xs) ys = mem_write m off (xs @ ys)"
proof -
  have fit: "off + length xs \<le> length m" and m1: "m1 = take off m @ xs @ drop (off + length xs) m"
    using assms by (auto simp: mem_write_def split: if_splits)
  then have "min (length m) off = off" by simp
  with fit show ?thesis by (simp add: mem_write_def m1 ac_simps)
qed

text \<open>Part of a part.\<close>

lemma mem_read_part:
  "mem_read m off n = Some bs \<Longrightarrow> k + j \<le> n \<Longrightarrow> mem_read bs k j = mem_read m (off + k) j"
  by (auto simp: mem_read_def drop_take min_def add.commute split: if_splits)

section \<open>Little-endian layout\<close>

text \<open>\<open>le n w\<close> are the first \<open>n\<close> bytes of the in-memory image of \<open>w\<close>; \<open>unle\<close> reads such an image.\<close>

primrec le :: "nat \<Rightarrow> 'a::len word \<Rightarrow> u8 list" where
  "le 0 w = []"
| "le (Suc n) w = ucast w # le n (drop_bit 8 w)"

primrec unle :: "u8 list \<Rightarrow> 'a::len word" where
  "unle [] = 0"
| "unle (b # bs) = ucast b OR push_bit 8 (unle bs)"

lemma length_le [simp]: "length (le n w) = n"
  by (induction n arbitrary: w) simp_all

lemma unle_le_take_bit: "unle (le n w) = take_bit (8 * n) w"
proof (induction n arbitrary: w)
  case 0
  then show ?case by simp
next
  case (Suc n)
  show ?case
    by (rule bit_word_eqI)
      (auto simp: Suc.IH bit_or_iff bit_push_bit_iff bit_take_bit_iff bit_drop_bit_eq
        bit_unsigned_iff dest: bit_imp_le_length)
qed

lemma unle_le [simp]: "8 * n = LENGTH('a) \<Longrightarrow> unle (le n w) = (w :: 'a::len word)"
  by (simp add: unle_le_take_bit take_bit_word_eq_self)

lemma bit_unle:
  "bit (unle bs :: 'a::len word) i \<longleftrightarrow>
     i < LENGTH('a) \<and> i div 8 < length bs \<and> bit (bs ! (i div 8)) (i mod 8)"
proof (induction bs arbitrary: i)
  case Nil
  then show ?case by simp
next
  case (Cons b bs)
  show ?case
  proof (cases "i < 8")
    case True
    then show ?thesis
      by (auto simp: bit_or_iff bit_push_bit_iff bit_unsigned_iff)
  next
    case False
    then obtain j where j: "i = j + 8" by (metis add.commute le_add_diff_inverse not_less)
    have "\<not> bit b i" using False by (auto dest: bit_imp_le_length)
    moreover have "(j + 8) div 8 = Suc (j div 8)" by simp
    ultimately show ?thesis
      by (auto simp: j bit_or_iff bit_push_bit_iff bit_unsigned_iff Cons.IH)
  qed
qed

lemma nth_le: "i < n \<Longrightarrow> le n w ! i = ucast (drop_bit (8 * i) w)"
proof (induction n arbitrary: w i)
  case 0
  then show ?case by simp
next
  case (Suc n)
  then show ?case by (cases i) (simp_all add: ac_simps)
qed

lemma take_le: "k \<le> n \<Longrightarrow> take k (le n w) = le k w"
  by (rule nth_equalityI) (simp_all add: nth_le)

lemma le_unle:
  assumes "length bs = n" and "8 * n \<le> LENGTH('a)"
  shows "le n (unle bs :: 'a::len word) = bs"
proof (rule nth_equalityI)
  show "length (le n (unle bs :: 'a word)) = length bs" using assms by simp
next
  fix i assume "i < length (le n (unle bs :: 'a word))"
  then have i: "i < n" by simp
  show "le n (unle bs :: 'a word) ! i = bs ! i"
  proof (rule bit_word_eqI)
    fix k :: nat assume k: "k < LENGTH(8)"
    then have "(8 * i + k) div 8 = i" "(8 * i + k) mod 8 = k" by simp_all
    moreover have "8 * i + k < LENGTH('a)" using i k assms by simp
    ultimately show "bit (le n (unle bs :: 'a word) ! i) k \<longleftrightarrow> bit (bs ! i) k"
      using i k assms by (simp add: nth_le bit_unsigned_iff bit_drop_bit_eq bit_unle)
  qed
qed

text \<open>Words that fit in \<open>n\<close> bits.\<close>

lemma take_bit_word_less: "unat (w::'a::len word) < 2 ^ n \<Longrightarrow> take_bit n w = w"
  by (rule word_unat_eq_iff [THEN iffD2]) (simp add: unsigned_take_bit_eq take_bit_nat_eq_self)

lemma word_less_bits: "unat (w::'a::len word) < 2 ^ n \<Longrightarrow> bit w i \<Longrightarrow> i < n"
  by (metis take_bit_word_less bit_take_bit_iff)

lemma unat_of_nat_small: "n < 2 ^ LENGTH('a) \<Longrightarrow> unat (of_nat n :: 'a::len word) = n"
  by (simp add: unat_of_nat)

lemma unat_u32: "unat (w :: u32) < 2 ^ 32"
  using unsigned_less [of w, where 'a = nat] by simp

lemma sint_small:
  assumes "unat (b :: u32) < 2 ^ 31" shows "sint b = int (unat b)"
proof -
  have u: "int (unat b) = uint b" by simp
  have "int (unat b) < int (2 ^ 31)" using assms by (rule of_nat_less_iff [THEN iffD2])
  then have "uint b < 2 ^ 31" unfolding u by simp
  moreover have "- (2 ^ 31) \<le> uint b" by (rule order_trans [OF _ uint_ge_0]) simp
  ultimately have "signed_take_bit 31 (uint b) = uint b"
    by (intro signed_take_bit_int_eq_self)
  then show ?thesis by (simp add: sint_uint)
qed

text \<open>An array of 32-bit integers in memory.\<close>

definition le32s :: "u32 list \<Rightarrow> u8 list" where
  "le32s ws = concat (map (le 4) ws)"

primrec unle32s :: "nat \<Rightarrow> u8 list \<Rightarrow> u32 list" where
  "unle32s 0 bs = []"
| "unle32s (Suc n) bs = unle (take 4 bs) # unle32s n (drop 4 bs)"

lemma length_le32s [simp]: "length (le32s ws) = 4 * length ws"
  by (induction ws) (simp_all add: le32s_def)

lemma length_unle32s [simp]: "length (unle32s n bs) = n"
  by (induction n arbitrary: bs) simp_all

lemma unle32s_le32s [simp]: "unle32s (length ws) (le32s ws @ bs) = ws"
  by (induction ws) (simp_all add: le32s_def)

lemma unle32s_le32s' [simp]: "n = length ws \<Longrightarrow> unle32s n (le32s ws) = ws"
  using unle32s_le32s [of ws "[]"] by simp

lemma le32s_unle32s: "length bs = 4 * n \<Longrightarrow> le32s (unle32s n bs) = bs"
proof (induction n arbitrary: bs)
  case 0
  then show ?case by (simp add: le32s_def)
next
  case (Suc n)
  then have "le 4 (unle (take 4 bs) :: u32) = take 4 bs"
    by (intro le_unle) simp_all
  moreover have "le32s (unle32s n (drop 4 bs)) = drop 4 bs"
    using Suc by simp
  ultimately show ?case by (simp add: le32s_def)
qed

section \<open>C strings\<close>

text \<open>
  A C string is the bytes before the first NUL of its buffer. \<open>strncpy\<close> copies at most \<open>n\<close>
  bytes and pads with NULs up to \<open>n\<close>.
\<close>

definition cstr :: "u8 list \<Rightarrow> u8 list" where
  "cstr bs = takeWhile (\<lambda>c. c \<noteq> 0) bs"

definition is_cstr :: "u8 list \<Rightarrow> bool" where
  "is_cstr s \<longleftrightarrow> 0 \<notin> set s"

definition strncpy :: "u8 list \<Rightarrow> u8 list \<Rightarrow> nat \<Rightarrow> u8 list" where
  "strncpy dst src n = take n (src @ replicate n 0) @ drop n dst"

lemma length_strncpy [simp]: "length (strncpy dst src n) = max n (length dst)"
  by (simp add: strncpy_def)

lemma cstr_append_nul [simp]: "is_cstr s \<Longrightarrow> cstr (s @ 0 # t) = s"
  by (induction s) (auto simp: cstr_def is_cstr_def)

lemma cstr_eq_Nil: "bs \<noteq> [] \<Longrightarrow> cstr bs = [] \<longleftrightarrow> hd bs = 0"
  by (cases bs) (simp_all add: cstr_def)

lemma is_cstr_cstr [simp]: "is_cstr (cstr bs)"
  by (auto simp: is_cstr_def cstr_def dest: set_takeWhileD)

lemma cstr_is_cstr [simp]: "is_cstr s \<Longrightarrow> cstr s = s"
  by (auto simp: cstr_def is_cstr_def takeWhile_eq_all_conv)

lemma is_cstr_take [simp]: "is_cstr s \<Longrightarrow> is_cstr (take n s)"
  by (auto simp: is_cstr_def dest: in_set_takeD)

section \<open>Option monad helpers\<close>

lemma bind_eq_SomeD: "Option.bind m f = Some y \<Longrightarrow> \<exists>x. m = Some x \<and> f x = Some y"
  by (cases m) simp_all

lemma upt_add_split: "a \<le> b \<Longrightarrow> b \<le> c \<Longrightarrow> [a..<c] = [a..<b] @ [b..<c]"
  using upt_add_eq_append [of a b "c - b"] by simp

lemma find_Some_nth:
  "find P xs = Some x \<Longrightarrow> P x \<and> x \<in> set xs"
  by (auto simp: find_Some_iff)

section \<open>Bit masks\<close>

text \<open>A bit inside a mask whose value is known.\<close>

lemma mask_bit: "(v :: 'a :: len word) AND m = x \<Longrightarrow> b AND m = b \<Longrightarrow> v AND b = x AND b"
  by (metis and.assoc and.commute)

lemma mask_nonzero: "(v :: 'a :: len word) AND b \<noteq> 0 \<Longrightarrow> b AND m = b \<Longrightarrow> v AND m \<noteq> 0"
  using mask_bit [of v m 0 b] by auto

end
