(* ===== verification/Partition.thy ===== *)
theory Partition
  imports Storage_Prelude
begin

text \<open>
  The partition table the RAM disk is born with: \<^verbatim>\<open>src/BlockDriver/partition.c\<close>.
  \<open>PartEntry\<close> is the packed 16-byte MBR entry (its two bit-field pairs share a byte each),
  \<open>def_part_table\<close> and \<open>def_log_part_table\<close> are the static tables, and \<open>copy_mbr\<close>,
  \<open>copy_br\<close>, \<open>copy_mbr_n_br\<close> write them into the disk image, a byte array. A write outside
  the image is \<open>None\<close>.
\<close>

section \<open>The partition entry and its layout\<close>

record PartEntry =
  boot_type :: u8
  start_head :: u8
  start_sec :: u8 \<comment> \<open>6 bits\<close>
  start_cyl_hi :: u8 \<comment> \<open>2 bits\<close>
  start_cyl :: u8
  part_type :: u8
  end_head :: u8
  end_sec :: u8 \<comment> \<open>6 bits\<close>
  end_cyl_hi :: u8 \<comment> \<open>2 bits\<close>
  end_cyl :: u8
  abs_start_sec :: u32
  sec_in_part :: u32

type_synonym PartTable = "PartEntry list"

definition SECTOR_SIZE :: nat where "SECTOR_SIZE = 512"
definition MBR_SIZE :: nat where "MBR_SIZE = SECTOR_SIZE"
definition MBR_DISK_SIGNATURE_OFFSET :: nat where "MBR_DISK_SIGNATURE_OFFSET = 440"
definition PARTITION_TABLE_OFFSET :: nat where "PARTITION_TABLE_OFFSET = 446"
definition PARTITION_ENTRY_SIZE :: nat where "PARTITION_ENTRY_SIZE = 16"
definition PARTITION_TABLE_SIZE :: nat where "PARTITION_TABLE_SIZE = 64"
definition MBR_SIGNATURE_OFFSET :: nat where "MBR_SIGNATURE_OFFSET = 510"
definition MBR_SIGNATURE :: u16 where "MBR_SIGNATURE = 0xAA55"
definition BR_SIZE :: nat where "BR_SIZE = SECTOR_SIZE"
definition BR_SIGNATURE_OFFSET :: nat where "BR_SIGNATURE_OFFSET = 510"
definition BR_SIGNATURE :: u16 where "BR_SIGNATURE = 0xAA55"

lemmas part_consts = SECTOR_SIZE_def MBR_SIZE_def MBR_DISK_SIGNATURE_OFFSET_def
  PARTITION_TABLE_OFFSET_def PARTITION_ENTRY_SIZE_def PARTITION_TABLE_SIZE_def
  MBR_SIGNATURE_OFFSET_def MBR_SIGNATURE_def BR_SIZE_def BR_SIGNATURE_OFFSET_def
  BR_SIGNATURE_def

definition bytes_of_PartEntry :: "PartEntry \<Rightarrow> u8 list" where
  "bytes_of_PartEntry p =
     [boot_type p, start_head p,
      take_bit 6 (start_sec p) OR push_bit 6 (start_cyl_hi p), start_cyl p,
      part_type p, end_head p,
      take_bit 6 (end_sec p) OR push_bit 6 (end_cyl_hi p), end_cyl p]
     @ le 4 (abs_start_sec p) @ le 4 (sec_in_part p)"

definition PartEntry_of_bytes :: "u8 list \<Rightarrow> PartEntry" where
  "PartEntry_of_bytes bs =
     \<lparr>boot_type = bs ! 0, start_head = bs ! 1,
      start_sec = take_bit 6 (bs ! 2), start_cyl_hi = drop_bit 6 (bs ! 2), start_cyl = bs ! 3,
      part_type = bs ! 4, end_head = bs ! 5,
      end_sec = take_bit 6 (bs ! 6), end_cyl_hi = drop_bit 6 (bs ! 6), end_cyl = bs ! 7,
      abs_start_sec = unle (take 4 (drop 8 bs)), sec_in_part = unle (take 4 (drop 12 bs))\<rparr>"

definition bytes_of_PartTable :: "PartTable \<Rightarrow> u8 list" where
  "bytes_of_PartTable t = concat (map bytes_of_PartEntry t)"

definition PartTable_of_bytes :: "u8 list \<Rightarrow> PartTable" where
  "PartTable_of_bytes bs =
     map (\<lambda>i. PartEntry_of_bytes (take PARTITION_ENTRY_SIZE (drop (PARTITION_ENTRY_SIZE * i) bs))) [0..<4]"

section \<open>The static tables\<close>

text \<open>The fields a source initialiser leaves out are zero, as is a missing array element.\<close>

definition zero_PartEntry :: PartEntry where
  "zero_PartEntry =
     \<lparr>boot_type = 0, start_head = 0, start_sec = 0, start_cyl_hi = 0, start_cyl = 0,
      part_type = 0, end_head = 0, end_sec = 0, end_cyl_hi = 0, end_cyl = 0,
      abs_start_sec = 0, sec_in_part = 0\<rparr>"

definition def_part_table :: PartTable where
  "def_part_table =
    [zero_PartEntry
       \<lparr>boot_type := 0x00, start_head := 0x00, start_sec := 0x2, start_cyl := 0x00,
        part_type := 0x83, end_head := 0x00, end_sec := 0x20, end_cyl := 0x09,
        abs_start_sec := 0x00000001, sec_in_part := 0x0000013F\<rparr>,
     zero_PartEntry
       \<lparr>boot_type := 0x00, start_head := 0x00, start_sec := 0x1, start_cyl := 0x0A,
        part_type := 0x05, end_head := 0x00, end_sec := 0x20, end_cyl := 0x13,
        abs_start_sec := 0x00000140, sec_in_part := 0x00000140\<rparr>,
     zero_PartEntry
       \<lparr>boot_type := 0x00, start_head := 0x00, start_sec := 0x1, start_cyl := 0x14,
        part_type := 0x83, end_head := 0x00, end_sec := 0x20, end_cyl := 0x1F,
        abs_start_sec := 0x00000280, sec_in_part := 0x00000180\<rparr>,
     zero_PartEntry]"

definition def_log_part_br_cyl :: "nat list" where
  "def_log_part_br_cyl = [0x0A, 0x0E, 0x12]"

definition def_log_part_table :: "PartTable list" where
  "def_log_part_table =
    [[zero_PartEntry
        \<lparr>boot_type := 0x00, start_head := 0x00, start_sec := 0x2, start_cyl := 0x0A,
         part_type := 0x83, end_head := 0x00, end_sec := 0x20, end_cyl := 0x0D,
         abs_start_sec := 0x00000001, sec_in_part := 0x0000007F\<rparr>,
      zero_PartEntry
        \<lparr>boot_type := 0x00, start_head := 0x00, start_sec := 0x1, start_cyl := 0x0E,
         part_type := 0x05, end_head := 0x00, end_sec := 0x20, end_cyl := 0x11,
         abs_start_sec := 0x00000080, sec_in_part := 0x00000080\<rparr>,
      zero_PartEntry, zero_PartEntry],
     [zero_PartEntry
        \<lparr>boot_type := 0x00, start_head := 0x00, start_sec := 0x2, start_cyl := 0x0E,
         part_type := 0x83, end_head := 0x00, end_sec := 0x20, end_cyl := 0x11,
         abs_start_sec := 0x00000001, sec_in_part := 0x0000007F\<rparr>,
      zero_PartEntry
        \<lparr>boot_type := 0x00, start_head := 0x00, start_sec := 0x1, start_cyl := 0x12,
         part_type := 0x05, end_head := 0x00, end_sec := 0x20, end_cyl := 0x13,
         abs_start_sec := 0x00000100, sec_in_part := 0x00000040\<rparr>,
      zero_PartEntry, zero_PartEntry],
     [zero_PartEntry
        \<lparr>boot_type := 0x00, start_head := 0x00, start_sec := 0x2, start_cyl := 0x12,
         part_type := 0x83, end_head := 0x00, end_sec := 0x20, end_cyl := 0x13,
         abs_start_sec := 0x00000001, sec_in_part := 0x0000003F\<rparr>,
      zero_PartEntry, zero_PartEntry, zero_PartEntry]]"

section \<open>Writing the tables into the image\<close>

text \<open>
  The disk signature is stored through an \<open>unsigned long\<close> pointer, eight bytes on a 64-bit
  kernel: the upper half overlaps the first two bytes of the partition table, which the
  following \<open>memcpy\<close> overwrites.
\<close>

definition copy_mbr :: "u8 list \<Rightarrow> u8 list option" where
  "copy_mbr disk = do {
     disk \<leftarrow> mem_write disk 0 (replicate MBR_SIZE 0);
     disk \<leftarrow> mem_write disk MBR_DISK_SIGNATURE_OFFSET (le 8 (0x36E5756D :: u64));
     disk \<leftarrow> mem_write disk PARTITION_TABLE_OFFSET
               (take PARTITION_TABLE_SIZE (bytes_of_PartTable def_part_table));
     mem_write disk MBR_SIGNATURE_OFFSET (le 2 MBR_SIGNATURE)
   }"

definition copy_br :: "u8 list \<Rightarrow> nat \<Rightarrow> PartTable \<Rightarrow> u8 list option" where
  "copy_br disk start_cylinder part_table = do {
     let base = start_cylinder * 32 * SECTOR_SIZE;
     disk \<leftarrow> mem_write disk base (replicate BR_SIZE 0);
     disk \<leftarrow> mem_write disk (base + PARTITION_TABLE_OFFSET)
               (take PARTITION_TABLE_SIZE (bytes_of_PartTable part_table));
     mem_write disk (base + BR_SIGNATURE_OFFSET) (le 2 BR_SIGNATURE)
   }"

fun copy_brs :: "u8 list \<Rightarrow> (nat \<times> PartTable) list \<Rightarrow> u8 list option" where
  "copy_brs disk [] = Some disk"
| "copy_brs disk ((c, t) # rest) = do { disk \<leftarrow> copy_br disk c t; copy_brs disk rest }"

definition copy_mbr_n_br :: "u8 list \<Rightarrow> u8 list option" where
  "copy_mbr_n_br disk = do {
     disk \<leftarrow> copy_mbr disk;
     copy_brs disk (zip def_log_part_br_cyl def_log_part_table)
   }"

section \<open>Encoding round trip\<close>

definition wf_PartEntry :: "PartEntry \<Rightarrow> bool" where
  "wf_PartEntry p \<longleftrightarrow>
     start_sec p < 64 \<and> start_cyl_hi p < 4 \<and> end_sec p < 64 \<and> end_cyl_hi p < 4"

lemma length_bytes_of_PartEntry [simp]: "length (bytes_of_PartEntry p) = 16"
  by (simp add: bytes_of_PartEntry_def)

lemma length_bytes_of_PartTable [simp]: "length (bytes_of_PartTable t) = 16 * length t"
  by (induction t) (simp_all add: bytes_of_PartTable_def)

lemma bitfield_low: "s < 64 \<Longrightarrow> take_bit 6 (take_bit 6 s OR push_bit 6 h) = (s :: u8)"
  using take_bit_word_less [of s 6]
  by (simp add: take_bit_push_bit word_less_nat_alt)

lemma bitfield_high:
  fixes s h :: u8 assumes "h < 4"
  shows "drop_bit 6 (take_bit 6 s OR push_bit 6 h) = h"
proof (rule bit_word_eqI)
  fix i assume i: "i < LENGTH(8)"
  have "unat h < 2 ^ 2" using assms by (simp add: word_less_nat_alt)
  then show "bit (drop_bit 6 (take_bit 6 s OR push_bit 6 h)) i = bit h i"
    using word_less_bits [of h 2 i]
    by (auto simp: bit_or_iff bit_push_bit_iff bit_take_bit_iff bit_drop_bit_eq)
qed

lemma PartEntry_roundtrip:
  assumes "wf_PartEntry p"
  shows "PartEntry_of_bytes (bytes_of_PartEntry p) = p"
  using assms
  by (simp add: PartEntry_of_bytes_def bytes_of_PartEntry_def wf_PartEntry_def
      bitfield_low bitfield_high del: take_bit_or drop_bit_or)

lemma PartTable_roundtrip_aux:
  assumes "list_all wf_PartEntry t" and "i < length t"
  shows "PartEntry_of_bytes (take 16 (drop (16 * i) (bytes_of_PartTable t @ r))) = t ! i"
  using assms
proof (induction t arbitrary: i)
  case Nil
  then show ?case by simp
next
  case (Cons p t)
  then show ?case
    by (cases i) (simp_all add: bytes_of_PartTable_def PartEntry_roundtrip)
qed

lemma PartTable_roundtrip:
  assumes "list_all wf_PartEntry t" and "length t = 4"
  shows "PartTable_of_bytes (bytes_of_PartTable t) = t"
  using PartTable_roundtrip_aux [OF assms(1), of _ "[]"] assms(2)
  by (intro nth_equalityI) (simp_all add: PartTable_of_bytes_def PARTITION_ENTRY_SIZE_def)

section \<open>The boot sectors\<close>

text \<open>What a boot record and the master boot record look like as one sector.\<close>

definition br_sector :: "PartTable \<Rightarrow> u8 list" where
  "br_sector t = replicate 446 0 @ bytes_of_PartTable t @ le 2 BR_SIGNATURE"

definition mbr_sector :: "u8 list" where
  "mbr_sector =
     replicate 440 0 @ le 6 (0x36E5756D :: u64) @ bytes_of_PartTable def_part_table @ le 2 MBR_SIGNATURE"

lemma length_br_sector [simp]: "length t = 4 \<Longrightarrow> length (br_sector t) = 512"
  by (simp add: br_sector_def)

lemma length_def_part_table [simp]: "length def_part_table = 4"
  by (simp add: def_part_table_def)

lemma length_mbr_sector [simp]: "length mbr_sector = 512"
  by (simp add: mbr_sector_def)

lemma copy_br_eq:
  assumes t: "length t = 4" and fit: "c * 32 * 512 + 512 \<le> length disk"
  shows "copy_br disk c t = mem_write disk (c * 32 * 512) (br_sector t)"
proof -
  obtain d1 where d1: "mem_write disk (c * 32 * 512) (replicate 512 (0::u8)) = Some d1"
    using mem_write_ex [of "c * 32 * 512" "replicate 512 (0::u8)" disk] fit by auto
  let ?s2 = "replicate 446 0 @ bytes_of_PartTable t @ replicate 2 (0::u8)"
  have s2: "mem_write d1 (c * 32 * 512 + 446) (bytes_of_PartTable t) = mem_write disk (c * 32 * 512) ?s2"
    using mem_write_overlay [OF d1, of 446 "bytes_of_PartTable t"] t by simp
  obtain d2 where d2: "mem_write disk (c * 32 * 512) ?s2 = Some d2"
    using mem_write_ex [of "c * 32 * 512" ?s2 disk] fit t by auto
  have "mem_write d2 (c * 32 * 512 + 510) (le 2 BR_SIGNATURE)
        = mem_write disk (c * 32 * 512) (br_sector t)"
    using mem_write_overlay [OF d2, of 510 "le 2 BR_SIGNATURE"] t by (simp add: br_sector_def)
  with d1 d2 s2 t show ?thesis
    by (simp add: copy_br_def SECTOR_SIZE_def BR_SIZE_def PARTITION_TABLE_OFFSET_def
        PARTITION_TABLE_SIZE_def BR_SIGNATURE_OFFSET_def)
qed

lemma copy_mbr_eq:
  assumes fit: "512 \<le> length disk"
  shows "copy_mbr disk = mem_write disk 0 mbr_sector"
proof -
  let ?sig = "le 8 (0x36E5756D :: u64)" and ?t = "bytes_of_PartTable def_part_table"
  obtain d1 where d1: "mem_write disk 0 (replicate 512 (0::u8)) = Some d1"
    using mem_write_ex [of 0 "replicate 512 (0::u8)" disk] fit by auto
  let ?s2 = "replicate 440 0 @ ?sig @ replicate 64 (0::u8)"
  have s2: "mem_write d1 440 ?sig = mem_write disk 0 ?s2"
    using mem_write_overlay [OF d1, of 440 ?sig] by (simp del: le.simps)
  obtain d2 where d2: "mem_write disk 0 ?s2 = Some d2"
    using mem_write_ex [of 0 ?s2 disk] fit by (auto simp del: le.simps)
  let ?s3 = "replicate 440 0 @ le 6 (0x36E5756D :: u64) @ ?t @ replicate 2 (0::u8)"
  have s3: "mem_write d2 446 ?t = mem_write disk 0 ?s3"
    using mem_write_overlay [OF d2, of 446 ?t] by (simp add: take_le del: le.simps)
  obtain d3 where d3: "mem_write disk 0 ?s3 = Some d3"
    using mem_write_ex [of 0 ?s3 disk] fit by (auto simp del: le.simps)
  have "mem_write d3 510 (le 2 MBR_SIGNATURE) = mem_write disk 0 mbr_sector"
    using mem_write_overlay [OF d3, of 510 "le 2 MBR_SIGNATURE"]
    by (simp add: mbr_sector_def del: le.simps)
  with d1 d2 d3 s2 s3 show ?thesis
    by (simp add: copy_mbr_def SECTOR_SIZE_def MBR_SIZE_def PARTITION_TABLE_OFFSET_def
        PARTITION_TABLE_SIZE_def MBR_SIGNATURE_OFFSET_def MBR_DISK_SIGNATURE_OFFSET_def del: le.simps)
qed

definition image_sectors :: "(nat \<times> u8 list) list" where
  "image_sectors =
     (0, mbr_sector) # map (\<lambda>(c, t). (c * 32 * 512, br_sector t)) (zip def_log_part_br_cyl def_log_part_table)"

fun write_all :: "u8 list \<Rightarrow> (nat \<times> u8 list) list \<Rightarrow> u8 list option" where
  "write_all m [] = Some m"
| "write_all m ((off, bs) # ws) = do { m \<leftarrow> mem_write m off bs; write_all m ws }"

lemma write_all_ex:
  "list_all (\<lambda>(off, bs). off + length bs \<le> length m) ws \<Longrightarrow>
   \<exists>m'. write_all m ws = Some m' \<and> length m' = length m"
proof (induction ws arbitrary: m)
  case Nil
  then show ?case by simp
next
  case (Cons w ws)
  obtain off bs where w: "w = (off, bs)" by (cases w)
  with Cons.prems obtain m1 where m1: "mem_write m off bs = Some m1"
    using mem_write_ex by fastforce
  from mem_write_length [OF m1] Cons.prems Cons.IH [of m1] show ?case
    by (simp add: w m1)
qed

lemma write_all_disjoint:
  "write_all m ws = Some m' \<Longrightarrow>
   list_all (\<lambda>(off, bs). k + n \<le> off \<or> off + length bs \<le> k) ws \<Longrightarrow>
   mem_read m' k n = mem_read m k n"
proof (induction ws arbitrary: m)
  case Nil
  then show ?case by simp
next
  case (Cons w ws)
  obtain off bs where w: "w = (off, bs)" by (cases w)
  with Cons.prems obtain m1 where m1: "mem_write m off bs = Some m1" "write_all m1 ws = Some m'"
    by (auto dest: bind_eq_SomeD)
  with Cons.prems Cons.IH [of m1] mem_read_write_disjoint [OF m1(1), of k n] show ?case
    by (simp add: w)
qed

lemma write_all_member:
  assumes "write_all m ws = Some m'"
    and "sorted_wrt (\<lambda>(o1, b1) (o2, b2). o1 + length b1 \<le> o2 \<or> o2 + length b2 \<le> o1) ws"
    and "(off, bs) \<in> set ws"
  shows "mem_read m' off (length bs) = Some bs"
  using assms
proof (induction ws arbitrary: m)
  case Nil
  then show ?case by simp
next
  case (Cons w ws)
  obtain o1 b1 where w: "w = (o1, b1)" by (cases w)
  with Cons.prems obtain m1 where m1: "mem_write m o1 b1 = Some m1" "write_all m1 ws = Some m'"
    by (auto dest: bind_eq_SomeD)
  show ?case
  proof (cases "(off, bs) = w")
    case True
    then have "mem_read m' o1 (length b1) = mem_read m1 o1 (length b1)"
      using Cons.prems(2) by (intro write_all_disjoint [OF m1(2)]) (auto simp: w list_all_iff)
    with True mem_read_write_same [OF m1(1)] show ?thesis by (simp add: w)
  next
    case False
    with Cons m1 show ?thesis by simp
  qed
qed

lemma br_cyls_fit:
  "list_all (\<lambda>(c, t). length t = 4 \<and> c * 32 * 512 + 512 \<le> 1024 * 512)
     (zip def_log_part_br_cyl def_log_part_table)"
  by (simp add: def_log_part_br_cyl_def def_log_part_table_def)

lemma copy_brs_eq:
  "list_all (\<lambda>(c, t). length t = 4 \<and> c * 32 * 512 + 512 \<le> length disk) cts \<Longrightarrow>
   copy_brs disk cts = write_all disk (map (\<lambda>(c, t). (c * 32 * 512, br_sector t)) cts)"
proof (induction cts arbitrary: disk)
  case Nil
  then show ?case by simp
next
  case (Cons ct cts)
  obtain c t where ct: "ct = (c, t)" by (cases ct)
  with Cons.prems obtain d where d: "mem_write disk (c * 32 * 512) (br_sector t) = Some d"
    using mem_write_ex [of "c * 32 * 512" "br_sector t" disk] by auto
  with Cons.prems Cons.IH [of d] mem_write_length [OF d] show ?case
    by (simp add: ct copy_br_eq)
qed

lemma copy_mbr_n_br_eq:
  assumes "1024 * 512 \<le> length disk"
  shows "copy_mbr_n_br disk = write_all disk image_sectors"
proof -
  obtain d where d: "mem_write disk 0 mbr_sector = Some d"
    using mem_write_ex [of 0 mbr_sector disk] assms by auto
  have "list_all (\<lambda>(c, t). length t = 4 \<and> c * 32 * 512 + 512 \<le> length d)
          (zip def_log_part_br_cyl def_log_part_table)"
    using br_cyls_fit mem_write_length [OF d] assms by (auto simp: list_all_iff)
  with d assms show ?thesis
    by (simp add: copy_mbr_n_br_def copy_mbr_eq image_sectors_def copy_brs_eq)
qed

lemma image_sectors_disjoint:
  "sorted_wrt (\<lambda>(o1, b1) (o2, b2). o1 + length b1 \<le> o2 \<or> o2 + length b2 \<le> o1) image_sectors"
  by (simp add: image_sectors_def def_log_part_br_cyl_def def_log_part_table_def)

lemma image_sectors_fit:
  "1024 * 512 \<le> n \<Longrightarrow> list_all (\<lambda>(off, bs). off + length bs \<le> n) image_sectors"
  by (simp add: image_sectors_def def_log_part_br_cyl_def def_log_part_table_def)

section \<open>Reading the tables back\<close>

text \<open>
  \<open>partition_table_at disk sec\<close> reads the table of the boot record in sector \<open>sec\<close> as the
  block layer's MBR parser lays it out: signature first, then the four entries.
\<close>

definition partition_table_at :: "u8 list \<Rightarrow> nat \<Rightarrow> PartTable option" where
  "partition_table_at disk sec = do {
     bs \<leftarrow> mem_read disk (sec * SECTOR_SIZE) SECTOR_SIZE;
     if take 2 (drop 510 bs) = le 2 MBR_SIGNATURE
     then Some (PartTable_of_bytes (take 64 (drop 446 bs))) else None
   }"

lemma partition_table_at_br:
  "mem_read disk (sec * 512) 512 = Some (br_sector t) \<Longrightarrow> length t = 4 \<Longrightarrow> list_all wf_PartEntry t \<Longrightarrow>
   partition_table_at disk sec = Some t"
  by (simp add: partition_table_at_def SECTOR_SIZE_def br_sector_def PartTable_roundtrip
      MBR_SIGNATURE_def BR_SIGNATURE_def del: le.simps)

lemma partition_table_at_mbr:
  "mem_read disk 0 512 = Some mbr_sector \<Longrightarrow> partition_table_at disk 0 = Some def_part_table"
  by (simp add: partition_table_at_def SECTOR_SIZE_def mbr_sector_def PartTable_roundtrip
      wf_PartEntry_def def_part_table_def zero_PartEntry_def del: le.simps)

section \<open>Properties\<close>

lemma log_tables_wf: "list_all (\<lambda>t. length t = 4 \<and> list_all wf_PartEntry t) def_log_part_table"
  by (simp add: def_log_part_table_def wf_PartEntry_def zero_PartEntry_def)

lemma br_image_sector:
  assumes "i < 3"
  shows "(def_log_part_br_cyl ! i * 32 * 512, br_sector (def_log_part_table ! i)) \<in> set image_sectors"
proof -
  have "length def_log_part_br_cyl = 3" "length def_log_part_table = 3"
    by (simp_all add: def_log_part_br_cyl_def def_log_part_table_def)
  with assms have "(def_log_part_br_cyl ! i, def_log_part_table ! i)
      \<in> set (zip def_log_part_br_cyl def_log_part_table)"
    by (auto simp: set_zip)
  then show ?thesis by (force simp: image_sectors_def)
qed

lemma other_sectors_disjoint:
  assumes "s \<noteq> 0" and "s \<notin> (\<lambda>c. c * 32) ` set def_log_part_br_cyl"
  shows "list_all (\<lambda>(off, bs). s * 512 + 512 \<le> off \<or> off + length bs \<le> s * 512) image_sectors"
proof -
  have "(n :: nat) \<noteq> s \<Longrightarrow> s * 512 + 512 \<le> n * 512 \<or> n * 512 + 512 \<le> s * 512" for n
    by (cases n s rule: linorder_cases) simp_all
  from this [of 0] this [of 320] this [of 448] this [of 576] assms show ?thesis
    by (simp add: image_sectors_def def_log_part_br_cyl_def def_log_part_table_def)
qed

lemma copy_mbr_n_br_spec:
  assumes len: "length disk = 1024 * 512"
  shows "\<exists>d. copy_mbr_n_br disk = Some d \<and> length d = length disk \<and>
     partition_table_at d 0 = Some def_part_table \<and>
     (\<forall>i<3. partition_table_at d (def_log_part_br_cyl ! i * 32) = Some (def_log_part_table ! i)) \<and>
     (\<forall>s. s \<noteq> 0 \<longrightarrow> s \<notin> (\<lambda>c. c * 32) ` set def_log_part_br_cyl \<longrightarrow>
        mem_read d (s * 512) 512 = mem_read disk (s * 512) 512)"
proof -
  obtain d where d: "write_all disk image_sectors = Some d" "length d = length disk"
    using write_all_ex [OF image_sectors_fit, of disk] len by auto
  note rd = write_all_member [OF d(1) image_sectors_disjoint]
  have "mem_read d 0 512 = Some mbr_sector"
    using rd [of 0 mbr_sector] by (simp add: image_sectors_def)
  then have mbr: "partition_table_at d 0 = Some def_part_table"
    by (rule partition_table_at_mbr)
  have brs: "partition_table_at d (def_log_part_br_cyl ! i * 32) = Some (def_log_part_table ! i)"
    if "i < 3" for i
  proof -
    have t: "length (def_log_part_table ! i) = 4" "list_all wf_PartEntry (def_log_part_table ! i)"
      using log_tables_wf that by (auto simp: list_all_length def_log_part_table_def)
    then show ?thesis
      using rd [OF br_image_sector [OF that]] by (intro partition_table_at_br) simp_all
  qed
  have "mem_read d (s * 512) 512 = mem_read disk (s * 512) 512"
    if "s \<noteq> 0" "s \<notin> (\<lambda>c. c * 32) ` set def_log_part_br_cyl" for s
    using write_all_disjoint [OF d(1) other_sectors_disjoint [OF that]] .
  with mbr brs d show ?thesis using copy_mbr_n_br_eq [of disk] len by auto
qed

text \<open>
  C12: \<open>copy_mbr_n_br\<close> on an image of the RAM disk's size never writes outside it, leaves a
  valid master boot record in sector 0 whose table reads back as the static primary table,
  leaves a valid boot record at the start of each of the three logical partitions' cylinders
  whose table reads back as the static logical table, and changes no other sector.
\<close>

theorem copy_mbr_n_br_tables:
  assumes len: "length disk = 1024 * 512"
  shows "\<exists>d. copy_mbr_n_br disk = Some d \<and> length d = length disk \<and>
     partition_table_at d 0 = Some def_part_table \<and>
     (\<forall>i<3. partition_table_at d (def_log_part_br_cyl ! i * 32) = Some (def_log_part_table ! i)) \<and>
     (\<forall>s. s \<noteq> 0 \<longrightarrow> s \<notin> (\<lambda>c. c * 32) ` set def_log_part_br_cyl \<longrightarrow>
        mem_read d (s * 512) 512 = mem_read disk (s * 512) 512)"
  using len by (rule copy_mbr_n_br_spec)

theorem copy_mbr_n_br_tables_witness:
  "\<exists>d. copy_mbr_n_br (replicate (1024 * 512) 0) = Some d \<and>
     partition_table_at d 0 = Some def_part_table"
proof -
  have "length (replicate (1024 * 512) (0::u8)) = 1024 * 512" by (rule length_replicate)
  from copy_mbr_n_br_tables [OF this] show ?thesis by blast
qed

end
