(* ===== verification/Ram_Device.thy ===== *)
theory Ram_Device
  imports Partition
begin

text \<open>
  The memory behind the RAM disk, \<^verbatim>\<open>src/BlockDriver/ram_device.c\<close>, and the interface a
  file system has to a block device.

  \<open>dev_data\<close> is the \<open>vmalloc\<close>ed byte array; the state is \<open>u8 list option\<close> (\<open>None\<close> before
  \<open>ramdevice_init\<close> and after \<open>ramdevice_cleanup\<close>). The transfer functions have no bounds
  check: a transfer that leaves the array, or the caller's buffer, is the value \<open>None\<close>.

  File systems reach a device through the kernel's buffer cache (\<open>sb_bread\<close>,
  \<open>mark_buffer_dirty\<close>), which is not part of this repository: it is the parameter \<open>'d bdev\<close>,
  and \<open>buffer_cache\<close> is the contract it documents. \<open>ram_bdev\<close> reads and writes whole sectors
  of the RAM disk and meets that contract.
\<close>

section \<open>The RAM device\<close>

definition RB_SECTOR_SIZE :: nat where "RB_SECTOR_SIZE = 512"
definition RB_DEVICE_SIZE :: nat where "RB_DEVICE_SIZE = 1024"

text \<open>
  \<open>alloc\<close> is what \<open>vmalloc\<close> returned: nothing, or memory of the requested size with
  arbitrary contents.
\<close>

definition ramdevice_init :: "u8 list option \<Rightarrow> (int \<times> u8 list option) option" where
  "ramdevice_init alloc =
     (case alloc of
        None \<Rightarrow> Some (- ENOMEM, None)
      | Some dev_data \<Rightarrow> do {
          dev_data \<leftarrow> copy_mbr_n_br dev_data;
          Some (int RB_DEVICE_SIZE, Some dev_data)
        })"

definition ramdevice_cleanup :: "u8 list option \<Rightarrow> u8 list option" where
  "ramdevice_cleanup dev_data = None"

text \<open>
  \<open>sector_off\<close> is a 64-bit \<open>sector_t\<close>; \<open>sectors * RB_SECTOR_SIZE\<close> is computed in
  \<open>unsigned int\<close> and can wrap.
\<close>

definition ramdevice_write :: "u8 list \<Rightarrow> u64 \<Rightarrow> u8 list \<Rightarrow> u32 \<Rightarrow> u8 list option" where
  "ramdevice_write dev_data sector_off buffer sectors = do {
     bs \<leftarrow> mem_read buffer 0 (unat (sectors * of_nat RB_SECTOR_SIZE));
     mem_write dev_data (unat (sector_off * of_nat RB_SECTOR_SIZE)) bs
   }"

definition ramdevice_read :: "u8 list \<Rightarrow> u64 \<Rightarrow> u8 list \<Rightarrow> u32 \<Rightarrow> u8 list option" where
  "ramdevice_read dev_data sector_off buffer sectors = do {
     bs \<leftarrow> mem_read dev_data (unat (sector_off * of_nat RB_SECTOR_SIZE))
             (unat (sectors * of_nat RB_SECTOR_SIZE));
     mem_write buffer 0 bs
   }"

lemma unat_sectors:
  "unat w * 512 < 2 ^ LENGTH('a) \<Longrightarrow> 10 \<le> LENGTH('a) \<Longrightarrow> unat (w * 512 :: 'a::len word) = unat w * 512"
proof -
  assume a: "unat w * 512 < 2 ^ LENGTH('a)" and l: "10 \<le> LENGTH('a)"
  have "(512::nat) < 2 ^ 10" by simp
  also have "(2::nat) ^ 10 \<le> 2 ^ LENGTH('a)" using l by (rule power_increasing) simp
  finally have "unat (512 :: 'a word) = 512"
    by (metis of_nat_numeral unat_of_nat_small)
  with a show ?thesis by (simp add: unat_word_ariths)
qed

text \<open>Inside the device, with a request size below the 32-bit wrap-around, the two
  transfers are plain slices.\<close>

lemma ramdevice_read_eq:
  assumes "(unat off + unat n) * 512 \<le> length dev" and "length dev < 2 ^ 32"
    and "unat n * 512 \<le> length buf"
  shows "ramdevice_read dev off buf n
         = Some (take (unat n * 512) (drop (unat off * 512) dev) @ drop (unat n * 512) buf)"
proof -
  have "unat (off * 512) = unat off * 512" and "unat (n * 512) = unat n * 512"
    using assms by (intro unat_sectors; simp)+
  moreover have "min (length dev - unat off * 512) (unat n * 512) = unat n * 512"
    using assms by simp
  ultimately show ?thesis using assms
    by (simp add: ramdevice_read_def RB_SECTOR_SIZE_def mem_simps)
qed

lemma ramdevice_write_eq:
  assumes "(unat off + unat n) * 512 \<le> length dev" and "length dev < 2 ^ 32"
    and "unat n * 512 \<le> length buf"
  shows "ramdevice_write dev off buf n = mem_write dev (unat off * 512) (take (unat n * 512) buf)"
proof -
  have "unat (off * 512) = unat off * 512" and "unat (n * 512) = unat n * 512"
    using assms by (intro unat_sectors; simp)+
  then show ?thesis using assms
    by (simp add: ramdevice_write_def RB_SECTOR_SIZE_def mem_simps)
qed

section \<open>The block device interface\<close>

text \<open>
  \<open>bread dev d b\<close> is \<open>sb_bread(sb, b)\<close> on device state \<open>d\<close>: the contents of the buffer, or
  \<open>None\<close> for a failed read. \<open>bwrite dev d b bs\<close> is the state after the buffer of block \<open>b\<close>
  has been filled with \<open>bs\<close> and marked dirty. \<open>bd_block_size\<close> is the field of
  \<open>struct block_device\<close>.
\<close>

record 'd bdev =
  bread :: "'d \<Rightarrow> nat \<Rightarrow> u8 list option"
  bwrite :: "'d \<Rightarrow> nat \<Rightarrow> u8 list \<Rightarrow> 'd"
  bd_block_size :: u32

text \<open>Reading and patching part of a block: what the file systems do with a buffer.\<close>

definition peek :: "'d bdev \<Rightarrow> 'd \<Rightarrow> nat \<Rightarrow> nat \<Rightarrow> nat \<Rightarrow> u8 list option" where
  "peek dev d b off n = do { blk \<leftarrow> bread dev d b; mem_read blk off n }"

definition patch :: "'d bdev \<Rightarrow> 'd \<Rightarrow> nat \<Rightarrow> nat \<Rightarrow> u8 list \<Rightarrow> 'd option" where
  "patch dev d b off bs = do {
     blk \<leftarrow> bread dev d b;
     blk \<leftarrow> mem_write blk off bs;
     Some (bwrite dev d b blk)
   }"

text \<open>
  What the buffer cache promises on a working device: every block of the device can be read
  and has the block size, a dirtied buffer is what later reads of that block return, and no
  other block changes.
\<close>

locale buffer_cache =
  fixes dev :: "'d bdev"
    and nblk :: "'d \<Rightarrow> nat"
    and ok :: "'d \<Rightarrow> bool"
  assumes bread_ok:
      "ok d \<Longrightarrow> b < nblk d \<Longrightarrow> \<exists>bs. bread dev d b = Some bs \<and> length bs = unat (bd_block_size dev)"
    and bread_bwrite:
      "ok d \<Longrightarrow> b < nblk d \<Longrightarrow> length bs = unat (bd_block_size dev) \<Longrightarrow>
       bread dev (bwrite dev d b bs) b' = (if b' = b then Some bs else bread dev d b')"
    and bwrite_ok:
      "ok d \<Longrightarrow> b < nblk d \<Longrightarrow> length bs = unat (bd_block_size dev) \<Longrightarrow> ok (bwrite dev d b bs)"
    and bwrite_nblk:
      "ok d \<Longrightarrow> b < nblk d \<Longrightarrow> length bs = unat (bd_block_size dev) \<Longrightarrow>
       nblk (bwrite dev d b bs) = nblk d"
begin

lemma peek_ex:
  "ok d \<Longrightarrow> b < nblk d \<Longrightarrow> off + n \<le> unat (bd_block_size dev) \<Longrightarrow>
   \<exists>bs. peek dev d b off n = Some bs \<and> length bs = n"
  using bread_ok [of d b] by (auto simp: peek_def mem_read_def)

lemma patch_ex:
  assumes "ok d" and "b < nblk d" and "off + length bs \<le> unat (bd_block_size dev)"
  shows "\<exists>d'. patch dev d b off bs = Some d' \<and> ok d' \<and> nblk d' = nblk d"
proof -
  obtain blk where blk: "bread dev d b = Some blk" "length blk = unat (bd_block_size dev)"
    using bread_ok assms by blast
  obtain blk' where blk': "mem_write blk off bs = Some blk'"
    using mem_write_ex [of off bs blk] assms blk by auto
  have "length blk' = unat (bd_block_size dev)"
    using mem_write_length [OF blk'] blk by simp
  with assms blk blk' show ?thesis
    by (simp add: patch_def bwrite_ok bwrite_nblk)
qed

lemma peek_patch_same:
  assumes "ok d" and "b < nblk d" and "patch dev d b off bs = Some d'"
  shows "peek dev d' b off (length bs) = Some bs"
proof -
  obtain blk blk' where blk: "bread dev d b = Some blk" "mem_write blk off bs = Some blk'"
      "d' = bwrite dev d b blk'"
    using assms(3) by (auto simp: patch_def dest!: bind_eq_SomeD)
  moreover have "length blk' = unat (bd_block_size dev)"
    using mem_write_length [OF blk(2)] blk(1) bread_ok [OF assms(1,2)] by auto
  ultimately show ?thesis
    using assms mem_read_write_same [OF blk(2)] by (simp add: peek_def bread_bwrite)
qed

lemma peek_patch_other:
  assumes "ok d" and "b < nblk d" and "patch dev d b off bs = Some d'"
    and "b' \<noteq> b \<or> off' + n \<le> off \<or> off + length bs \<le> off'"
  shows "peek dev d' b' off' n = peek dev d b' off' n"
proof -
  obtain blk blk' where blk: "bread dev d b = Some blk" "mem_write blk off bs = Some blk'"
      "d' = bwrite dev d b blk'"
    using assms(3) by (auto simp: patch_def dest!: bind_eq_SomeD)
  moreover have "length blk' = unat (bd_block_size dev)"
    using mem_write_length [OF blk(2)] blk(1) bread_ok [OF assms(1,2)] by auto
  ultimately show ?thesis
    using assms mem_read_write_disjoint [OF blk(2), of off' n] by (auto simp: peek_def bread_bwrite)
qed

end

section \<open>The RAM disk as a block device\<close>

definition ram_bdev :: "u8 list bdev" where
  "ram_bdev =
     \<lparr>bread = (\<lambda>d b. if b < length d div RB_SECTOR_SIZE
                     then ramdevice_read d (of_nat b) (replicate RB_SECTOR_SIZE 0) 1 else None),
      bwrite = (\<lambda>d b bs. case ramdevice_write d (of_nat b) bs 1 of Some d' \<Rightarrow> d' | None \<Rightarrow> d),
      bd_block_size = of_nat RB_SECTOR_SIZE\<rparr>"

definition ram_nblk :: "u8 list \<Rightarrow> nat" where
  "ram_nblk d = length d div RB_SECTOR_SIZE"

definition ram_ok :: "u8 list \<Rightarrow> bool" where
  "ram_ok d \<longleftrightarrow> length d mod RB_SECTOR_SIZE = 0 \<and> length d < 2 ^ 32"

lemma ram_sector_number:
  assumes "ram_ok d" and "b < ram_nblk d"
  shows "unat (of_nat b :: u64) = b" and "b * 512 + 512 \<le> length d" and "length d < 2 ^ 32"
proof -
  show l: "length d < 2 ^ 32" using assms by (simp add: ram_ok_def)
  have "512 * (length d div 512) = length d" using assms(1) by (auto simp: ram_ok_def RB_SECTOR_SIZE_def)
  moreover have "b + 1 \<le> length d div 512" using assms(2) by (simp add: ram_nblk_def RB_SECTOR_SIZE_def)
  ultimately show b: "b * 512 + 512 \<le> length d" by linarith
  then have "b < 2 ^ 64" using l by simp
  then show "unat (of_nat b :: u64) = b" by (simp add: unat_of_nat_small)
qed

lemma ram_bread:
  assumes "ram_ok d" and "b < ram_nblk d"
  shows "bread ram_bdev d b = Some (take 512 (drop (b * 512) d))"
  using ram_sector_number [OF assms] assms(2)
    ramdevice_read_eq [of "of_nat b" 1 d "replicate 512 0"]
  by (simp add: ram_bdev_def ram_nblk_def RB_SECTOR_SIZE_def)

lemma ram_bread_outside: "\<not> b < ram_nblk d \<Longrightarrow> bread ram_bdev d b = None"
  by (simp add: ram_bdev_def ram_nblk_def)

lemma ram_bwrite:
  assumes "ram_ok d" and "b < ram_nblk d" and "length bs = 512"
  shows "mem_write d (b * 512) bs = Some (bwrite ram_bdev d b bs)"
proof -
  have "ramdevice_write d (of_nat b) bs 1 = mem_write d (b * 512) bs"
    using ram_sector_number [OF assms(1,2)] assms(3) ramdevice_write_eq [of "of_nat b" 1 d bs] by simp
  moreover have "\<exists>d'. mem_write d (b * 512) bs = Some d'"
    using ram_sector_number [OF assms(1,2)] assms(3) by (intro mem_write_ex) simp
  ultimately show ?thesis by (auto simp: ram_bdev_def)
qed

lemma bd_block_size_ram [simp]: "unat (bd_block_size ram_bdev) = 512"
  by (simp add: ram_bdev_def RB_SECTOR_SIZE_def)

interpretation ram: buffer_cache ram_bdev ram_nblk ram_ok
proof unfold_locales
  fix d b assume d: "ram_ok d" "b < ram_nblk d"
  then show "\<exists>bs. bread ram_bdev d b = Some bs \<and> length bs = unat (bd_block_size ram_bdev)"
    using ram_sector_number [OF d] by (simp add: ram_bread)
next
  fix d b b' and bs :: "u8 list"
  assume d: "ram_ok d" "b < ram_nblk d" "length bs = unat (bd_block_size ram_bdev)"
  then have w: "mem_write d (b * 512) bs = Some (bwrite ram_bdev d b bs)" (is "_ = Some ?d'")
    by (intro ram_bwrite) simp_all
  then have len: "length ?d' = length d" by (rule mem_write_length)
  then show "ram_ok ?d'" "ram_nblk ?d' = ram_nblk d"
    using d by (simp_all add: ram_ok_def ram_nblk_def)
  then have r: "c < ram_nblk d \<Longrightarrow> bread ram_bdev ?d' c = mem_read ?d' (c * 512) 512" for c
    using ram_sector_number(2) [of ?d' c] by (simp add: ram_bread mem_read_def len)
  show "bread ram_bdev ?d' b' = (if b' = b then Some bs else bread ram_bdev d b')"
  proof (cases "b' < ram_nblk d")
    case True
    have "bread ram_bdev d b' = mem_read d (b' * 512) 512"
      using d True ram_sector_number(2) [of d b'] by (simp add: ram_bread mem_read_def)
    moreover have "mem_read ?d' (b' * 512) 512 = mem_read d (b' * 512) 512" if "b' \<noteq> b"
      using that d by (intro mem_read_write_disjoint [OF w], cases b b' rule: linorder_cases) auto
    ultimately show ?thesis
      using r [OF True] mem_read_write_same [OF w] d by auto
  next
    case False
    then have "b' \<noteq> b" using d by auto
    with False \<open>ram_nblk ?d' = ram_nblk d\<close> show ?thesis by (simp add: ram_bread_outside)
  qed
qed

end
