(* ===== verification/Block_Transfer.thy ===== *)
theory Block_Transfer
  imports Ram_Device
begin

text \<open>
  What the two block drivers of \<^verbatim>\<open>src/BlockDriver\<close> share: requests and their segments, and the
  interface \<open>sector_store\<close> to the storage below (\<open>ramdevice_write\<close>/\<open>ramdevice_read\<close> of the RAM
  disk, \<open>ddk_storage_write\<close>/\<open>ddk_storage_read\<close> of the USB board). The effect of a request on the
  stored bytes is proved once, over the interface.
\<close>

section \<open>Requests\<close>

datatype direction = READ | WRITE

record bio_vec =
  bv_data :: "u8 list"
  bv_len :: u32

record request =
  rq_dir :: direction
  rq_pos :: u64
  rq_sectors :: u32
  rq_segs :: "bio_vec list"

record hd_geometry =
  heads :: nat
  cylinders :: nat
  sectors :: nat
  start :: nat

text \<open>The sectors a segment list covers, and the well-formed requests the block layer sends:
  whole sectors, backed by memory, adding up to the request, inside the capacity.\<close>

definition seg_sectors :: "bio_vec list \<Rightarrow> nat" where
  "seg_sectors bvs = sum_list (map (\<lambda>bv. unat (bv_len bv) div 512) bvs)"

definition seg_ok :: "bio_vec \<Rightarrow> bool" where
  "seg_ok bv \<longleftrightarrow> unat (bv_len bv) mod 512 = 0 \<and> length (bv_data bv) = unat (bv_len bv)"

definition rq_ok :: "nat \<Rightarrow> request \<Rightarrow> bool" where
  "rq_ok cap req \<longleftrightarrow> list_all seg_ok (rq_segs req) \<and>
     seg_sectors (rq_segs req) = unat (rq_sectors req) \<and>
     unat (rq_pos req) + unat (rq_sectors req) \<le> cap"

definition payload :: "bio_vec list \<Rightarrow> u8 list" where
  "payload bvs = concat (map bv_data bvs)"

lemma seg_ok_length: "seg_ok bv \<Longrightarrow> length (bv_data bv) = unat (bv_len bv) div 512 * 512"
  by (auto simp: seg_ok_def)

lemma seg_ok_update: "seg_ok bv \<Longrightarrow> length bs = length (bv_data bv) \<Longrightarrow> seg_ok (bv\<lparr>bv_data := bs\<rparr>)"
  by (simp add: seg_ok_def)

lemma length_payload: "list_all seg_ok bvs \<Longrightarrow> length (payload bvs) = seg_sectors bvs * 512"
  by (induction bvs) (auto simp: payload_def seg_sectors_def seg_ok_length add_mult_distrib)

lemma seg_mod: "seg_ok bv \<Longrightarrow> bv_len bv mod 512 = 0"
  by (simp add: seg_ok_def word_unat_eq_iff unat_mod)

lemma next_sector:
  fixes p off :: u64 and n :: u32
  assumes "(unat p + (unat off + unat n + k)) * 512 < 2 ^ 32"
  shows "unat (p + off) = unat p + unat off"
    and "unat (off + ucast n) = unat off + unat n"
proof -
  have "unat p + unat off < 2 ^ 64" "unat off + unat n < 2 ^ 64" using assms by simp_all
  then show "unat (p + off) = unat p + unat off" and "unat (off + ucast n) = unat off + unat n"
    by (simp_all add: unat_word_ariths unsigned_ucast_eq take_bit_nat_eq_self)
qed

lemma rq_ok_count: "rq_ok cap req \<Longrightarrow> of_nat (seg_sectors (rq_segs req)) = (ucast (rq_sectors req) :: u64)"
  by (simp add: rq_ok_def)

section \<open>Transfers over a sector store\<close>

text \<open>
  The loop over a request's segments, with the storage's two functions as arguments. Both
  return a code, negative for an error, and the new state of the storage.
\<close>

fun segments :: "('s \<Rightarrow> u64 \<Rightarrow> u8 list \<Rightarrow> u32 \<Rightarrow> (int \<times> 's) option) \<Rightarrow>
    ('s \<Rightarrow> u64 \<Rightarrow> u8 list \<Rightarrow> u32 \<Rightarrow> (int \<times> u8 list \<times> 's) option) \<Rightarrow>
    direction \<Rightarrow> u64 \<Rightarrow> bio_vec list \<Rightarrow> int \<Rightarrow> u64 \<Rightarrow> 's \<Rightarrow> (int \<times> u64 \<times> 's \<times> bio_vec list) option" where
  "segments wr rd dir start_sector [] ret sector_offset s = Some (ret, sector_offset, s, [])"
| "segments wr rd dir start_sector (bv # bvs) ret sector_offset s = do {
     let ret = (if bv_len bv mod 512 \<noteq> 0 then - EIO else ret);
     let sectors = bv_len bv div 512;
     (ret2, s, bv) \<leftarrow>
       (if dir = WRITE
        then do { (ret2, s) \<leftarrow> wr s (start_sector + sector_offset) (bv_data bv) sectors;
                  Some (ret2, s, bv) }
        else do { (ret2, buffer, s) \<leftarrow> rd s (start_sector + sector_offset) (bv_data bv) sectors;
                  Some (ret2, s, bv\<lparr>bv_data := buffer\<rparr>) });
     let ret = (if ret2 < 0 then ret2 else ret);
     (ret, off, s, bvs) \<leftarrow> segments wr rd dir start_sector bvs ret (sector_offset + ucast sectors) s;
     Some (ret, off, s, bv # bvs)
   }"

text \<open>
  The contract of a storage with state \<open>s\<close> holding the bytes \<open>contents s\<close>: inside the
  contents a write replaces exactly the addressed sectors, a read returns them.
\<close>

locale sector_store =
  fixes wr :: "'s \<Rightarrow> u64 \<Rightarrow> u8 list \<Rightarrow> u32 \<Rightarrow> (int \<times> 's) option"
    and rd :: "'s \<Rightarrow> u64 \<Rightarrow> u8 list \<Rightarrow> u32 \<Rightarrow> (int \<times> u8 list \<times> 's) option"
    and contents :: "'s \<Rightarrow> u8 list"
    and ok :: "'s \<Rightarrow> bool"
  assumes size_ok: "ok s \<Longrightarrow> length (contents s) < 2 ^ 32"
    and write_ok:
      "ok s \<Longrightarrow> (unat p + unat n) * 512 \<le> length (contents s) \<Longrightarrow> length buf = unat n * 512 \<Longrightarrow>
       \<exists>r s'. wr s p buf n = Some (r, s') \<and> 0 \<le> r \<and> ok s' \<and>
         mem_write (contents s) (unat p * 512) buf = Some (contents s')"
    and read_ok:
      "ok s \<Longrightarrow> (unat p + unat n) * 512 \<le> length (contents s) \<Longrightarrow> length buf = unat n * 512 \<Longrightarrow>
       \<exists>r s'. rd s p buf n = Some (r, take (unat n * 512) (drop (unat p * 512) (contents s)), s') \<and>
         0 \<le> r \<and> ok s' \<and> contents s' = contents s"
begin

lemma segments_write:
  assumes "ok s" and "list_all seg_ok bvs" and "(unat p + (unat off + seg_sectors bvs)) * 512 \<le> length (contents s)"
  shows "\<exists>s'. mem_write (contents s) ((unat p + unat off) * 512) (payload bvs) = Some (contents s') \<and> ok s' \<and>
     segments wr rd WRITE p bvs ret off s = Some (ret, off + of_nat (seg_sectors bvs), s', bvs)"
  using assms
proof (induction bvs arbitrary: off s)
  case Nil
  then show ?case by (simp add: payload_def seg_sectors_def mem_write_def algebra_simps)
next
  case (Cons bv bvs)
  define n :: u32 where "n = bv_len bv div 512"
  have n: "unat n = unat (bv_len bv) div 512" by (simp add: n_def unat_div)
  have bv: "seg_ok bv" and bvs: "list_all seg_ok bvs" using Cons.prems by simp_all
  have len: "length (bv_data bv) = unat n * 512" using seg_ok_length [OF bv] n by simp
  have sum: "seg_sectors (bv # bvs) = unat n + seg_sectors bvs" by (simp add: seg_sectors_def n)
  note lt = size_ok [OF Cons.prems(1)]
  have fit: "(unat p + (unat off + unat n + seg_sectors bvs)) * 512 < 2 ^ 32"
    using Cons.prems sum lt by simp
  note nx = next_sector [OF fit]
  have "(unat (p + off) + unat n) * 512 \<le> length (contents s)" using nx Cons.prems(3) sum by simp
  from write_ok [OF Cons.prems(1) this len] obtain r s1 where
    w: "wr s (p + off) (bv_data bv) n = Some (r, s1)" "0 \<le> r" "ok s1"
      "mem_write (contents s) ((unat p + unat off) * 512) (bv_data bv) = Some (contents s1)"
    unfolding nx(1) by blast
  have "(unat p + (unat (off + ucast n) + seg_sectors bvs)) * 512 \<le> length (contents s1)"
    using nx Cons.prems sum mem_write_length [OF w(4)] by simp
  from Cons.IH [OF w(3) bvs this] obtain s' where
    s': "mem_write (contents s1) ((unat p + unat (off + ucast n)) * 512) (payload bvs) = Some (contents s')" "ok s'"
      "segments wr rd WRITE p bvs ret (off + ucast n) s1 = Some (ret, off + ucast n + of_nat (seg_sectors bvs), s', bvs)"
    by blast
  have "mem_write (contents s) ((unat p + unat off) * 512) (payload (bv # bvs)) = Some (contents s')"
    using s'(1) mem_write_append [OF w(4), of "payload bvs"] nx len by (simp add: payload_def algebra_simps)
  moreover have "off + ucast n + of_nat (seg_sectors bvs) = off + of_nat (seg_sectors (bv # bvs))"
    by (simp add: sum)
  ultimately show ?case
    using s'(2,3) w(1,2) seg_mod [OF bv] by (simp add: n_def)
qed

lemma segments_read:
  assumes "ok s" and "list_all seg_ok bvs" and "(unat p + (unat off + seg_sectors bvs)) * 512 \<le> length (contents s)"
  shows "\<exists>s' bvs'. payload bvs' = take (seg_sectors bvs * 512) (drop ((unat p + unat off) * 512) (contents s)) \<and>
     map bv_len bvs' = map bv_len bvs \<and> list_all seg_ok bvs' \<and> contents s' = contents s \<and> ok s' \<and>
     segments wr rd READ p bvs ret off s = Some (ret, off + of_nat (seg_sectors bvs), s', bvs')"
  using assms
proof (induction bvs arbitrary: off s)
  case Nil
  then show ?case by (simp add: payload_def seg_sectors_def)
next
  case (Cons bv bvs)
  define n :: u32 where "n = bv_len bv div 512"
  have n: "unat n = unat (bv_len bv) div 512" by (simp add: n_def unat_div)
  have bv: "seg_ok bv" and bvs: "list_all seg_ok bvs" using Cons.prems by simp_all
  have len: "length (bv_data bv) = unat n * 512" using seg_ok_length [OF bv] n by simp
  have sum: "seg_sectors (bv # bvs) = unat n + seg_sectors bvs" by (simp add: seg_sectors_def n)
  note lt = size_ok [OF Cons.prems(1)]
  have fit: "(unat p + (unat off + unat n + seg_sectors bvs)) * 512 < 2 ^ 32"
    using Cons.prems sum lt by simp
  note nx = next_sector [OF fit]
  let ?d = "take (unat n * 512) (drop ((unat p + unat off) * 512) (contents s))"
  have "(unat (p + off) + unat n) * 512 \<le> length (contents s)" using nx Cons.prems(3) sum by simp
  from read_ok [OF Cons.prems(1) this len] obtain r s1 where
    r: "rd s (p + off) (bv_data bv) n = Some (r, ?d, s1)" "0 \<le> r" "ok s1" "contents s1 = contents s"
    unfolding nx(1) by blast
  have "(unat p + (unat (off + ucast n) + seg_sectors bvs)) * 512 \<le> length (contents s1)"
    using nx Cons.prems sum r(4) by simp
  from Cons.IH [OF r(3) bvs this] obtain s' bvs' where
    b: "payload bvs' = take (seg_sectors bvs * 512) (drop ((unat p + unat (off + ucast n)) * 512) (contents s1))"
      "map bv_len bvs' = map bv_len bvs" "list_all seg_ok bvs'" "contents s' = contents s1" "ok s'"
      "segments wr rd READ p bvs ret (off + ucast n) s1
         = Some (ret, off + ucast n + of_nat (seg_sectors bvs), s', bvs')"
    by blast
  have dl: "length ?d = unat n * 512" using Cons.prems(3) sum by (simp add: add_mult_distrib)
  have sk: "seg_ok (bv\<lparr>bv_data := ?d\<rparr>)" using seg_ok_update [OF bv] dl len by (simp only:)
  let ?x = "drop ((unat p + unat off) * 512) (contents s)"
  have "take ((unat n + seg_sectors bvs) * 512) ?x
        = take (unat n * 512) ?x @ take (seg_sectors bvs * 512) (drop (unat n * 512) ?x)"
    by (simp only: add_mult_distrib take_add)
  then have "payload (bv\<lparr>bv_data := ?d\<rparr> # bvs') = take (seg_sectors (bv # bvs) * 512) ?x"
    using nx r(4) by (simp add: payload_def b(1) [unfolded payload_def] sum algebra_simps)
  moreover have "off + ucast n + of_nat (seg_sectors bvs) = off + of_nat (seg_sectors (bv # bvs))"
    by (simp add: sum)
  ultimately show ?case
    using b r sk seg_mod [OF bv] by (intro exI [of _ s'] exI [of _ "bv\<lparr>bv_data := ?d\<rparr> # bvs'"])
      (simp add: n_def Let_def add.assoc)
qed

end

section \<open>The RAM device as a sector store\<close>

definition ram_store_write :: "u8 list \<Rightarrow> u64 \<Rightarrow> u8 list \<Rightarrow> u32 \<Rightarrow> (int \<times> u8 list) option" where
  "ram_store_write dev p buf n = map_option (Pair 0) (ramdevice_write dev p buf n)"

definition ram_store_read :: "u8 list \<Rightarrow> u64 \<Rightarrow> u8 list \<Rightarrow> u32 \<Rightarrow> (int \<times> u8 list \<times> u8 list) option" where
  "ram_store_read dev p buf n = map_option (\<lambda>b. (0, b, dev)) (ramdevice_read dev p buf n)"

interpretation ram_store: sector_store ram_store_write ram_store_read "\<lambda>d. d" "\<lambda>d. length d < 2 ^ 32"
proof
  fix s :: "u8 list" and p :: u64 and n :: u32 and buf :: "u8 list"
  assume a: "length s < 2 ^ 32" "(unat p + unat n) * 512 \<le> length s" "length buf = unat n * 512"
  obtain d where d: "mem_write s (unat p * 512) buf = Some d"
    using mem_write_ex [of "unat p * 512" buf s] a by auto
  then show "\<exists>r s'. ram_store_write s p buf n = Some (r, s') \<and> 0 \<le> r \<and> length s' < 2 ^ 32 \<and>
      mem_write s (unat p * 512) buf = Some s'"
    using a ramdevice_write_eq [of p n s buf] mem_write_length [OF d] by (simp add: ram_store_write_def)
  show "\<exists>r s'. ram_store_read s p buf n = Some (r, take (unat n * 512) (drop (unat p * 512) s), s') \<and>
      0 \<le> r \<and> length s' < 2 ^ 32 \<and> s' = s"
    using a ramdevice_read_eq [of p n s buf] by (simp add: ram_store_read_def)
qed simp

end
