(* ===== verification/Ram_Block.thy ===== *)
theory Ram_Block
  imports Block_Transfer
begin

text \<open>
  The RAM block driver, \<^verbatim>\<open>src/BlockDriver/ram_block.c\<close>: the transfer of a request's
  segments, the request loop, the geometry, and the acquisition and release of the kernel's
  resources in \<open>rb_init\<close> and \<open>rb_cleanup\<close>.

  A request is its direction, start sector, sector count and segments; a segment is the
  memory behind its \<open>bio_vec\<close> and its length. The block layer's answers
  (\<open>register_blkdev\<close>, \<open>blk_init_queue\<close>, \<open>alloc_disk\<close>, \<open>vmalloc\<close>) are arguments.
\<close>

section \<open>Opening and geometry\<close>

definition RB_FIRST_MINOR :: nat where "RB_FIRST_MINOR = 0"
definition RB_MINOR_CNT :: nat where "RB_MINOR_CNT = 16"

definition rb_open :: "nat \<Rightarrow> int" where
  "rb_open unit = (if unit > RB_MINOR_CNT then - ENODEV else 0)"

definition rb_close :: "nat \<Rightarrow> int" where
  "rb_close disk = 0"

definition rb_getgeo :: hd_geometry where
  "rb_getgeo = \<lparr>heads = 1, cylinders = 32, sectors = 32, start = 0\<rparr>"

section \<open>Transfer\<close>

text \<open>
  The body of \<open>rq_for_each_segment\<close>: the state is the return code so far, the sector offset
  and the device; a read fills the segment's memory.
\<close>

fun rb_segments :: "direction \<Rightarrow> u64 \<Rightarrow> bio_vec list \<Rightarrow> int \<Rightarrow> u64 \<Rightarrow> u8 list
                    \<Rightarrow> (int \<times> u64 \<times> u8 list \<times> bio_vec list) option" where
  "rb_segments dir start_sector [] ret sector_offset dev = Some (ret, sector_offset, dev, [])"
| "rb_segments dir start_sector (bv # bvs) ret sector_offset dev = do {
     let ret = (if bv_len bv mod 512 \<noteq> 0 then - EIO else ret);
     let sectors = bv_len bv div 512;
     (dev, bv) \<leftarrow>
       (if dir = WRITE
        then do { dev \<leftarrow> ramdevice_write dev (start_sector + sector_offset) (bv_data bv) sectors;
                  Some (dev, bv) }
        else do { buffer \<leftarrow> ramdevice_read dev (start_sector + sector_offset) (bv_data bv) sectors;
                  Some (dev, bv\<lparr>bv_data := buffer\<rparr>) });
     (ret, off, dev, bvs) \<leftarrow> rb_segments dir start_sector bvs ret (sector_offset + ucast sectors) dev;
     Some (ret, off, dev, bv # bvs)
   }"

definition rb_transfer :: "u8 list \<Rightarrow> request \<Rightarrow> (int \<times> u8 list \<times> request) option" where
  "rb_transfer dev req = do {
     (ret, sector_offset, dev, bvs) \<leftarrow> rb_segments (rq_dir req) (rq_pos req) (rq_segs req) 0 0 dev;
     let ret = (if sector_offset \<noteq> ucast (rq_sectors req) then - EIO else ret);
     Some (ret, dev, req\<lparr>rq_segs := bvs\<rparr>)
   }"

text \<open>\<open>rb_request\<close> fetches until the queue is empty; each request is ended with its return code.\<close>

fun rb_request :: "u8 list \<Rightarrow> request list \<Rightarrow> (u8 list \<times> (request \<times> int) list) option" where
  "rb_request dev [] = Some (dev, [])"
| "rb_request dev (req # q) = do {
     (ret, dev, req) \<leftarrow> rb_transfer dev req;
     (dev, done) \<leftarrow> rb_request dev q;
     Some (dev, (req, ret) # done)
   }"

section \<open>Registration\<close>

text \<open>
  \<open>rb_major\<close> is the driver's unsigned global; the other fields record what the driver holds:
  the device memory, the block-layer registration, the queue, the gendisk and its capacity.
\<close>

record rb_state =
  rb_major :: u32
  rb_size :: u32
  dev_data :: "u8 list option"
  blkdev_reg :: bool
  rb_queue :: bool
  rb_disk :: bool
  capacity :: u32
  disk_live :: bool

definition rb_boot :: rb_state where
  "rb_boot = \<lparr>rb_major = 0, rb_size = 0, dev_data = None, blkdev_reg = False, rb_queue = False,
              rb_disk = False, capacity = 0, disk_live = False\<rparr>"

text \<open>
  \<open>reg\<close> is the \<open>int\<close> that \<open>register_blkdev\<close> returns: a major number, or a negative error and
  no registration.
\<close>

definition rb_init :: "u8 list option \<Rightarrow> int \<Rightarrow> bool \<Rightarrow> bool \<Rightarrow> rb_state \<Rightarrow> (int \<times> rb_state) option" where
  "rb_init alloc reg queue_ok disk_ok s = do {
     (ret, mem) \<leftarrow> ramdevice_init alloc;
     let s = s\<lparr>dev_data := mem\<rparr>;
     if ret < 0 then Some (ret, s)
     else do {
       let s = s\<lparr>rb_size := word_of_int ret, rb_major := word_of_int reg, blkdev_reg := 0 < reg\<rparr>;
       if rb_major s \<le> 0 then Some (- EBUSY, s\<lparr>dev_data := ramdevice_cleanup (dev_data s)\<rparr>)
       else if \<not> queue_ok
       then Some (- ENOMEM, s\<lparr>blkdev_reg := False, dev_data := ramdevice_cleanup (dev_data s)\<rparr>)
       else do {
         let s = s\<lparr>rb_queue := True\<rparr>;
         if \<not> disk_ok
         then Some (- ENOMEM, s\<lparr>rb_queue := False, blkdev_reg := False,
                              dev_data := ramdevice_cleanup (dev_data s)\<rparr>)
         else Some (0, s\<lparr>rb_disk := True, capacity := rb_size s, disk_live := True\<rparr>)
       }
     }
   }"

definition rb_cleanup :: "rb_state \<Rightarrow> rb_state" where
  "rb_cleanup s =
     s\<lparr>disk_live := False, rb_disk := False, rb_queue := False, blkdev_reg := False,
       dev_data := ramdevice_cleanup (dev_data s)\<rparr>"

section \<open>Transfers inside the device\<close>

text \<open>The loop of this driver is the shared loop over the RAM device, which never fails.\<close>

lemma rb_segments_eq:
  "rb_segments dir p bvs ret off dev = segments ram_store_write ram_store_read dir p bvs ret off dev"
  by (induction bvs arbitrary: ret off dev)
    (auto simp: ram_store_write_def ram_store_read_def Let_def bind_map_option comp_def intro!: bind_option_cong)

lemma rq_ok_fit:
  "rq_ok cap req \<Longrightarrow> length dev = cap * 512 \<Longrightarrow>
   (unat (rq_pos req) + (unat (0::u64) + seg_sectors (rq_segs req))) * 512 \<le> length dev"
  by (simp add: rq_ok_def)

lemma rb_transfer_write:
  assumes "rq_ok cap req" and "rq_dir req = WRITE" and "length dev = cap * 512" and "cap < 2 ^ 23"
  shows "\<exists>dev'. mem_write dev (unat (rq_pos req) * 512) (payload (rq_segs req)) = Some dev' \<and>
     rb_transfer dev req = Some (0, dev', req)"
  using ram_store.segments_write [OF _ _ rq_ok_fit [OF assms(1,3)], where ret = 0] assms rq_ok_count [OF assms(1)]
  by (auto simp: rb_transfer_def rq_ok_def rb_segments_eq)

lemma rb_transfer_read:
  assumes "rq_ok cap req" and "rq_dir req = READ" and "length dev = cap * 512" and "cap < 2 ^ 23"
  shows "\<exists>bvs. payload bvs = take (unat (rq_sectors req) * 512) (drop (unat (rq_pos req) * 512) dev) \<and>
     map bv_len bvs = map bv_len (rq_segs req) \<and>
     rb_transfer dev req = Some (0, dev, req\<lparr>rq_segs := bvs\<rparr>)"
  using ram_store.segments_read [OF _ _ rq_ok_fit [OF assms(1,3)], where ret = 0] assms rq_ok_count [OF assms(1)]
  by (auto simp: rb_transfer_def rq_ok_def rb_segments_eq)

lemma rb_transfer_total:
  assumes "rq_ok cap req" and "length dev = cap * 512" and "cap < 2 ^ 23"
  shows "\<exists>dev' req'. rb_transfer dev req = Some (0, dev', req') \<and> length dev' = length dev \<and>
           rq_dir req' = rq_dir req \<and> rq_pos req' = rq_pos req"
proof (cases "rq_dir req")
  case READ
  with rb_transfer_read [OF assms(1) READ assms(2,3)] show ?thesis by auto
next
  case WRITE
  from rb_transfer_write [OF assms(1) WRITE assms(2,3)] show ?thesis
    by (auto dest: mem_write_length)
qed

lemma rb_segments_status:
  "rb_segments dir p bvs ret off dev = Some (ret', off', dev', bvs') \<Longrightarrow>
   ret' = (if \<exists>bv\<in>set bvs. bv_len bv mod 512 \<noteq> 0 then - EIO else ret) \<and>
   off' = off + sum_list (map (\<lambda>bv. ucast (bv_len bv div 512)) bvs)"
proof (induction bvs arbitrary: ret off dev bvs')
  case Nil
  then show ?case by simp
next
  case (Cons bv bvs)
  then obtain ret1 off1 dev1 bvs1 where
    "rb_segments dir p bvs ret1 off1 dev1 = Some (ret', off', dev', bvs1)"
    "ret1 = (if bv_len bv mod 512 \<noteq> 0 then - EIO else ret)"
    "off1 = off + ucast (bv_len bv div 512)"
    by (auto simp: Let_def split: if_splits dest!: bind_eq_SomeD)
  with Cons.IH [of ret1 off1 dev1 bvs1] show ?case by auto
qed

text \<open>Cylinder/head/sector address to sector number in the geometry of \<open>rb_getgeo\<close>.\<close>

definition lba_of_chs :: "nat \<Rightarrow> nat \<Rightarrow> nat \<Rightarrow> nat" where
  "lba_of_chs c h s = (c * heads rb_getgeo + h) * sectors rb_getgeo + s - 1"

definition first_lba :: "PartEntry \<Rightarrow> nat" where
  "first_lba p = lba_of_chs (unat (start_cyl p) + 256 * unat (start_cyl_hi p)) (unat (start_head p)) (unat (start_sec p))"

definition last_lba :: "PartEntry \<Rightarrow> nat" where
  "last_lba p = lba_of_chs (unat (end_cyl p) + 256 * unat (end_cyl_hi p)) (unat (end_head p)) (unat (end_sec p))"

definition chs_agrees :: "nat \<Rightarrow> PartEntry \<Rightarrow> bool" where
  "chs_agrees base p \<longleftrightarrow> first_lba p = base + unat (abs_start_sec p) \<and>
     last_lba p + 1 = base + unat (abs_start_sec p) + unat (sec_in_part p)"

section \<open>Properties\<close>

text \<open>
  C10: a write request inside the capacity, followed by a read request for the same sectors
  (cut into segments in any way), both end with 0, the read returns exactly the bytes
  written, and every byte of the device outside the written sectors is unchanged.
\<close>

theorem rb_write_then_read:
  assumes w: "rq_ok cap w" "rq_dir w = WRITE" and r: "rq_ok cap r" "rq_dir r = READ"
    and same: "rq_pos r = rq_pos w" "rq_sectors r = rq_sectors w"
    and dev: "length dev = cap * 512" "cap < 2 ^ 23"
  shows "\<exists>dev1 r1. rb_transfer dev w = Some (0, dev1, w) \<and> rb_transfer dev1 r = Some (0, dev1, r1) \<and>
     payload (rq_segs r1) = payload (rq_segs w) \<and> length dev1 = length dev \<and>
     (\<forall>i<length dev. i < unat (rq_pos w) * 512 \<or> (unat (rq_pos w) + unat (rq_sectors w)) * 512 \<le> i
        \<longrightarrow> dev1 ! i = dev ! i)"
proof -
  obtain d1 where d1: "mem_write dev (unat (rq_pos w) * 512) (payload (rq_segs w)) = Some d1"
      "rb_transfer dev w = Some (0, d1, w)"
    using rb_transfer_write [OF w dev] by auto
  have len: "length d1 = length dev" using mem_write_length [OF d1(1)] .
  with dev have "length d1 = cap * 512" by simp
  from rb_transfer_read [OF r this dev(2)] obtain bvs where
    b: "payload bvs = take (unat (rq_sectors w) * 512) (drop (unat (rq_pos w) * 512) d1)"
      "rb_transfer d1 r = Some (0, d1, r\<lparr>rq_segs := bvs\<rparr>)"
    by (auto simp: same)
  have pl: "length (payload (rq_segs w)) = unat (rq_sectors w) * 512"
    using w length_payload by (auto simp: rq_ok_def)
  have "payload bvs = payload (rq_segs w)"
    using mem_read_write_same [OF d1(1)] b(1) pl by (simp add: mem_read_def split: if_splits)
  moreover have "d1 ! i = dev ! i"
    if "i < length dev" "i < unat (rq_pos w) * 512 \<or> (unat (rq_pos w) + unat (rq_sectors w)) * 512 \<le> i" for i
    using mem_write_nth [OF d1(1) that(1)] that(2) pl by (auto simp: add_mult_distrib)
  ultimately show ?thesis using d1(2) b(2) len by auto
qed

theorem rb_write_then_read_witness:
  "\<exists>dev1 r1. rb_transfer (replicate 512 0)
       \<lparr>rq_dir = WRITE, rq_pos = 0, rq_sectors = 1, rq_segs = [\<lparr>bv_data = replicate 512 7, bv_len = 512\<rparr>]\<rparr>
     = Some (0, dev1, \<lparr>rq_dir = WRITE, rq_pos = 0, rq_sectors = 1, rq_segs = [\<lparr>bv_data = replicate 512 7, bv_len = 512\<rparr>]\<rparr>) \<and>
     rb_transfer dev1
       \<lparr>rq_dir = READ, rq_pos = 0, rq_sectors = 1, rq_segs = [\<lparr>bv_data = replicate 512 0, bv_len = 512\<rparr>]\<rparr>
     = Some (0, dev1, r1) \<and> payload (rq_segs r1) = replicate 512 7"
proof -
  let ?w = "\<lparr>rq_dir = WRITE, rq_pos = 0, rq_sectors = 1, rq_segs = [\<lparr>bv_data = replicate 512 7, bv_len = 512\<rparr>]\<rparr>"
  let ?r = "\<lparr>rq_dir = READ, rq_pos = 0, rq_sectors = 1, rq_segs = [\<lparr>bv_data = replicate 512 0, bv_len = 512\<rparr>]\<rparr>"
  have w: "rq_ok 1 ?w" and r: "rq_ok 1 ?r"
    by (simp_all add: rq_ok_def seg_ok_def seg_sectors_def)
  have p: "payload (rq_segs ?w) = replicate 512 7" by (simp add: payload_def)
  from rb_write_then_read [OF w _ r, of "replicate 512 0"] show ?thesis
    unfolding p by auto
qed

text \<open>
  C11: \<open>rb_request\<close> drains its queue: if every queued request is inside the capacity, the loop
  never leaves the device, ends every request exactly once, in queue order, with 0, and the
  device keeps its size.
\<close>

theorem rb_request_drains:
  assumes "list_all (rq_ok cap) q" and "length dev = cap * 512" and "cap < 2 ^ 23"
  shows "\<exists>dev' done. rb_request dev q = Some (dev', done) \<and> length dev' = length dev \<and>
     map (\<lambda>(r, ret). (rq_dir r, rq_pos r, ret)) done = map (\<lambda>r. (rq_dir r, rq_pos r, 0)) q"
  using assms
proof (induction q arbitrary: dev)
  case Nil
  then show ?case by simp
next
  case (Cons req q)
  then obtain d1 req1 where t: "rb_transfer dev req = Some (0, d1, req1)" "length d1 = length dev"
      "rq_dir req1 = rq_dir req" "rq_pos req1 = rq_pos req"
    using rb_transfer_total [of cap req dev] by auto
  with Cons.prems Cons.IH [of d1] show ?case by fastforce
qed

theorem rb_request_drains_witness:
  "\<exists>dev' done. rb_request (replicate 512 0)
       [\<lparr>rq_dir = WRITE, rq_pos = 0, rq_sectors = 1, rq_segs = [\<lparr>bv_data = replicate 512 7, bv_len = 512\<rparr>]\<rparr>]
     = Some (dev', done) \<and> map (\<lambda>(r, ret). (rq_dir r, rq_pos r, ret)) done = [(WRITE, 0, 0)]"
proof -
  have "list_all (rq_ok 1)
     [\<lparr>rq_dir = WRITE, rq_pos = 0, rq_sectors = 1, rq_segs = [\<lparr>bv_data = replicate 512 7, bv_len = 512\<rparr>]\<rparr>]"
    by (simp add: rq_ok_def seg_ok_def seg_sectors_def)
  from rb_request_drains [OF this, of "replicate 512 0"] show ?thesis by auto
qed

text \<open>
  The status of a completed transfer: \<open>-EIO\<close> exactly when some segment is not a whole
  number of sectors or the segments' sectors do not add up to the request's sector count,
  and 0 otherwise.
\<close>

theorem rb_transfer_status:
  assumes "rb_transfer dev req = Some (ret, dev', req')"
  shows "ret = (if (\<exists>bv\<in>set (rq_segs req). bv_len bv mod 512 \<noteq> 0) \<or>
                   sum_list (map (\<lambda>bv. ucast (bv_len bv div 512)) (rq_segs req)) \<noteq> (ucast (rq_sectors req) :: u64)
                then - EIO else 0)"
proof -
  obtain ret1 off1 bvs1 where
    r: "rb_segments (rq_dir req) (rq_pos req) (rq_segs req) 0 0 dev = Some (ret1, off1, dev', bvs1)"
      "ret = (if off1 \<noteq> ucast (rq_sectors req) then - EIO else ret1)"
    using assms by (auto simp: rb_transfer_def Let_def dest!: bind_eq_SomeD)
  from rb_segments_status [OF r(1)] r(2) show ?thesis by auto
qed

theorem rb_transfer_status_witness:
  "\<exists>dev' req'. rb_transfer (replicate 512 0)
       \<lparr>rq_dir = WRITE, rq_pos = 0, rq_sectors = 1, rq_segs = [\<lparr>bv_data = replicate 512 7, bv_len = 100\<rparr>]\<rparr>
     = Some (- EIO, dev', req')"
proof -
  let ?req = "\<lparr>rq_dir = WRITE, rq_pos = 0, rq_sectors = 1, rq_segs = [\<lparr>bv_data = replicate 512 7, bv_len = 100\<rparr>]\<rparr>"
  have "\<exists>ret dev' req'. rb_transfer (replicate 512 0) ?req = Some (ret, dev', req')"
    by (simp add: rb_transfer_def ramdevice_write_def RB_SECTOR_SIZE_def mem_simps Let_def)
  then obtain ret dev' req' where t: "rb_transfer (replicate 512 0) ?req = Some (ret, dev', req')"
    by blast
  have "ret = - EIO" using rb_transfer_status [OF t] by simp
  with t show ?thesis by blast
qed

text \<open>
  When the major number handed out is not negative, \<open>rb_init\<close> either returns 0 with
  everything acquired, the capacity set to the 1024 sectors of the RAM device and the disk
  live, exactly when every step succeeded; or it returns a negative error and holds nothing.
\<close>

theorem rb_init_outcome:
  assumes "0 \<le> reg" and "reg < 2 ^ 20"
    and "alloc = None \<or> (\<exists>mem. alloc = Some mem \<and> length mem = 1024 * 512)"
  shows "\<exists>ret s. rb_init alloc reg queue_ok disk_ok rb_boot = Some (ret, s) \<and>
     (ret = 0 \<longleftrightarrow> alloc \<noteq> None \<and> 0 < reg \<and> queue_ok \<and> disk_ok) \<and>
     (if ret = 0
      then blkdev_reg s \<and> rb_queue s \<and> rb_disk s \<and> disk_live s \<and> capacity s = 1024 \<and>
           (\<exists>d. dev_data s = Some d \<and> length d = 1024 * 512 \<and> partition_table_at d 0 = Some def_part_table)
      else ret < 0 \<and> \<not> blkdev_reg s \<and> \<not> rb_queue s \<and> \<not> rb_disk s \<and> \<not> disk_live s \<and> dev_data s = None)"
proof (cases alloc)
  case None
  then show ?thesis by (simp add: rb_init_def ramdevice_init_def rb_boot_def)
next
  case (Some mem)
  obtain d where d: "copy_mbr_n_br mem = Some d" "length d = 1024 * 512"
      "partition_table_at d 0 = Some def_part_table"
    using assms(3) copy_mbr_n_br_spec [of mem] Some by auto
  have "word_of_int reg \<le> (0::u32) \<longleftrightarrow> reg = 0"
    using assms(1,2) by (simp add: word_le_def unsigned_of_int take_bit_int_eq_self)
  then show ?thesis
    using assms(1) d Some
    by (simp add: rb_init_def ramdevice_init_def ramdevice_cleanup_def rb_boot_def RB_DEVICE_SIZE_def Let_def)
qed

theorem rb_init_outcome_witness:
  "\<exists>ret s. rb_init (Some (replicate (1024 * 512) 0)) 254 True True rb_boot = Some (ret, s) \<and>
     ret = 0 \<and> disk_live s \<and> capacity s = 1024"
proof -
  have "length (replicate (1024 * 512) (0::u8)) = 1024 * 512" by (rule length_replicate)
  then have a: "Some (replicate (1024 * 512) (0::u8)) = None \<or>
      (\<exists>mem. Some (replicate (1024 * 512) (0::u8)) = Some mem \<and> length mem = 1024 * 512)"
    by blast
  have "(0::int) \<le> 254" "(254::int) < 2 ^ 20" by simp_all
  from rb_init_outcome [OF this a, of True True] show ?thesis by auto
qed

text \<open>
  \<open>rb_init\<close> does not notice that \<open>register_blkdev\<close> failed: \<open>rb_major\<close> is unsigned, so a
  negative return is not \<open>\<le> 0\<close>, and the driver reports success with a live disk that has no
  block-layer registration.
\<close>

theorem rb_init_misses_register_failure:
  assumes "- (2 ^ 31) \<le> reg" and "reg < 0" and "length mem = 1024 * 512"
  shows "\<exists>s. rb_init (Some mem) reg True True rb_boot = Some (0, s) \<and> disk_live s \<and> \<not> blkdev_reg s"
proof -
  obtain d where d: "copy_mbr_n_br mem = Some d"
    using copy_mbr_n_br_spec [of mem] assms by auto
  have "\<not> 2 ^ 32 dvd - reg" using assms(1,2) by (intro zdvd_not_zless) simp_all
  then have "(word_of_int reg :: u32) \<noteq> 0" by (simp add: word_of_int_eq_0_iff)
  then have "\<not> word_of_int reg \<le> (0::u32)" by simp
  with d assms(2) show ?thesis
    by (simp add: rb_init_def ramdevice_init_def rb_boot_def RB_DEVICE_SIZE_def Let_def)
qed

theorem rb_init_misses_register_failure_witness:
  "\<exists>s. rb_init (Some (replicate (1024 * 512) 0)) (- EBUSY) True True rb_boot = Some (0, s) \<and>
     disk_live s \<and> \<not> blkdev_reg s"
proof -
  have "length (replicate (1024 * 512) (0::u8)) = 1024 * 512" by (rule length_replicate)
  from rb_init_misses_register_failure [OF _ _ this, of "- EBUSY"] show ?thesis by simp
qed

text \<open>
  The static tables agree with the geometry the driver reports and with the size of the
  device. The geometry has exactly the device's sectors; every primary entry's
  cylinder/sector addresses are its first and last sector; the three primary partitions
  follow each other from sector 1 to the end of the disk; and in each boot record of the
  extended partition the logical partition starts behind the record, agrees with its
  addresses, ends inside the extended partition, and the link points to the next boot record.
\<close>

theorem partition_geometry:
  "heads rb_getgeo * cylinders rb_getgeo * sectors rb_getgeo = RB_DEVICE_SIZE \<and>
   list_all (chs_agrees 0) (take 3 def_part_table) \<and>
   first_lba (def_part_table ! 0) = 1 \<and>
   first_lba (def_part_table ! 1) = last_lba (def_part_table ! 0) + 1 \<and>
   first_lba (def_part_table ! 2) = last_lba (def_part_table ! 1) + 1 \<and>
   last_lba (def_part_table ! 2) + 1 = RB_DEVICE_SIZE \<and>
   first_lba (def_part_table ! 1) = def_log_part_br_cyl ! 0 * 32 \<and>
   list_all (\<lambda>(c, t). chs_agrees (c * 32) (t ! 0) \<and> c * 32 < first_lba (t ! 0) \<and>
       last_lba (t ! 0) \<le> last_lba (def_part_table ! 1))
     (zip def_log_part_br_cyl def_log_part_table) \<and>
   list_all (\<lambda>(c, t). chs_agrees (first_lba (def_part_table ! 1)) (t ! 1) \<and> first_lba (t ! 1) = c * 32)
     (zip (tl def_log_part_br_cyl) def_log_part_table)"
  by (simp add: chs_agrees_def first_lba_def last_lba_def lba_of_chs_def rb_getgeo_def RB_DEVICE_SIZE_def
      def_part_table_def def_log_part_table_def def_log_part_br_cyl_def zero_PartEntry_def)

end
