(* ===== verification/Sfs_Data.thy ===== *)
theory Sfs_Data
  imports Storage_Prelude
begin

text \<open>
  The on-disk structures of the Simula file system, \<^verbatim>\<open>src/USB/Apps/real_sfs_ds.h\<close>, shared by
  the kernel module and the user-space tools. Both read and write the structures as raw
  memory, so each structure comes with its byte image and the round trips between the two.
  Neither structure has padding: 16 + 3 * 4 + 9 * 4 = 64 bytes per file entry and
  8 * 4 + 120 * 4 = 512 bytes for the super block.
\<close>

section \<open>Constants and structures\<close>

definition SIMULA_FS_TYPE :: u32 where "SIMULA_FS_TYPE = 0x13090D15"
definition SIMULA_FS_BLOCK_SIZE :: nat where "SIMULA_FS_BLOCK_SIZE = 512"
definition SIMULA_FS_ENTRY_SIZE :: nat where "SIMULA_FS_ENTRY_SIZE = 64"
definition SIMULA_FS_FILENAME_LEN :: nat where "SIMULA_FS_FILENAME_LEN = 15"

definition SIMULA_FS_DATA_BLOCK_CNT :: nat where
  "SIMULA_FS_DATA_BLOCK_CNT = (SIMULA_FS_ENTRY_SIZE - ((SIMULA_FS_FILENAME_LEN + 1) + 3 * 4)) div 4"

lemma SIMULA_FS_DATA_BLOCK_CNT_eq [simp]: "SIMULA_FS_DATA_BLOCK_CNT = 9"
  by (simp add: SIMULA_FS_DATA_BLOCK_CNT_def SIMULA_FS_ENTRY_SIZE_def SIMULA_FS_FILENAME_LEN_def)

record sfs_super_block =
  sb_type :: u32
  block_size :: u32
  partition_size :: u32
  entry_size :: u32
  entry_table_size :: u32
  entry_table_block_start :: u32
  entry_count :: u32
  data_block_start :: u32
  sb_reserved :: "u32 list"

record sfs_file_entry =
  fe_name :: "u8 list"
  fe_size :: u32
  fe_timestamp :: u32
  fe_perms :: u32
  fe_blocks :: "u32 list"

text \<open>The arrays of the structures have their declared lengths.\<close>

definition wf_sb :: "sfs_super_block \<Rightarrow> bool" where
  "wf_sb sb \<longleftrightarrow> length (sb_reserved sb) = SIMULA_FS_BLOCK_SIZE div 4 - 8"

definition wf_fe :: "sfs_file_entry \<Rightarrow> bool" where
  "wf_fe fe \<longleftrightarrow> length (fe_name fe) = SIMULA_FS_FILENAME_LEN + 1 \<and>
     length (fe_blocks fe) = SIMULA_FS_DATA_BLOCK_CNT"

text \<open>\<open>fe.name[0]\<close> decides whether an entry is in use; the name is a C string.\<close>

definition fe_used :: "sfs_file_entry \<Rightarrow> bool" where
  "fe_used fe \<longleftrightarrow> fe_name fe ! 0 \<noteq> 0"

definition zero_fe :: sfs_file_entry where
  "zero_fe = \<lparr>fe_name = replicate 16 0, fe_size = 0, fe_timestamp = 0, fe_perms = 0,
              fe_blocks = replicate 9 0\<rparr>"

section \<open>Byte images\<close>

definition bytes_of_fe :: "sfs_file_entry \<Rightarrow> u8 list" where
  "bytes_of_fe fe = fe_name fe @ le 4 (fe_size fe) @ le 4 (fe_timestamp fe) @ le 4 (fe_perms fe)
                    @ le32s (fe_blocks fe)"

definition fe_of_bytes :: "u8 list \<Rightarrow> sfs_file_entry" where
  "fe_of_bytes bs =
     \<lparr>fe_name = take 16 bs,
      fe_size = unle (take 4 (drop 16 bs)),
      fe_timestamp = unle (take 4 (drop 20 bs)),
      fe_perms = unle (take 4 (drop 24 bs)),
      fe_blocks = unle32s SIMULA_FS_DATA_BLOCK_CNT (drop 28 bs)\<rparr>"

definition bytes_of_sb :: "sfs_super_block \<Rightarrow> u8 list" where
  "bytes_of_sb sb =
     le32s ([sb_type sb, block_size sb, partition_size sb, entry_size sb, entry_table_size sb,
             entry_table_block_start sb, entry_count sb, data_block_start sb] @ sb_reserved sb)"

definition sb_of_words :: "u32 list \<Rightarrow> sfs_super_block" where
  "sb_of_words ws =
     \<lparr>sb_type = ws ! 0, block_size = ws ! 1, partition_size = ws ! 2, entry_size = ws ! 3,
      entry_table_size = ws ! 4, entry_table_block_start = ws ! 5, entry_count = ws ! 6,
      data_block_start = ws ! 7, sb_reserved = drop 8 ws\<rparr>"

definition sb_of_bytes :: "u8 list \<Rightarrow> sfs_super_block" where
  "sb_of_bytes bs = sb_of_words (unle32s 128 bs)"

section \<open>Round trips\<close>

lemma wf_fe_lengths: "wf_fe fe \<Longrightarrow> length (fe_name fe) = 16" "wf_fe fe \<Longrightarrow> length (fe_blocks fe) = 9"
  by (simp_all add: wf_fe_def SIMULA_FS_FILENAME_LEN_def)

lemma length_bytes_of_fe [layout_simps]: "wf_fe fe \<Longrightarrow> length (bytes_of_fe fe) = 64"
  by (simp add: bytes_of_fe_def wf_fe_lengths)

lemma wf_zero_fe [simp]: "wf_fe zero_fe"
  by (simp add: wf_fe_def zero_fe_def SIMULA_FS_FILENAME_LEN_def)

lemma not_used_zero_fe [simp]: "\<not> fe_used zero_fe"
  by (simp add: fe_used_def zero_fe_def)

lemma fe_used_iff: "wf_fe fe \<Longrightarrow> fe_used fe \<longleftrightarrow> cstr (fe_name fe) \<noteq> []"
  by (cases "fe_name fe") (simp_all add: fe_used_def cstr_def wf_fe_def)

lemma wf_fe_of_bytes: "length bs = 64 \<Longrightarrow> wf_fe (fe_of_bytes bs)"
  by (simp add: wf_fe_def fe_of_bytes_def SIMULA_FS_FILENAME_LEN_def)

lemma fe_roundtrip [layout_simps]: "wf_fe fe \<Longrightarrow> fe_of_bytes (bytes_of_fe fe) = fe"
  by (simp add: fe_of_bytes_def bytes_of_fe_def wf_fe_lengths del: le.simps unle.simps)

lemma sb_of_words_eq:
  "sb_of_words ([sb_type sb, block_size sb, partition_size sb, entry_size sb, entry_table_size sb,
                 entry_table_block_start sb, entry_count sb, data_block_start sb] @ sb_reserved sb) = sb"
  by (simp add: sb_of_words_def)

lemma sb_roundtrip [layout_simps]: "wf_sb sb \<Longrightarrow> sb_of_bytes (bytes_of_sb sb) = sb"
  unfolding sb_of_bytes_def bytes_of_sb_def
  by (subst unle32s_le32s') (simp_all only: sb_of_words_eq, simp add: wf_sb_def SIMULA_FS_BLOCK_SIZE_def)

lemma length_bytes_of_sb [layout_simps]: "wf_sb sb \<Longrightarrow> length (bytes_of_sb sb) = 512"
  by (simp add: bytes_of_sb_def wf_sb_def SIMULA_FS_BLOCK_SIZE_def)

lemma fe_bytes_roundtrip: "length bs = 64 \<Longrightarrow> bytes_of_fe (fe_of_bytes bs) = bs"
proof -
  assume len: "length bs = 64"
  have "le 4 (unle (take 4 (drop k bs)) :: u32) = take 4 (drop k bs)" if "k + 4 \<le> 64" for k
    using that len by (intro le_unle) simp_all
  moreover have "le32s (unle32s 9 (drop 28 bs)) = drop 28 bs"
    using len by (intro le32s_unle32s) simp
  moreover have "bs = take 16 bs @ take 4 (drop 16 bs) @ take 4 (drop 20 bs) @ take 4 (drop 24 bs) @ drop 28 bs"
    using take_drop_split [of 4 16 bs] take_drop_split [of 4 20 bs] take_drop_split [of 4 24 bs]
    by simp
  ultimately show ?thesis
    by (simp add: bytes_of_fe_def fe_of_bytes_def)
qed

lemma le_zero: "le n (0 :: 'a::len word) = replicate n 0"
  by (induction n) simp_all

lemma bytes_of_zero_fe: "bytes_of_fe zero_fe = replicate 64 0"
proof -
  have "le32s (replicate n 0) = replicate (4 * n) 0" for n
    by (induction n) (simp_all add: le32s_def le_zero replicate_add [symmetric] del: le.simps)
  then show ?thesis
    by (simp add: bytes_of_fe_def zero_fe_def le_zero replicate_add [symmetric] del: le.simps)
qed

lemma fe_of_zero_bytes: "fe_of_bytes (replicate 64 0) = zero_fe"
  using fe_roundtrip [OF wf_zero_fe] by (simp add: bytes_of_zero_fe)

section \<open>Properties\<close>

text \<open>
  A file entry and its 64-byte image determine each other: encoding a well-formed entry
  gives 64 bytes from which the same entry is read, and any 64 bytes read as an entry encode
  back to the same bytes.
\<close>

theorem sfs_entry_roundtrip:
  "(wf_fe fe \<longrightarrow> length (bytes_of_fe fe) = SIMULA_FS_ENTRY_SIZE \<and> fe_of_bytes (bytes_of_fe fe) = fe) \<and>
   (length bs = SIMULA_FS_ENTRY_SIZE \<longrightarrow> wf_fe (fe_of_bytes bs) \<and> bytes_of_fe (fe_of_bytes bs) = bs)"
  by (simp add: SIMULA_FS_ENTRY_SIZE_def layout_simps wf_fe_of_bytes fe_bytes_roundtrip)

theorem sfs_entry_roundtrip_witness:
  "fe_of_bytes (bytes_of_fe zero_fe) = zero_fe \<and> bytes_of_fe (fe_of_bytes (replicate 64 7)) = replicate 64 7"
proof -
  have w: "wf_fe zero_fe" by simp
  have l: "length (replicate 64 (7::u8)) = SIMULA_FS_ENTRY_SIZE" by (simp add: SIMULA_FS_ENTRY_SIZE_def)
  show ?thesis
    using sfs_entry_roundtrip [of zero_fe "replicate 64 7"] w l by blast
qed

text \<open>
  A super block written by the formatter is read back unchanged by the kernel module and
  the shell, and occupies exactly one file-system block.
\<close>

theorem sfs_super_block_roundtrip:
  assumes "wf_sb sb"
  shows "length (bytes_of_sb sb) = SIMULA_FS_BLOCK_SIZE \<and> sb_of_bytes (bytes_of_sb sb) = sb"
  using assms by (simp add: SIMULA_FS_BLOCK_SIZE_def layout_simps)

theorem sfs_super_block_roundtrip_witness:
  "sb_of_bytes (bytes_of_sb
     \<lparr>sb_type = SIMULA_FS_TYPE, block_size = 512, partition_size = 20, entry_size = 64,
      entry_table_size = 2, entry_table_block_start = 1, entry_count = 16, data_block_start = 3,
      sb_reserved = replicate 120 0\<rparr>)
   = \<lparr>sb_type = SIMULA_FS_TYPE, block_size = 512, partition_size = 20, entry_size = 64,
      entry_table_size = 2, entry_table_block_start = 1, entry_count = 16, data_block_start = 3,
      sb_reserved = replicate 120 0\<rparr>"
proof -
  have "wf_sb \<lparr>sb_type = SIMULA_FS_TYPE, block_size = 512, partition_size = 20, entry_size = 64,
      entry_table_size = 2, entry_table_block_start = 1, entry_count = 16, data_block_start = 3,
      sb_reserved = replicate 120 0\<rparr>"
    by (simp add: wf_sb_def SIMULA_FS_BLOCK_SIZE_def)
  from sfs_super_block_roundtrip [OF this] show ?thesis by blast
qed

end
