(* ===== verification/Sfs_Ops.thy ===== *)
theory Sfs_Ops
  imports Sfs_Data Ram_Device
begin

text \<open>
  The operations of the Simula file system's kernel module on a mounted volume,
  \<^verbatim>\<open>src/FSDriver/SFS/real_sfs_ops.c\<close>.

  \<open>sfs_info\<close> is the structure the module keeps per volume: the state of the device behind
  \<open>vfs_sb\<close>, the super block, the used-block tracker (\<open>None\<close> is the NULL pointer), the spin
  lock, and whether the super block points back to it. Every operation takes the buffer
  cache \<open>dev\<close> as a parameter and returns its C result with the new state. A result \<open>None\<close>
  means that the C code would access memory outside an object or take a lock it already
  holds; the module's own errors are the negative numbers or \<open>INV_INODE\<close>/\<open>INV_BLOCK\<close> it
  returns.
\<close>

section \<open>State\<close>

record 'd sfs_info =
  vfs_dev :: 'd
  sb :: sfs_super_block
  used_blocks :: "u8 list option"
  locked :: bool
  s_fs_info :: bool

definition ROOT_INODE_NUM :: int where "ROOT_INODE_NUM = 1"
definition S2V_INODE_NUM :: "int \<Rightarrow> int" where "S2V_INODE_NUM i = ROOT_INODE_NUM + 1 + i"
definition V2S_INODE_NUM :: "int \<Rightarrow> int" where "V2S_INODE_NUM i = i - (ROOT_INODE_NUM + 1)"
definition INV_INODE :: int where "INV_INODE = -1"
definition INV_BLOCK :: int where "INV_BLOCK = -1"

lemmas inode_num_defs = ROOT_INODE_NUM_def S2V_INODE_NUM_def V2S_INODE_NUM_def INV_INODE_def INV_BLOCK_def

text \<open>Taking a held spin lock never returns.\<close>

definition spin_lock :: "'d sfs_info \<Rightarrow> 'd sfs_info option" where
  "spin_lock info = (if locked info then None else Some (info\<lparr>locked := True\<rparr>))"

definition spin_unlock :: "'d sfs_info \<Rightarrow> 'd sfs_info" where
  "spin_unlock info = info\<lparr>locked := False\<rparr>"

section \<open>Access to the device\<close>

definition read_sb_from_real_sfs :: "'d bdev \<Rightarrow> 'd sfs_info \<Rightarrow> (int + sfs_super_block) option" where
  "read_sb_from_real_sfs dev info =
     (case bread dev (vfs_dev info) 0 of
        None \<Rightarrow> Some (Inl (- EIO))
      | Some b_data \<Rightarrow> do {
          bs \<leftarrow> mem_read b_data 0 SIMULA_FS_BLOCK_SIZE;
          Some (Inr (sb_of_bytes bs))
        })"

definition read_from_real_sfs ::
    "'d bdev \<Rightarrow> 'd sfs_info \<Rightarrow> u32 \<Rightarrow> u32 \<Rightarrow> u32 \<Rightarrow> (int + u8 list) option" where
  "read_from_real_sfs dev info block offset len =
     (let abs = block * block_size (sb info) + offset;
          block = abs div bd_block_size dev;
          offset = abs mod bd_block_size dev
      in if offset + len > bd_block_size dev then Some (Inl (- EINVAL))
         else case bread dev (vfs_dev info) (unat block) of
                None \<Rightarrow> Some (Inl (- EIO))
              | Some b_data \<Rightarrow> do {
                  bs \<leftarrow> mem_read b_data (unat offset) (unat len);
                  Some (Inr bs)
                })"

definition write_to_real_sfs ::
    "'d bdev \<Rightarrow> 'd sfs_info \<Rightarrow> u32 \<Rightarrow> u32 \<Rightarrow> u8 list \<Rightarrow> u32 \<Rightarrow> (int \<times> 'd sfs_info) option" where
  "write_to_real_sfs dev info block offset buf len =
     (let abs = block * block_size (sb info) + offset;
          block = abs div bd_block_size dev;
          offset = abs mod bd_block_size dev
      in if offset + len > bd_block_size dev then Some (- EINVAL, info)
         else case bread dev (vfs_dev info) (unat block) of
                None \<Rightarrow> Some (- EIO, info)
              | Some b_data \<Rightarrow> do {
                  bs \<leftarrow> mem_read buf 0 (unat len);
                  b_data \<leftarrow> mem_write b_data (unat offset) bs;
                  Some (0, info\<lparr>vfs_dev := bwrite dev (vfs_dev info) (unat block) b_data\<rparr>)
                })"

definition read_entry_from_real_sfs ::
    "'d bdev \<Rightarrow> 'd sfs_info \<Rightarrow> int \<Rightarrow> (int + sfs_file_entry) option" where
  "read_entry_from_real_sfs dev info ino = do {
     r \<leftarrow> read_from_real_sfs dev info (entry_table_block_start (sb info)) (word_of_int ino * 64) 64;
     Some (case r of Inl e \<Rightarrow> Inl e | Inr bs \<Rightarrow> Inr (fe_of_bytes bs))
   }"

definition write_entry_to_real_sfs ::
    "'d bdev \<Rightarrow> 'd sfs_info \<Rightarrow> int \<Rightarrow> sfs_file_entry \<Rightarrow> (int \<times> 'd sfs_info) option" where
  "write_entry_to_real_sfs dev info ino fe =
     write_to_real_sfs dev info (entry_table_block_start (sb info)) (word_of_int ino * 64)
       (bytes_of_fe fe) 64"

section \<open>Mounting: the used-block tracker\<close>

text \<open>\<open>for (i in is) used_blocks[i] = v\<close>\<close>

fun fill_used :: "u8 \<Rightarrow> nat list \<Rightarrow> u8 list \<Rightarrow> u8 list option" where
  "fill_used v [] ub = Some ub"
| "fill_used v (i # is) ub = do { ub \<leftarrow> arr_set ub i v; fill_used v is ub }"

text \<open>The inner loop of \<open>init_browsing\<close>: stops at the first zero block number.\<close>

fun mark_blocks :: "u32 list \<Rightarrow> u8 list \<Rightarrow> u8 list option" where
  "mark_blocks [] ub = Some ub"
| "mark_blocks (b # bs) ub =
     (if b = 0 then Some ub else do { ub \<leftarrow> arr_set ub (unat b) 1; mark_blocks bs ub })"

fun mark_entries :: "'d bdev \<Rightarrow> 'd sfs_info \<Rightarrow> nat list \<Rightarrow> u8 list \<Rightarrow> (int + u8 list) option" where
  "mark_entries dev info [] ub = Some (Inr ub)"
| "mark_entries dev info (i # is) ub = do {
     r \<leftarrow> read_entry_from_real_sfs dev info (int i);
     (case r of
        Inl e \<Rightarrow> Some (Inl e)
      | Inr fe \<Rightarrow>
          if \<not> fe_used fe then mark_entries dev info is ub
          else do { ub \<leftarrow> mark_blocks (fe_blocks fe) ub; mark_entries dev info is ub })
   }"

text \<open>\<open>alloc n\<close> is what \<open>vmalloc(n)\<close> returns: nothing, or \<open>n\<close> bytes of arbitrary contents.\<close>

definition init_browsing ::
    "'d bdev \<Rightarrow> (nat \<Rightarrow> u8 list option) \<Rightarrow> 'd sfs_info \<Rightarrow> (int \<times> 'd sfs_info) option" where
  "init_browsing dev alloc info = do {
     r \<leftarrow> read_sb_from_real_sfs dev info;
     (case r of
        Inl retval \<Rightarrow> Some (retval, info)
      | Inr sb' \<Rightarrow>
          let info = info\<lparr>sb := sb'\<rparr> in
          if sb_type sb' \<noteq> SIMULA_FS_TYPE then Some (- EINVAL, info)
          else (case alloc (unat (partition_size sb')) of
             None \<Rightarrow> Some (- ENOMEM, info)
           | Some used \<Rightarrow> do {
               used \<leftarrow> fill_used 1 [0..<unat (data_block_start sb')] used;
               used \<leftarrow> fill_used 0 [unat (data_block_start sb')..<unat (partition_size sb')] used;
               r \<leftarrow> mark_entries dev info [0..<unat (entry_count sb')] used;
               (case r of
                  Inl retval \<Rightarrow> Some (retval, info)
                | Inr used \<Rightarrow>
                    Some (0, info\<lparr>used_blocks := Some used, s_fs_info := True, locked := False\<rparr>))
             }))
   }"

text \<open>\<open>shut_browsing\<close> frees the tracker; the dangling pointer is not used again.\<close>

definition shut_browsing :: "'d sfs_info \<Rightarrow> 'd sfs_info" where
  "shut_browsing info = info\<lparr>used_blocks := None\<rparr>"

section \<open>Block allocation\<close>

fun scan_free :: "u8 list \<Rightarrow> nat list \<Rightarrow> nat option option" where
  "scan_free ub [] = Some None"
| "scan_free ub (i # is) = do {
     v \<leftarrow> arr_get ub i;
     if v = 0 then Some (Some i) else scan_free ub is
   }"

definition sfs_get_data_block :: "'d sfs_info \<Rightarrow> (int \<times> 'd sfs_info) option" where
  "sfs_get_data_block info = do {
     info \<leftarrow> spin_lock info;
     ub \<leftarrow> used_blocks info;
     r \<leftarrow> scan_free ub [unat (data_block_start (sb info))..<unat (partition_size (sb info))];
     (case r of
        Some i \<Rightarrow> do {
          ub \<leftarrow> arr_set ub i 1;
          Some (int i, spin_unlock (info\<lparr>used_blocks := Some ub\<rparr>))
        }
      | None \<Rightarrow> Some (INV_BLOCK, spin_unlock info))
   }"

definition sfs_put_data_block :: "'d sfs_info \<Rightarrow> int \<Rightarrow> 'd sfs_info option" where
  "sfs_put_data_block info i = do {
     info \<leftarrow> spin_lock info;
     ub \<leftarrow> used_blocks info;
     ub \<leftarrow> (if i < 0 then None else arr_set ub (nat i) 0);
     Some (spin_unlock (info\<lparr>used_blocks := Some ub\<rparr>))
   }"

section \<open>Directory listing\<close>

text \<open>
  \<open>emit c name ino\<close> is \<open>dir_emit\<close> on the reader's buffer \<open>c\<close>: the new buffer, or \<open>None\<close> when
  it is full. \<open>ctx_pos\<close> is the directory position.
\<close>

fun sfs_list_loop ::
    "'d bdev \<Rightarrow> 'd sfs_info \<Rightarrow> ('c \<Rightarrow> u8 list \<Rightarrow> int \<Rightarrow> 'c option) \<Rightarrow> nat list \<Rightarrow> nat \<Rightarrow> nat \<Rightarrow> 'c
     \<Rightarrow> (int \<times> nat \<times> 'c) option" where
  "sfs_list_loop dev info emit [] pos ctx_pos c = Some (0, ctx_pos, c)"
| "sfs_list_loop dev info emit (ino # inos) pos ctx_pos c = do {
     r \<leftarrow> read_entry_from_real_sfs dev info (int ino);
     (case r of
        Inl retval \<Rightarrow> Some (retval, ctx_pos, c)
      | Inr fe \<Rightarrow>
          if \<not> fe_used fe then sfs_list_loop dev info emit inos pos ctx_pos c
          else let pos = pos + 1 in
            if ctx_pos = pos
            then (case emit c (cstr (fe_name fe)) (S2V_INODE_NUM (int ino)) of
                    None \<Rightarrow> Some (- ENOSPC, ctx_pos, c)
                  | Some c \<Rightarrow> sfs_list_loop dev info emit inos pos (ctx_pos + 1) c)
            else sfs_list_loop dev info emit inos pos ctx_pos c)
   }"

definition sfs_list ::
    "'d bdev \<Rightarrow> 'd sfs_info \<Rightarrow> ('c \<Rightarrow> u8 list \<Rightarrow> int \<Rightarrow> 'c option) \<Rightarrow> nat \<Rightarrow> 'c
     \<Rightarrow> (int \<times> nat \<times> 'c) option" where
  "sfs_list dev info emit ctx_pos c =
     sfs_list_loop dev info emit [0..<unat (entry_count (sb info))] 1 ctx_pos c"

section \<open>Files\<close>

text \<open>The search loops return the entry's index (\<open>None\<close>: not found, or a read failed) and the
  contents left in \<open>*fe\<close>.\<close>

fun create_scan :: "'d bdev \<Rightarrow> 'd sfs_info \<Rightarrow> sfs_file_entry \<Rightarrow> nat list
                    \<Rightarrow> (nat option \<times> sfs_file_entry) option" where
  "create_scan dev info fe [] = Some (None, fe)"
| "create_scan dev info fe (ino # inos) = do {
     r \<leftarrow> read_entry_from_real_sfs dev info (int ino);
     (case r of
        Inl e \<Rightarrow> Some (None, fe)
      | Inr fe \<Rightarrow> if \<not> fe_used fe then Some (Some ino, fe) else create_scan dev info fe inos)
   }"

text \<open>The entry written for a new file, over the bytes of the free entry found.\<close>

definition new_entry :: "sfs_file_entry \<Rightarrow> u8 list \<Rightarrow> int \<Rightarrow> u32 \<Rightarrow> sfs_file_entry" where
  "new_entry fe fn perms now =
     fe\<lparr>fe_name := (strncpy (fe_name fe) fn SIMULA_FS_FILENAME_LEN)[SIMULA_FS_FILENAME_LEN := 0],
        fe_size := 0, fe_timestamp := now, fe_perms := word_of_int perms,
        fe_blocks := replicate SIMULA_FS_DATA_BLOCK_CNT 0\<rparr>"

text \<open>\<open>now\<close> is \<open>get_seconds()\<close>.\<close>

definition sfs_create ::
    "'d bdev \<Rightarrow> u32 \<Rightarrow> 'd sfs_info \<Rightarrow> u8 list \<Rightarrow> int \<Rightarrow> sfs_file_entry
     \<Rightarrow> (int \<times> sfs_file_entry \<times> 'd sfs_info) option" where
  "sfs_create dev now info fn perms fe = do {
     (free_ino, fe) \<leftarrow> create_scan dev info fe [0..<unat (entry_count (sb info))];
     (case free_ino of
        None \<Rightarrow> Some (INV_INODE, fe, info)
      | Some ino \<Rightarrow> do {
          let fe = new_entry fe fn perms now;
          (retval, info) \<leftarrow> write_entry_to_real_sfs dev info (int ino) fe;
          Some (if retval < 0 then INV_INODE else S2V_INODE_NUM (int ino), fe, info)
        })
   }"

fun lookup_scan :: "'d bdev \<Rightarrow> 'd sfs_info \<Rightarrow> u8 list \<Rightarrow> sfs_file_entry \<Rightarrow> nat list
                    \<Rightarrow> (nat option \<times> sfs_file_entry) option" where
  "lookup_scan dev info fn fe [] = Some (None, fe)"
| "lookup_scan dev info fn fe (ino # inos) = do {
     r \<leftarrow> read_entry_from_real_sfs dev info (int ino);
     (case r of
        Inl e \<Rightarrow> Some (None, fe)
      | Inr fe \<Rightarrow>
          if fe_used fe \<and> cstr (fe_name fe) = fn then Some (Some ino, fe)
          else lookup_scan dev info fn fe inos)
   }"

definition sfs_lookup ::
    "'d bdev \<Rightarrow> 'd sfs_info \<Rightarrow> u8 list \<Rightarrow> sfs_file_entry \<Rightarrow> (int \<times> sfs_file_entry) option" where
  "sfs_lookup dev info fn fe = do {
     (r, fe) \<leftarrow> lookup_scan dev info fn fe [0..<unat (entry_count (sb info))];
     Some (case r of None \<Rightarrow> INV_INODE | Some ino \<Rightarrow> S2V_INODE_NUM (int ino), fe)
   }"

text \<open>The loop of \<open>sfs_remove\<close> that gives the blocks back stops at the first zero.\<close>

fun put_blocks :: "'d sfs_info \<Rightarrow> u32 list \<Rightarrow> 'd sfs_info option" where
  "put_blocks info [] = Some info"
| "put_blocks info (b # bs) =
     (if b = 0 then Some info
      else do { info \<leftarrow> sfs_put_data_block info (sint b); put_blocks info bs })"

definition sfs_remove :: "'d bdev \<Rightarrow> 'd sfs_info \<Rightarrow> u8 list \<Rightarrow> (int \<times> 'd sfs_info) option" where
  "sfs_remove dev info fn = do {
     (vfs_ino, fe) \<leftarrow> sfs_lookup dev info fn zero_fe;
     if vfs_ino = INV_INODE then Some (INV_INODE, info)
     else do {
       info \<leftarrow> put_blocks info (fe_blocks fe);
       (retval, info) \<leftarrow> write_entry_to_real_sfs dev info (V2S_INODE_NUM vfs_ino) zero_fe;
       Some (if retval < 0 then INV_INODE else vfs_ino, info)
     }
   }"

definition sfs_get_file_entry ::
    "'d bdev \<Rightarrow> 'd sfs_info \<Rightarrow> int \<Rightarrow> (int + sfs_file_entry) option" where
  "sfs_get_file_entry dev info vfs_ino = read_entry_from_real_sfs dev info (V2S_INODE_NUM vfs_ino)"

text \<open>The truncation loop of \<open>sfs_update\<close>, over the remaining slot numbers.\<close>

fun trunc_blocks :: "'d sfs_info \<Rightarrow> u32 list \<Rightarrow> nat list \<Rightarrow> ('d sfs_info \<times> u32 list) option" where
  "trunc_blocks info bs [] = Some (info, bs)"
| "trunc_blocks info bs (i # is) = do {
     b \<leftarrow> arr_get bs i;
     if b \<noteq> 0
     then do {
       info \<leftarrow> sfs_put_data_block info (sint b);
       bs \<leftarrow> arr_set bs i 0;
       trunc_blocks info bs is
     }
     else trunc_blocks info bs is
   }"

text \<open>The three optional assignments of \<open>sfs_update\<close> (\<open>None\<close> is a NULL pointer).\<close>

definition update_fields :: "sfs_file_entry \<Rightarrow> int option \<Rightarrow> int option \<Rightarrow> int option \<Rightarrow> sfs_file_entry" where
  "update_fields fe sz timestamp perms =
     (let fe = (case sz of None \<Rightarrow> fe | Some v \<Rightarrow> fe\<lparr>fe_size := word_of_int v\<rparr>);
          fe = (case timestamp of None \<Rightarrow> fe | Some v \<Rightarrow> fe\<lparr>fe_timestamp := word_of_int v\<rparr>)
      in case perms of None \<Rightarrow> fe
         | Some v \<Rightarrow> if v \<le> 7 then fe\<lparr>fe_perms := word_of_int v\<rparr> else fe)"

definition sfs_update ::
    "'d bdev \<Rightarrow> 'd sfs_info \<Rightarrow> int \<Rightarrow> int option \<Rightarrow> int option \<Rightarrow> int option
     \<Rightarrow> (int \<times> 'd sfs_info) option" where
  "sfs_update dev info vfs_ino sz timestamp perms = do {
     r \<leftarrow> sfs_get_file_entry dev info vfs_ino;
     (case r of
        Inl retval \<Rightarrow> Some (retval, info)
      | Inr fe \<Rightarrow> do {
          let fe = update_fields fe sz timestamp perms;
          let i = sint ((fe_size fe + block_size (sb info) - 1) div block_size (sb info));
          (info, blocks) \<leftarrow>
            (if block_size (sb info) = 0 \<or> i < 0 then None
             else trunc_blocks info (fe_blocks fe) [nat i..<SIMULA_FS_DATA_BLOCK_CNT]);
          write_entry_to_real_sfs dev info (V2S_INODE_NUM vfs_ino) (fe\<lparr>fe_blocks := blocks\<rparr>)
        })
   }"

definition sfs_update_file_entry ::
    "'d bdev \<Rightarrow> 'd sfs_info \<Rightarrow> int \<Rightarrow> sfs_file_entry \<Rightarrow> (int \<times> 'd sfs_info) option" where
  "sfs_update_file_entry dev info vfs_ino fe =
     write_entry_to_real_sfs dev info (V2S_INODE_NUM vfs_ino) fe"

end
