(* ===== verification/Sfs_Volume.thy ===== *)
theory Sfs_Volume
  imports Sfs_Ops
begin

text \<open>
  The abstract view of a mounted Simula volume: its file table, a list of entries. Under the
  buffer cache's contract and a sane super block, the byte-level accesses of \<open>Sfs_Ops\<close> are
  reads and updates of that list, and lookup, create, remove and update are searches and
  updates of it. The lemmas of the \<open>buffer_cache\<close> context are the commuting diagrams.
\<close>

section \<open>Layout\<close>

text \<open>
  What a super block has to satisfy: the entry table starts on an entry boundary behind the
  super block, lies inside the device and below 4 GiB, entries do not straddle device blocks, block 0 is never a data
  block, and block numbers are representable in the \<open>int\<close>s the module uses for them.
\<close>

definition sfs_layout :: "u32 \<Rightarrow> nat \<Rightarrow> sfs_super_block \<Rightarrow> bool" where
  "sfs_layout bds n s \<longleftrightarrow>
     1 < unat (block_size s) \<and> 0 < unat bds \<and> unat bds mod 64 = 0 \<and>
     (unat (entry_table_block_start s) * unat (block_size s)) mod 64 = 0 \<and>
     SIMULA_FS_BLOCK_SIZE \<le> unat (entry_table_block_start s) * unat (block_size s) \<and>
     unat (entry_table_block_start s) * unat (block_size s) + 64 * unat (entry_count s) \<le> n * unat bds \<and>
     unat (entry_table_block_start s) * unat (block_size s) + 64 * unat (entry_count s) < 2 ^ 32 \<and>
     0 < unat (data_block_start s) \<and> data_block_start s \<le> partition_size s \<and>
     unat (partition_size s) < 2 ^ 31"

text \<open>A volume: a working device, whose super block is the one kept in memory.\<close>

definition vol_ok :: "'d bdev \<Rightarrow> ('d \<Rightarrow> nat) \<Rightarrow> ('d \<Rightarrow> bool) \<Rightarrow> 'd sfs_info \<Rightarrow> bool" where
  "vol_ok dev nblk ok info \<longleftrightarrow>
     ok (vfs_dev info) \<and> sfs_layout (bd_block_size dev) (nblk (vfs_dev info)) (sb info) \<and>
     sb_type (sb info) = SIMULA_FS_TYPE \<and>
     read_sb_from_real_sfs dev info = Some (Inr (sb info))"

definition eaddr :: "sfs_super_block \<Rightarrow> nat \<Rightarrow> nat" where
  "eaddr s i = unat (entry_table_block_start s) * unat (block_size s) + 64 * i"

definition eword :: "sfs_super_block \<Rightarrow> nat \<Rightarrow> u32" where
  "eword s i = entry_table_block_start s * block_size s + of_nat i * 64"

lemma unat_eword:
  assumes "sfs_layout bds n s" and "i < unat (entry_count s)"
  shows "unat (eword s i) = eaddr s i"
proof -
  have b: "eaddr s i < 2 ^ 32" using assms by (simp add: sfs_layout_def eaddr_def)
  have "eword s i = of_nat (eaddr s i)"
    by (simp add: eword_def eaddr_def)
  with b show ?thesis by (simp only: unat_of_nat_small word_size) (simp add: unat_of_nat_small)
qed

lemma aligned_fits:
  "a mod 64 = 0 \<Longrightarrow> m mod 64 = 0 \<Longrightarrow> 0 < m \<Longrightarrow> a mod m + 64 \<le> (m :: nat)"
proof -
  assume a: "a mod 64 = 0" and m: "m mod 64 = 0" and p: "0 < m"
  have "a mod m mod 64 = 0" using a m by (metis mod_0_imp_dvd mod_mod_cancel)
  then obtain k where k: "a mod m = 64 * k" by (auto elim: dvdE simp: mod_0_imp_dvd)
  obtain q where q: "m = 64 * q" using m by (auto elim: dvdE simp: mod_0_imp_dvd)
  have "a mod m < m" using p by simp
  with k q have "k < q" by simp
  then show ?thesis unfolding k by (simp add: q)
qed

lemma entry_location:
  assumes l: "sfs_layout bds n s" and i: "i < unat (entry_count s)"
  shows "unat (eword s i div bds) = eaddr s i div unat bds"
    and "unat (eword s i mod bds) = eaddr s i mod unat bds"
    and "eaddr s i div unat bds < n"
    and "eaddr s i mod unat bds + 64 \<le> unat bds"
    and "\<not> eword s i mod bds + 64 > bds"
proof -
  note w = unat_eword [OF l i]
  show d: "unat (eword s i div bds) = eaddr s i div unat bds"
    and m: "unat (eword s i mod bds) = eaddr s i mod unat bds"
    by (simp_all add: unat_div unat_mod w)
  have p: "0 < unat bds" using l by (simp add: sfs_layout_def)
  have "eaddr s i < n * unat bds" using l i by (simp add: sfs_layout_def eaddr_def)
  with p show "eaddr s i div unat bds < n" by (simp add: div_less_iff_less_mult)
  have "eaddr s i mod 64 = 0" using l by (simp add: eaddr_def sfs_layout_def)
  with l show f: "eaddr s i mod unat bds + 64 \<le> unat bds"
    by (intro aligned_fits) (simp_all add: sfs_layout_def)
  have "unat bds < 2 ^ 32" using unsigned_less [of bds] by simp
  with f m have "unat (eword s i mod bds + 64) = eaddr s i mod unat bds + 64"
    by (simp add: unat_word_ariths)
  with f show "\<not> eword s i mod bds + 64 > bds" by (simp add: word_less_nat_alt)
qed

lemma entries_disjoint:
  assumes "i \<noteq> j" and "0 < m"
  shows "eaddr s i div m \<noteq> eaddr s j div m \<or> eaddr s i mod m + 64 \<le> eaddr s j mod m \<or>
         eaddr s j mod m + 64 \<le> eaddr s i mod m"
proof (cases "eaddr s i div m = eaddr s j div m")
  case True
  have "eaddr s i + 64 \<le> eaddr s j \<or> eaddr s j + 64 \<le> eaddr s i"
    using assms(1) by (cases i j rule: linorder_cases) (simp_all add: eaddr_def)
  moreover have "eaddr s i = eaddr s i div m * m + eaddr s i mod m"
    "eaddr s j = eaddr s i div m * m + eaddr s j mod m"
    using div_mult_mod_eq [of "eaddr s i" m] div_mult_mod_eq [of "eaddr s j" m] True by metis+
  ultimately show ?thesis by linarith
qed simp

section \<open>The file table\<close>

definition entry :: "'d bdev \<Rightarrow> 'd sfs_info \<Rightarrow> nat \<Rightarrow> sfs_file_entry" where
  "entry dev info i =
     (case read_entry_from_real_sfs dev info (int i) of Some (Inr fe) \<Rightarrow> fe | _ \<Rightarrow> zero_fe)"

definition file_table :: "'d bdev \<Rightarrow> 'd sfs_info \<Rightarrow> sfs_file_entry list" where
  "file_table dev info = map (entry dev info) [0..<unat (entry_count (sb info))]"

lemma length_file_table [simp]: "length (file_table dev info) = unat (entry_count (sb info))"
  by (simp add: file_table_def)

lemma nth_file_table: "i < unat (entry_count (sb info)) \<Longrightarrow> file_table dev info ! i = entry dev info i"
  by (simp add: file_table_def)

lemma read_entry_dev_sb:
  "vfs_dev info' = vfs_dev info \<Longrightarrow> sb info' = sb info \<Longrightarrow>
   read_entry_from_real_sfs dev info' i = read_entry_from_real_sfs dev info i"
  by (simp add: read_entry_from_real_sfs_def read_from_real_sfs_def Let_def)

lemma file_table_dev_sb:
  "vfs_dev info' = vfs_dev info \<Longrightarrow> sb info' = sb info \<Longrightarrow> file_table dev info' = file_table dev info"
  by (simp add: file_table_def entry_def read_entry_dev_sb [of info' info])

lemma read_sb_dev_sb:
  "vfs_dev info' = vfs_dev info \<Longrightarrow> read_sb_from_real_sfs dev info' = read_sb_from_real_sfs dev info"
  by (simp add: read_sb_from_real_sfs_def)

lemma read_sb_peek:
  assumes "peek dev (vfs_dev info) 0 0 SIMULA_FS_BLOCK_SIZE = Some bs"
  shows "read_sb_from_real_sfs dev info = Some (Inr (sb_of_bytes bs))"
  using assms by (auto simp: peek_def read_sb_from_real_sfs_def dest!: bind_eq_SomeD)

lemma read_sb_peekD:
  assumes "read_sb_from_real_sfs dev info = Some (Inr s)"
  shows "\<exists>bs. peek dev (vfs_dev info) 0 0 SIMULA_FS_BLOCK_SIZE = Some bs \<and> s = sb_of_bytes bs"
  using assms by (auto simp: peek_def read_sb_from_real_sfs_def split: option.splits dest!: bind_eq_SomeD)

lemma vol_ok_dev_sb:
  "vfs_dev info' = vfs_dev info \<Longrightarrow> sb info' = sb info \<Longrightarrow> vol_ok dev nblk ok info' = vol_ok dev nblk ok info"
  by (simp add: vol_ok_def read_sb_dev_sb [of info' info])

context buffer_cache
begin

abbreviation "volume \<equiv> vol_ok dev nblk ok"

lemma read_entry_peek:
  assumes v: "volume info" and i: "i < unat (entry_count (sb info))"
  shows "\<exists>bs. peek dev (vfs_dev info) (eaddr (sb info) i div unat (bd_block_size dev))
                (eaddr (sb info) i mod unat (bd_block_size dev)) 64 = Some bs \<and> length bs = 64 \<and>
         read_entry_from_real_sfs dev info (int i) = Some (Inr (fe_of_bytes bs))"
proof -
  have ok: "ok (vfs_dev info)" and l: "sfs_layout (bd_block_size dev) (nblk (vfs_dev info)) (sb info)"
    using v by (simp_all add: vol_ok_def)
  note loc = entry_location [OF l i]
  obtain bs where bs: "peek dev (vfs_dev info) (eaddr (sb info) i div unat (bd_block_size dev))
                (eaddr (sb info) i mod unat (bd_block_size dev)) 64 = Some bs" "length bs = 64"
    using peek_ex [OF ok loc(3,4)] by auto
  then obtain blk where "bread dev (vfs_dev info) (eaddr (sb info) i div unat (bd_block_size dev)) = Some blk"
    "mem_read blk (eaddr (sb info) i mod unat (bd_block_size dev)) 64 = Some bs"
    by (auto simp: peek_def dest: bind_eq_SomeD)
  with bs loc show ?thesis
    by (simp add: read_entry_from_real_sfs_def read_from_real_sfs_def Let_def flip: eword_def)
qed

lemma read_entry_ok:
  assumes "volume info" and "i < unat (entry_count (sb info))"
  shows "read_entry_from_real_sfs dev info (int i) = Some (Inr (file_table dev info ! i))"
    and "wf_fe (file_table dev info ! i)"
  using read_entry_peek [OF assms] wf_fe_of_bytes
  by (auto simp: nth_file_table [OF assms(2)] entry_def)

lemma wf_file_table: "volume info \<Longrightarrow> fe \<in> set (file_table dev info) \<Longrightarrow> wf_fe fe"
  by (auto simp: in_set_conv_nth read_entry_ok(2))

lemma super_block_kept:
  assumes v: "volume info" and i: "i < unat (entry_count (sb info))"
    and d': "patch dev (vfs_dev info) (eaddr (sb info) i div unat (bd_block_size dev))
                (eaddr (sb info) i mod unat (bd_block_size dev)) bs = Some d'"
  shows "read_sb_from_real_sfs dev (info\<lparr>vfs_dev := d'\<rparr>) = Some (Inr (sb info))"
proof -
  have ok: "ok (vfs_dev info)" and l: "sfs_layout (bd_block_size dev) (nblk (vfs_dev info)) (sb info)"
    and rd: "read_sb_from_real_sfs dev info = Some (Inr (sb info))"
    using v by (simp_all add: vol_ok_def)
  have "SIMULA_FS_BLOCK_SIZE \<le> eaddr (sb info) i" using l by (simp add: sfs_layout_def eaddr_def)
  then have "0 \<noteq> eaddr (sb info) i div unat (bd_block_size dev) \<or>
      0 + SIMULA_FS_BLOCK_SIZE \<le> eaddr (sb info) i mod unat (bd_block_size dev)"
    using div_mult_mod_eq [of "eaddr (sb info) i" "unat (bd_block_size dev)"]
    by (cases "eaddr (sb info) i div unat (bd_block_size dev) = 0") simp_all
  then have "peek dev d' 0 0 SIMULA_FS_BLOCK_SIZE = peek dev (vfs_dev info) 0 0 SIMULA_FS_BLOCK_SIZE"
    using peek_patch_other [OF ok entry_location(3) [OF l i] d'] by blast
  with read_sb_peekD [OF rd] read_sb_peek [of dev "info\<lparr>vfs_dev := d'\<rparr>"] show ?thesis by auto
qed

lemma write_entry_patch:
  assumes v: "volume info" and i: "i < unat (entry_count (sb info))" and fe: "wf_fe fe"
  shows "\<exists>d'. patch dev (vfs_dev info) (eaddr (sb info) i div unat (bd_block_size dev))
                (eaddr (sb info) i mod unat (bd_block_size dev)) (bytes_of_fe fe) = Some d' \<and>
         write_entry_to_real_sfs dev info (int i) fe = Some (0, info\<lparr>vfs_dev := d'\<rparr>) \<and>
         volume (info\<lparr>vfs_dev := d'\<rparr>)"
proof -
  have ok: "ok (vfs_dev info)" and l: "sfs_layout (bd_block_size dev) (nblk (vfs_dev info)) (sb info)"
    using v by (simp_all add: vol_ok_def)
  note loc = entry_location [OF l i]
  note len = length_bytes_of_fe [OF fe]
  obtain d' where d': "patch dev (vfs_dev info) (eaddr (sb info) i div unat (bd_block_size dev))
                (eaddr (sb info) i mod unat (bd_block_size dev)) (bytes_of_fe fe) = Some d'"
      "ok d'" "nblk d' = nblk (vfs_dev info)"
    using patch_ex [OF ok loc(3), of _ "bytes_of_fe fe"] loc(4) len by auto
  then obtain blk blk' where
    "bread dev (vfs_dev info) (eaddr (sb info) i div unat (bd_block_size dev)) = Some blk"
    "mem_write blk (eaddr (sb info) i mod unat (bd_block_size dev)) (bytes_of_fe fe) = Some blk'"
    "d' = bwrite dev (vfs_dev info) (eaddr (sb info) i div unat (bd_block_size dev)) blk'"
    by (auto simp: patch_def dest!: bind_eq_SomeD)
  then have w: "write_entry_to_real_sfs dev info (int i) fe = Some (0, info\<lparr>vfs_dev := d'\<rparr>)"
    using loc len
    by (simp add: write_entry_to_real_sfs_def write_to_real_sfs_def Let_def mem_read_def flip: eword_def)
  have "read_sb_from_real_sfs dev (info\<lparr>vfs_dev := d'\<rparr>) = Some (Inr (sb info))"
    using super_block_kept [OF v i d'(1)] .
  with d' l v w show ?thesis by (simp add: vol_ok_def)
qed

lemma write_entry_ok:
  assumes v: "volume info" and i: "i < unat (entry_count (sb info))" and fe: "wf_fe fe"
  shows "\<exists>d'. write_entry_to_real_sfs dev info (int i) fe = Some (0, info\<lparr>vfs_dev := d'\<rparr>) \<and>
         volume (info\<lparr>vfs_dev := d'\<rparr>) \<and>
         file_table dev (info\<lparr>vfs_dev := d'\<rparr>) = (file_table dev info)[i := fe]"
proof -
  have ok: "ok (vfs_dev info)" and l: "sfs_layout (bd_block_size dev) (nblk (vfs_dev info)) (sb info)"
    using v by (simp_all add: vol_ok_def)
  then have p: "0 < unat (bd_block_size dev)" by (simp add: sfs_layout_def)
  obtain d' where d': "patch dev (vfs_dev info) (eaddr (sb info) i div unat (bd_block_size dev))
                (eaddr (sb info) i mod unat (bd_block_size dev)) (bytes_of_fe fe) = Some d'"
      "write_entry_to_real_sfs dev info (int i) fe = Some (0, info\<lparr>vfs_dev := d'\<rparr>)"
      "volume (info\<lparr>vfs_dev := d'\<rparr>)"
    using write_entry_patch [OF assms] by auto
  let ?info' = "info\<lparr>vfs_dev := d'\<rparr>"
  have "file_table dev ?info' ! j = (file_table dev info)[i := fe] ! j"
    if j: "j < unat (entry_count (sb info))" for j
  proof (cases "j = i")
    case True
    from read_entry_peek [OF d'(3), of i] i
      peek_patch_same [OF ok entry_location(3) [OF l i] d'(1)] length_bytes_of_fe [OF fe]
    have "read_entry_from_real_sfs dev ?info' (int i) = Some (Inr (fe_of_bytes (bytes_of_fe fe)))"
      by auto
    with read_entry_ok(1) [OF d'(3), of i] i True fe show ?thesis by (simp add: fe_roundtrip)
  next
    case False
    have "peek dev d' (eaddr (sb info) j div unat (bd_block_size dev))
             (eaddr (sb info) j mod unat (bd_block_size dev)) 64
          = peek dev (vfs_dev info) (eaddr (sb info) j div unat (bd_block_size dev))
             (eaddr (sb info) j mod unat (bd_block_size dev)) 64"
      using peek_patch_other [OF ok entry_location(3) [OF l i] d'(1)] length_bytes_of_fe [OF fe]
        entries_disjoint [OF False p, of "sb info"] by metis
    with read_entry_peek [OF d'(3), of j] read_entry_peek [OF v j] j
    have "read_entry_from_real_sfs dev ?info' (int j) = read_entry_from_real_sfs dev info (int j)"
      by auto
    with read_entry_ok(1) [OF d'(3), of j] read_entry_ok(1) [OF v j] j False show ?thesis by simp
  qed
  then have "file_table dev ?info' = (file_table dev info)[i := fe]"
    by (intro nth_equalityI) simp_all
  with d' show ?thesis by blast
qed

end

section \<open>Abstract searches\<close>

definition tbl_free :: "sfs_file_entry list \<Rightarrow> nat option" where
  "tbl_free t = find (\<lambda>i. \<not> fe_used (t ! i)) [0..<length t]"

definition tbl_lookup :: "sfs_file_entry list \<Rightarrow> u8 list \<Rightarrow> nat option" where
  "tbl_lookup t fn = find (\<lambda>i. fe_used (t ! i) \<and> cstr (fe_name (t ! i)) = fn) [0..<length t]"

lemma tbl_free_Some: "tbl_free t = Some i \<Longrightarrow> i < length t \<and> \<not> fe_used (t ! i)"
  by (auto simp: tbl_free_def dest: find_Some_nth)

lemma tbl_free_None: "tbl_free t = None \<longleftrightarrow> (\<forall>i<length t. fe_used (t ! i))"
  by (auto simp: tbl_free_def find_None_iff)

lemma tbl_lookup_Some:
  "tbl_lookup t fn = Some i \<Longrightarrow> i < length t \<and> fe_used (t ! i) \<and> cstr (fe_name (t ! i)) = fn"
  by (auto simp: tbl_lookup_def dest: find_Some_nth)

lemma tbl_lookup_None:
  "tbl_lookup t fn = None \<longleftrightarrow> (\<forall>i<length t. fe_used (t ! i) \<longrightarrow> cstr (fe_name (t ! i)) \<noteq> fn)"
  by (auto simp: tbl_lookup_def find_None_iff)

lemma tbl_lookup_unique:
  assumes "i < length t" and "fe_used (t ! i)" and "cstr (fe_name (t ! i)) = fn"
    and "\<And>j. j < length t \<Longrightarrow> fe_used (t ! j) \<Longrightarrow> cstr (fe_name (t ! j)) = fn \<Longrightarrow> j = i"
  shows "tbl_lookup t fn = Some i"
proof (cases "tbl_lookup t fn")
  case None
  then have "fe_used (t ! i) \<longrightarrow> cstr (fe_name (t ! i)) \<noteq> fn"
    using assms(1) unfolding tbl_lookup_None by blast
  with assms(2,3) show ?thesis by blast
next
  case (Some j)
  with assms(4) [of j] tbl_lookup_Some [OF Some] show ?thesis by simp
qed

lemma wf_new_entry: "wf_fe fe \<Longrightarrow> wf_fe (new_entry fe fn perms now)"
  by (simp add: wf_fe_def new_entry_def SIMULA_FS_FILENAME_LEN_def)

lemma name_new_entry:
  assumes "wf_fe fe"
  shows "fe_name (new_entry fe fn perms now) = take 15 (fn @ replicate 15 0) @ [0]"
proof -
  have "length (drop 15 (fe_name fe)) = 1" using assms by (simp add: wf_fe_lengths)
  then obtain x where x: "drop 15 (fe_name fe) = [x]" by (metis One_nat_def length_0_conv length_Suc_conv)
  have "length (take 15 (fn @ replicate 15 (0::u8))) = 15" by simp
  then have "(take 15 (fn @ replicate 15 0) @ [x])[15 := 0] = take 15 (fn @ replicate 15 0) @ [0]"
    by (simp only: list_update_append) simp
  then show ?thesis by (simp add: new_entry_def strncpy_def SIMULA_FS_FILENAME_LEN_def x)
qed

lemma cstr_new_entry:
  assumes "wf_fe fe" and "is_cstr fn"
  shows "cstr (fe_name (new_entry fe fn perms now)) = take 15 fn"
proof (cases "length fn < 15")
  case True
  then obtain k where "replicate (15 - length fn) (0::u8) = 0 # replicate k 0"
    by (cases "15 - length fn") simp_all
  with assms True show ?thesis by (simp add: name_new_entry min_def)
next
  case False
  with assms show ?thesis by (simp add: name_new_entry)
qed

lemma used_new_entry:
  "wf_fe fe \<Longrightarrow> is_cstr fn \<Longrightarrow> fn \<noteq> [] \<Longrightarrow> fe_used (new_entry fe fn perms now)"
  using fe_used_iff [OF wf_new_entry] cstr_new_entry by simp

lemma blocks_new_entry [simp]: "fe_blocks (new_entry fe fn perms now) = replicate 9 0"
  by (simp add: new_entry_def)

context buffer_cache
begin

lemma create_scan_ok:
  assumes v: "volume info" and "\<forall>i\<in>set is. i < unat (entry_count (sb info))"
  shows "\<exists>fe'. create_scan dev info fe is = Some (find (\<lambda>i. \<not> fe_used (file_table dev info ! i)) is, fe') \<and>
     (\<forall>i. find (\<lambda>i. \<not> fe_used (file_table dev info ! i)) is = Some i \<longrightarrow> fe' = file_table dev info ! i)"
  using assms(2) by (induction "is" arbitrary: fe) (auto simp: read_entry_ok [OF v])

lemma lookup_scan_ok:
  fixes fn :: "u8 list"
  assumes v: "volume info" and "\<forall>i\<in>set is. i < unat (entry_count (sb info))"
  defines "P \<equiv> \<lambda>i. fe_used (file_table dev info ! i) \<and> cstr (fe_name (file_table dev info ! i)) = fn"
  shows "\<exists>fe'. lookup_scan dev info fn fe is = Some (find P is, fe') \<and>
     (\<forall>i. find P is = Some i \<longrightarrow> fe' = file_table dev info ! i)"
  using assms(2) unfolding P_def by (induction "is" arbitrary: fe) (auto simp: read_entry_ok [OF v])

lemma sfs_lookup_ok:
  assumes v: "volume info"
  shows "\<exists>fe'. sfs_lookup dev info fn fe =
       Some (case tbl_lookup (file_table dev info) fn of None \<Rightarrow> INV_INODE | Some i \<Rightarrow> S2V_INODE_NUM (int i), fe') \<and>
     (\<forall>i. tbl_lookup (file_table dev info) fn = Some i \<longrightarrow> fe' = file_table dev info ! i)"
  using lookup_scan_ok [OF v, of "[0..<unat (entry_count (sb info))]" fn fe]
  by (auto simp: sfs_lookup_def tbl_lookup_def)

lemma sfs_create_full:
  assumes v: "volume info" and "tbl_free (file_table dev info) = None"
  shows "\<exists>fe'. sfs_create dev now info fn perms fe = Some (INV_INODE, fe', info)"
  using create_scan_ok [OF v, of "[0..<unat (entry_count (sb info))]" fe] assms(2)
  by (auto simp: sfs_create_def tbl_free_def)

lemma sfs_create_ok:
  fixes fn :: "u8 list" and perms :: int and now :: u32
  assumes v: "volume info" and f: "tbl_free (file_table dev info) = Some i"
  defines "fe' \<equiv> new_entry (file_table dev info ! i) fn perms now"
  shows "\<exists>d'. sfs_create dev now info fn perms fe
           = Some (S2V_INODE_NUM (int i), fe', info\<lparr>vfs_dev := d'\<rparr>) \<and>
         volume (info\<lparr>vfs_dev := d'\<rparr>) \<and>
         file_table dev (info\<lparr>vfs_dev := d'\<rparr>) = (file_table dev info)[i := fe']"
proof -
  have i: "i < unat (entry_count (sb info))" using tbl_free_Some [OF f] by simp
  have "create_scan dev info fe [0..<unat (entry_count (sb info))] = Some (Some i, file_table dev info ! i)"
    using create_scan_ok [OF v, of "[0..<unat (entry_count (sb info))]" fe] f by (auto simp: tbl_free_def)
  moreover from write_entry_ok [OF v i wf_new_entry [OF read_entry_ok(2) [OF v i]], of fn perms now]
  obtain d' where "write_entry_to_real_sfs dev info (int i) fe' = Some (0, info\<lparr>vfs_dev := d'\<rparr>)"
    "volume (info\<lparr>vfs_dev := d'\<rparr>)"
    "file_table dev (info\<lparr>vfs_dev := d'\<rparr>) = (file_table dev info)[i := fe']"
    by (auto simp: fe'_def)
  ultimately show ?thesis by (auto simp: sfs_create_def fe'_def)
qed

end

section \<open>The used-block tracker\<close>

definition set_marks :: "u8 \<Rightarrow> u8 list \<Rightarrow> u32 list \<Rightarrow> u8 list" where
  "set_marks v ub bs = foldl (\<lambda>ub b. ub[unat b := v]) ub bs"

lemma length_set_marks [simp]: "length (set_marks v ub bs) = length ub"
  unfolding set_marks_def by (induction bs arbitrary: ub) simp_all

lemma nth_set_marks:
  "i < length ub \<Longrightarrow> set_marks v ub bs ! i = (if i \<in> unat ` set bs then v else ub ! i)"
  unfolding set_marks_def by (induction bs arbitrary: ub) (auto simp: nth_list_update)

lemma set_marks_append: "set_marks v ub (xs @ ys) = set_marks v (set_marks v ub xs) ys"
  by (simp add: set_marks_def)

lemma set_marks_simps [simp]:
  "set_marks v ub [] = ub" "set_marks v ub (b # bs) = set_marks v (ub[unat b := v]) bs"
  by (simp_all add: set_marks_def)

end
