(* ===== verification/Sfs_Inv.thy ===== *)
theory Sfs_Inv
  imports Sfs_Volume
begin

text \<open>
  The invariant of a mounted Simula volume and its preservation by the operations of
  \<open>Sfs_Ops\<close>. \<open>owned\<close> lists the data blocks of all files in use; the invariant says that no
  block is listed twice, all lie in the data area, no file has a hole before a later block,
  file names are unique, and the used-block tracker marks exactly the reserved blocks and the
  owned ones.
\<close>

section \<open>Ownership of blocks\<close>

definition file_blocks :: "sfs_file_entry \<Rightarrow> u32 list" where
  "file_blocks fe = (if fe_used fe then takeWhile (\<lambda>b. b \<noteq> 0) (fe_blocks fe) else [])"

definition no_holes :: "u32 list \<Rightarrow> bool" where
  "no_holes bs \<longleftrightarrow> list_all (\<lambda>b. b = 0) (dropWhile (\<lambda>b. b \<noteq> 0) bs)"

definition owned :: "sfs_file_entry list \<Rightarrow> u32 list" where
  "owned t = concat (map file_blocks t)"

definition tracker :: "sfs_super_block \<Rightarrow> sfs_file_entry list \<Rightarrow> u8 list" where
  "tracker s t =
     map (\<lambda>i. if i < unat (data_block_start s) \<or> i \<in> unat ` set (owned t) then 1 else 0)
       [0..<unat (partition_size s)]"

definition blocks_ok :: "sfs_super_block \<Rightarrow> sfs_file_entry list \<Rightarrow> bool" where
  "blocks_ok s t \<longleftrightarrow> distinct (owned t) \<and>
     (\<forall>b\<in>set (owned t). data_block_start s \<le> b \<and> b < partition_size s) \<and>
     (\<forall>fe\<in>set t. fe_used fe \<longrightarrow> no_holes (fe_blocks fe))"

definition names_ok :: "sfs_file_entry list \<Rightarrow> bool" where
  "names_ok t \<longleftrightarrow> (\<forall>i<length t. \<forall>j<length t. fe_used (t ! i) \<longrightarrow> fe_used (t ! j) \<longrightarrow>
     cstr (fe_name (t ! i)) = cstr (fe_name (t ! j)) \<longrightarrow> i = j)"

definition sfs_inv :: "'d bdev \<Rightarrow> ('d \<Rightarrow> nat) \<Rightarrow> ('d \<Rightarrow> bool) \<Rightarrow> 'd sfs_info \<Rightarrow> bool" where
  "sfs_inv dev nblk ok info \<longleftrightarrow> vol_ok dev nblk ok info \<and> \<not> locked info \<and>
     blocks_ok (sb info) (file_table dev info) \<and> names_ok (file_table dev info) \<and>
     used_blocks info = Some (tracker (sb info) (file_table dev info))"

section \<open>Lists of entries\<close>

lemma owned_simps [simp]: "owned [] = []" "owned (fe # t) = file_blocks fe @ owned t"
  by (simp_all add: owned_def)

lemma owned_append [simp]: "owned (xs @ ys) = owned xs @ owned ys"
  by (simp add: owned_def)

lemma owned_update:
  "i < length t \<Longrightarrow> owned (t[i := fe]) = owned (take i t) @ file_blocks fe @ owned (drop (Suc i) t)"
  by (simp add: upd_conv_take_nth_drop)

lemma owned_nth:
  "i < length t \<Longrightarrow> owned t = owned (take i t) @ file_blocks (t ! i) @ owned (drop (Suc i) t)"
  using owned_update [of i t "t ! i"] by simp

lemma file_blocks_owned: "fe \<in> set t \<Longrightarrow> set (file_blocks fe) \<subseteq> set (owned t)"
  by (auto simp: owned_def)

lemma no_holes_iff: "no_holes bs \<longleftrightarrow> (\<exists>k. bs = takeWhile (\<lambda>b. b \<noteq> 0) bs @ replicate k 0)"
proof
  assume "no_holes bs"
  then have "\<exists>k. dropWhile (\<lambda>b. b \<noteq> 0) bs = replicate k 0"
    unfolding no_holes_def list_all_iff by (blast intro: replicate_eqI)
  then obtain k where "dropWhile (\<lambda>b. b \<noteq> 0) bs = replicate k 0" ..
  with takeWhile_dropWhile_id [of "\<lambda>b. b \<noteq> 0" bs]
  have "bs = takeWhile (\<lambda>b. b \<noteq> 0) bs @ replicate k 0" by simp
  then show "\<exists>k. bs = takeWhile (\<lambda>b. b \<noteq> 0) bs @ replicate k 0" ..
next
  assume "\<exists>k. bs = takeWhile (\<lambda>b. b \<noteq> 0) bs @ replicate k 0"
  then obtain k where "bs = takeWhile (\<lambda>b. b \<noteq> 0) bs @ replicate k 0" ..
  moreover have "bs = takeWhile (\<lambda>b. b \<noteq> 0) bs @ dropWhile (\<lambda>b. b \<noteq> 0) bs" by simp
  ultimately have "dropWhile (\<lambda>b. b \<noteq> 0) bs = replicate k 0" by (metis same_append_eq)
  then show "no_holes bs" by (simp add: no_holes_def list_all_iff)
qed

lemma takeWhile_zeros: "0 \<notin> set xs \<Longrightarrow> takeWhile (\<lambda>b. b \<noteq> 0) (xs @ replicate k 0) = (xs :: u32 list)"
  by (induction xs) (auto simp: takeWhile_replicate)

lemma no_holes_zeros: "0 \<notin> set xs \<Longrightarrow> no_holes (xs @ replicate k 0)"
  by (simp add: no_holes_iff takeWhile_zeros)

lemma zero_notin_file_blocks: "0 \<notin> set (file_blocks fe)"
  by (auto simp: file_blocks_def dest: set_takeWhileD)

section \<open>The tracker\<close>

lemma length_tracker [simp]: "length (tracker s t) = unat (partition_size s)"
  by (simp add: tracker_def)

lemma nth_tracker:
  "i < unat (partition_size s) \<Longrightarrow>
   tracker s t ! i = (if i < unat (data_block_start s) \<or> i \<in> unat ` set (owned t) then 1 else 0)"
  by (simp add: tracker_def)

lemma unat_image_iff: "unat b \<in> unat ` S \<longleftrightarrow> b \<in> S"
  by (auto dest: word_unat_eq_iff [THEN iffD2])

lemma tracker_same:
  "i < length t \<Longrightarrow> file_blocks fe = file_blocks (t ! i) \<Longrightarrow> owned (t[i := fe]) = owned t"
  by (simp add: owned_update owned_nth [of i t])

lemma tracker_drop:
  assumes i: "i < length t" and ok: "blocks_ok s t"
    and split: "file_blocks (t ! i) = keep @ gone" and new: "file_blocks fe = keep"
  shows "tracker s (t[i := fe]) = set_marks 0 (tracker s t) gone"
proof (rule nth_equalityI)
  fix j assume "j < length (tracker s (t[i := fe]))"
  then have j: "j < unat (partition_size s)" by simp
  have d: "distinct (owned t)" and r: "\<forall>b\<in>set (owned t). data_block_start s \<le> b"
    using ok by (auto simp: blocks_ok_def)
  have o: "set (owned t) = set (owned (t[i := fe])) \<union> set gone"
    using i by (auto simp: owned_update owned_nth [of i t] split new)
  have disj: "set (owned (t[i := fe])) \<inter> set gone = {}"
    using d i by (auto simp: owned_update owned_nth [of i t] split new)
  have "inj (unat :: u32 \<Rightarrow> nat)" by (rule injI) (simp add: word_unat_eq_iff)
  then have disj': "unat ` set (owned (t[i := fe])) \<inter> unat ` set gone = {}"
    using disj by (metis image_Int image_empty)
  have "\<not> j < unat (data_block_start s)" if "j \<in> unat ` set gone"
    using that r o by (force simp: word_le_nat_alt)
  then show "tracker s (t[i := fe]) ! j = set_marks 0 (tracker s t) gone ! j"
    using j disj' by (simp add: nth_tracker nth_set_marks o image_Un) blast
qed simp

lemma tracker_add:
  assumes i: "i < length t" and new: "file_blocks fe = file_blocks (t ! i) @ [b]"
    and b: "unat b < unat (partition_size s)"
  shows "tracker s (t[i := fe]) = (tracker s t)[unat b := 1]"
proof (rule nth_equalityI)
  fix j assume "j < length (tracker s (t[i := fe]))"
  then have j: "j < unat (partition_size s)" by simp
  have "set (owned (t[i := fe])) = insert b (set (owned t))"
    using i by (auto simp: owned_update owned_nth [of i t] new)
  then show "tracker s (t[i := fe]) ! j = (tracker s t)[unat b := 1] ! j"
    using j b by (auto simp: nth_tracker nth_list_update)
qed simp

section \<open>Entry updates\<close>

lemma blocks_ok_update:
  assumes i: "i < length t" and ok: "blocks_ok s t"
    and d: "distinct (owned (t[i := fe]))"
    and r: "\<forall>b\<in>set (file_blocks fe). data_block_start s \<le> b \<and> b < partition_size s"
    and h: "fe_used fe \<longrightarrow> no_holes (fe_blocks fe)"
  shows "blocks_ok s (t[i := fe])"
proof -
  have "set (owned (t[i := fe])) \<subseteq> set (owned t) \<union> set (file_blocks fe)"
    using i by (auto simp: owned_update owned_nth [of i t])
  with ok r have "\<forall>b\<in>set (owned (t[i := fe])). data_block_start s \<le> b \<and> b < partition_size s"
    by (auto simp: blocks_ok_def)
  moreover have "\<forall>f\<in>set (t[i := fe]). fe_used f \<longrightarrow> no_holes (fe_blocks f)"
    using ok h set_update_subset_insert [of t i fe] by (auto simp: blocks_ok_def)
  ultimately show ?thesis using d by (simp add: blocks_ok_def)
qed

lemma blocks_ok_drop:
  assumes i: "i < length t" and ok: "blocks_ok s t"
    and split: "file_blocks (t ! i) = keep @ gone" and new: "file_blocks fe = keep"
    and h: "fe_used fe \<longrightarrow> no_holes (fe_blocks fe)"
  shows "blocks_ok s (t[i := fe])"
proof (rule blocks_ok_update [OF i ok _ _ h])
  show "distinct (owned (t[i := fe]))"
    using ok i by (auto simp: blocks_ok_def owned_update owned_nth [of i t] split new)
  have "set keep \<subseteq> set (owned t)"
    using file_blocks_owned [of "t ! i" t] i split by auto
  with ok new show "\<forall>b\<in>set (file_blocks fe). data_block_start s \<le> b \<and> b < partition_size s"
    by (auto simp: blocks_ok_def)
qed

lemma names_ok_same:
  assumes i: "i < length t" and ok: "names_ok t" and "fe_used fe \<longrightarrow> fe_used (t ! i)"
    and "cstr (fe_name fe) = cstr (fe_name (t ! i))"
  shows "names_ok (t[i := fe])"
  using assms unfolding names_ok_def by (auto simp: nth_list_update)

lemma names_ok_unused:
  assumes ok: "names_ok t" and "\<not> fe_used fe" and "i < length t"
  shows "names_ok (t[i := fe])"
  using assms unfolding names_ok_def by (auto simp: nth_list_update)

lemma names_ok_new:
  assumes ok: "names_ok t" and "\<forall>j<length t. fe_used (t ! j) \<longrightarrow> cstr (fe_name (t ! j)) \<noteq> cstr (fe_name fe)"
    and "i < length t"
  shows "names_ok (t[i := fe])"
  using assms unfolding names_ok_def by (auto simp: nth_list_update)

lemma tbl_lookup_names:
  "names_ok t \<Longrightarrow> i < length t \<Longrightarrow> fe_used (t ! i) \<Longrightarrow> tbl_lookup t (cstr (fe_name (t ! i))) = Some i"
  by (rule tbl_lookup_unique) (auto simp: names_ok_def)

section \<open>The loops over the tracker\<close>

lemma info_unlock [simp]: "\<not> locked info \<Longrightarrow> info\<lparr>locked := False\<rparr> = info"
  by (cases info) simp

lemma info_used [simp]: "used_blocks info = Some ub \<Longrightarrow> info\<lparr>used_blocks := Some ub\<rparr> = info"
  by (cases info) simp

lemma fill_used_ok:
  "\<forall>i\<in>set is. i < length ub \<Longrightarrow>
   fill_used v is ub = Some (map (\<lambda>i. if i \<in> set is then v else ub ! i) [0..<length ub])"
proof (induction "is" arbitrary: ub)
  case Nil
  then show ?case by (simp add: map_nth)
next
  case (Cons i "is")
  then have "fill_used v is (ub[i := v]) =
      Some (map (\<lambda>j. if j \<in> set is then v else (ub[i := v]) ! j) [0..<length ub])"
    by simp
  with Cons.prems show ?case by (auto simp: arr_set_in nth_list_update)
qed

lemma initial_used:
  assumes "length mem = n" and "a \<le> n"
  shows "\<exists>ub. fill_used 1 [0..<a] mem = Some ub \<and>
     fill_used 0 [a..<n] ub = Some (map (\<lambda>i. if i < a then 1 else 0) [0..<n])"
  using assms by (auto simp: fill_used_ok)

lemma mark_blocks_ok:
  "\<forall>b\<in>set (takeWhile (\<lambda>b. b \<noteq> 0) bs). unat b < length ub \<Longrightarrow>
   mark_blocks bs ub = Some (set_marks 1 ub (takeWhile (\<lambda>b. b \<noteq> 0) bs))"
  by (induction bs arbitrary: ub) (auto simp: arr_set_in)

lemma sfs_put_data_block_ok:
  fixes b :: u32
  assumes "\<not> locked info" and "used_blocks info = Some ub" and "unat b < length ub" and "length ub < 2 ^ 31"
  shows "sfs_put_data_block info (sint b) = Some (info\<lparr>used_blocks := Some (ub[unat b := 0])\<rparr>)"
proof -
  have "sint b = int (unat b)" using assms by (intro sint_small) simp
  with assms show ?thesis
    by (simp add: sfs_put_data_block_def spin_lock_def spin_unlock_def arr_set_in)
qed

lemma put_blocks_ok:
  "\<not> locked info \<Longrightarrow> used_blocks info = Some ub \<Longrightarrow> length ub < 2 ^ 31 \<Longrightarrow>
   \<forall>b\<in>set (takeWhile (\<lambda>b. b \<noteq> 0) bs). unat b < length ub \<Longrightarrow>
   put_blocks info bs = Some (info\<lparr>used_blocks := Some (set_marks 0 ub (takeWhile (\<lambda>b. b \<noteq> 0) bs))\<rparr>)"
proof (induction bs arbitrary: info ub)
  case Nil
  then show ?case by simp
next
  case (Cons b bs)
  show ?case
  proof (cases "b = 0")
    case True
    with Cons.prems show ?thesis by simp
  next
    case False
    let ?info' = "info\<lparr>used_blocks := Some (ub[unat b := 0])\<rparr>"
    have "sfs_put_data_block info (sint b) = Some ?info'"
      using Cons.prems False by (intro sfs_put_data_block_ok) simp_all
    moreover have "put_blocks ?info' bs = Some (?info'\<lparr>used_blocks := Some (set_marks 0 (ub[unat b := 0]) (takeWhile (\<lambda>b. b \<noteq> 0) bs))\<rparr>)"
      using Cons.prems False by (intro Cons.IH) simp_all
    ultimately show ?thesis using False by simp
  qed
qed

lemma trunc_blocks_ok:
  "\<not> locked info \<Longrightarrow> used_blocks info = Some ub \<Longrightarrow> length ub < 2 ^ 31 \<Longrightarrow> k \<le> length bs \<Longrightarrow>
   \<forall>b\<in>set (drop k bs). unat b < length ub \<Longrightarrow>
   trunc_blocks info bs [k..<length bs] =
     Some (info\<lparr>used_blocks := Some (set_marks 0 ub (filter (\<lambda>b. b \<noteq> 0) (drop k bs)))\<rparr>,
           take k bs @ replicate (length bs - k) 0)"
proof (induction "length bs - k" arbitrary: k bs info ub)
  case 0
  then show ?case by simp
next
  case (Suc n)
  then have k: "k < length bs" by simp
  have up: "[k..<length bs] = k # [Suc k..<length bs]" using k by (simp add: upt_conv_Cons)
  have dr: "drop k bs = bs ! k # drop (Suc k) bs" using k by (simp add: Cons_nth_drop_Suc)
  have rep: "replicate (length bs - k) (0::u32) = 0 # replicate (length bs - Suc k) 0"
    using k by (simp add: Suc_diff_Suc flip: replicate_Suc)
  have tk: "take (Suc k) (bs[k := 0]) = take k bs @ [0]"
    using k by (simp add: take_Suc_conv_app_nth)
  show ?case
  proof (cases "bs ! k = 0")
    case True
    have "take (Suc k) bs = take k bs @ [0]" using k True by (simp add: take_Suc_conv_app_nth)
    moreover have "trunc_blocks info bs [Suc k..<length bs] =
       Some (info\<lparr>used_blocks := Some (set_marks 0 ub (filter (\<lambda>b. b \<noteq> 0) (drop (Suc k) bs)))\<rparr>,
             take (Suc k) bs @ replicate (length bs - Suc k) 0)"
      using Suc.prems Suc.hyps k dr by (intro Suc.hyps(1)) simp_all
    ultimately show ?thesis using k True by (simp add: up dr rep arr_get_in)
  next
    case False
    let ?info' = "info\<lparr>used_blocks := Some (ub[unat (bs ! k) := 0])\<rparr>"
    have p: "sfs_put_data_block info (sint (bs ! k)) = Some ?info'"
      using Suc.prems dr by (intro sfs_put_data_block_ok) simp_all
    have "trunc_blocks ?info' (bs[k := 0]) [Suc k..<length (bs[k := 0])] =
       Some (?info'\<lparr>used_blocks := Some (set_marks 0 (ub[unat (bs ! k) := 0]) (filter (\<lambda>b. b \<noteq> 0) (drop (Suc k) (bs[k := 0]))))\<rparr>,
             take (Suc k) (bs[k := 0]) @ replicate (length (bs[k := 0]) - Suc k) 0)"
      using Suc.prems Suc.hyps k dr by (intro Suc.hyps(1)) simp_all
    with p False k show ?thesis by (simp add: up dr rep arr_get_in arr_set_in tk)
  qed
qed

lemma scan_free_ok:
  "\<forall>i\<in>set is. i < length ub \<Longrightarrow> scan_free ub is = Some (find (\<lambda>i. ub ! i = 0) is)"
  by (induction "is") (auto simp: arr_get_in)

lemma sfs_get_data_block_ok:
  assumes "\<not> locked info" and "used_blocks info = Some ub" and "unat (partition_size (sb info)) \<le> length ub"
  shows "sfs_get_data_block info =
     Some (case find (\<lambda>i. ub ! i = 0) [unat (data_block_start (sb info))..<unat (partition_size (sb info))] of
             None \<Rightarrow> (INV_BLOCK, info)
           | Some i \<Rightarrow> (int i, info\<lparr>used_blocks := Some (ub[i := 1])\<rparr>))"
proof -
  let ?is = "[unat (data_block_start (sb info))..<unat (partition_size (sb info))]"
  have s: "scan_free ub ?is = Some (find (\<lambda>i. ub ! i = 0) ?is)"
    using assms by (intro scan_free_ok) auto
  have "i < length ub" if "find (\<lambda>i. ub ! i = 0) ?is = Some i" for i
    using find_Some_nth [OF that] assms(3) by auto
  with s assms show ?thesis
    by (auto simp: sfs_get_data_block_def spin_lock_def spin_unlock_def arr_set_in split: option.split)
qed

section \<open>The invariant under the operations\<close>

lemma update_fields_simps [simp]:
  "fe_name (update_fields fe sz ts pm) = fe_name fe"
  "fe_blocks (update_fields fe sz ts pm) = fe_blocks fe"
  "fe_used (update_fields fe sz ts pm) = fe_used fe"
  "wf_fe (update_fields fe sz ts pm) = wf_fe fe"
  by (simp_all add: update_fields_def fe_used_def wf_fe_def Let_def split: option.split)

lemma quotient_nonneg:
  assumes "1 < unat (b :: u32)"
  shows "sint (a div b) = int (unat a div unat b)"
proof -
  have "unat (a div b) = unat a div unat b" by (simp add: unat_div)
  also have "\<dots> \<le> unat a div 2" using assms by (intro div_le_mono2) simp_all
  also have "\<dots> < 2 ^ 31"
  proof -
    have "unat a < 4294967296" using unsigned_less [of a] by simp
    then show ?thesis by (simp add: less_mult_imp_div_less)
  qed
  finally show ?thesis by (simp add: sint_small unat_div)
qed

lemma no_holes_filter: "no_holes bs \<Longrightarrow> filter (\<lambda>b. b \<noteq> 0) (drop k bs) = drop k (takeWhile (\<lambda>b. b \<noteq> 0) bs)"
proof -
  let ?t = "takeWhile (\<lambda>b. b \<noteq> 0) bs"
  assume "no_holes bs"
  then obtain n where bs: "bs = ?t @ replicate n 0" unfolding no_holes_iff ..
  have nz: "filter (\<lambda>b. b \<noteq> 0) (drop k ?t) = drop k ?t"
    by (rule filter_True) (auto dest!: in_set_dropD set_takeWhileD)
  show ?thesis by (subst bs) (simp add: nz)
qed

lemma no_holes_take:
  assumes "no_holes bs"
  shows "takeWhile (\<lambda>b. b \<noteq> 0) (take k bs @ replicate n 0) = take k (takeWhile (\<lambda>b. b \<noteq> 0) bs)"
    and "no_holes (take k bs @ replicate n 0)"
proof -
  let ?t = "takeWhile (\<lambda>b. b \<noteq> 0) bs"
  obtain m where bs: "bs = ?t @ replicate m 0" using assms unfolding no_holes_iff ..
  have nz: "0 \<notin> set (take k ?t)" by (auto dest!: in_set_takeD set_takeWhileD)
  have e: "take k bs @ replicate n 0 = take k ?t @ replicate (min (k - length ?t) m + n) 0"
    by (subst bs) (simp add: replicate_add)
  show "takeWhile (\<lambda>b. b \<noteq> 0) (take k bs @ replicate n 0) = take k ?t"
    unfolding e using nz by (rule takeWhile_zeros)
  show "no_holes (take k bs @ replicate n 0)"
    unfolding e using nz by (rule no_holes_zeros)
qed

lemma file_blocks_bound:
  assumes "blocks_ok s t" and "fe \<in> set t" and "b \<in> set (file_blocks fe)"
  shows "unat b < unat (partition_size s)"
  using assms file_blocks_owned [of fe t] by (auto simp: blocks_ok_def word_less_nat_alt)

context buffer_cache
begin

abbreviation "invariant \<equiv> sfs_inv dev nblk ok"

lemma mark_entries_ok:
  assumes v: "volume info" and "\<forall>i\<in>set is. i < unat (entry_count (sb info))"
    and "\<forall>i\<in>set is. \<forall>b\<in>set (file_blocks (file_table dev info ! i)). unat b < length ub"
  shows "mark_entries dev info is ub =
     Some (Inr (set_marks 1 ub (concat (map (\<lambda>i. file_blocks (file_table dev info ! i)) is))))"
  using assms(2,3)
proof (induction "is" arbitrary: ub)
  case Nil
  then show ?case by simp
next
  case (Cons i "is")
  show ?case
  proof (cases "fe_used (file_table dev info ! i)")
    case True
    then have "mark_blocks (fe_blocks (file_table dev info ! i)) ub
               = Some (set_marks 1 ub (file_blocks (file_table dev info ! i)))"
      using Cons.prems by (simp add: file_blocks_def mark_blocks_ok)
    with True Cons show ?thesis by (simp add: read_entry_ok [OF v] set_marks_append)
  next
    case False
    with Cons show ?thesis by (simp add: read_entry_ok [OF v] file_blocks_def)
  qed
qed

lemma init_browsing_owned:
  assumes al: "alloc (unat (partition_size s)) = Some mem" "length mem = unat (partition_size s)"
    and v: "volume (info\<lparr>sb := s\<rparr>)" and bk: "\<forall>b\<in>set (owned (file_table dev (info\<lparr>sb := s\<rparr>))). b < partition_size s"
  shows "init_browsing dev alloc info =
     Some (0, info\<lparr>sb := s, used_blocks := Some (tracker s (file_table dev (info\<lparr>sb := s\<rparr>))),
                   s_fs_info := True, locked := False\<rparr>)"
proof -
  let ?t = "file_table dev (info\<lparr>sb := s\<rparr>)"
  let ?n = "unat (partition_size s)" and ?a = "unat (data_block_start s)"
  let ?ub = "map (\<lambda>i. if i < ?a then 1 else 0) [0..<?n] :: u8 list"
  have rd: "read_sb_from_real_sfs dev info = Some (Inr s)" and ty: "sb_type s = SIMULA_FS_TYPE"
    using v read_sb_dev_sb [of info "info\<lparr>sb := s\<rparr>" dev] by (simp_all add: vol_ok_def)
  have an: "?a \<le> ?n" using v by (simp add: vol_ok_def sfs_layout_def word_le_nat_alt)
  obtain ub1 where ub1: "fill_used 1 [0..<?a] mem = Some ub1" "fill_used 0 [?a..<?n] ub1 = Some ?ub"
    using initial_used [OF al(2) an] by auto
  have "map (\<lambda>i. file_blocks (?t ! i)) [0..<length ?t] = map file_blocks ?t"
    by (rule nth_equalityI) simp_all
  then have o: "concat (map (\<lambda>i. file_blocks (?t ! i)) [0..<unat (entry_count s)]) = owned ?t"
    by (simp add: owned_def)
  have bd: "\<forall>i\<in>set [0..<unat (entry_count s)]. \<forall>b\<in>set (file_blocks (?t ! i)). unat b < length ?ub"
  proof (intro ballI)
    fix i b assume "i \<in> set [0..<unat (entry_count s)]" and b: "b \<in> set (file_blocks (?t ! i))"
    then have "?t ! i \<in> set ?t" by (intro nth_mem) simp
    with b bk file_blocks_owned [of "?t ! i" ?t] show "unat b < length ?ub" by (auto simp: word_less_nat_alt)
  qed
  have "mark_entries dev (info\<lparr>sb := s\<rparr>) [0..<unat (entry_count s)] ?ub
        = Some (Inr (set_marks 1 ?ub (owned ?t)))"
    using mark_entries_ok [OF v _ bd] o by simp
  moreover have "set_marks 1 ?ub (owned ?t) = tracker s ?t"
    by (rule nth_equalityI) (simp_all add: nth_set_marks nth_tracker)
  ultimately show ?thesis
    using rd ty al ub1 by (simp add: init_browsing_def Let_def)
qed

lemma init_browsing_ok:
  assumes "alloc (unat (partition_size s)) = Some mem" "length mem = unat (partition_size s)"
    and "volume (info\<lparr>sb := s\<rparr>)" and "blocks_ok s (file_table dev (info\<lparr>sb := s\<rparr>))"
  shows "init_browsing dev alloc info =
     Some (0, info\<lparr>sb := s, used_blocks := Some (tracker s (file_table dev (info\<lparr>sb := s\<rparr>))),
                   s_fs_info := True, locked := False\<rparr>)"
  using assms by (intro init_browsing_owned) (simp_all add: blocks_ok_def)

lemma sfs_create_inv:
  fixes fn :: "u8 list" and perms :: int and now :: u32
  assumes inv: "invariant info" and fn: "is_cstr fn" "fn \<noteq> []"
    and new: "tbl_lookup (file_table dev info) (take 15 fn) = None"
    and f: "tbl_free (file_table dev info) = Some i"
  defines "fe' \<equiv> new_entry (file_table dev info ! i) fn perms now"
  shows "\<exists>d'. sfs_create dev now info fn perms fe = Some (S2V_INODE_NUM (int i), fe', info\<lparr>vfs_dev := d'\<rparr>) \<and>
         file_table dev (info\<lparr>vfs_dev := d'\<rparr>) = (file_table dev info)[i := fe'] \<and>
         invariant (info\<lparr>vfs_dev := d'\<rparr>)"
proof -
  let ?t = "file_table dev info"
  have v: "volume info" and bk: "blocks_ok (sb info) ?t" and nm: "names_ok ?t"
    using inv by (simp_all add: sfs_inv_def)
  have i: "i < length ?t" and un: "\<not> fe_used (?t ! i)" using tbl_free_Some [OF f] by simp_all
  have wf: "wf_fe (?t ! i)" using read_entry_ok(2) [OF v] i by simp
  have cs: "cstr (fe_name fe') = take 15 fn" unfolding fe'_def using wf fn(1) by (rule cstr_new_entry)
  have fb: "file_blocks fe' = []" "file_blocks (?t ! i) = []"
    using un by (simp_all add: file_blocks_def fe'_def takeWhile_replicate)
  have o: "owned (?t[i := fe']) = owned ?t" using tracker_same [OF i] fb by simp
  have nh: "no_holes (fe_blocks fe')" using no_holes_zeros [of "[]" 9] by (simp add: fe'_def)
  have "blocks_ok (sb info) (?t[i := fe'])"
    using bk o nh fb by (intro blocks_ok_update [OF i bk]) (simp_all add: blocks_ok_def)
  moreover have "names_ok (?t[i := fe'])"
    using new i unfolding tbl_lookup_None by (intro names_ok_new [OF nm]) (auto simp: cs)
  moreover have "tracker (sb info) (?t[i := fe']) = tracker (sb info) ?t"
    by (simp add: tracker_def o)
  moreover obtain d' where "sfs_create dev now info fn perms fe = Some (S2V_INODE_NUM (int i), fe', info\<lparr>vfs_dev := d'\<rparr>)"
      "volume (info\<lparr>vfs_dev := d'\<rparr>)" "file_table dev (info\<lparr>vfs_dev := d'\<rparr>) = ?t[i := fe']"
    using sfs_create_ok [OF v f, of now fn perms fe] by (auto simp: fe'_def)
  ultimately show ?thesis using inv by (auto simp: sfs_inv_def)
qed

lemma tracker_small: "volume info \<Longrightarrow> length (tracker (sb info) t) < 2 ^ 31"
  by (simp add: vol_ok_def sfs_layout_def)

lemma sfs_remove_inv:
  assumes inv: "invariant info" and l: "tbl_lookup (file_table dev info) fn = Some i"
  shows "\<exists>info'. sfs_remove dev info fn = Some (S2V_INODE_NUM (int i), info') \<and> sb info' = sb info \<and>
         file_table dev info' = (file_table dev info)[i := zero_fe] \<and> invariant info'"
proof -
  let ?t = "file_table dev info"
  let ?ub = "tracker (sb info) ?t" and ?fb = "file_blocks (?t ! i)"
  have v: "volume info" and bk: "blocks_ok (sb info) ?t" and nm: "names_ok ?t"
    and ub: "used_blocks info = Some ?ub" and lk: "\<not> locked info"
    using inv by (simp_all add: sfs_inv_def)
  have i: "i < length ?t" and us: "fe_used (?t ! i)" using tbl_lookup_Some [OF l] by simp_all
  let ?info1 = "info\<lparr>used_blocks := Some (set_marks 0 ?ub ?fb)\<rparr>"
  have "\<forall>b\<in>set ?fb. unat b < length ?ub"
    using file_blocks_bound [OF bk nth_mem [OF i]] by simp
  then have pb: "put_blocks info (fe_blocks (?t ! i)) = Some ?info1"
    using put_blocks_ok [OF lk ub tracker_small [OF v], of "fe_blocks (?t ! i)"] us
    by (simp add: file_blocks_def)
  have v1: "volume ?info1" and t1: "file_table dev ?info1 = ?t"
    using v by (simp_all add: vol_ok_dev_sb [of ?info1 info] file_table_dev_sb [of ?info1 info])
  have i1: "i < unat (entry_count (sb ?info1))" using i by simp
  obtain d' where w: "write_entry_to_real_sfs dev ?info1 (int i) zero_fe = Some (0, ?info1\<lparr>vfs_dev := d'\<rparr>)"
      "volume (?info1\<lparr>vfs_dev := d'\<rparr>)" "file_table dev (?info1\<lparr>vfs_dev := d'\<rparr>) = ?t[i := zero_fe]"
    using write_entry_ok [OF v1 i1 wf_zero_fe] t1 by auto
  have lk2: "sfs_lookup dev info fn zero_fe = Some (S2V_INODE_NUM (int i), ?t ! i)"
    using sfs_lookup_ok [OF v, of fn zero_fe] l by auto
  have r: "sfs_remove dev info fn = Some (S2V_INODE_NUM (int i), ?info1\<lparr>vfs_dev := d'\<rparr>)"
    using lk2 pb w by (simp add: sfs_remove_def inode_num_defs)
  have z: "file_blocks zero_fe = []" by (simp add: file_blocks_def)
  have "tracker (sb info) (?t[i := zero_fe]) = set_marks 0 ?ub ?fb"
    using tracker_drop [OF i bk _ z] by simp
  moreover have "blocks_ok (sb info) (?t[i := zero_fe])"
    by (rule blocks_ok_drop [OF i bk _ z]) simp_all
  moreover have "names_ok (?t[i := zero_fe])" by (rule names_ok_unused [OF nm _ i]) simp
  ultimately have "invariant (?info1\<lparr>vfs_dev := d'\<rparr>)"
    using w lk by (simp add: sfs_inv_def)
  with r w show ?thesis by auto
qed

text \<open>The number of blocks a file of the given entry's size needs.\<close>

lemma sfs_update_ok:
  fixes sz ts pm :: "int option"
  assumes v: "volume info" and lk: "\<not> locked info" and ub: "used_blocks info = Some ub" "length ub < 2 ^ 31"
    and i: "i < unat (entry_count (sb info))"
  defines "fe \<equiv> update_fields (file_table dev info ! i) sz ts pm"
  defines "k \<equiv> unat (fe_size fe + block_size (sb info) - 1) div unat (block_size (sb info))"
  assumes bd: "\<forall>b\<in>set (drop k (fe_blocks fe)). unat b < length ub"
  defines "info1 \<equiv> info\<lparr>used_blocks := Some (set_marks 0 ub (filter (\<lambda>b. b \<noteq> 0) (drop k (fe_blocks fe))))\<rparr>"
  defines "fe1 \<equiv> fe\<lparr>fe_blocks := take k (fe_blocks fe) @ replicate (9 - k) 0\<rparr>"
  shows "\<exists>d'. sfs_update dev info (S2V_INODE_NUM (int i)) sz ts pm = Some (0, info1\<lparr>vfs_dev := d'\<rparr>) \<and>
     volume (info1\<lparr>vfs_dev := d'\<rparr>) \<and>
     file_table dev (info1\<lparr>vfs_dev := d'\<rparr>) = (file_table dev info)[i := fe1]"
proof -
  have wf: "wf_fe fe" using read_entry_ok(2) [OF v i] by (simp add: fe_def)
  then have len: "length (fe_blocks fe) = 9" by (rule wf_fe_lengths)
  have bs: "1 < unat (block_size (sb info))" using v by (simp add: vol_ok_def sfs_layout_def)
  then have bs0: "block_size (sb info) \<noteq> 0" by auto
  have q: "sint ((fe_size fe + block_size (sb info) - 1) div block_size (sb info)) = int k"
    unfolding k_def using bs by (rule quotient_nonneg)
  have tr: "trunc_blocks info (fe_blocks fe) [k..<9] = Some (info1, fe_blocks fe1)"
  proof (cases "k \<le> 9")
    case True
    then show ?thesis
      using trunc_blocks_ok [OF lk ub, of k "fe_blocks fe"] bd len by (simp add: info1_def fe1_def)
  next
    case False
    then show ?thesis using len ub by (simp add: info1_def fe1_def)
  qed
  have v1: "volume info1" and t1: "file_table dev info1 = file_table dev info"
    using v by (simp_all add: info1_def vol_ok_dev_sb [of info1 info, unfolded info1_def]
        file_table_dev_sb [of info1 info, unfolded info1_def])
  have i1: "i < unat (entry_count (sb info1))" using i by (simp add: info1_def)
  have wf1: "wf_fe fe1" using wf len by (simp add: fe1_def wf_fe_def)
  obtain d' where "write_entry_to_real_sfs dev info1 (int i) fe1 = Some (0, info1\<lparr>vfs_dev := d'\<rparr>)"
      "volume (info1\<lparr>vfs_dev := d'\<rparr>)" "file_table dev (info1\<lparr>vfs_dev := d'\<rparr>) = (file_table dev info)[i := fe1]"
    using write_entry_ok [OF v1 i1 wf1] t1 by auto
  moreover have "fe\<lparr>fe_blocks := fe_blocks fe1\<rparr> = fe1" by (simp add: fe1_def)
  ultimately show ?thesis
    using read_entry_ok(1) [OF v i] tr bs0 q
    by (intro exI [of _ d']) (simp add: sfs_update_def sfs_get_file_entry_def V2S_INODE_NUM_def
        S2V_INODE_NUM_def Let_def flip: fe_def)
qed

lemma sfs_update_inv:
  fixes sz ts pm :: "int option"
  assumes inv: "invariant info" and i: "i < unat (entry_count (sb info))"
    and us: "fe_used (file_table dev info ! i)"
  defines "fe \<equiv> update_fields (file_table dev info ! i) sz ts pm"
  defines "k \<equiv> unat (fe_size fe + block_size (sb info) - 1) div unat (block_size (sb info))"
  shows "\<exists>info'. sfs_update dev info (S2V_INODE_NUM (int i)) sz ts pm = Some (0, info') \<and> sb info' = sb info \<and>
     file_table dev info' = (file_table dev info)[i := fe\<lparr>fe_blocks := take k (fe_blocks fe) @ replicate (9 - k) 0\<rparr>] \<and>
     invariant info'"
proof -
  let ?t = "file_table dev info"
  let ?ub = "tracker (sb info) ?t" and ?fb = "file_blocks (?t ! i)"
  let ?fe1 = "fe\<lparr>fe_blocks := take k (fe_blocks fe) @ replicate (9 - k) 0\<rparr>"
  have v: "volume info" and bk: "blocks_ok (sb info) ?t" and nm: "names_ok ?t"
    and ub: "used_blocks info = Some ?ub" and lk: "\<not> locked info"
    using inv by (simp_all add: sfs_inv_def)
  have it: "i < length ?t" using i by simp
  have nh: "no_holes (fe_blocks (?t ! i))" using bk us nth_mem [OF it] by (simp add: blocks_ok_def)
  have fb: "?fb = takeWhile (\<lambda>b. b \<noteq> 0) (fe_blocks (?t ! i))" using us by (simp add: file_blocks_def)
  have gone: "filter (\<lambda>b. b \<noteq> 0) (drop k (fe_blocks fe)) = drop k ?fb"
    using no_holes_filter [OF nh] fb by (simp add: fe_def)
  have ps: "0 < unat (partition_size (sb info))"
    using v by (auto simp: vol_ok_def sfs_layout_def word_le_nat_alt)
  have mem: "unat b < unat (partition_size (sb info))" if "b \<in> set ?fb" for b
    using file_blocks_bound [OF bk nth_mem [OF it] that] .
  have bd: "\<forall>b\<in>set (drop k (fe_blocks fe)). unat b < length ?ub"
  proof (intro ballI)
    fix b
    assume "b \<in> set (drop k (fe_blocks fe))"
    then have "b = 0 \<or> b \<in> set (drop k ?fb)" unfolding gone [symmetric] by simp
    then show "unat b < length ?ub" using ps mem in_set_dropD [of b k ?fb] by auto
  qed
  obtain d' where u: "sfs_update dev info (S2V_INODE_NUM (int i)) sz ts pm
        = Some (0, info\<lparr>used_blocks := Some (set_marks 0 ?ub (drop k ?fb)), vfs_dev := d'\<rparr>)"
      "volume (info\<lparr>used_blocks := Some (set_marks 0 ?ub (drop k ?fb)), vfs_dev := d'\<rparr>)"
      "file_table dev (info\<lparr>used_blocks := Some (set_marks 0 ?ub (drop k ?fb)), vfs_dev := d'\<rparr>) = ?t[i := ?fe1]"
    using sfs_update_ok [OF v lk ub tracker_small [OF v] i bd [unfolded k_def fe_def]] gone
    by (auto simp: k_def fe_def)
  have n1: "takeWhile (\<lambda>b. b \<noteq> 0) (fe_blocks ?fe1) = take k ?fb" "no_holes (fe_blocks ?fe1)"
    using no_holes_take [OF nh, of k "9 - k"] fb by (simp_all add: fe_def)
  have fb1: "file_blocks ?fe1 = take k ?fb" using us n1 by (simp add: file_blocks_def fe_def fe_used_def)
  have "tracker (sb info) (?t[i := ?fe1]) = set_marks 0 ?ub (drop k ?fb)"
    by (rule tracker_drop [OF it bk _ fb1]) simp
  moreover have "blocks_ok (sb info) (?t[i := ?fe1])"
    by (rule blocks_ok_drop [OF it bk append_take_drop_id [symmetric] fb1]) (use n1 in simp)
  moreover have "names_ok (?t[i := ?fe1])"
    using us by (intro names_ok_same [OF it nm]) (simp_all add: fe_def)
  ultimately show ?thesis using u lk by (auto simp: sfs_inv_def)
qed

end

section \<open>A sample volume\<close>

text \<open>An 8-block volume on the RAM disk: super block, one block of eight empty entries, six
  data blocks.\<close>

definition sample_sb :: sfs_super_block where
  "sample_sb = \<lparr>sb_type = SIMULA_FS_TYPE, block_size = 512, partition_size = 8, entry_size = 64,
     entry_table_size = 1, entry_table_block_start = 1, entry_count = 8, data_block_start = 2,
     sb_reserved = replicate 120 0\<rparr>"

definition sample_disk :: "u8 list" where
  "sample_disk = bytes_of_sb sample_sb @ replicate 3584 0"

definition sample_info :: "u8 list sfs_info" where
  "sample_info = \<lparr>vfs_dev = sample_disk, sb = sample_sb, used_blocks = Some [1, 1, 0, 0, 0, 0, 0, 0],
     locked = False, s_fs_info = True\<rparr>"

lemma wf_sample_sb: "wf_sb sample_sb"
  by (simp add: wf_sb_def sample_sb_def SIMULA_FS_BLOCK_SIZE_def)

lemma length_sample_disk: "length sample_disk = 4096"
  by (simp add: sample_disk_def length_bytes_of_sb [OF wf_sample_sb])

lemma sample_ram: "ram_ok sample_disk" "ram_nblk sample_disk = 8"
  by (simp_all add: ram_ok_def ram_nblk_def length_sample_disk RB_SECTOR_SIZE_def)

lemma sample_bread:
  "bread ram_bdev sample_disk 0 = Some (bytes_of_sb sample_sb)"
  "bread ram_bdev sample_disk 1 = Some (replicate 512 0)"
proof -
  have "take 512 (drop (0 * 512) sample_disk) = bytes_of_sb sample_sb"
    "take 512 (drop (1 * 512) sample_disk) = replicate 512 0"
    using length_bytes_of_sb [OF wf_sample_sb] by (simp_all add: sample_disk_def)
  then show "bread ram_bdev sample_disk 0 = Some (bytes_of_sb sample_sb)"
    "bread ram_bdev sample_disk 1 = Some (replicate 512 0)"
    by (subst ram_bread [OF sample_ram(1)]; simp add: sample_ram)+
qed

lemma sample_volume: "vol_ok ram_bdev ram_nblk ram_ok sample_info"
proof -
  have "sfs_layout (bd_block_size ram_bdev) 8 sample_sb"
    by (simp add: sfs_layout_def sample_sb_def SIMULA_FS_BLOCK_SIZE_def)
  moreover have "peek ram_bdev sample_disk 0 0 SIMULA_FS_BLOCK_SIZE = Some (bytes_of_sb sample_sb)"
    using length_bytes_of_sb [OF wf_sample_sb]
    by (simp add: peek_def sample_bread mem_read_def SIMULA_FS_BLOCK_SIZE_def)
  then have "read_sb_from_real_sfs ram_bdev sample_info = Some (Inr sample_sb)"
    using read_sb_peek [of ram_bdev sample_info] sb_roundtrip [OF wf_sample_sb]
    by (simp add: sample_info_def)
  ultimately show ?thesis by (simp add: vol_ok_def sample_info_def sample_ram) (simp add: sample_sb_def)
qed

lemma sample_table: "file_table ram_bdev sample_info = replicate 8 zero_fe"
proof (rule nth_equalityI)
  show "length (file_table ram_bdev sample_info) = length (replicate 8 zero_fe)"
    by (simp add: sample_info_def sample_sb_def)
next
  fix i assume "i < length (file_table ram_bdev sample_info)"
  then have i: "i < unat (entry_count (sb sample_info))" "i < 8"
    by (simp_all add: sample_info_def sample_sb_def)
  have a: "eaddr (sb sample_info) i div 512 = 1" "eaddr (sb sample_info) i mod 512 = 64 * i"
    using i(2) by (simp_all add: eaddr_def sample_info_def sample_sb_def)
  have "peek ram_bdev sample_disk 1 (64 * i) 64 = Some (replicate 64 0)"
    using i(2) sample_bread(2) by (simp add: peek_def mem_read_def)
  moreover have "vfs_dev sample_info = sample_disk" by (simp add: sample_info_def)
  ultimately have "read_entry_from_real_sfs ram_bdev sample_info (int i) = Some (Inr (fe_of_bytes (replicate 64 0)))"
    using ram.read_entry_peek [OF sample_volume i(1)] a by auto
  then have "read_entry_from_real_sfs ram_bdev sample_info (int i) = Some (Inr zero_fe)"
    unfolding fe_of_zero_bytes .
  with ram.read_entry_ok(1) [OF sample_volume i(1)] i(2)
  show "file_table ram_bdev sample_info ! i = replicate 8 zero_fe ! i" by simp
qed

lemma sample_inv: "sfs_inv ram_bdev ram_nblk ram_ok sample_info"
proof -
  have o: "owned (replicate n zero_fe) = []" for n by (induction n) (simp_all add: file_blocks_def)
  have "tracker sample_sb (replicate 8 zero_fe) = [1, 1, 0, 0, 0, 0, 0, 0]"
    by (simp add: tracker_def o sample_sb_def upt_rec)
  moreover have "blocks_ok sample_sb (replicate 8 zero_fe)" "names_ok (replicate 8 zero_fe)"
    by (auto simp: blocks_ok_def names_ok_def o)
  ultimately show ?thesis
    using sample_volume by (simp add: sfs_inv_def sample_table) (simp add: sample_info_def)
qed

end
