(* ===== verification/Sfs_Vfs.thy ===== *)
theory Sfs_Vfs
  imports Sfs_Inv
begin

text \<open>
  The VFS side of the Simula file system, \<^verbatim>\<open>src/FSDriver/SFS/real_sfs.c\<close>: block mapping,
  directory iteration, inode creation, unlinking, lookup and write-back, mounting and
  unmounting. What the kernel's VFS decides (whether an inode could be allocated, inserted or
  found in the inode cache, what \<open>dir_emit\<close> does) are arguments of the operations.

  A device has one block size in this model: \<open>sb_bread\<close> and the translation to device blocks both
  use \<open>bd_block_size\<close>. In the kernel \<open>sb_bread\<close> uses \<open>s_blocksize\<close>, which the mount replaces by the
  block size of the super block; the model is that of mounts where the two are equal.
\<close>

section \<open>Modes\<close>

definition S_IRUSR :: u16 where "S_IRUSR = 0x100"
definition S_IWUSR :: u16 where "S_IWUSR = 0x80"
definition S_IXUSR :: u16 where "S_IXUSR = 0x40"
definition S_IRUGO :: u16 where "S_IRUGO = 0x124"
definition S_IWUGO :: u16 where "S_IWUGO = 0x92"
definition S_IXUGO :: u16 where "S_IXUGO = 0x49"
definition S_IFMT :: u16 where "S_IFMT = 0xF000"
definition S_IFREG :: u16 where "S_IFREG = 0x8000"
definition S_IFDIR :: u16 where "S_IFDIR = 0x4000"

lemmas mode_defs = S_IRUSR_def S_IWUSR_def S_IXUSR_def S_IRUGO_def S_IWUGO_def S_IXUGO_def
  S_IFMT_def S_IFREG_def S_IFDIR_def

text \<open>The adjustment of \<open>mode\<close> in \<open>sfs_inode_create\<close>, the permissions it derives, and the
  converse conversion of \<open>sfs_inode_lookup\<close>.\<close>

definition spread_mode :: "u16 \<Rightarrow> u16" where
  "spread_mode mode =
     (let mode = (if mode AND S_IRUGO \<noteq> 0 then mode OR S_IRUGO else mode);
          mode = (if mode AND S_IWUGO \<noteq> 0 then mode OR S_IWUGO else mode)
      in if mode AND S_IXUGO \<noteq> 0 then mode OR S_IXUGO else mode)"

definition mode_perms :: "u16 \<Rightarrow> u16 \<Rightarrow> u16 \<Rightarrow> u16 \<Rightarrow> int" where
  "mode_perms r w x mode =
     (if mode AND r \<noteq> 0 then 4 else 0) + (if mode AND w \<noteq> 0 then 2 else 0) +
     (if mode AND x \<noteq> 0 then 1 else 0)"

definition perms_mode :: "u32 \<Rightarrow> u16" where
  "perms_mode perms = S_IFREG OR (if perms AND 4 \<noteq> 0 then S_IRUGO else 0)
     OR (if perms AND 2 \<noteq> 0 then S_IWUGO else 0) OR (if perms AND 1 \<noteq> 0 then S_IXUGO else 0)"

section \<open>Inodes and super blocks of the VFS\<close>

record inode =
  i_ino :: int
  i_size :: int
  i_mode :: u16
  i_atime :: int
  i_mtime :: int
  i_ctime :: int
  i_nlink :: int

record 'd super_block =
  s_magic :: u32
  s_blocksize :: u32
  s_blocksize_bits :: int
  s_info :: "'d sfs_info option"
  s_root :: "inode option"
  s_info_freed :: bool

section \<open>File operations\<close>

definition sfs_file_release :: int where "sfs_file_release = 0"

text \<open>\<open>dots ctx_pos c\<close> is \<open>dir_emit_dots\<close>: the new position and buffer, or \<open>None\<close> when full.\<close>

definition sfs_iterate ::
    "'d bdev \<Rightarrow> 'd sfs_info \<Rightarrow> (nat \<Rightarrow> 'c \<Rightarrow> (nat \<times> 'c) option) \<Rightarrow>
     ('c \<Rightarrow> u8 list \<Rightarrow> int \<Rightarrow> 'c option) \<Rightarrow> nat \<Rightarrow> 'c \<Rightarrow> (int \<times> nat \<times> 'c) option" where
  "sfs_iterate dev info dots emit ctx_pos c =
     (case dots ctx_pos c of
        None \<Rightarrow> Some (- ENOSPC, ctx_pos, c)
      | Some (ctx_pos, c) \<Rightarrow> sfs_list dev info emit ctx_pos c)"

text \<open>
  The result carries the physical block given to \<open>map_bh\<close>. The block number is stored in the
  32-bit field before it is compared with \<open>INV_BLOCK\<close>.
\<close>

definition sfs_get_block ::
    "'d bdev \<Rightarrow> 'd sfs_info \<Rightarrow> int \<Rightarrow> u64 \<Rightarrow> bool \<Rightarrow> (int \<times> u32 option \<times> 'd sfs_info) option" where
  "sfs_get_block dev info ino iblock create =
     (if iblock \<ge> of_nat SIMULA_FS_DATA_BLOCK_CNT then Some (- ENOSPC, None, info)
      else do {
        r \<leftarrow> sfs_get_file_entry dev info ino;
        (case r of
           Inl retval \<Rightarrow> Some (retval, None, info)
         | Inr fe \<Rightarrow> do {
             b \<leftarrow> arr_get (fe_blocks fe) (unat iblock);
             if b \<noteq> 0 then Some (0, Some b, info)
             else if \<not> create then Some (- EIO, None, info)
             else do {
               (v, info) \<leftarrow> sfs_get_data_block info;
               blocks \<leftarrow> arr_set (fe_blocks fe) (unat iblock) (word_of_int v);
               if (word_of_int v :: u32) = word_of_int INV_BLOCK then Some (- ENOSPC, None, info)
               else do {
                 (retval, info) \<leftarrow> sfs_update_file_entry dev info ino (fe\<lparr>fe_blocks := blocks\<rparr>);
                 Some (if retval < 0 then (retval, None, info) else (0, Some (word_of_int v), info))
               }
             }
           })
      })"

section \<open>Inode operations\<close>

text \<open>The local copy of a directory entry's name.\<close>

definition dentry_fn :: "u8 list \<Rightarrow> u8 list" where
  "dentry_fn name =
     cstr ((strncpy (replicate (length name + 1) 0) name (length name))[length name := 0])"

text \<open>
  \<open>fe0\<close> is the uninitialised local; \<open>node\<close> is the result of \<open>new_inode\<close>, \<open>inserted\<close> whether
  \<open>insert_inode_locked\<close> succeeded. On success the instantiated inode is returned.
\<close>

definition sfs_inode_create ::
    "'d bdev \<Rightarrow> u32 \<Rightarrow> sfs_file_entry \<Rightarrow> 'd sfs_info \<Rightarrow> u8 list \<Rightarrow> u16 \<Rightarrow> inode option \<Rightarrow> bool
     \<Rightarrow> (int \<times> inode option \<times> 'd sfs_info) option" where
  "sfs_inode_create dev now fe0 info name mode node inserted = do {
     let fn = dentry_fn name;
     let mode = spread_mode mode;
     (ino, fe, info) \<leftarrow> sfs_create dev now info fn (mode_perms S_IRUSR S_IWUSR S_IXUSR mode) fe0;
     if ino = INV_INODE then Some (- ENOSPC, None, info)
     else (case node of
        None \<Rightarrow> do {
          (_, info) \<leftarrow> sfs_remove dev info fn;
          Some (- ENOMEM, None, info)
        }
      | Some node \<Rightarrow> do {
          let t = uint (fe_timestamp fe);
          let node = node\<lparr>i_ino := ino, i_size := uint (fe_size fe), i_mode := S_IFREG OR mode,
                          i_atime := t, i_mtime := t, i_ctime := t\<rparr>;
          if \<not> inserted then do {
            (_, info) \<leftarrow> sfs_remove dev info fn;
            Some (- EIO, None, info)
          }
          else Some (0, Some node, info)
        })
   }"

definition sfs_inode_unlink ::
    "'d bdev \<Rightarrow> 'd sfs_info \<Rightarrow> u8 list \<Rightarrow> inode \<Rightarrow> (int \<times> inode \<times> 'd sfs_info) option" where
  "sfs_inode_unlink dev info name node = do {
     (ino, info) \<leftarrow> sfs_remove dev info (dentry_fn name);
     Some (if ino = INV_INODE then (- EINVAL, node, info)
           else (0, node\<lparr>i_nlink := i_nlink node - 1\<rparr>, info))
   }"

text \<open>
  \<open>iget ino\<close> is \<open>iget_locked\<close>: nothing, or an inode and its \<open>I_NEW\<close> flag. The outcome is an
  error pointer, a negative directory entry or the inode added to it.
\<close>

datatype lookup_outcome = Err_ptr int | Negative_dentry | Added inode

definition sfs_inode_lookup ::
    "'d bdev \<Rightarrow> 'd sfs_info \<Rightarrow> sfs_file_entry \<Rightarrow> int \<Rightarrow> int \<Rightarrow> u8 list \<Rightarrow> (int \<Rightarrow> (bool \<times> inode) option)
     \<Rightarrow> lookup_outcome option" where
  "sfs_inode_lookup dev info fe0 parent_ino root_ino name iget =
     (if parent_ino \<noteq> root_ino then Some (Err_ptr (- ENOENT))
      else do {
        (ino, fe) \<leftarrow> sfs_lookup dev info (dentry_fn name) fe0;
        if ino = INV_INODE then Some Negative_dentry
        else Some (case iget ino of
            None \<Rightarrow> Err_ptr (- EACCES)
          | Some (i_new, node) \<Rightarrow>
              if i_new
              then let t = uint (fe_timestamp fe) in
                Added (node\<lparr>i_size := uint (fe_size fe), i_mode := perms_mode (fe_perms fe),
                            i_atime := t, i_mtime := t, i_ctime := t\<rparr>)
              else Added node)
      })"

section \<open>Super block operations\<close>

text \<open>
  \<open>s_info\<close> is the pointer \<open>s_fs_info\<close>; \<open>s_info_freed\<close> says that the structure it points to was
  freed, so that following it has no result.
\<close>

definition sfs_put_super :: "'d super_block \<Rightarrow> 'd super_block option" where
  "sfs_put_super s =
     (case s_info s of
        None \<Rightarrow> Some s
      | Some info \<Rightarrow>
          if s_info_freed s then None
          else let info = shut_browsing info in Some (s\<lparr>s_info := None\<rparr>))"

text \<open>
  The 64-bit size and time are stored into \<open>int\<close> locals and from there into 32-bit fields:
  both conversions reduce modulo \<open>2 ^ 32\<close>.
\<close>

definition sfs_write_inode :: "'d bdev \<Rightarrow> 'd sfs_info \<Rightarrow> inode \<Rightarrow> (int \<times> 'd sfs_info) option" where
  "sfs_write_inode dev info node =
     (if i_mode node AND S_IFMT \<noteq> S_IFREG then Some (0, info)
      else let timestamp = (if i_mtime node > i_ctime node then i_mtime node else i_ctime node);
               perms = mode_perms S_IRUGO S_IWUGO S_IXUGO (i_mode node)
           in sfs_update dev info (i_ino node) (Some (i_size node)) (Some timestamp) (Some perms))"

section \<open>Mounting\<close>

function bit_pos_loop :: "u32 \<Rightarrow> int \<Rightarrow> int" where
  "bit_pos_loop val i = (if val = 0 then i else bit_pos_loop (drop_bit 1 val) (i + 1))"
  by pat_completeness auto
termination bit_pos_loop
proof (relation "measure (\<lambda>(val, _). unat val)")
  fix val :: u32 and i :: int assume "val \<noteq> 0"
  then have "0 < unat val" by (simp add: unat_gt_0)
  then show "((drop_bit 1 val, i + 1), (val, i)) \<in> measure (\<lambda>(val, _). unat val)"
    by (simp add: drop_bit_Suc unat_div)
qed simp

definition get_bit_pos :: "u32 \<Rightarrow> int" where
  "get_bit_pos val = bit_pos_loop val 0 - 1"

text \<open>
  \<open>mem\<close> is whether \<open>kzalloc\<close> returned memory, \<open>alloc\<close> what \<open>vmalloc\<close> returns, \<open>iget\<close> the
  result of \<open>iget_locked\<close> for the root and \<open>made_root\<close> whether a root entry was made. The
  later error paths free the structure but leave the pointer \<open>init_browsing\<close> stored in
  \<open>s_fs_info\<close>.
\<close>

definition zero_info :: "'d \<Rightarrow> 'd sfs_info" where
  "zero_info d = \<lparr>vfs_dev = d,
     sb = \<lparr>sb_type = 0, block_size = 0, partition_size = 0, entry_size = 0, entry_table_size = 0,
           entry_table_block_start = 0, entry_count = 0, data_block_start = 0,
           sb_reserved = replicate 120 0\<rparr>,
     used_blocks = None, locked = False, s_fs_info = False\<rparr>"

definition sfs_fill_super ::
    "'d bdev \<Rightarrow> bool \<Rightarrow> (nat \<Rightarrow> u8 list option) \<Rightarrow> (bool \<times> inode) option \<Rightarrow> bool \<Rightarrow> 'd \<Rightarrow> 'd super_block
     \<Rightarrow> (int \<times> 'd super_block) option" where
  "sfs_fill_super dev mem alloc iget made_root d s =
     (if \<not> mem then Some (- ENOMEM, s)
      else do {
        (retval, info) \<leftarrow> init_browsing dev alloc (zero_info d);
        if retval < 0 then Some (- EIO, s)
        else let s = s\<lparr>s_info := Some info, s_info_freed := False, s_magic := sb_type (sb info),
                       s_blocksize := block_size (sb info),
                       s_blocksize_bits := get_bit_pos (block_size (sb info))\<rparr>;
                 freed = s\<lparr>s_info := Some (shut_browsing info), s_info_freed := True\<rparr>
          in Some (case iget of
               None \<Rightarrow> (- EACCES, freed)
             | Some (i_new, root) \<Rightarrow>
                 let root = (if i_new then root\<lparr>i_mode := S_IFDIR OR 0x1FF\<rparr> else root)
                 in if \<not> made_root then (- ENOMEM, freed\<lparr>s_root := None\<rparr>)
                    else (0, s\<lparr>s_root := Some root\<rparr>))
      })"

section \<open>Facts on names, modes and block numbers\<close>

lemma dentry_fn_id [simp]: "is_cstr name \<Longrightarrow> dentry_fn name = name"
proof -
  assume n: "is_cstr name"
  have "(strncpy (replicate (length name + 1) 0) name (length name))[length name := 0] = name @ [0]"
    by (simp add: strncpy_def list_update_append del: replicate_Suc) simp
  with n show ?thesis by (simp add: dentry_fn_def)
qed

lemma bit_pos_loop_bounds:
  "val \<noteq> 0 \<Longrightarrow> \<exists>k. bit_pos_loop val i = i + int k + 1 \<and> 2 ^ k \<le> unat val \<and> unat val < 2 ^ Suc k"
proof (induction val i rule: bit_pos_loop.induct)
  case (1 val i)
  have half: "unat (drop_bit 1 val) = unat val div 2" by (simp add: drop_bit_Suc unat_div)
  show ?case
  proof (cases "drop_bit 1 val = 0")
    case True
    with half have "unat val div 2 = 0" by simp
    then have "unat val < 2" by linarith
    moreover have "0 < unat val" using 1 by (simp add: unat_gt_0)
    ultimately have "unat val = 1" by linarith
    moreover have "bit_pos_loop val i = i + 1" using 1 True by simp
    ultimately show ?thesis by (intro exI [of _ 0]) simp
  next
    case False
    obtain k where k: "bit_pos_loop (drop_bit 1 val) (i + 1) = i + 1 + int k + 1"
        "2 ^ k \<le> unat (drop_bit 1 val)" "unat (drop_bit 1 val) < 2 ^ Suc k"
      using 1 False by blast
    from k(2,3) half have "2 ^ Suc k \<le> unat val" "unat val < 2 ^ Suc (Suc k)" by simp_all
    with k(1) 1(2) show ?thesis by (intro exI [of _ "Suc k"]) simp
  qed
qed

lemma block_number_valid:
  assumes "j < 2 ^ 31"
  shows "(word_of_int (int j) :: u32) = of_nat j" and "(of_nat j :: u32) \<noteq> word_of_int INV_BLOCK"
proof -
  show "(word_of_int (int j) :: u32) = of_nat j" by simp
  have "unat (of_nat j :: u32) = j" using assms by (intro unat_of_nat_small) simp
  moreover have "unat (word_of_int INV_BLOCK :: u32) = 2 ^ 32 - 1"
    by (simp add: INV_BLOCK_def unsigned_minus_1_eq_mask mask_eq_exp_minus_1)
  ultimately show "(of_nat j :: u32) \<noteq> word_of_int INV_BLOCK" using assms by auto
qed

lemma grow_entry:
  assumes us: "fe_used fe" and nh: "no_holes (fe_blocks fe)"
    and k: "length (file_blocks fe) < length (fe_blocks fe)" and b: "b \<noteq> 0"
  defines "fe' \<equiv> fe\<lparr>fe_blocks := (fe_blocks fe)[length (file_blocks fe) := b]\<rparr>"
  shows "fe_blocks fe ! length (file_blocks fe) = 0" and "file_blocks fe' = file_blocks fe @ [b]"
    and "no_holes (fe_blocks fe')"
proof -
  let ?t = "takeWhile (\<lambda>b. b \<noteq> 0) (fe_blocks fe)"
  have fb: "file_blocks fe = ?t" using us by (simp add: file_blocks_def)
  obtain n where n: "fe_blocks fe = ?t @ replicate n 0" using nh unfolding no_holes_iff ..
  have "length (fe_blocks fe) = length ?t + n" by (subst n) simp
  then obtain m where m: "n = Suc m" using k fb by (cases n) simp_all
  show "fe_blocks fe ! length (file_blocks fe) = 0"
    unfolding fb by (subst n) (simp add: m nth_append)
  have e: "fe_blocks fe' = (?t @ [b]) @ replicate m 0"
    unfolding fe'_def fb by (simp, subst n) (simp add: m list_update_append)
  have nz: "0 \<notin> set (?t @ [b])" using b by (auto dest: set_takeWhileD)
  show "no_holes (fe_blocks fe')" unfolding e using nz by (rule no_holes_zeros)
  have "fe_used fe'" using us by (simp add: fe'_def fe_used_def)
  then show "file_blocks fe' = file_blocks fe @ [b]"
    unfolding fb file_blocks_def e using takeWhile_zeros [OF nz, of m] us by simp
qed

section \<open>The invariant under the VFS operations\<close>

context buffer_cache
begin

lemma sfs_get_block_mapped:
  assumes inv: "invariant info" and i: "i < unat (entry_count (sb info))"
    and k: "unat iblock < length (file_blocks (file_table dev info ! i))"
  shows "sfs_get_block dev info (S2V_INODE_NUM (int i)) iblock create =
     Some (0, Some (file_blocks (file_table dev info ! i) ! unat iblock), info)"
proof -
  let ?fe = "file_table dev info ! i"
  have v: "volume info" using inv by (simp add: sfs_inv_def)
  note rd = read_entry_ok [OF v i]
  have len: "length (fe_blocks ?fe) = 9" using rd(2) by (simp add: wf_fe_lengths)
  have us: "fe_used ?fe" using k by (auto simp: file_blocks_def split: if_splits)
  then have fb: "file_blocks ?fe = takeWhile (\<lambda>b. b \<noteq> 0) (fe_blocks ?fe)" by (simp add: file_blocks_def)
  have k9: "unat iblock < 9" using k fb length_takeWhile_le [of "\<lambda>b. b \<noteq> 0" "fe_blocks ?fe"] len by simp
  have nth: "file_blocks ?fe ! unat iblock = fe_blocks ?fe ! unat iblock"
    using k fb by (simp add: takeWhile_nth)
  have "file_blocks ?fe ! unat iblock \<noteq> 0" using nth_mem [OF k] zero_notin_file_blocks [of ?fe] by metis
  with k9 nth len rd(1) show ?thesis
    by (simp add: sfs_get_block_def sfs_get_file_entry_def inode_num_defs arr_get_in word_le_nat_alt)
qed

lemma tracker_free:
  assumes inv: "invariant info"
    and f: "find (\<lambda>j. tracker (sb info) (file_table dev info) ! j = 0)
              [unat (data_block_start (sb info))..<unat (partition_size (sb info))] = Some j"
  shows "unat (of_nat j :: u32) = j" and "unat (data_block_start (sb info)) \<le> j"
    and "j < unat (partition_size (sb info))" and "j < 2 ^ 31"
    and "(of_nat j :: u32) \<notin> set (owned (file_table dev info))"
proof -
  have v: "volume info" using inv by (simp add: sfs_inv_def)
  from find_Some_nth [OF f] show lo: "unat (data_block_start (sb info)) \<le> j"
    and hi: "j < unat (partition_size (sb info))" by simp_all
  show j31: "j < 2 ^ 31" using hi v by (simp add: vol_ok_def sfs_layout_def)
  then show u: "unat (of_nat j :: u32) = j" by (intro unat_of_nat_small) simp
  have "j \<notin> unat ` set (owned (file_table dev info))"
    using find_Some_nth [OF f] hi by (auto simp: nth_tracker split: if_splits)
  then show "(of_nat j :: u32) \<notin> set (owned (file_table dev info))" using u by (metis image_eqI)
qed

lemma sfs_get_block_grow:
  assumes inv: "invariant info" and i: "i < unat (entry_count (sb info))"
    and us: "fe_used (file_table dev info ! i)"
    and k: "unat iblock = length (file_blocks (file_table dev info ! i))" "unat iblock < 9"
  defines "fr \<equiv> find (\<lambda>j. tracker (sb info) (file_table dev info) ! j = 0)
                  [unat (data_block_start (sb info))..<unat (partition_size (sb info))]"
  shows "fr = None \<Longrightarrow>
      sfs_get_block dev info (S2V_INODE_NUM (int i)) iblock True = Some (- ENOSPC, None, info)"
    and "fr = Some j \<Longrightarrow> \<exists>info'.
      sfs_get_block dev info (S2V_INODE_NUM (int i)) iblock True = Some (0, Some (of_nat j), info') \<and>
      sb info' = sb info \<and> invariant info' \<and>
      file_table dev info' = (file_table dev info)[i := (file_table dev info ! i)\<lparr>fe_blocks :=
        (fe_blocks (file_table dev info ! i))[unat iblock := of_nat j]\<rparr>]"
proof -
  let ?t = "file_table dev info"
  let ?fe = "?t ! i" and ?ub = "tracker (sb info) ?t"
  have v: "volume info" and bk: "blocks_ok (sb info) ?t" and nm: "names_ok ?t"
    and ub: "used_blocks info = Some ?ub" and lk: "\<not> locked info"
    using inv by (simp_all add: sfs_inv_def)
  note rd = read_entry_ok [OF v i]
  have it: "i < length ?t" using i by simp
  have nh: "no_holes (fe_blocks ?fe)" using bk us nth_mem [OF it] by (simp add: blocks_ok_def)
  have len: "length (fe_blocks ?fe) = 9" using rd(2) by (simp add: wf_fe_lengths)
  have kl: "length (file_blocks ?fe) < length (fe_blocks ?fe)" using k len by simp
  have gd: "sfs_get_data_block info = Some (case fr of None \<Rightarrow> (INV_BLOCK, info)
      | Some j \<Rightarrow> (int j, info\<lparr>used_blocks := Some (?ub[j := 1])\<rparr>))"
    unfolding fr_def by (rule sfs_get_data_block_ok [OF lk ub]) simp
  have z: "fe_blocks ?fe ! unat iblock = 0" unfolding k(1) by (rule grow_entry(1) [OF us nh kl, of 1]) simp
  note exec = sfs_get_block_def sfs_get_file_entry_def sfs_update_file_entry_def inode_num_defs
    arr_get_in arr_set_in word_le_nat_alt
  show "sfs_get_block dev info (S2V_INODE_NUM (int i)) iblock True = Some (- ENOSPC, None, info)" if "fr = None"
    using that rd(1) gd z len k(2) by (simp add: exec)
  show "\<exists>info'. sfs_get_block dev info (S2V_INODE_NUM (int i)) iblock True = Some (0, Some (of_nat j), info') \<and>
      sb info' = sb info \<and> invariant info' \<and>
      file_table dev info' = ?t[i := ?fe\<lparr>fe_blocks := (fe_blocks ?fe)[unat iblock := of_nat j]\<rparr>]"
    if fr: "fr = Some j"
  proof -
    let ?b = "of_nat j :: u32"
    let ?fe' = "?fe\<lparr>fe_blocks := (fe_blocks ?fe)[unat iblock := ?b]\<rparr>"
    let ?info1 = "info\<lparr>used_blocks := Some (?ub[j := 1])\<rparr>"
    note tf = tracker_free [OF inv fr [unfolded fr_def]]
    have b0: "?b \<noteq> 0" using tf(1,2) v by (auto simp: vol_ok_def sfs_layout_def)
    note ge = grow_entry [OF us nh kl b0, folded k(1)]
    have v1: "volume ?info1" and t1: "file_table dev ?info1 = ?t"
      using v by (simp_all add: vol_ok_dev_sb [of ?info1 info] file_table_dev_sb [of ?info1 info])
    have wf1: "wf_fe ?fe'" using rd(2) by (simp add: wf_fe_def)
    obtain d' where w: "write_entry_to_real_sfs dev ?info1 (int i) ?fe' = Some (0, ?info1\<lparr>vfs_dev := d'\<rparr>)"
        "volume (?info1\<lparr>vfs_dev := d'\<rparr>)" "file_table dev (?info1\<lparr>vfs_dev := d'\<rparr>) = ?t[i := ?fe']"
      using write_entry_ok [OF v1 _ wf1, of i] i t1 by auto
    have g: "sfs_get_block dev info (S2V_INODE_NUM (int i)) iblock True = Some (0, Some ?b, ?info1\<lparr>vfs_dev := d'\<rparr>)"
      using rd(1) gd z len k(2) fr w(1) block_number_valid [OF tf(4)] by (simp add: exec)
    have "distinct (owned (?t[i := ?fe']))"
      using bk tf(5) it by (auto simp: blocks_ok_def owned_update owned_nth [of i ?t] ge(2))
    moreover have "\<forall>b\<in>set (file_blocks ?fe'). data_block_start (sb info) \<le> b \<and> b < partition_size (sb info)"
      using bk file_blocks_owned [OF nth_mem [OF it]] tf
      by (auto simp: blocks_ok_def ge(2) word_le_nat_alt word_less_nat_alt)
    ultimately have "blocks_ok (sb info) (?t[i := ?fe'])"
      using blocks_ok_update [OF it bk] ge(3) by blast
    moreover have "tracker (sb info) (?t[i := ?fe']) = ?ub[j := 1]"
      using tracker_add [OF it ge(2)] tf(1,3) by simp
    moreover have "names_ok (?t[i := ?fe'])"
      using us by (intro names_ok_same [OF it nm]) (simp_all add: fe_used_def)
    ultimately have "invariant (?info1\<lparr>vfs_dev := d'\<rparr>)" using w lk by (simp add: sfs_inv_def)
    with g w show ?thesis by auto
  qed
qed

text \<open>Creation: a full table, a new entry, or the entry taken back when no inode is to be had.\<close>

lemma sfs_inode_create_inv:
  fixes mode :: u16 and now :: u32
  assumes inv: "invariant info" and n: "is_cstr name" "name \<noteq> []" "length name \<le> 15"
    and new: "tbl_lookup (file_table dev info) name = None"
    and f: "tbl_free (file_table dev info) = Some i"
  defines "fe \<equiv> new_entry (file_table dev info ! i) name
                   (mode_perms S_IRUSR S_IWUSR S_IXUSR (spread_mode mode)) now"
  shows "\<exists>info'. sb info' = sb info \<and> invariant info' \<and>
     (case node of
        None \<Rightarrow> sfs_inode_create dev now fe0 info name mode node inserted = Some (- ENOMEM, None, info') \<and>
          file_table dev info' = (file_table dev info)[i := zero_fe]
      | Some nd \<Rightarrow>
          if inserted
          then sfs_inode_create dev now fe0 info name mode node inserted
               = Some (0, Some (nd\<lparr>i_ino := S2V_INODE_NUM (int i), i_size := 0,
                    i_mode := S_IFREG OR spread_mode mode, i_atime := uint now, i_mtime := uint now,
                    i_ctime := uint now\<rparr>), info') \<and>
               file_table dev info' = (file_table dev info)[i := fe]
          else sfs_inode_create dev now fe0 info name mode node inserted = Some (- EIO, None, info') \<and>
               file_table dev info' = (file_table dev info)[i := zero_fe])"
proof -
  let ?p = "mode_perms S_IRUSR S_IWUSR S_IXUSR (spread_mode mode)" and ?t = "file_table dev info"
  have new': "tbl_lookup ?t (take 15 name) = None" using new n by simp
  obtain d' where c: "sfs_create dev now info name ?p fe0 = Some (S2V_INODE_NUM (int i), fe, info\<lparr>vfs_dev := d'\<rparr>)"
      "file_table dev (info\<lparr>vfs_dev := d'\<rparr>) = ?t[i := fe]" "invariant (info\<lparr>vfs_dev := d'\<rparr>)"
    using sfs_create_inv [OF inv n(1,2) new' f, of now ?p fe0] by (auto simp: fe_def)
  have v: "volume info" and nm: "names_ok (?t[i := fe])" using inv c by (simp_all add: sfs_inv_def)
  have i: "i < length ?t" using tbl_free_Some [OF f] by simp
  have wf: "wf_fe (?t ! i)" using read_entry_ok(2) [OF v] i by simp
  have "tbl_lookup (?t[i := fe]) (cstr (fe_name fe)) = Some i"
    using tbl_lookup_names [OF nm, of i] i used_new_entry [OF wf n(1,2)] by (simp add: fe_def)
  then have "tbl_lookup (file_table dev (info\<lparr>vfs_dev := d'\<rparr>)) name = Some i"
    using c(2) cstr_new_entry [OF wf n(1)] n(3) by (simp add: fe_def)
  from sfs_remove_inv [OF c(3) this] obtain info2 where
      r: "sfs_remove dev (info\<lparr>vfs_dev := d'\<rparr>) name = Some (S2V_INODE_NUM (int i), info2)" "sb info2 = sb info"
        "file_table dev info2 = ?t[i := zero_fe]" "invariant info2"
    using c(2) by auto
  have ne: "S2V_INODE_NUM (int i) \<noteq> INV_INODE" by (simp add: inode_num_defs)
  have fs: "fe_size fe = 0" "fe_timestamp fe = now" by (simp_all add: fe_def new_entry_def)
  note exec = sfs_inode_create_def Let_def
  show ?thesis
  proof (cases node)
    case None
    then show ?thesis using c r n ne by (intro exI [of _ info2]) (simp add: exec)
  next
    case (Some nd)
    then show ?thesis
      using c r n ne fs by (cases inserted)
        (intro exI [of _ "info\<lparr>vfs_dev := d'\<rparr>"], simp add: exec, intro exI [of _ info2], simp add: exec)
  qed
qed

lemma sfs_inode_unlink_inv:
  assumes inv: "invariant info" and n: "is_cstr name"
  shows "tbl_lookup (file_table dev info) name = None \<Longrightarrow>
      sfs_inode_unlink dev info name node = Some (- EINVAL, node, info)"
    and "tbl_lookup (file_table dev info) name = Some i \<Longrightarrow>
      \<exists>info'. sfs_inode_unlink dev info name node = Some (0, node\<lparr>i_nlink := i_nlink node - 1\<rparr>, info') \<and>
        sb info' = sb info \<and> file_table dev info' = (file_table dev info)[i := zero_fe] \<and> invariant info'"
proof -
  have v: "volume info" using inv by (simp add: sfs_inv_def)
  have ne: "S2V_INODE_NUM (int i) \<noteq> INV_INODE" by (simp add: inode_num_defs)
  show "sfs_inode_unlink dev info name node = Some (- EINVAL, node, info)"
    if "tbl_lookup (file_table dev info) name = None"
    using sfs_lookup_ok [OF v, of name zero_fe] that n
    by (auto simp: sfs_inode_unlink_def sfs_remove_def)
  show "\<exists>info'. sfs_inode_unlink dev info name node = Some (0, node\<lparr>i_nlink := i_nlink node - 1\<rparr>, info') \<and>
        sb info' = sb info \<and> file_table dev info' = (file_table dev info)[i := zero_fe] \<and> invariant info'"
    if "tbl_lookup (file_table dev info) name = Some i"
    using sfs_remove_inv [OF inv that] n ne by (auto simp: sfs_inode_unlink_def)
qed

text \<open>A mount that succeeds recomputes the tracker from the blocks before each file's first hole.\<close>

lemma sfs_mount_tracker:
  assumes v: "volume info" and bk: "\<forall>b\<in>set (owned (file_table dev info)). b < partition_size (sb info)"
    and al: "\<forall>n mem. alloc n = Some mem \<longrightarrow> length mem = n"
    and m: "sfs_fill_super dev mem alloc iget made_root (vfs_dev info) s = Some (0, s')"
  obtains info' where "s_info s' = Some info'" "s_fs_info info'" "\<not> locked info'" "sb info' = sb info"
    "vfs_dev info' = vfs_dev info" "used_blocks info' = Some (tracker (sb info) (file_table dev info))"
    "volume info'" "file_table dev info' = file_table dev info"
proof -
  let ?z = "zero_info (vfs_dev info)"
  have z: "vfs_dev (?z\<lparr>sb := sb info\<rparr>) = vfs_dev info" "sb (?z\<lparr>sb := sb info\<rparr>) = sb info"
    by (simp_all add: zero_info_def)
  have t: "file_table dev (?z\<lparr>sb := sb info\<rparr>) = file_table dev info" using z by (rule file_table_dev_sb)
  have vz: "volume (?z\<lparr>sb := sb info\<rparr>)" using v by (simp only: vol_ok_dev_sb [OF z])
  let ?info' = "?z\<lparr>sb := sb info, used_blocks := Some (tracker (sb info) (file_table dev info)),
                   s_fs_info := True, locked := False\<rparr>"
  have m1: mem and m2: "\<exists>r i. init_browsing dev alloc ?z = Some (r, i) \<and> \<not> r < 0"
    using m by (auto simp: sfs_fill_super_def Let_def split: if_splits option.splits dest!: bind_eq_SomeD)
  obtain r i where r: "init_browsing dev alloc ?z = Some (r, i)" "\<not> r < 0" using m2 by blast
  have rd: "read_sb_from_real_sfs dev ?z = Some (Inr (sb info))" and ty: "sb_type (sb info) = SIMULA_FS_TYPE"
    using vz read_sb_dev_sb [of ?z "?z\<lparr>sb := sb info\<rparr>" dev] by (simp_all add: vol_ok_def)
  obtain mm where mm: "alloc (unat (partition_size (sb info))) = Some mm"
    using r rd ty by (cases "alloc (unat (partition_size (sb info)))") (auto simp: init_browsing_def Let_def)
  have ib: "init_browsing dev alloc ?z = Some (0, ?info')"
    using init_browsing_owned [where alloc = alloc and s = "sb info" and info = ?z, OF mm _ vz] al mm bk t by simp
  then have "s_info s' = Some ?info'"
    using m m1 by (auto simp: sfs_fill_super_def Let_def split: if_splits option.splits)
  moreover have e: "vfs_dev ?info' = vfs_dev info" "sb ?info' = sb info" by (simp_all add: zero_info_def)
  moreover have "volume ?info'" using v by (simp only: vol_ok_dev_sb [OF e])
  moreover have "file_table dev ?info' = file_table dev info" using e by (rule file_table_dev_sb)
  ultimately show thesis by (intro that [of ?info']) simp_all
qed

end

end
