(* ===== verification/Sfs_Safe.thy ===== *)
theory Sfs_Safe
  imports Sfs_Vfs
begin

text \<open>
  The block map of a Simula volume under arbitrary use. \<open>sfs_inv\<close> of \<open>Sfs_Inv\<close> (exact tracker,
  unique names, no holes) is what careful use keeps; a VFS may also extend files behind a hole,
  create names that are cut to the same 15 characters, and map blocks of a file that is already
  unlinked. What every use keeps is \<open>sfs_safe\<close>: no block number occurs twice in the whole entry
  table, every one lies in the data area, and the tracker marks it used. \<open>sfs_step\<close> is one call
  of the VFS into the module; calls are taken one at a time.
\<close>

section \<open>Blocks listed by the entries\<close>

text \<open>All block numbers an entry lists, behind a hole or not, used or not.\<close>

definition data_blocks :: "sfs_file_entry \<Rightarrow> u32 list" where
  "data_blocks fe = filter (\<lambda>b. b \<noteq> 0) (fe_blocks fe)"

definition slots :: "sfs_file_entry list \<Rightarrow> u32 list" where
  "slots t = concat (map data_blocks t)"

definition marks_ok :: "sfs_super_block \<Rightarrow> u8 list \<Rightarrow> sfs_file_entry list \<Rightarrow> bool" where
  "marks_ok s ub t \<longleftrightarrow> length ub = unat (partition_size s) \<and>
     (\<forall>i<unat (data_block_start s). ub ! i = 1) \<and> distinct (slots t) \<and>
     (\<forall>b\<in>set (slots t). data_block_start s \<le> b \<and> b < partition_size s \<and> ub ! unat b = 1)"

definition sfs_safe :: "'d bdev \<Rightarrow> ('d \<Rightarrow> nat) \<Rightarrow> ('d \<Rightarrow> bool) \<Rightarrow> 'd sfs_info \<Rightarrow> bool" where
  "sfs_safe dev nblk ok info \<longleftrightarrow> vol_ok dev nblk ok info \<and> \<not> locked info \<and>
     (\<exists>ub. used_blocks info = Some ub \<and> marks_ok (sb info) ub (file_table dev info))"

lemma data_blocks_simps [simp]:
  "data_blocks zero_fe = []" "data_blocks (new_entry fe fn perms now) = []"
  "data_blocks (update_fields fe sz ts pm) = data_blocks fe"
  by (simp_all add: data_blocks_def zero_fe_def)

lemma slots_simps [simp]: "slots [] = []" "slots (fe # t) = data_blocks fe @ slots t"
    "slots (xs @ ys) = slots xs @ slots ys"
  by (simp_all add: slots_def)

lemma slots_update:
  "i < length t \<Longrightarrow> slots (t[i := fe]) = slots (take i t) @ data_blocks fe @ slots (drop (Suc i) t)"
  by (simp add: upd_conv_take_nth_drop)

lemma slots_nth:
  "i < length t \<Longrightarrow> slots t = slots (take i t) @ data_blocks (t ! i) @ slots (drop (Suc i) t)"
  using slots_update [of i t "t ! i"] by simp

lemma data_blocks_slots: "i < length t \<Longrightarrow> set (data_blocks (t ! i)) \<subseteq> set (slots t)"
  by (auto simp: slots_nth [of i t])

lemma file_blocks_data: "set (file_blocks fe) \<subseteq> set (data_blocks fe)"
  by (auto simp: file_blocks_def data_blocks_def dest: set_takeWhileD)

lemma slots_disjoint:
  assumes d: "distinct (slots t)" and i: "i < length t" and j: "j < length t" and ne: "i \<noteq> j"
  shows "set (data_blocks (t ! i)) \<inter> set (data_blocks (t ! j)) = {}"
proof -
  have *: "set (data_blocks (t ! i)) \<inter> set (data_blocks (t ! j)) = {}" if "i < j" "j < length t" for i j
  proof -
    have "take j t ! i = t ! i" "i < length (take j t)" using that by simp_all
    then have "set (data_blocks (t ! i)) \<subseteq> set (slots (take j t))" by (metis data_blocks_slots)
    with d show ?thesis by (auto simp: slots_nth [OF that(2)])
  qed
  from ne show ?thesis using * [of i j] * [of j i] i j by (cases i j rule: linorder_cases) auto
qed

text \<open>An entry gives up some of its blocks, all of which the tracker may then show as free.\<close>

lemma marks_ok_shrink:
  assumes i: "i < length t" and ok: "marks_ok s ub t" and d: "distinct (data_blocks fe)"
    and sub: "set (data_blocks fe) \<union> set gone \<subseteq> set (data_blocks (t ! i))"
    and disj: "set (data_blocks fe) \<inter> set gone = {}"
  shows "marks_ok s (set_marks 0 ub gone) (t[i := fe])"
proof -
  let ?t' = "t[i := fe]"
  have dist: "distinct (slots t)" and rng: "\<forall>b\<in>set (slots t). data_block_start s \<le> b \<and> b < partition_size s \<and> ub ! unat b = 1"
    and len: "length ub = unat (partition_size s)" and res: "\<forall>i<unat (data_block_start s). ub ! i = 1"
    using ok by (simp_all add: marks_ok_def)
  have ss: "set (slots ?t') \<subseteq> set (slots t)" and dj: "set (slots ?t') \<inter> set gone = {}"
    using dist sub disj i by (auto simp: slots_update slots_nth [OF i])
  have gs: "set gone \<subseteq> set (slots t)" using sub data_blocks_slots [OF i] by blast
  have "distinct (slots ?t')" using dist d sub i by (auto simp: slots_update slots_nth [OF i])
  moreover have "set_marks 0 ub gone ! unat b = 1" if "b \<in> set (slots ?t')" for b
    using that ss dj rng len by (subst nth_set_marks) (auto simp: word_less_nat_alt unat_image_iff)
  moreover have "set_marks 0 ub gone ! k = 1" if "k < unat (data_block_start s)" for k
  proof -
    have n: "k \<notin> unat ` set gone" using that gs rng by (auto simp: word_le_nat_alt dest: bspec)
    show ?thesis
    proof (cases "k < length ub")
      case True
      then show ?thesis using n res that by (simp add: nth_set_marks)
    next
      case False
      have "gone = []" using gs rng that False len
        by (cases gone) (auto simp: word_le_nat_alt word_less_nat_alt dest!: bspec)
      with res that show ?thesis by simp
    qed
  qed
  ultimately show ?thesis using ss rng len by (auto simp: marks_ok_def)
qed

text \<open>An entry takes a block no entry lists.\<close>

lemma marks_ok_grow:
  assumes i: "i < length t" and ok: "marks_ok s ub t" and k: "k < length (fe_blocks (t ! i))" "fe_blocks (t ! i) ! k = 0"
    and b: "b \<noteq> 0" "data_block_start s \<le> b" "b < partition_size s" "ub ! unat b = 0"
  shows "marks_ok s (ub[unat b := 1]) (t[i := (t ! i)\<lparr>fe_blocks := (fe_blocks (t ! i))[k := b]\<rparr>])"
proof -
  let ?fe = "(t ! i)\<lparr>fe_blocks := (fe_blocks (t ! i))[k := b]\<rparr>"
  let ?a = "filter (\<lambda>b. b \<noteq> 0) (take k (fe_blocks (t ! i)))" and ?c = "filter (\<lambda>b. b \<noteq> 0) (drop (Suc k) (fe_blocks (t ! i)))"
  have new: "data_blocks ?fe = ?a @ b # ?c"
    using k b by (simp add: data_blocks_def upd_conv_take_nth_drop)
  have "fe_blocks (t ! i) = take k (fe_blocks (t ! i)) @ 0 # drop (Suc k) (fe_blocks (t ! i))"
    using k by (metis id_take_nth_drop)
  then have old: "data_blocks (t ! i) = ?a @ ?c"
    unfolding data_blocks_def by (metis (mono_tags, lifting) filter.simps(2) filter_append)
  have dist: "distinct (slots t)" and rng: "\<forall>b\<in>set (slots t). data_block_start s \<le> b \<and> b < partition_size s \<and> ub ! unat b = 1"
    and len: "length ub = unat (partition_size s)" and res: "\<forall>i<unat (data_block_start s). ub ! i = 1"
    using ok by (simp_all add: marks_ok_def)
  have fresh: "b \<notin> set (slots t)" using rng b(4) by auto
  have set: "set (slots (t[i := ?fe])) = insert b (set (slots t))"
    using i by (auto simp: slots_update slots_nth [OF i] new old)
  have "distinct (slots (t[i := ?fe]))"
    using dist fresh i by (auto simp: slots_update slots_nth [OF i] new old)
  moreover have "ub[unat b := 1] ! unat b' = 1" if "b' \<in> set (slots (t[i := ?fe]))" for b'
    using that set rng b(3) len by (auto simp: nth_list_update word_less_nat_alt)
  moreover have "ub[unat b := 1] ! j = 1" if "j < unat (data_block_start s)" for j
    using that res b(2) by (auto simp: nth_list_update word_le_nat_alt)
  ultimately show ?thesis using rng b len set by (auto simp: marks_ok_def)
qed

lemma distinct_data_blocks: "marks_ok s ub t \<Longrightarrow> i < length t \<Longrightarrow> distinct (data_blocks (t ! i))"
  by (auto simp: marks_ok_def slots_nth [of i t])

text \<open>Without holes and with empty unused entries all listed blocks are those a mount marks.\<close>

definition orderly :: "sfs_file_entry list \<Rightarrow> bool" where
  "orderly t \<longleftrightarrow> list_all (\<lambda>fe. if fe_used fe then no_holes (fe_blocks fe) else data_blocks fe = []) t"

lemma orderly_slots: "orderly t \<Longrightarrow> slots t = owned t"
proof (induction t)
  case (Cons fe t)
  then have "data_blocks fe = file_blocks fe"
    using no_holes_filter [of "fe_blocks fe" 0]
    by (auto simp: orderly_def data_blocks_def file_blocks_def split: if_splits)
  with Cons show ?case by (simp add: orderly_def)
qed simp

lemma marks_ok_tracker:
  assumes "distinct (slots t)" and "\<forall>b\<in>set (slots t). data_block_start s \<le> b \<and> b < partition_size s"
    and "orderly t" and "data_block_start s \<le> partition_size s"
  shows "marks_ok s (tracker s t) t"
  using assms by (auto simp: marks_ok_def orderly_slots nth_tracker word_le_nat_alt word_less_nat_alt)

lemma inv_orderly_safe:
  assumes "sfs_inv dev nblk ok info" and "orderly (file_table dev info)"
  shows "sfs_safe dev nblk ok info"
  using assms by (auto simp: sfs_inv_def sfs_safe_def blocks_ok_def vol_ok_def sfs_layout_def orderly_slots
      intro!: marks_ok_tracker)

section \<open>Safety under the operations\<close>

context buffer_cache
begin

abbreviation "safe \<equiv> sfs_safe dev nblk ok"

lemma sfs_create_safe:
  assumes s: "safe info"
  shows "\<exists>ino fe' info'. sfs_create dev now info fn perms fe = Some (ino, fe', info') \<and> sb info' = sb info \<and> safe info'"
proof (cases "tbl_free (file_table dev info)")
  case None
  with s show ?thesis using sfs_create_full [of info now fn perms fe] by (auto simp: sfs_safe_def)
next
  case (Some i)
  let ?t = "file_table dev info"
  let ?fe = "new_entry (?t ! i) fn perms now"
  obtain ub where v: "volume info" and lk: "\<not> locked info" and ub: "used_blocks info = Some ub" and ok: "marks_ok (sb info) ub ?t"
    using s by (auto simp: sfs_safe_def)
  obtain d' where c: "sfs_create dev now info fn perms fe = Some (S2V_INODE_NUM (int i), ?fe, info\<lparr>vfs_dev := d'\<rparr>)"
      "volume (info\<lparr>vfs_dev := d'\<rparr>)" "file_table dev (info\<lparr>vfs_dev := d'\<rparr>) = ?t[i := ?fe]"
    using sfs_create_ok [OF v Some] by blast
  have "marks_ok (sb info) ub (?t[i := ?fe])"
    using marks_ok_shrink [OF _ ok, of i ?fe "[]"] tbl_free_Some [OF Some] by simp
  with c lk ub show ?thesis by (auto simp: sfs_safe_def)
qed

lemma sfs_remove_safe:
  assumes s: "safe info"
  shows "\<exists>ino info'. sfs_remove dev info fn = Some (ino, info') \<and> sb info' = sb info \<and> safe info'"
proof -
  let ?t = "file_table dev info"
  obtain ub where v: "volume info" and lk: "\<not> locked info" and ub: "used_blocks info = Some ub" and ok: "marks_ok (sb info) ub ?t"
    using s by (auto simp: sfs_safe_def)
  show ?thesis
  proof (cases "tbl_lookup ?t fn")
    case None
    with s show ?thesis using sfs_lookup_ok [OF v, of fn zero_fe] by (auto simp: sfs_remove_def)
  next
    case (Some i)
    have i: "i < length ?t" and us: "fe_used (?t ! i)" using tbl_lookup_Some [OF Some] by simp_all
    let ?fb = "file_blocks (?t ! i)"
    let ?info1 = "info\<lparr>used_blocks := Some (set_marks 0 ub ?fb)\<rparr>"
    have fb: "set ?fb \<subseteq> set (data_blocks (?t ! i))" by (rule file_blocks_data)
    have len: "length ub < 2 ^ 31" using ok v by (simp add: marks_ok_def vol_ok_def sfs_layout_def)
    have "\<forall>b\<in>set ?fb. unat b < length ub"
      using fb ok data_blocks_slots [OF i] by (auto simp: marks_ok_def word_less_nat_alt)
    then have pb: "put_blocks info (fe_blocks (?t ! i)) = Some ?info1"
      using put_blocks_ok [OF lk ub len, of "fe_blocks (?t ! i)"] us by (simp add: file_blocks_def)
    have v1: "volume ?info1" and t1: "file_table dev ?info1 = ?t"
      using v by (simp_all add: vol_ok_dev_sb [of ?info1 info] file_table_dev_sb [of ?info1 info])
    have i1: "i < unat (entry_count (sb ?info1))" using i by simp
    obtain d' where w: "write_entry_to_real_sfs dev ?info1 (int i) zero_fe = Some (0, ?info1\<lparr>vfs_dev := d'\<rparr>)"
        "volume (?info1\<lparr>vfs_dev := d'\<rparr>)" "file_table dev (?info1\<lparr>vfs_dev := d'\<rparr>) = ?t[i := zero_fe]"
      using write_entry_ok [OF v1 i1 wf_zero_fe] t1 by auto
    have l: "sfs_lookup dev info fn zero_fe = Some (S2V_INODE_NUM (int i), ?t ! i)"
      using sfs_lookup_ok [OF v, of fn zero_fe] Some by auto
    have "marks_ok (sb info) (set_marks 0 ub ?fb) (?t[i := zero_fe])"
      using fb by (intro marks_ok_shrink [OF i ok]) simp_all
    with l pb w lk show ?thesis by (auto simp: sfs_remove_def inode_num_defs sfs_safe_def)
  qed
qed

lemma sfs_update_safe:
  assumes s: "safe info" and i: "i < unat (entry_count (sb info))"
  shows "\<exists>info'. sfs_update dev info (S2V_INODE_NUM (int i)) sz ts pm = Some (0, info') \<and> sb info' = sb info \<and> safe info'"
proof -
  let ?t = "file_table dev info"
  obtain ub where v: "volume info" and lk: "\<not> locked info" and ub: "used_blocks info = Some ub" and ok: "marks_ok (sb info) ub ?t"
    using s by (auto simp: sfs_safe_def)
  define fe where "fe = update_fields (?t ! i) sz ts pm"
  define k where "k = unat (fe_size fe + block_size (sb info) - 1) div unat (block_size (sb info))"
  let ?gone = "filter (\<lambda>b. b \<noteq> 0) (drop k (fe_blocks fe))"
  let ?fe1 = "fe\<lparr>fe_blocks := take k (fe_blocks fe) @ replicate (9 - k) 0\<rparr>"
  let ?info1 = "info\<lparr>used_blocks := Some (set_marks 0 ub ?gone)\<rparr>"
  have it: "i < length ?t" using i by simp
  have len: "length ub < 2 ^ 31" "length ub = unat (partition_size (sb info))" "0 < length ub"
    using ok v by (auto simp: marks_ok_def vol_ok_def sfs_layout_def word_le_nat_alt)
  have db: "data_blocks (?t ! i) = filter (\<lambda>b. b \<noteq> 0) (take k (fe_blocks fe)) @ ?gone"
    by (simp add: data_blocks_def fe_def flip: filter_append)
  have bd: "\<forall>b\<in>set (drop k (fe_blocks fe)). unat b < length ub"
  proof (intro ballI)
    fix b assume "b \<in> set (drop k (fe_blocks fe))"
    then have "b = 0 \<or> b \<in> set (data_blocks (?t ! i))" unfolding db by auto
    then show "unat b < length ub"
      using ok data_blocks_slots [OF it] len by (auto simp: marks_ok_def word_less_nat_alt)
  qed
  obtain d' where u: "sfs_update dev info (S2V_INODE_NUM (int i)) sz ts pm = Some (0, ?info1\<lparr>vfs_dev := d'\<rparr>)"
      "volume (?info1\<lparr>vfs_dev := d'\<rparr>)" "file_table dev (?info1\<lparr>vfs_dev := d'\<rparr>) = ?t[i := ?fe1]"
    using sfs_update_ok [OF v lk ub len(1) i bd [unfolded k_def fe_def]] by (auto simp: k_def fe_def)
  have nd: "data_blocks ?fe1 = filter (\<lambda>b. b \<noteq> 0) (take k (fe_blocks fe))" by (simp add: data_blocks_def)
  have "marks_ok (sb info) (set_marks 0 ub ?gone) (?t[i := ?fe1])"
    using distinct_data_blocks [OF ok it] unfolding db by (intro marks_ok_shrink [OF it ok]) (auto simp: nd db)
  with u lk show ?thesis by (auto simp: sfs_safe_def)
qed

lemma sfs_get_block_safe:
  assumes s: "safe info" and i: "i < unat (entry_count (sb info))"
  shows "\<exists>r m info'. sfs_get_block dev info (S2V_INODE_NUM (int i)) iblock cr = Some (r, m, info') \<and> sb info' = sb info \<and> safe info'"
proof -
  let ?t = "file_table dev info"
  let ?fe = "?t ! i" and ?k = "unat iblock"
  obtain ub where v: "volume info" and lk: "\<not> locked info" and ub: "used_blocks info = Some ub" and ok: "marks_ok (sb info) ub ?t"
    using s by (auto simp: sfs_safe_def)
  note rd = read_entry_ok [OF v i]
  have len: "length (fe_blocks ?fe) = 9" using rd(2) by (simp add: wf_fe_lengths)
  note exec = sfs_get_block_def sfs_get_file_entry_def sfs_update_file_entry_def inode_num_defs
    arr_get_in arr_set_in word_le_nat_alt
  show ?thesis
  proof (cases "?k < 9 \<and> fe_blocks ?fe ! ?k = 0 \<and> cr")
    case False
    then show ?thesis using s rd(1) len by (auto simp: exec)
  next
    case True
    then have k: "?k < 9" "fe_blocks ?fe ! ?k = 0" and cr: cr by simp_all
    let ?is = "[unat (data_block_start (sb info))..<unat (partition_size (sb info))]"
    have gd: "sfs_get_data_block info = Some (case find (\<lambda>i. ub ! i = 0) ?is of None \<Rightarrow> (INV_BLOCK, info)
        | Some j \<Rightarrow> (int j, info\<lparr>used_blocks := Some (ub[j := 1])\<rparr>))"
      using ok by (intro sfs_get_data_block_ok [OF lk ub]) (simp add: marks_ok_def)
    show ?thesis
    proof (cases "find (\<lambda>i. ub ! i = 0) ?is")
      case None
      then show ?thesis using s rd(1) gd k cr len by (auto simp: exec)
    next
      case (Some j)
      have j: "unat (data_block_start (sb info)) \<le> j" "j < unat (partition_size (sb info))" "ub ! j = 0"
        using find_Some_nth [OF Some] by auto
      have j31: "j < 2 ^ 31" using j v by (simp add: vol_ok_def sfs_layout_def)
      let ?b = "of_nat j :: u32"
      have ju: "unat ?b = j" using j31 by (intro unat_of_nat_small) simp
      have b0: "?b \<noteq> 0" using ju j(1) v by (auto simp: vol_ok_def sfs_layout_def)
      let ?fe' = "?fe\<lparr>fe_blocks := (fe_blocks ?fe)[?k := ?b]\<rparr>"
      let ?info1 = "info\<lparr>used_blocks := Some (ub[j := 1])\<rparr>"
      have v1: "volume ?info1" and t1: "file_table dev ?info1 = ?t"
        using v by (simp_all add: vol_ok_dev_sb [of ?info1 info] file_table_dev_sb [of ?info1 info])
      have wf1: "wf_fe ?fe'" using rd(2) by (simp add: wf_fe_def)
      obtain d' where w: "write_entry_to_real_sfs dev ?info1 (int i) ?fe' = Some (0, ?info1\<lparr>vfs_dev := d'\<rparr>)"
          "volume (?info1\<lparr>vfs_dev := d'\<rparr>)" "file_table dev (?info1\<lparr>vfs_dev := d'\<rparr>) = ?t[i := ?fe']"
        using write_entry_ok [OF v1 _ wf1, of i] i t1 by auto
      have g: "sfs_get_block dev info (S2V_INODE_NUM (int i)) iblock cr = Some (0, Some ?b, ?info1\<lparr>vfs_dev := d'\<rparr>)"
        using rd(1) gd k cr len Some w(1) block_number_valid [OF j31] by (simp add: exec)
      have "marks_ok (sb info) (ub[unat ?b := 1]) (?t[i := ?fe'])"
        using i j ju k b0 len by (intro marks_ok_grow [OF _ ok]) (simp_all add: word_le_nat_alt word_less_nat_alt)
      with g w lk ju show ?thesis by (auto simp: sfs_safe_def)
    qed
  qed
qed

lemma sfs_inode_create_safe:
  assumes s: "safe info"
  shows "\<exists>r nd info'. sfs_inode_create dev now fe0 info name mode node inserted = Some (r, nd, info') \<and>
     sb info' = sb info \<and> safe info'"
proof -
  obtain ino fe' info1 where c: "sfs_create dev now info (dentry_fn name) (mode_perms S_IRUSR S_IWUSR S_IXUSR (spread_mode mode)) fe0
        = Some (ino, fe', info1)" "sb info1 = sb info" "safe info1"
    using sfs_create_safe [OF s] by blast
  obtain ino2 info2 where r: "sfs_remove dev info1 (dentry_fn name) = Some (ino2, info2)" "sb info2 = sb info" "safe info2"
    using sfs_remove_safe [OF c(3)] c(2) by metis
  from c r show ?thesis by (auto simp: sfs_inode_create_def Let_def split: option.split)
qed

lemma sfs_inode_unlink_safe:
  "safe info \<Longrightarrow> \<exists>r nd info'. sfs_inode_unlink dev info name node = Some (r, nd, info') \<and> sb info' = sb info \<and> safe info'"
  using sfs_remove_safe [of info "dentry_fn name"] by (auto simp: sfs_inode_unlink_def)

lemma sfs_write_inode_safe:
  assumes "safe info" and "i < unat (entry_count (sb info))" and "i_ino node = S2V_INODE_NUM (int i)"
  shows "\<exists>r info'. sfs_write_inode dev info node = Some (r, info') \<and> sb info' = sb info \<and> safe info'"
proof -
  have "\<exists>r info'. sfs_update dev info (S2V_INODE_NUM (int i)) sz ts pm = Some (r, info') \<and> sb info' = sb info \<and> safe info'"
    for sz ts pm using sfs_update_safe [OF assms(1,2), of sz ts pm] by blast
  with assms show ?thesis by (simp add: sfs_write_inode_def Let_def)
qed

lemma sfs_mount_safe:
  assumes s: "safe info" and o: "orderly (file_table dev info)" and al: "\<forall>n mem. alloc n = Some mem \<longrightarrow> length mem = n"
    and m: "sfs_fill_super dev mem alloc iget made_root (vfs_dev info) s = Some (0, s')" and i: "s_info s' = Some info'"
  shows "safe info'"
proof -
  obtain ub where v: "volume info" and ok: "marks_ok (sb info) ub (file_table dev info)"
    using s by (auto simp: sfs_safe_def)
  have "data_block_start (sb info) \<le> partition_size (sb info)" using v by (simp add: vol_ok_def sfs_layout_def)
  then have "marks_ok (sb info) (tracker (sb info) (file_table dev info)) (file_table dev info)"
    using ok o by (intro marks_ok_tracker) (simp_all add: marks_ok_def)
  moreover have "\<forall>b\<in>set (owned (file_table dev info)). b < partition_size (sb info)"
    using ok by (simp add: marks_ok_def orderly_slots [OF o])
  from sfs_mount_tracker [OF v this al m] obtain info2 where
      "s_info s' = Some info2" "\<not> locked info2" "sb info2 = sb info"
      "used_blocks info2 = Some (tracker (sb info) (file_table dev info))" "volume info2"
      "file_table dev info2 = file_table dev info" by metis
  ultimately show ?thesis using i by (simp add: sfs_safe_def)
qed

end

section \<open>The life of a volume\<close>

text \<open>
  One step is one call of the VFS into the module. The inode numbers the VFS passes are those
  the module has given out: of an entry of the table, whether its file still exists or not.
  Names, block numbers, modes, sizes and times are arbitrary. \<open>mount\<close> stands for an unmount and a
  new mount; it is taken only of a volume whose files have no holes and whose unused entries list
  no blocks (\<open>orderly\<close>), because a mount marks only the blocks before the first hole.
\<close>

definition given_inode :: "'d sfs_info \<Rightarrow> int \<Rightarrow> bool" where
  "given_inode info ino \<longleftrightarrow> 0 \<le> V2S_INODE_NUM ino \<and> nat (V2S_INODE_NUM ino) < unat (entry_count (sb info))"

inductive sfs_step :: "'d bdev \<Rightarrow> 'd sfs_info \<Rightarrow> 'd sfs_info \<Rightarrow> bool" for dev where
  create: "sfs_inode_create dev now fe0 info name mode node inserted = Some (r, nd, info') \<Longrightarrow>
     sfs_step dev info info'"
| unlink: "sfs_inode_unlink dev info name node = Some (r, nd, info') \<Longrightarrow> sfs_step dev info info'"
| map_block: "given_inode info ino \<Longrightarrow> sfs_get_block dev info ino iblock cr = Some (r, m, info') \<Longrightarrow>
     sfs_step dev info info'"
| write_back: "given_inode info (i_ino node) \<Longrightarrow> sfs_write_inode dev info node = Some (r, info') \<Longrightarrow>
     sfs_step dev info info'"
| mount: "orderly (file_table dev info) \<Longrightarrow> \<forall>n mem. alloc n = Some mem \<longrightarrow> length mem = n \<Longrightarrow>
     sfs_fill_super dev mem alloc iget made_root (vfs_dev info) s = Some (0, s') \<Longrightarrow>
     s_info s' = Some info' \<Longrightarrow> sfs_step dev info info'"

inductive sfs_reach :: "'d bdev \<Rightarrow> 'd sfs_info \<Rightarrow> 'd sfs_info \<Rightarrow> bool" for dev where
  start: "sfs_reach dev info info"
| more: "sfs_reach dev info info1 \<Longrightarrow> sfs_step dev info1 info2 \<Longrightarrow> sfs_reach dev info info2"

lemma given_inodeD:
  "given_inode info ino \<Longrightarrow> \<exists>i. ino = S2V_INODE_NUM (int i) \<and> i < unat (entry_count (sb info))"
  by (intro exI [of _ "nat (V2S_INODE_NUM ino)"]) (simp add: given_inode_def inode_num_defs)

context buffer_cache
begin

text \<open>Every call returns, and leaves a safe volume safe.\<close>

lemma calls_return:
  assumes s: "safe info"
  shows "\<exists>r nd info'. sfs_inode_create dev now fe0 info name mode new inserted = Some (r, nd, info') \<and> safe info'"
    and "\<exists>r nd info'. sfs_inode_unlink dev info name node = Some (r, nd, info') \<and> safe info'"
    and "given_inode info ino \<Longrightarrow> \<exists>r m info'. sfs_get_block dev info ino iblock cr = Some (r, m, info') \<and> safe info'"
    and "given_inode info (i_ino node) \<Longrightarrow> \<exists>r info'. sfs_write_inode dev info node = Some (r, info') \<and> safe info'"
proof -
  show "\<exists>r nd info'. sfs_inode_create dev now fe0 info name mode new inserted = Some (r, nd, info') \<and> safe info'"
    using sfs_inode_create_safe [OF s] by blast
  show "\<exists>r nd info'. sfs_inode_unlink dev info name node = Some (r, nd, info') \<and> safe info'"
    using sfs_inode_unlink_safe [OF s] by blast
  show "\<exists>r m info'. sfs_get_block dev info ino iblock cr = Some (r, m, info') \<and> safe info'" if "given_inode info ino"
    using given_inodeD [OF that] sfs_get_block_safe [OF s] by blast
  show "\<exists>r info'. sfs_write_inode dev info node = Some (r, info') \<and> safe info'" if "given_inode info (i_ino node)"
    using given_inodeD [OF that] sfs_write_inode_safe [OF s] by blast
qed

lemma sfs_step_safe: "sfs_step dev info info' \<Longrightarrow> safe info \<Longrightarrow> safe info'"
proof (induction rule: sfs_step.induct)
  case (create now fe0 info name mode node inserted r nd info')
  with calls_return(1) [OF create.prems, of now fe0 name mode node inserted] show ?case by auto
next
  case (unlink info name node r nd info')
  with calls_return(2) [OF unlink.prems, of name node] show ?case by auto
next
  case (map_block info ino iblock cr r m info')
  with calls_return(3) [OF map_block.prems, of ino iblock cr] show ?case by auto
next
  case (write_back info node r info')
  with calls_return(4) [OF write_back.prems, of node] show ?case by auto
next
  case (mount info alloc mem iget made_root s s' info')
  then show ?case using sfs_mount_safe by blast
qed

lemma sfs_reach_safe: "sfs_reach dev info info' \<Longrightarrow> safe info \<Longrightarrow> safe info'"
  by (induction rule: sfs_reach.induct) (auto dest: sfs_step_safe)

end

end
