(* ===== verification/Sfs_Props.thy ===== *)
theory Sfs_Props
  imports Sfs_Safe
begin

text \<open>
  What the Simula kernel module guarantees, stated over its operations and any device that
  meets the buffer cache's contract. The witnesses run on the sample volume of \<open>Sfs_Inv\<close>,
  which lives on the RAM disk.
\<close>

section \<open>Lookups after an update of the table\<close>

lemma find_cong_set: "(\<And>x. x \<in> set xs \<Longrightarrow> P x = Q x) \<Longrightarrow> find P xs = find Q xs"
  by (induction xs) auto

lemma tbl_lookup_other:
  assumes "i < length t" and "fe_used fe \<and> cstr (fe_name fe) = fn \<longleftrightarrow> fe_used (t ! i) \<and> cstr (fe_name (t ! i)) = fn"
  shows "tbl_lookup (t[i := fe]) fn = tbl_lookup t fn"
  unfolding tbl_lookup_def using assms by (auto intro!: find_cong_set simp: nth_list_update)

definition lookup_ino :: "'d bdev \<Rightarrow> 'd sfs_info \<Rightarrow> u8 list \<Rightarrow> int option" where
  "lookup_ino dev info fn = map_option fst (sfs_lookup dev info fn zero_fe)"

context buffer_cache
begin

lemma lookup_ino_ok:
  "volume info \<Longrightarrow> lookup_ino dev info fn =
     Some (case tbl_lookup (file_table dev info) fn of None \<Rightarrow> INV_INODE | Some i \<Rightarrow> S2V_INODE_NUM (int i))"
  using sfs_lookup_ok [of info fn zero_fe] by (auto simp: lookup_ino_def)

lemma lookup_ino_None:
  "volume info \<Longrightarrow> lookup_ino dev info fn = Some INV_INODE \<longleftrightarrow> tbl_lookup (file_table dev info) fn = None"
  by (cases "tbl_lookup (file_table dev info) fn") (simp_all add: lookup_ino_ok inode_num_defs)

lemma lookup_ino_Some:
  "volume info \<Longrightarrow> lookup_ino dev info fn = Some (S2V_INODE_NUM (int i)) \<longleftrightarrow>
     tbl_lookup (file_table dev info) fn = Some i"
  by (cases "tbl_lookup (file_table dev info) fn") (auto simp: lookup_ino_ok inode_num_defs)

end

section \<open>Listing\<close>

text \<open>A reader's buffer with room for \<open>cap\<close> names, and what there is to list.\<close>

definition buf_emit :: "nat \<Rightarrow> (u8 list \<times> int) list \<Rightarrow> u8 list \<Rightarrow> int \<Rightarrow> (u8 list \<times> int) list option" where
  "buf_emit cap c name ino = (if length c < cap then Some (c @ [(name, ino)]) else None)"

lemma buf_emit_simps [simp]:
  "length c < cap \<Longrightarrow> buf_emit cap c name ino = Some (c @ [(name, ino)])"
  "\<not> length c < cap \<Longrightarrow> buf_emit cap c name ino = None"
  by (simp_all add: buf_emit_def)

definition listing :: "sfs_file_entry list \<Rightarrow> nat list \<Rightarrow> (u8 list \<times> int) list" where
  "listing t is = map (\<lambda>i. (cstr (fe_name (t ! i)), S2V_INODE_NUM (int i))) (filter (\<lambda>i. fe_used (t ! i)) is)"

lemma listing_simps [simp]:
  "listing t [] = []"
  "listing t (i # is) =
     (if fe_used (t ! i) then (cstr (fe_name (t ! i)), S2V_INODE_NUM (int i)) # listing t is else listing t is)"
  by (simp_all add: listing_def)

definition list_result :: "nat \<Rightarrow> nat \<Rightarrow> (u8 list \<times> int) list \<Rightarrow> (u8 list \<times> int) list \<Rightarrow> int \<times> nat \<times> (u8 list \<times> int) list" where
  "list_result cap ctx_pos c todo =
     (if length c + length todo \<le> cap then (0, ctx_pos + length todo, c @ todo)
      else (- ENOSPC, ctx_pos + (cap - length c), c @ take (cap - length c) todo))"

lemma list_result_step:
  "length c < cap \<Longrightarrow> list_result cap ctx_pos c (x # todo) = list_result cap (Suc ctx_pos) (c @ [x]) todo"
  "\<not> length c < cap \<Longrightarrow> length c \<le> cap \<Longrightarrow> list_result cap ctx_pos c (x # todo) = (- ENOSPC, ctx_pos, c)"
proof -
  assume "length c < cap"
  then have "cap - length c = Suc (cap - Suc (length c))" by simp
  then show "list_result cap ctx_pos c (x # todo) = list_result cap (Suc ctx_pos) (c @ [x]) todo"
    by (simp add: list_result_def)
qed (simp add: list_result_def)

context buffer_cache
begin

lemma sfs_list_loop_ok:
  assumes v: "volume info"
  shows "\<forall>i\<in>set is. i < unat (entry_count (sb info)) \<Longrightarrow> length c \<le> cap \<Longrightarrow>
    sfs_list_loop dev info (buf_emit cap) is pos (Suc pos + k) c
      = Some (list_result cap (Suc pos + k) c (drop k (listing (file_table dev info) is)))"
proof (induction "is" arbitrary: pos k c)
  case Nil
  then show ?case by (simp add: list_result_def)
next
  case (Cons i "is")
  have i: "i < unat (entry_count (sb info))" and isb: "\<forall>i\<in>set is. i < unat (entry_count (sb info))"
    using Cons.prems by simp_all
  note rd = read_entry_ok(1) [OF v i]
  show ?case
  proof (cases "fe_used (file_table dev info ! i)")
    case False
    then show ?thesis using Cons.IH [OF isb Cons.prems(2), of pos k] by (simp add: rd)
  next
    case used: True
    let ?x = "(cstr (fe_name (file_table dev info ! i)), S2V_INODE_NUM (int i))"
    show ?thesis
    proof (cases k)
      case (Suc k')
      then show ?thesis using Cons.IH [OF isb Cons.prems(2), of "Suc pos" k'] used by (simp add: rd Let_def)
    next
      case 0
      show ?thesis
      proof (cases "length c < cap")
        case True
        then have "sfs_list_loop dev info (buf_emit cap) is (Suc pos) (Suc (Suc pos)) (c @ [?x])
            = Some (list_result cap (Suc (Suc pos)) (c @ [?x]) (listing (file_table dev info) is))"
          using Cons.IH [OF isb, of "c @ [?x]" "Suc pos" 0] by simp
        with True 0 used show ?thesis by (simp add: rd list_result_step)
      next
        case False
        with 0 used Cons.prems(2) show ?thesis by (simp add: rd list_result_step(2))
      qed
    qed
  qed
qed

end

section \<open>Permission bits\<close>

lemma spread_mode_eq:
  "spread_mode m = m OR (if m AND 0x124 \<noteq> 0 then 0x124 else 0) OR (if m AND 0x92 \<noteq> 0 then 0x92 else 0)
     OR (if m AND 0x49 \<noteq> 0 then 0x49 else 0)"
  by (simp add: spread_mode_def mode_defs Let_def bit.conj_disj_distrib2 or.assoc)

lemma and_sub_zero: "m AND k = 0 \<Longrightarrow> k AND j = j \<Longrightarrow> m AND j = (0 :: u16)"
proof -
  assume m: "m AND k = 0" and k: "k AND j = j"
  have "(m AND k) AND j = m AND j" unfolding and.assoc k ..
  then show ?thesis unfolding m by simp
qed

lemma perm_bits: "m AND 0x1FF = (m AND 0x124) OR (m AND 0x92) OR (m AND (0x49 :: u16))"
  by (simp flip: bit.conj_disj_distrib)

lemma and_or_absorb: "(m AND k) OR k = (k :: u16)"
  by (simp add: or.commute)

section \<open>Read failures\<close>

lemma read_entry_fails:
  assumes "\<forall>b. bread dev (vfs_dev info) b = None"
  shows "\<exists>e<0. read_entry_from_real_sfs dev info i = Some (Inl e)"
  using assms by (auto simp: read_entry_from_real_sfs_def read_from_real_sfs_def Let_def)

lemma scans_fail:
  assumes "\<forall>b. bread dev (vfs_dev info) b = None"
  shows "create_scan dev info fe is = Some (None, fe)" and "lookup_scan dev info fn fe is = Some (None, fe)"
proof -
  have r: "\<exists>e. read_entry_from_real_sfs dev info i = Some (Inl e)" for i
    using read_entry_fails [OF assms, of i] by blast
  show "create_scan dev info fe is = Some (None, fe)"
  proof (cases "is")
    case (Cons i _)
    with r [of "int i"] show ?thesis by auto
  qed simp
  show "lookup_scan dev info fn fe is = Some (None, fe)"
  proof (cases "is")
    case (Cons i _)
    with r [of "int i"] show ?thesis by auto
  qed simp
qed

section \<open>Sample states\<close>

text \<open>The sample volume after creating the file \<open>a\<close>, and after giving it a first block.\<close>

definition sample_entry :: sfs_file_entry where
  "sample_entry = new_entry zero_fe [97] 6 7"

definition sample_entry1 :: sfs_file_entry where
  "sample_entry1 = sample_entry\<lparr>fe_blocks := (replicate 9 0)[0 := 2]\<rparr>"

lemma sample_entry_facts:
  "fe_used sample_entry" "fe_used sample_entry1" "cstr (fe_name sample_entry) = [97]"
  "cstr (fe_name sample_entry1) = [97]" "file_blocks sample_entry = []" "file_blocks sample_entry1 = [2]"
proof -
  have n: "is_cstr ([97] :: u8 list)" by (simp add: is_cstr_def)
  show u: "fe_used sample_entry" unfolding sample_entry_def by (rule used_new_entry) (simp_all add: n)
  then show u1: "fe_used sample_entry1" by (simp add: sample_entry1_def fe_used_def)
  show c: "cstr (fe_name sample_entry) = [97]" unfolding sample_entry_def by (subst cstr_new_entry) (simp_all add: n)
  then show "cstr (fe_name sample_entry1) = [97]" by (simp add: sample_entry1_def)
  show "file_blocks sample_entry = []" by (simp add: file_blocks_def sample_entry_def takeWhile_replicate)
  have "(replicate 9 0)[0 := 2] = [2] @ replicate 8 (0 :: u32)" by (simp add: eval_nat_numeral)
  then show "file_blocks sample_entry1 = [2]"
    using u1 takeWhile_zeros [of "[2]" 8] by (simp add: file_blocks_def sample_entry1_def)
qed

lemma sample_created:
  "\<exists>info. sfs_inv ram_bdev ram_nblk ram_ok info \<and> sb info = sample_sb \<and>
     file_table ram_bdev info = (replicate 8 zero_fe)[0 := sample_entry]"
proof -
  have a: "is_cstr [97]" "([97] :: u8 list) \<noteq> []" by (simp_all add: is_cstr_def)
  have l: "tbl_lookup (file_table ram_bdev sample_info) (take 15 [97]) = None"
    by (simp add: sample_table tbl_lookup_None)
  have f: "tbl_free (file_table ram_bdev sample_info) = Some 0" by (simp add: sample_table tbl_free_def upt_rec)
  have "sb sample_info = sample_sb" by (simp add: sample_info_def)
  moreover obtain d' where "file_table ram_bdev (sample_info\<lparr>vfs_dev := d'\<rparr>) = (replicate 8 zero_fe)[0 := sample_entry]"
      "sfs_inv ram_bdev ram_nblk ram_ok (sample_info\<lparr>vfs_dev := d'\<rparr>)"
    using ram.sfs_create_inv [OF sample_inv a l f, of 7 6 zero_fe] by (auto simp: sample_table sample_entry_def)
  ultimately show ?thesis by (intro exI [of _ "sample_info\<lparr>vfs_dev := d'\<rparr>"]) simp
qed


lemma sample_free_block:
  "find (\<lambda>j. tracker sample_sb ((replicate 8 zero_fe)[0 := sample_entry]) ! j = 0)
     [unat (data_block_start sample_sb)..<unat (partition_size sample_sb)] = Some 2"
proof -
  have z: "owned (replicate n zero_fe) = []" for n by (induction n) (simp_all add: file_blocks_def)
  have "owned ((replicate 8 zero_fe)[0 := sample_entry]) = []"
    by (simp add: owned_update sample_entry_facts(5) z)
  then show ?thesis by (simp add: nth_tracker sample_sb_def upt_rec)
qed

lemma sample_grown:
  "\<exists>info. sfs_inv ram_bdev ram_nblk ram_ok info \<and> sb info = sample_sb \<and>
     file_table ram_bdev info = (replicate 8 zero_fe)[0 := sample_entry1]"
proof -
  obtain info where i: "sfs_inv ram_bdev ram_nblk ram_ok info" "sb info = sample_sb"
      "file_table ram_bdev info = (replicate 8 zero_fe)[0 := sample_entry]"
    using sample_created by blast
  have e: "file_table ram_bdev info ! 0 = sample_entry" by (simp add: i)
  have c: "0 < unat (entry_count (sb info))" by (simp add: i sample_sb_def)
  have k: "unat (0 :: u64) = length (file_blocks (file_table ram_bdev info ! 0))" "unat (0 :: u64) < 9"
    by (simp_all add: e sample_entry_facts)
  have fr: "find (\<lambda>j. tracker (sb info) (file_table ram_bdev info) ! j = 0)
     [unat (data_block_start (sb info))..<unat (partition_size (sb info))] = Some 2"
    unfolding i by (rule sample_free_block)
  have "fe_blocks sample_entry = replicate 9 0" by (simp add: sample_entry_def)
  with ram.sfs_get_block_grow(2) [OF i(1) c _ k fr] show ?thesis
    by (auto simp: i sample_entry_facts sample_entry1_def)
qed

section \<open>Properties\<close>



text \<open>
  C2: a file is created under a non-empty name that resolves to nothing, nor do its first 15
  characters. If every entry is used, creation reports that and changes nothing. Otherwise the
  name cut to 15 characters, and no other, resolves to the returned inode, whose entry is empty
  and carries the permissions and the time; every other name resolves as before (so that a name
  of more than 15 characters still resolves to nothing), and the volume stays consistent.
\<close>

theorem sfs_create_then_lookup:
  assumes bc: "buffer_cache dev nblk ok" and inv: "sfs_inv dev nblk ok info"
    and n: "is_cstr name" "name \<noteq> []"
    and new: "lookup_ino dev info name = Some INV_INODE"
      "lookup_ino dev info (take SIMULA_FS_FILENAME_LEN name) = Some INV_INODE"
  shows "if \<forall>i<length (file_table dev info). fe_used (file_table dev info ! i)
     then \<exists>fe. sfs_create dev now info name perms fe0 = Some (INV_INODE, fe, info)
     else \<exists>ino fe info'. sfs_create dev now info name perms fe0 = Some (ino, fe, info') \<and>
     ino \<noteq> INV_INODE \<and> sfs_lookup dev info' (take SIMULA_FS_FILENAME_LEN name) fe1 = Some (ino, fe) \<and>
     lookup_ino dev info' name = Some (if length name \<le> SIMULA_FS_FILENAME_LEN then ino else INV_INODE) \<and>
     fe_size fe = 0 \<and> fe_timestamp fe = now \<and> fe_perms fe = word_of_int perms \<and> file_blocks fe = [] \<and>
     (\<forall>other. other \<noteq> take SIMULA_FS_FILENAME_LEN name \<longrightarrow> lookup_ino dev info' other = lookup_ino dev info other) \<and>
     used_blocks info' = used_blocks info \<and> sfs_inv dev nblk ok info'"
proof -
  let ?t = "file_table dev info"
  note v = buffer_cache.lookup_ino_ok [OF bc]
  have vol: "vol_ok dev nblk ok info" using inv by (simp add: sfs_inv_def)
  have l: "tbl_lookup ?t (take 15 name) = None"
    using new(2) buffer_cache.lookup_ino_None [OF bc vol] by (simp add: SIMULA_FS_FILENAME_LEN_def)
  show ?thesis
  proof (cases "tbl_free ?t")
    case None
    then have "\<forall>i<length ?t. fe_used (?t ! i)" using tbl_free_None [of ?t] by blast
    with buffer_cache.sfs_create_full [OF bc vol None, of now name perms fe0] show ?thesis by simp
  next
    case f: (Some i)
    have i: "i < length ?t" "\<not> fe_used (?t ! i)" using tbl_free_Some [OF f] by simp_all
    let ?fe = "new_entry (?t ! i) name perms now"
    obtain d' where c: "sfs_create dev now info name perms fe0 = Some (S2V_INODE_NUM (int i), ?fe, info\<lparr>vfs_dev := d'\<rparr>)"
        "file_table dev (info\<lparr>vfs_dev := d'\<rparr>) = ?t[i := ?fe]" "sfs_inv dev nblk ok (info\<lparr>vfs_dev := d'\<rparr>)"
      using buffer_cache.sfs_create_inv [OF bc inv n(1,2) l f, of now perms fe0] by blast
    have wf: "wf_fe (?t ! i)" using buffer_cache.read_entry_ok(2) [OF bc vol] i by simp
    have nm: "cstr (fe_name ?fe) = take 15 name" by (rule cstr_new_entry [OF wf n(1)])
    have us: "fe_used ?fe" by (rule used_new_entry [OF wf n(1,2)])
    have vol': "vol_ok dev nblk ok (info\<lparr>vfs_dev := d'\<rparr>)" and nms: "names_ok (?t[i := ?fe])"
      using c by (simp_all add: sfs_inv_def)
    have "tbl_lookup (?t[i := ?fe]) (take 15 name) = Some i" using tbl_lookup_names [OF nms, of i] i us nm by simp
    then have found: "sfs_lookup dev (info\<lparr>vfs_dev := d'\<rparr>) (take 15 name) fe1 = Some (S2V_INODE_NUM (int i), ?fe)"
        "lookup_ino dev (info\<lparr>vfs_dev := d'\<rparr>) (take 15 name) = Some (S2V_INODE_NUM (int i))"
      using buffer_cache.sfs_lookup_ok [OF bc vol', of "take 15 name" fe1] c(2) i by (auto simp: v [OF vol'])
    have other: "lookup_ino dev (info\<lparr>vfs_dev := d'\<rparr>) other = lookup_ino dev info other" if "other \<noteq> take 15 name" for other
      using tbl_lookup_other [OF i(1), of ?fe other] that nm i(2) c(2) by (simp add: v [OF vol] v [OF vol'])
    have "lookup_ino dev (info\<lparr>vfs_dev := d'\<rparr>) name = Some (if length name \<le> 15 then S2V_INODE_NUM (int i) else INV_INODE)"
    proof (cases "length name \<le> 15")
      case False
      then have "length name \<noteq> length (take 15 name)" by simp
      then have "name \<noteq> take 15 name" by metis
      with other new(1) False show ?thesis by simp
    qed (use found(2) in simp)
    moreover have "file_blocks ?fe = []" by (simp add: file_blocks_def takeWhile_replicate)
    ultimately show ?thesis using c found other i by (auto simp: new_entry_def inode_num_defs SIMULA_FS_FILENAME_LEN_def)
  qed
qed

theorem sfs_create_then_lookup_witness:
  "\<exists>ino fe info'. sfs_create ram_bdev 7 sample_info [97, 98] 6 zero_fe = Some (ino, fe, info') \<and>
     sfs_lookup ram_bdev info' [97, 98] zero_fe = Some (ino, fe) \<and> fe_perms fe = 6"
proof -
  have a: "is_cstr [97, 98]" "([97, 98] :: u8 list) \<noteq> []" by (simp_all add: is_cstr_def)
  have b: "lookup_ino ram_bdev sample_info fn = Some INV_INODE" for fn
    using ram.lookup_ino_None [OF sample_volume] by (simp add: sample_table tbl_lookup_None)
  have c: "\<not> (\<forall>i<length (file_table ram_bdev sample_info). fe_used (file_table ram_bdev sample_info ! i))"
    by (auto simp: sample_table intro!: exI [of _ 0])
  from sfs_create_then_lookup [OF ram.buffer_cache_axioms sample_inv a b b, of 7 6 zero_fe zero_fe]
  show ?thesis unfolding if_not_P [OF c] by (auto simp: SIMULA_FS_FILENAME_LEN_def)
qed



text \<open>
  C4: extending a file by its next block fails with \<open>ENOSPC\<close>, leaving the volume as it was, when
  the file has its nine blocks already, whatever is free. Otherwise it either fails with \<open>ENOSPC\<close>
  because every data block is marked used, leaving the volume as it was, or maps a block of the
  data area that belonged to no file, appends exactly it to this file's blocks and marks it
  used; mapping the same block again then finds it without allocating.
\<close>

theorem sfs_get_block_extends:
  assumes bc: "buffer_cache dev nblk ok" and inv: "sfs_inv dev nblk ok info"
    and i: "i < length (file_table dev info)" and us: "fe_used (file_table dev info ! i)"
    and k: "unat iblock = length (file_blocks (file_table dev info ! i))"
  shows "if SIMULA_FS_DATA_BLOCK_CNT \<le> length (file_blocks (file_table dev info ! i))
     then sfs_get_block dev info (S2V_INODE_NUM (int i)) iblock True = Some (- ENOSPC, None, info)
     else (sfs_get_block dev info (S2V_INODE_NUM (int i)) iblock True = Some (- ENOSPC, None, info) \<and>
      (\<forall>j. unat (data_block_start (sb info)) \<le> j \<longrightarrow> j < unat (partition_size (sb info)) \<longrightarrow>
        tracker (sb info) (file_table dev info) ! j \<noteq> 0)) \<or>
     (\<exists>b info'. sfs_get_block dev info (S2V_INODE_NUM (int i)) iblock True = Some (0, Some b, info') \<and>
      data_block_start (sb info) \<le> b \<and> b < partition_size (sb info) \<and> b \<notin> set (owned (file_table dev info)) \<and>
      file_blocks (file_table dev info' ! i) = file_blocks (file_table dev info ! i) @ [b] \<and>
      (\<forall>j<length (file_table dev info). j \<noteq> i \<longrightarrow> file_table dev info' ! j = file_table dev info ! j) \<and>
      sfs_get_block dev info' (S2V_INODE_NUM (int i)) iblock create = Some (0, Some b, info') \<and>
      sfs_inv dev nblk ok info')"
proof -
  let ?t = "file_table dev info"
  let ?fr = "find (\<lambda>j. tracker (sb info) ?t ! j = 0)
               [unat (data_block_start (sb info))..<unat (partition_size (sb info))]"
  have i': "i < unat (entry_count (sb info))" using i by simp
  have vol: "vol_ok dev nblk ok info" and bk: "blocks_ok (sb info) ?t" using inv by (simp_all add: sfs_inv_def)
  show ?thesis
  proof (cases "unat iblock < 9")
    case False
    then show ?thesis using k by (simp add: sfs_get_block_def word_le_nat_alt)
  next
    case k9: True
    note grow = buffer_cache.sfs_get_block_grow [OF bc inv i' us k k9]
    show ?thesis
    proof (cases ?fr)
      case None
      then show ?thesis using grow(1) k9 k by (auto simp: find_None_iff)
    next
      case (Some j)
      note tf = buffer_cache.tracker_free [OF bc inv Some]
      let ?b = "of_nat j :: u32"
      obtain info' where g: "sfs_get_block dev info (S2V_INODE_NUM (int i)) iblock True = Some (0, Some ?b, info')"
          "sb info' = sb info" "sfs_inv dev nblk ok info'"
          "file_table dev info' = ?t[i := (?t ! i)\<lparr>fe_blocks := (fe_blocks (?t ! i))[unat iblock := ?b]\<rparr>]"
        using grow(2) [OF Some] by blast
      have "length (fe_blocks (?t ! i)) = 9" using buffer_cache.read_entry_ok(2) [OF bc vol i'] by (simp add: wf_fe_lengths)
      moreover have "?b \<noteq> 0" using tf(1,2) vol by (auto simp: vol_ok_def sfs_layout_def)
      ultimately have fb: "file_blocks (file_table dev info' ! i) = file_blocks (?t ! i) @ [?b]"
        using grow_entry(2) [OF us, of ?b] bk us i k9 k g(4) by (simp add: blocks_ok_def)
      have "sfs_get_block dev info' (S2V_INODE_NUM (int i)) iblock create =
          Some (0, Some (file_blocks (file_table dev info' ! i) ! unat iblock), info')"
        using i' g(2) fb k by (intro buffer_cache.sfs_get_block_mapped [OF bc g(3)]) simp_all
      then have again: "sfs_get_block dev info' (S2V_INODE_NUM (int i)) iblock create = Some (0, Some ?b, info')"
        using fb k by simp
      have "\<forall>j<length ?t. j \<noteq> i \<longrightarrow> file_table dev info' ! j = ?t ! j" by (simp add: g(4))
      then show ?thesis using g fb again tf k9 k by (auto simp: word_le_nat_alt word_less_nat_alt)
    qed
  qed
qed

theorem sfs_get_block_extends_witness:
  "\<exists>info b info'. sfs_inv ram_bdev ram_nblk ram_ok info \<and>
     sfs_get_block ram_bdev info 2 0 True = Some (0, Some b, info') \<and>
     file_blocks (file_table ram_bdev info' ! 0) = [b]"
proof -
  obtain info where i: "sfs_inv ram_bdev ram_nblk ram_ok info" "sb info = sample_sb"
      "file_table ram_bdev info = (replicate 8 zero_fe)[0 := sample_entry]"
    using sample_created by blast
  have a: "0 < length (file_table ram_bdev info)" "fe_used (file_table ram_bdev info ! 0)"
    "unat (0 :: u64) = length (file_blocks (file_table ram_bdev info ! 0))"
    by (simp_all add: i sample_sb_def sample_entry_facts)
  have "tracker (sb info) (file_table ram_bdev info) ! 2 = 0"
    using find_Some_nth [OF sample_free_block] by (simp add: i)
  then have "\<not> (\<forall>j. unat (data_block_start (sb info)) \<le> j \<longrightarrow> j < unat (partition_size (sb info)) \<longrightarrow>
        tracker (sb info) (file_table ram_bdev info) ! j \<noteq> 0)"
    by (auto simp: i(2) sample_sb_def intro!: exI [of _ 2])
  with sfs_get_block_extends [OF ram.buffer_cache_axioms i(1) a, of True] i(1) show ?thesis
    by (auto simp: i(3) inode_num_defs sample_entry_facts)
qed

text \<open>
  C6: mounting the device of a consistent volume, when memory and the root inode are to be
  had, succeeds and restores the module's state: the same super block and device, the file
  table it had, and a recomputed tracker equal to the one kept before.
\<close>

theorem sfs_remount_restores:
  assumes bc: "buffer_cache dev nblk ok" and inv: "sfs_inv dev nblk ok info"
    and al: "alloc (unat (partition_size (sb info))) = Some mem" "length mem = unat (partition_size (sb info))"
  shows "\<exists>s'. sfs_fill_super dev True alloc (Some (i_new, root)) True (vfs_dev info) s = Some (0, s') \<and>
     s_magic s' = SIMULA_FS_TYPE \<and> s_blocksize s' = block_size (sb info) \<and>
     (\<exists>info'. s_info s' = Some info' \<and> vfs_dev info' = vfs_dev info \<and> sb info' = sb info \<and>
        used_blocks info' = used_blocks info \<and> \<not> locked info' \<and>
        file_table dev info' = file_table dev info)"
proof -
  let ?z = "zero_info (vfs_dev info)"
  have e: "vfs_dev (?z\<lparr>sb := sb info\<rparr>) = vfs_dev info" "sb (?z\<lparr>sb := sb info\<rparr>) = sb info"
    by (simp_all add: zero_info_def)
  have t: "file_table dev (?z\<lparr>sb := sb info\<rparr>) = file_table dev info" using e by (rule file_table_dev_sb)
  have vz: "vol_ok dev nblk ok (?z\<lparr>sb := sb info\<rparr>)"
    using inv vol_ok_dev_sb [OF e, of dev nblk ok] by (simp add: sfs_inv_def)
  have bk: "blocks_ok (sb info) (file_table dev (?z\<lparr>sb := sb info\<rparr>))"
    and ub: "used_blocks info = Some (tracker (sb info) (file_table dev info))"
    and ty: "sb_type (sb info) = SIMULA_FS_TYPE"
    using inv t by (simp_all add: sfs_inv_def vol_ok_def)
  let ?info' = "?z\<lparr>sb := sb info, used_blocks := Some (tracker (sb info) (file_table dev info)),
                   s_fs_info := True, locked := False\<rparr>"
  have ib: "init_browsing dev alloc ?z = Some (0, ?info')"
    using buffer_cache.init_browsing_ok [where alloc = alloc and s = "sb info" and info = ?z, OF bc al vz bk] t by simp
  have e': "vfs_dev ?info' = vfs_dev info" "sb ?info' = sb info" by (simp_all add: zero_info_def)
  have t': "file_table dev ?info' = file_table dev info" using e' by (rule file_table_dev_sb)
  define s1 where "s1 = s\<lparr>s_info := Some ?info', s_info_freed := False, s_magic := sb_type (sb info),
     s_blocksize := block_size (sb info), s_blocksize_bits := get_bit_pos (block_size (sb info)),
     s_root := Some (if i_new then root\<lparr>i_mode := S_IFDIR OR 0x1FF\<rparr> else root)\<rparr>"
  have "sfs_fill_super dev True alloc (Some (i_new, root)) True (vfs_dev info) s = Some (0, s1)"
    using ib by (simp add: sfs_fill_super_def s1_def Let_def)
  moreover have "s_magic s1 = SIMULA_FS_TYPE" "s_blocksize s1 = block_size (sb info)" "s_info s1 = Some ?info'"
    using ty by (simp_all add: s1_def)
  ultimately show ?thesis using ub e' t' by (intro exI [of _ s1]) simp
qed

theorem sfs_remount_restores_witness:
  "\<exists>s'. sfs_fill_super ram_bdev True (\<lambda>n. Some (replicate n 5))
       (Some (True, \<lparr>i_ino = 1, i_size = 0, i_mode = 0, i_atime = 0, i_mtime = 0, i_ctime = 0, i_nlink = 1\<rparr>))
       True sample_disk \<lparr>s_magic = 0, s_blocksize = 0, s_blocksize_bits = 0, s_info = None, s_root = None, s_info_freed = False\<rparr>
     = Some (0, s') \<and> s_magic s' = SIMULA_FS_TYPE"
proof -
  have "vfs_dev sample_info = sample_disk" by (simp add: sample_info_def)
  then show ?thesis
    using sfs_remount_restores [where alloc = "\<lambda>n. Some (replicate n 5)", OF ram.buffer_cache_axioms sample_inv refl]
    by simp blast
qed

text \<open>
  C7: writing back the inode of an existing regular file stores its size, the later of its two
  times and its permissions, and keeps exactly the first blocks the new size needs (rounded up
  in 32-bit arithmetic); the blocks cut off become free and the volume stays consistent.
\<close>

theorem sfs_write_inode_truncates:
  assumes bc: "buffer_cache dev nblk ok" and inv: "sfs_inv dev nblk ok info"
    and i: "i < length (file_table dev info)" and us: "fe_used (file_table dev info ! i)"
    and node: "i_ino node = S2V_INODE_NUM (int i)" and reg: "i_mode node AND S_IFMT = S_IFREG"
  shows "\<exists>info' fe. sfs_write_inode dev info node = Some (0, info') \<and> sfs_inv dev nblk ok info' \<and>
     file_table dev info' = (file_table dev info)[i := fe] \<and>
     fe_name fe = fe_name (file_table dev info ! i) \<and>
     fe_size fe = word_of_int (i_size node) \<and>
     fe_timestamp fe = word_of_int (max (i_mtime node) (i_ctime node)) \<and>
     fe_perms fe = word_of_int (mode_perms S_IRUGO S_IWUGO S_IXUGO (i_mode node)) \<and>
     file_blocks fe = take (unat (fe_size fe + block_size (sb info) - 1) div unat (block_size (sb info)))
                        (file_blocks (file_table dev info ! i))"
proof -
  let ?t = "file_table dev info"
  let ?pm = "mode_perms S_IRUGO S_IWUGO S_IXUGO (i_mode node)"
  let ?ts = "max (i_mtime node) (i_ctime node)"
  define fe where "fe = update_fields (?t ! i) (Some (i_size node)) (Some ?ts) (Some ?pm)"
  let ?k = "unat (fe_size fe + block_size (sb info) - 1) div unat (block_size (sb info))"
  let ?fe1 = "fe\<lparr>fe_blocks := take ?k (fe_blocks fe) @ replicate (9 - ?k) 0\<rparr>"
  have i': "i < unat (entry_count (sb info))" using i by simp
  have pm: "?pm \<le> 7" by (simp add: mode_perms_def)
  obtain info' where u: "sfs_update dev info (i_ino node) (Some (i_size node)) (Some ?ts) (Some ?pm) = Some (0, info')"
      "file_table dev info' = ?t[i := ?fe1]" "sfs_inv dev nblk ok info'"
    using buffer_cache.sfs_update_inv [OF bc inv i' us, of "Some (i_size node)" "Some ?ts" "Some ?pm"] node
    by (auto simp: fe_def)
  have "(if i_mtime node > i_ctime node then i_mtime node else i_ctime node) = ?ts" by simp
  then have w: "sfs_write_inode dev info node = Some (0, info')"
    using reg u(1) by (simp add: sfs_write_inode_def Let_def del: max_def)
  have f: "fe_name fe = fe_name (?t ! i)" "fe_blocks fe = fe_blocks (?t ! i)" "fe_size fe = word_of_int (i_size node)"
    "fe_timestamp fe = word_of_int ?ts" "fe_perms fe = word_of_int ?pm"
    using pm by (simp_all add: fe_def update_fields_def)
  have nh: "no_holes (fe_blocks fe)"
    using inv us i by (simp add: sfs_inv_def blocks_ok_def f)
  have "file_blocks ?fe1 = take ?k (file_blocks (?t ! i))"
    using no_holes_take(1) [OF nh, of ?k "9 - ?k"] us f by (simp add: file_blocks_def fe_used_def)
  then show ?thesis using w u f by (intro exI [of _ info'] exI [of _ ?fe1]) simp
qed

theorem sfs_write_inode_truncates_witness:
  "\<exists>info info'. file_blocks (file_table ram_bdev info ! 0) = [2] \<and>
     sfs_write_inode ram_bdev info \<lparr>i_ino = 2, i_size = 0, i_mode = 0x81A4, i_atime = 0, i_mtime = 5, i_ctime = 9, i_nlink = 1\<rparr>
       = Some (0, info') \<and> file_blocks (file_table ram_bdev info' ! 0) = []"
proof -
  let ?n = "\<lparr>i_ino = 2, i_size = 0, i_mode = 0x81A4, i_atime = 0, i_mtime = 5, i_ctime = 9, i_nlink = 1\<rparr>"
  obtain info where i: "sfs_inv ram_bdev ram_nblk ram_ok info" "sb info = sample_sb"
      "file_table ram_bdev info = (replicate 8 zero_fe)[0 := sample_entry1]"
    using sample_grown by blast
  have a: "0 < length (file_table ram_bdev info)" "fe_used (file_table ram_bdev info ! 0)"
    "i_ino ?n = S2V_INODE_NUM (int 0)" "i_mode ?n AND S_IFMT = S_IFREG"
    by (simp_all add: i sample_sb_def sample_entry_facts inode_num_defs mode_defs)
  have k: "unat ((0::u32) + block_size (sb info) - 1) div unat (block_size (sb info)) = 0"
    by (simp add: i sample_sb_def)
  obtain info' fe where "sfs_write_inode ram_bdev info ?n = Some (0, info')"
      "file_table ram_bdev info' = (file_table ram_bdev info)[0 := fe]" "fe_size fe = word_of_int (i_size ?n)"
      "file_blocks fe = take (unat (fe_size fe + block_size (sb info) - 1) div unat (block_size (sb info)))
                        (file_blocks (file_table ram_bdev info ! 0))"
    using sfs_write_inode_truncates [OF ram.buffer_cache_axioms i(1) a] by blast
  with k a(1) show ?thesis
    by (intro exI [of _ info] exI [of _ info']) (simp add: i(3) sample_entry_facts)
qed

text \<open>
  C8: listing the root directory from position \<open>2 + k\<close> into a buffer with room for \<open>cap\<close>
  names gives, in order, the name and inode number of the used entries from the \<open>k\<close>-th on. If
  they all fit, the result is 0 and the position is behind the last one; if not, exactly
  \<open>cap\<close> of them are given, the result is \<open>-ENOSPC\<close>, and the position is where the next call
  continues: no entry is skipped or repeated.
\<close>

theorem sfs_list_resumes:
  assumes bc: "buffer_cache dev nblk ok" and v: "vol_ok dev nblk ok info"
  shows "sfs_list dev info (buf_emit cap) (2 + k) [] =
     (let todo = drop k (listing (file_table dev info) [0..<length (file_table dev info)])
      in Some (if length todo \<le> cap then (0, 2 + k + length todo, todo)
               else (- ENOSPC, 2 + k + cap, take cap todo)))"
  using buffer_cache.sfs_list_loop_ok [OF bc v, of "[0..<unat (entry_count (sb info))]" "[]" cap 1 k]
  by (simp add: sfs_list_def list_result_def Let_def)

theorem sfs_list_resumes_witness:
  "\<exists>info. sfs_inv ram_bdev ram_nblk ram_ok info \<and>
     sfs_list ram_bdev info (buf_emit 4) 2 [] = Some (0, 3, [([97], 2)]) \<and>
     sfs_list ram_bdev info (buf_emit 0) 2 [] = Some (- ENOSPC, 2, [])"
proof -
  obtain info where i: "sfs_inv ram_bdev ram_nblk ram_ok info" "sb info = sample_sb"
      "file_table ram_bdev info = (replicate 8 zero_fe)[0 := sample_entry]"
    using sample_created by blast
  have l: "listing (file_table ram_bdev info) [0..<length (file_table ram_bdev info)] = [([97], 2)]"
    by (simp add: i sample_sb_def upt_rec sample_entry_facts inode_num_defs)
  have v: "vol_ok ram_bdev ram_nblk ram_ok info" using i by (simp add: sfs_inv_def)
  show ?thesis
    using i(1) sfs_list_resumes [OF ram.buffer_cache_axioms v, of 4 0]
      sfs_list_resumes [OF ram.buffer_cache_axioms v, of 0 0] unfolding l by auto
qed

text \<open>
  The permissions stored for a new file, read back by a lookup, give the mode the file
  was created with after \<open>sfs_inode_create\<close> spread each kind of access to owner, group and
  others, and writing that inode back stores the same permissions.
\<close>

theorem sfs_mode_roundtrip:
  "perms_mode (word_of_int (mode_perms S_IRUSR S_IWUSR S_IXUSR (spread_mode mode))) = S_IFREG OR (spread_mode mode AND 0x1FF) \<and>
   mode_perms S_IRUGO S_IWUGO S_IXUGO (S_IFREG OR spread_mode mode) = mode_perms S_IRUSR S_IWUSR S_IXUSR (spread_mode mode)"
proof -
  let ?r = "mode AND 0x124 \<noteq> 0" and ?w = "mode AND 0x92 \<noteq> 0" and ?x = "mode AND 0x49 \<noteq> 0"
  have "\<not> ?r \<Longrightarrow> mode AND 0x100 = 0" "\<not> ?w \<Longrightarrow> mode AND 0x80 = 0" "\<not> ?x \<Longrightarrow> mode AND 0x40 = 0"
    by (auto elim: and_sub_zero)
  moreover have "(mode AND 0x100) OR 0x100 \<noteq> 0" "(mode AND 0x80) OR 0x80 \<noteq> 0" "(mode AND 0x40) OR 0x40 \<noteq> 0"
    by (simp_all add: and_or_absorb)
  ultimately show ?thesis
    by (cases ?r; cases ?w; cases ?x;
        simp add: spread_mode_eq mode_perms_def perms_mode_def mode_defs bit.conj_disj_distrib2 perm_bits and_or_absorb)
qed
text \<open>
  The shift loop of \<open>get_bit_pos\<close> computes the binary logarithm: the position of the
  highest set bit, and -1 for 0.
\<close>

theorem get_bit_pos_log2:
  "if val = 0 then get_bit_pos val = -1
   else 0 \<le> get_bit_pos val \<and> 2 ^ nat (get_bit_pos val) \<le> unat val \<and> unat val < 2 ^ Suc (nat (get_bit_pos val))"
proof (cases "val = 0")
  case False
  then obtain k where "bit_pos_loop val 0 = 0 + int k + 1" "2 ^ k \<le> unat val" "unat val < 2 ^ Suc k"
    using bit_pos_loop_bounds by blast
  then have "get_bit_pos val = int k" by (simp only: get_bit_pos_def)
  with \<open>2 ^ k \<le> unat val\<close> \<open>unat val < 2 ^ Suc k\<close> False show ?thesis by simp
qed (simp add: get_bit_pos_def)

text \<open>
  C9: when the device cannot be read, no operation changes the in-memory state, and each reports
  the failure in its own way: mounting gives \<open>-EIO\<close>, block mapping a negative error, creation
  \<open>-ENOSPC\<close>, unlinking \<open>-EINVAL\<close>; listing a directory with entries gives a negative error with the
  position and the reader's buffer as they were; write-back gives a negative error for a regular
  file and 0 for any other inode, which has nothing to write. Lookup alone reports no error: every
  name resolves to nothing.
\<close>

theorem sfs_read_failure:
  assumes fail: "\<forall>b. bread dev (vfs_dev info) b = None"
  shows "sfs_fill_super dev True alloc iget made_root (vfs_dev info) s = Some (- EIO, s) \<and>
     (\<exists>e<0. sfs_get_block dev info ino iblock create = Some (e, None, info)) \<and>
     (if i_mode node AND S_IFMT = S_IFREG then \<exists>e<0. sfs_write_inode dev info node = Some (e, info)
      else sfs_write_inode dev info node = Some (0, info)) \<and>
     sfs_inode_create dev now fe0 info name mode new inserted = Some (- ENOSPC, None, info) \<and>
     sfs_inode_unlink dev info name node = Some (- EINVAL, node, info) \<and>
     (entry_count (sb info) \<noteq> 0 \<longrightarrow> (\<exists>e<0. sfs_list dev info emit ctx_pos c = Some (e, ctx_pos, c))) \<and>
     sfs_inode_lookup dev info fe0 1 1 name iget' = Some Negative_dentry"
proof (intro conjI impI)
  have "bread dev (vfs_dev (zero_info (vfs_dev info))) 0 = None" using fail by (simp add: zero_info_def)
  then show "sfs_fill_super dev True alloc iget made_root (vfs_dev info) s = Some (- EIO, s)"
    by (simp add: sfs_fill_super_def init_browsing_def read_sb_from_real_sfs_def)
  show "\<exists>e<0. sfs_get_block dev info ino iblock create = Some (e, None, info)"
    using read_entry_fails [OF fail, of "V2S_INODE_NUM ino"]
    by (auto simp: sfs_get_block_def sfs_get_file_entry_def)
  show "if i_mode node AND S_IFMT = S_IFREG then \<exists>e<0. sfs_write_inode dev info node = Some (e, info)
      else sfs_write_inode dev info node = Some (0, info)"
    using read_entry_fails [OF fail, of "V2S_INODE_NUM (i_ino node)"]
    by (auto simp: sfs_write_inode_def sfs_update_def sfs_get_file_entry_def Let_def)
  show "sfs_inode_create dev now fe0 info name mode new inserted = Some (- ENOSPC, None, info)"
    by (simp add: sfs_inode_create_def sfs_create_def scans_fail(1) [OF fail] Let_def)
  show "sfs_inode_unlink dev info name node = Some (- EINVAL, node, info)"
    by (simp add: sfs_inode_unlink_def sfs_remove_def sfs_lookup_def scans_fail(2) [OF fail])
  show "\<exists>e<0. sfs_list dev info emit ctx_pos c = Some (e, ctx_pos, c)" if "entry_count (sb info) \<noteq> 0"
  proof -
    have "0 < unat (entry_count (sb info))" using that by (simp add: unat_gt_0)
    then have "[0..<unat (entry_count (sb info))] = 0 # [1..<unat (entry_count (sb info))]"
      by (simp add: upt_conv_Cons)
    with read_entry_fails [OF fail, of "int 0"] show ?thesis by (auto simp: sfs_list_def)
  qed
  show "sfs_inode_lookup dev info fe0 1 1 name iget' = Some Negative_dentry"
    by (simp add: sfs_inode_lookup_def sfs_lookup_def scans_fail(2) [OF fail])
qed

theorem sfs_read_failure_witness:
  "entry_count (sb (sample_info\<lparr>vfs_dev := []\<rparr>)) = 8 \<and>
   sfs_inode_unlink ram_bdev (sample_info\<lparr>vfs_dev := []\<rparr>) [97]
       \<lparr>i_ino = 2, i_size = 0, i_mode = 0x81A4, i_atime = 0, i_mtime = 0, i_ctime = 0, i_nlink = 1\<rparr>
     = Some (- EINVAL, \<lparr>i_ino = 2, i_size = 0, i_mode = 0x81A4, i_atime = 0, i_mtime = 0, i_ctime = 0, i_nlink = 1\<rparr>,
             sample_info\<lparr>vfs_dev := []\<rparr>) \<and>
   (\<exists>e<0. sfs_list ram_bdev (sample_info\<lparr>vfs_dev := []\<rparr>) (buf_emit 4) 2 [] = Some (e, 2, []))"
proof -
  have f: "\<forall>b. bread ram_bdev (vfs_dev (sample_info\<lparr>vfs_dev := []\<rparr>)) b = None"
    by (simp add: ram_bread_outside ram_nblk_def)
  have c: "entry_count (sb (sample_info\<lparr>vfs_dev := []\<rparr>)) = 8" by (simp add: sample_info_def sample_sb_def)
  then have "entry_count (sb (sample_info\<lparr>vfs_dev := []\<rparr>)) \<noteq> 0" by simp
  with sfs_read_failure [OF f, where name = "[97]" and node = "\<lparr>i_ino = 2, i_size = 0, i_mode = 0x81A4,
      i_atime = 0, i_mtime = 0, i_ctime = 0, i_nlink = 1\<rparr>" and emit = "buf_emit 4" and ctx_pos = 2 and c = "[]"]
  show ?thesis using c by blast
qed

text \<open>
  A name longer than 15 characters is stored truncated: the file can be created, but the
  full name never resolves to it afterwards, so it cannot be looked up or unlinked under the
  name it was created with, while its first 15 characters do resolve.
\<close>

theorem sfs_long_name_lost:
  assumes bc: "buffer_cache dev nblk ok" and inv: "sfs_inv dev nblk ok info"
    and n: "is_cstr name" "SIMULA_FS_FILENAME_LEN < length name"
    and new: "lookup_ino dev info name = Some INV_INODE" "lookup_ino dev info (take 15 name) = Some INV_INODE"
    and room: "\<exists>i<length (file_table dev info). \<not> fe_used (file_table dev info ! i)"
  shows "\<exists>ino fe info'. sfs_create dev now info name perms fe0 = Some (ino, fe, info') \<and> ino \<noteq> INV_INODE \<and>
     lookup_ino dev info' name = Some INV_INODE \<and> lookup_ino dev info' (take 15 name) = Some ino \<and>
     sfs_inode_unlink dev info' name node = Some (- EINVAL, node, info')"
proof -
  let ?t = "file_table dev info"
  have vol: "vol_ok dev nblk ok info" using inv by (simp add: sfs_inv_def)
  have l: "tbl_lookup ?t (take 15 name) = None" "tbl_lookup ?t name = None"
    using new buffer_cache.lookup_ino_None [OF bc vol] by simp_all
  have ne: "name \<noteq> []" using n(2) by auto
  obtain i where f: "tbl_free ?t = Some i" using room tbl_free_None [of ?t] by fastforce
  have i: "i < length ?t" "\<not> fe_used (?t ! i)" using tbl_free_Some [OF f] by simp_all
  let ?fe = "new_entry (?t ! i) name perms now"
  obtain d' where c: "sfs_create dev now info name perms fe0 = Some (S2V_INODE_NUM (int i), ?fe, info\<lparr>vfs_dev := d'\<rparr>)"
      "file_table dev (info\<lparr>vfs_dev := d'\<rparr>) = ?t[i := ?fe]" "sfs_inv dev nblk ok (info\<lparr>vfs_dev := d'\<rparr>)"
    using buffer_cache.sfs_create_inv [OF bc inv n(1) ne l(1) f, of now perms fe0] by blast
  have wf: "wf_fe (?t ! i)" using buffer_cache.read_entry_ok(2) [OF bc vol] i by simp
  have nm: "cstr (fe_name ?fe) = take 15 name" by (rule cstr_new_entry [OF wf n(1)])
  have us: "fe_used ?fe" by (rule used_new_entry [OF wf n(1) ne])
  have vol': "vol_ok dev nblk ok (info\<lparr>vfs_dev := d'\<rparr>)" and nms: "names_ok (?t[i := ?fe])"
    using c by (simp_all add: sfs_inv_def)
  have "length (take 15 name) \<noteq> length name" using n(2) by (simp add: SIMULA_FS_FILENAME_LEN_def)
  then have "take 15 name \<noteq> name" by metis
  then have full: "tbl_lookup (?t[i := ?fe]) name = None"
    using tbl_lookup_other [OF i(1), of ?fe name] i(2) nm l(2) by simp
  have "tbl_lookup (?t[i := ?fe]) (take 15 name) = Some i"
    using tbl_lookup_names [OF nms, of i] i us nm by simp
  then have "lookup_ino dev (info\<lparr>vfs_dev := d'\<rparr>) (take 15 name) = Some (S2V_INODE_NUM (int i))"
    "lookup_ino dev (info\<lparr>vfs_dev := d'\<rparr>) name = Some INV_INODE"
    using full c(2) by (simp_all add: buffer_cache.lookup_ino_ok [OF bc vol'])
  moreover have "sfs_inode_unlink dev (info\<lparr>vfs_dev := d'\<rparr>) name node = Some (- EINVAL, node, info\<lparr>vfs_dev := d'\<rparr>)"
    using buffer_cache.sfs_inode_unlink_inv(1) [OF bc c(3) n(1)] full c(2) by simp
  ultimately show ?thesis using c(1) by (auto simp: inode_num_defs)
qed

theorem sfs_long_name_lost_witness:
  "\<exists>ino fe info'. sfs_create ram_bdev 0 sample_info (replicate 16 97) 0 zero_fe = Some (ino, fe, info') \<and>
     ino \<noteq> INV_INODE \<and> lookup_ino ram_bdev info' (replicate 16 97) = Some INV_INODE"
proof -
  have a: "is_cstr (replicate 16 97)" "SIMULA_FS_FILENAME_LEN < length (replicate 16 (97::u8))"
    by (simp_all add: is_cstr_def SIMULA_FS_FILENAME_LEN_def)
  have b: "lookup_ino ram_bdev sample_info fn = Some INV_INODE" for fn
    using ram.lookup_ino_None [OF sample_volume] by (simp add: sample_table tbl_lookup_None)
  have c: "\<exists>i<length (file_table ram_bdev sample_info). \<not> fe_used (file_table ram_bdev sample_info ! i)"
    by (intro exI [of _ 0]) (simp add: sample_table)
  from sfs_long_name_lost [OF ram.buffer_cache_axioms sample_inv a b b c, of 0 0 zero_fe]
  show ?thesis by blast
qed

text \<open>
  A block written past the end of a still empty file is lost when the file is removed:
  mapping block 1 of a file without blocks allocates \<open>b\<close>, removing the file succeeds, no
  entry lists \<open>b\<close> any more, but the tracker still marks it used (the freeing loop stops at the
  empty slot 0).
\<close>

theorem sfs_sparse_block_leaks:
  assumes bc: "buffer_cache dev nblk ok" and inv: "sfs_inv dev nblk ok info"
    and i: "i < length (file_table dev info)" and us: "fe_used (file_table dev info ! i)"
    and empty: "file_blocks (file_table dev info ! i) = []"
    and free: "find (\<lambda>j. tracker (sb info) (file_table dev info) ! j = 0)
        [unat (data_block_start (sb info))..<unat (partition_size (sb info))] = Some j"
  shows "\<exists>info1 info2 ub. sfs_get_block dev info (S2V_INODE_NUM (int i)) 1 True = Some (0, Some (of_nat j), info1) \<and>
     sfs_remove dev info1 (cstr (fe_name (file_table dev info ! i))) = Some (S2V_INODE_NUM (int i), info2) \<and>
     (of_nat j :: u32) \<notin> set (owned (file_table dev info2)) \<and> used_blocks info2 = Some ub \<and> ub ! j = 1"
proof -
  let ?t = "file_table dev info"
  let ?fe = "?t ! i" and ?ub = "tracker (sb info) ?t" and ?b = "of_nat j :: u32"
  let ?fe' = "?fe\<lparr>fe_blocks := (fe_blocks ?fe)[1 := ?b]\<rparr>"
  let ?info0 = "info\<lparr>used_blocks := Some (?ub[j := 1])\<rparr>"
  have vol: "vol_ok dev nblk ok info" and nms: "names_ok ?t" and ub: "used_blocks info = Some ?ub"
    and lk: "\<not> locked info" and nh: "no_holes (fe_blocks ?fe)"
    using inv i us by (simp_all add: sfs_inv_def blocks_ok_def)
  have i': "i < unat (entry_count (sb info))" using i by simp
  note rd = buffer_cache.read_entry_ok [OF bc vol i']
  note tf = buffer_cache.tracker_free [OF bc inv free]
  have len: "length (fe_blocks ?fe) = 9" using rd(2) by (simp add: wf_fe_lengths)
  obtain n where "fe_blocks ?fe = takeWhile (\<lambda>b. b \<noteq> 0) (fe_blocks ?fe) @ replicate n 0"
    using nh unfolding no_holes_iff ..
  then have bs: "fe_blocks ?fe = replicate 9 0" using empty us len by (simp add: file_blocks_def)
  have gd: "sfs_get_data_block info = Some (int j, ?info0)"
    using sfs_get_data_block_ok [OF lk ub] free by simp
  have e0: "vfs_dev ?info0 = vfs_dev info" "sb ?info0 = sb info" by simp_all
  have v0: "vol_ok dev nblk ok ?info0" using vol by (simp only: vol_ok_dev_sb [OF e0])
  have t0: "file_table dev ?info0 = ?t" by (rule file_table_dev_sb [OF e0])
  have i0: "i < unat (entry_count (sb ?info0))" using i' by simp
  have wf: "wf_fe ?fe'" using rd(2) by (simp add: wf_fe_def)
  obtain d1 where w1: "write_entry_to_real_sfs dev ?info0 (int i) ?fe' = Some (0, ?info0\<lparr>vfs_dev := d1\<rparr>)"
      "vol_ok dev nblk ok (?info0\<lparr>vfs_dev := d1\<rparr>)" "file_table dev (?info0\<lparr>vfs_dev := d1\<rparr>) = ?t[i := ?fe']"
    using buffer_cache.write_entry_ok [OF bc v0 i0 wf] t0 by auto
  let ?info1 = "?info0\<lparr>vfs_dev := d1\<rparr>"
  have g: "sfs_get_block dev info (S2V_INODE_NUM (int i)) 1 True = Some (0, Some ?b, ?info1)"
    using rd(1) gd bs w1(1) block_number_valid [OF tf(4)]
    by (simp add: sfs_get_block_def sfs_get_file_entry_def sfs_update_file_entry_def inode_num_defs
        arr_get_in arr_set_in word_le_nat_alt)
  let ?fn = "cstr (fe_name ?fe)"
  have "tbl_lookup (?t[i := ?fe']) ?fn = tbl_lookup ?t ?fn"
    using us by (intro tbl_lookup_other [OF i]) (simp add: fe_used_def)
  then have l: "tbl_lookup (file_table dev ?info1) ?fn = Some i"
    using tbl_lookup_names [OF nms i us] w1(3) by simp
  have lo: "sfs_lookup dev ?info1 ?fn zero_fe = Some (S2V_INODE_NUM (int i), ?fe')"
    using buffer_cache.sfs_lookup_ok [OF bc w1(2), of ?fn zero_fe] l w1(3) i by auto
  have "fe_blocks ?fe' = 0 # (fe_blocks ?fe') ! 1 # replicate 7 0" by (simp add: bs eval_nat_numeral)
  then have pb: "put_blocks ?info1 (fe_blocks ?fe') = Some ?info1" by (metis put_blocks.simps(2))
  have i1: "i < unat (entry_count (sb ?info1))" using i' by simp
  obtain d2 where w2: "write_entry_to_real_sfs dev ?info1 (int i) zero_fe = Some (0, ?info1\<lparr>vfs_dev := d2\<rparr>)"
      "file_table dev (?info1\<lparr>vfs_dev := d2\<rparr>) = ?t[i := zero_fe]"
    using buffer_cache.write_entry_ok [OF bc w1(2) i1 wf_zero_fe] w1(3) by auto
  have r: "sfs_remove dev ?info1 ?fn = Some (S2V_INODE_NUM (int i), ?info1\<lparr>vfs_dev := d2\<rparr>)"
    using lo pb w2(1) by (simp add: sfs_remove_def inode_num_defs)
  have "owned (?t[i := zero_fe]) = owned ?t"
    using empty by (intro tracker_same [OF i]) (simp add: file_blocks_def)
  with g r w2(2) tf(3,5) show ?thesis
    by (intro exI [of _ ?info1] exI [of _ "?info1\<lparr>vfs_dev := d2\<rparr>"] exI [of _ "?ub[j := 1]"]) simp
qed

theorem sfs_sparse_block_leaks_witness:
  "\<exists>info info1 info2 ub. sfs_inv ram_bdev ram_nblk ram_ok info \<and>
     sfs_get_block ram_bdev info 2 1 True = Some (0, Some 2, info1) \<and>
     sfs_remove ram_bdev info1 [97] = Some (2, info2) \<and>
     2 \<notin> set (owned (file_table ram_bdev info2)) \<and> used_blocks info2 = Some ub \<and> ub ! 2 = 1"
proof -
  obtain info where i: "sfs_inv ram_bdev ram_nblk ram_ok info" "sb info = sample_sb"
      "file_table ram_bdev info = (replicate 8 zero_fe)[0 := sample_entry]"
    using sample_created by blast
  have a: "0 < length (file_table ram_bdev info)" "fe_used (file_table ram_bdev info ! 0)"
    "file_blocks (file_table ram_bdev info ! 0) = []" "cstr (fe_name (file_table ram_bdev info ! 0)) = [97]"
    by (simp_all add: i sample_sb_def sample_entry_facts)
  have fr: "find (\<lambda>j. tracker (sb info) (file_table ram_bdev info) ! j = 0)
     [unat (data_block_start (sb info))..<unat (partition_size (sb info))] = Some 2"
    unfolding i by (rule sample_free_block)
  have "S2V_INODE_NUM (int 0) = 2" by (simp add: inode_num_defs)
  with sfs_sparse_block_leaks [OF ram.buffer_cache_axioms i(1) a(1-3) fr] i(1) show ?thesis
    unfolding a(4) by (metis of_nat_numeral)
qed

text \<open>
  A mount forgets the blocks behind a hole: a block of the data area that only entries with an
  empty slot before it list is free after the mount, ready to be given to another file.
\<close>

theorem sfs_mount_forgets:
  assumes bc: "buffer_cache dev nblk ok" and v: "vol_ok dev nblk ok info"
    and bk: "\<forall>b\<in>set (owned (file_table dev info)). b < partition_size (sb info)"
    and al: "\<forall>n mem. alloc n = Some mem \<longrightarrow> length mem = n"
    and m: "sfs_fill_super dev mem alloc iget made_root (vfs_dev info) s = Some (0, s')"
    and b: "data_block_start (sb info) \<le> b" "b < partition_size (sb info)" "b \<notin> set (owned (file_table dev info))"
  shows "\<exists>info' ub. s_info s' = Some info' \<and> file_table dev info' = file_table dev info \<and>
     used_blocks info' = Some ub \<and> ub ! unat b = 0"
proof -
  have "tracker (sb info) (file_table dev info) ! unat b = 0"
    using b by (simp add: nth_tracker unat_image_iff word_le_nat_alt word_less_nat_alt)
  with buffer_cache.sfs_mount_tracker [OF bc v bk al m] show ?thesis by metis
qed

text \<open>
  When the mount fails after the tracker was built, \<open>s_fs_info\<close> keeps pointing to the freed
  structure; unmounting such a super block would follow the pointer.
\<close>

lemma sfs_fill_super_dangling:
  assumes "init_browsing dev alloc (zero_info d) = Some (0, info)"
  shows "\<exists>s'. sfs_fill_super dev True alloc None made_root d s = Some (- EACCES, s') \<and> sfs_put_super s' = None"
    and "\<exists>s'. sfs_fill_super dev True alloc (Some root) False d s = Some (- ENOMEM, s') \<and> sfs_put_super s' = None"
  using assms by (auto simp: sfs_fill_super_def sfs_put_super_def Let_def split: prod.split)

end
