(* ===== verification/Posix_File.thy ===== *)
theory Posix_File
  imports Storage_Prelude
begin

text \<open>
  The POSIX calls the user-space tools make on the device file they open: \<open>lseek\<close>, \<open>read\<close> and
  \<open>write\<close> on an open block device, whose size is fixed. A transfer that reaches the end of the
  device is short; the tools ignore the count. \<open>read\<close> leaves the rest of the caller's buffer
  as it was. A device that reports errors is not modelled: the Simula FS tools do not look at the
  results of these calls, and the returns of \<^verbatim>\<open>mkfs.akp.c\<close> after a failed \<open>write\<close> are left out.
\<close>

record fd =
  fd_data :: "u8 list"
  fd_pos :: nat

definition fd_open :: "u8 list \<Rightarrow> fd" where
  "fd_open d = \<lparr>fd_data = d, fd_pos = 0\<rparr>"

definition fd_seek :: "fd \<Rightarrow> nat \<Rightarrow> fd" where
  "fd_seek f off = f\<lparr>fd_pos := off\<rparr>"

text \<open>\<open>lseek(fd, -n, SEEK_CUR)\<close> fails, without moving, when the result would be negative.\<close>

definition fd_back :: "fd \<Rightarrow> nat \<Rightarrow> fd" where
  "fd_back f n = (if n \<le> fd_pos f then f\<lparr>fd_pos := fd_pos f - n\<rparr> else f)"

definition fd_read :: "fd \<Rightarrow> u8 list \<Rightarrow> nat \<Rightarrow> (u8 list \<times> fd)" where
  "fd_read f buf n =
     (let bs = take n (drop (fd_pos f) (fd_data f))
      in (bs @ drop (length bs) buf, f\<lparr>fd_pos := fd_pos f + length bs\<rparr>))"

definition fd_write :: "fd \<Rightarrow> u8 list \<Rightarrow> fd" where
  "fd_write f buf =
     (let bs = take (length (fd_data f) - fd_pos f) buf
      in \<lparr>fd_data = take (fd_pos f) (fd_data f) @ bs @ drop (fd_pos f + length bs) (fd_data f),
          fd_pos = fd_pos f + length bs\<rparr>)"

text \<open>\<open>write\<close> with its result: -1 when there is no room at all.\<close>

definition fd_put :: "fd \<Rightarrow> u8 list \<Rightarrow> bool \<times> fd" where
  "fd_put f buf = (buf = [] \<or> fd_pos f < length (fd_data f), fd_write f buf)"

lemma fd_seek_simps [simp]: "fd_data (fd_seek f k) = fd_data f" "fd_pos (fd_seek f k) = k"
  by (simp_all add: fd_seek_def)

lemma fd_open_simps [simp]: "fd_data (fd_open d) = d" "fd_pos (fd_open d) = 0"
  by (simp_all add: fd_open_def)

lemma fd_read_in:
  assumes "fd_pos f + n \<le> length (fd_data f)" and "length buf = n"
  shows "fd_read f buf n = (take n (drop (fd_pos f) (fd_data f)), f\<lparr>fd_pos := fd_pos f + n\<rparr>)"
  using assms by (simp add: fd_read_def Let_def)

lemma fd_read_upto:
  assumes "fd_pos f + n \<le> length (fd_data f)"
  shows "fd_read f buf n = (take n (drop (fd_pos f) (fd_data f)) @ drop n buf, f\<lparr>fd_pos := fd_pos f + n\<rparr>)"
  using assms by (simp add: fd_read_def Let_def)

lemma fd_write_in:
  assumes "fd_pos f + length bs \<le> length (fd_data f)"
  shows "mem_write (fd_data f) (fd_pos f) bs = Some (fd_data (fd_write f bs))"
    and "fd_pos (fd_write f bs) = fd_pos f + length bs"
  using assms by (simp_all add: fd_write_def mem_write_def)

lemma fd_write_length [simp]: "fd_pos f \<le> length (fd_data f) \<Longrightarrow> length (fd_data (fd_write f bs)) = length (fd_data f)"
  by (simp add: fd_write_def Let_def)

end
