(* ===== verification/Sfs_Format.thy ===== *)
theory Sfs_Format
  imports Posix_File Sfs_Vfs
begin

text \<open>
  The formatter of the Simula file system, \<^verbatim>\<open>src/USB/Apps/format_real_sfs.c\<close>: it derives the
  layout from the size of the device and writes the super block and a cleared entry table. The
  lemmas show what is on the device afterwards and that the kernel module mounts it as an
  empty, consistent volume.
\<close>

definition SFS_ENTRY_TABLE_BLOCK_START :: nat where "SFS_ENTRY_TABLE_BLOCK_START = 1"

text \<open>
  \<open>sb.partition_size * SFS_ENTRY_RATIO\<close>, converted back to an integer. The \<open>double\<close> written
  \<open>0.10\<close> is \<open>3602879701896397 / 2 ^ 55\<close>; rounding the product to 53 bits does not change its
  integer part, because for a 32-bit factor the product has a fraction below 0.91.
\<close>

definition entry_ratio :: "u32 \<Rightarrow> u32" where
  "entry_ratio p = of_nat (unat p * 3602879701896397 div 2 ^ 55)"

definition init_sb :: sfs_super_block where
  "init_sb = \<lparr>sb_type = SIMULA_FS_TYPE, block_size = of_nat SIMULA_FS_BLOCK_SIZE, partition_size = 0,
     entry_size = of_nat SIMULA_FS_ENTRY_SIZE, entry_table_size = 0,
     entry_table_block_start = of_nat SFS_ENTRY_TABLE_BLOCK_START, entry_count = 0, data_block_start = 0,
     sb_reserved = replicate 120 0\<rparr>"

definition format_sb :: "u64 \<Rightarrow> sfs_super_block" where
  "format_sb sz =
     (let s = init_sb;
          s = s\<lparr>partition_size := ucast (sz div of_nat SIMULA_FS_BLOCK_SIZE)\<rparr>;
          s = s\<lparr>entry_table_size := entry_ratio (partition_size s)\<rparr>;
          s = s\<lparr>entry_count := entry_table_size s * block_size s div entry_size s\<rparr>
      in s\<lparr>data_block_start := of_nat SFS_ENTRY_TABLE_BLOCK_START + entry_table_size s\<rparr>)"

definition write_super_block :: "fd \<Rightarrow> sfs_super_block \<Rightarrow> fd" where
  "write_super_block f s = fd_write f (bytes_of_sb s)"

text \<open>The two loops of \<open>clear_file_entries\<close>; the block is an uninitialised local array.\<close>

fun fill_entries :: "u32 \<Rightarrow> nat list \<Rightarrow> u8 list \<Rightarrow> u8 list option" where
  "fill_entries es [] block = Some block"
| "fill_entries es (i # is) block = do {
     block \<leftarrow> mem_write block (unat (of_nat i * es)) (bytes_of_fe zero_fe);
     fill_entries es is block
   }"

primrec write_blocks :: "nat \<Rightarrow> u8 list \<Rightarrow> fd \<Rightarrow> fd" where
  "write_blocks 0 block f = f"
| "write_blocks (Suc n) block f = write_blocks n block (fd_write f block)"

definition clear_file_entries :: "u8 list \<Rightarrow> fd \<Rightarrow> sfs_super_block \<Rightarrow> fd option" where
  "clear_file_entries block f s = do {
     block \<leftarrow> fill_entries (entry_size s) [0..<unat (block_size s div entry_size s)] block;
     Some (write_blocks (unat (entry_table_size s)) block f)
   }"

text \<open>
  \<open>main\<close>: the number of arguments, what \<open>open\<close> gave (the device's contents), what the
  \<open>BLKGETSIZE64\<close> call gave, and the initial contents of the local array; the result is the exit
  status and the contents of the device.
\<close>

definition format_main :: "int \<Rightarrow> u8 list option \<Rightarrow> u64 option \<Rightarrow> u8 list \<Rightarrow> (int \<times> u8 list option) option" where
  "format_main argc dev_file ioctl_size block =
     (if argc \<noteq> 2 then Some (1, dev_file)
      else case dev_file of
        None \<Rightarrow> Some (2, None)
      | Some d \<Rightarrow>
          (case ioctl_size of
             None \<Rightarrow> Some (3, Some d)
           | Some sz \<Rightarrow> do {
               let s = format_sb sz;
               f \<leftarrow> clear_file_entries block (write_super_block (fd_open d) s) s;
               Some (0, Some (fd_data f))
             }))"

section \<open>The layout\<close>

lemma entry_ratio_div: "unat (entry_ratio p) = unat p div 10"
proof -
  define q r where "q = unat p div 10" and "r = unat p mod 10"
  have d: "unat p = 10 * q + r" by (simp add: q_def r_def)
  have p: "unat p < 4294967296" using unsigned_less [of p] by simp
  then have q: "q < 4294967296" unfolding d by linarith
  have "r < 10" by (simp add: r_def)
  then have "r * 3602879701896397 \<le> 9 * 3602879701896397" by (intro mult_le_mono1) linarith
  then have "unat p * 3602879701896397 div 36028797018963968 = q"
    using q unfolding d by (intro div_nat_eqI) (simp_all add: algebra_simps)
  then show ?thesis using q by (simp add: entry_ratio_def unat_of_nat_small flip: q_def)
qed

text \<open>The layout of a device of \<open>n\<close> blocks.\<close>

lemma format_sb_fields:
  assumes n: "unat sz = n * 512" "n < 2 ^ 32"
  shows "unat (partition_size (format_sb sz)) = n" "unat (entry_table_size (format_sb sz)) = n div 10"
    "unat (entry_count (format_sb sz)) = n div 10 mod 2 ^ 23 * 8" 
    "unat (data_block_start (format_sb sz)) = 1 + n div 10"
    "block_size (format_sb sz) = 512" "entry_size (format_sb sz) = 64" "sb_type (format_sb sz) = SIMULA_FS_TYPE"
    "entry_table_block_start (format_sb sz) = 1" "wf_sb (format_sb sz)"
proof -
  have u: "unat (sz div 512) = n" using n by (simp add: unat_div)
  show p: "unat (partition_size (format_sb sz)) = n"
    using n u by (simp add: format_sb_def init_sb_def Let_def SIMULA_FS_BLOCK_SIZE_def unsigned_ucast_eq take_bit_nat_eq_self)
  show e: "unat (entry_table_size (format_sb sz)) = n div 10"
    using p by (simp add: format_sb_def init_sb_def Let_def entry_ratio_div)
  have "n div 10 < 4294967295" using n by simp
  with e show "unat (data_block_start (format_sb sz)) = 1 + n div 10"
    by (simp add: format_sb_def init_sb_def Let_def SFS_ENTRY_TABLE_BLOCK_START_def unat_word_ariths)
  have "unat (entry_count (format_sb sz)) = n div 10 * 512 mod 2 ^ 32 div 64"
    using e by (simp add: format_sb_def init_sb_def Let_def SIMULA_FS_BLOCK_SIZE_def SIMULA_FS_ENTRY_SIZE_def unat_div unat_word_ariths)
  also have "\<dots> = n div 10 mod 2 ^ 23 * 8"
    using mult_mod_right [of 512 "n div 10" "2 ^ 23"] by (simp add: mult.commute)
  finally show "unat (entry_count (format_sb sz)) = n div 10 mod 2 ^ 23 * 8" .
qed (simp_all add: format_sb_def init_sb_def Let_def SIMULA_FS_BLOCK_SIZE_def SIMULA_FS_ENTRY_SIZE_def
      SFS_ENTRY_TABLE_BLOCK_START_def wf_sb_def)

lemma fill_entries_zero:
  assumes "length block = 512"
  shows "fill_entries 64 [0..<8] block = Some (replicate 512 0)"
proof -
  have "mem_write (replicate (64 * i) 0 @ rest) (unat (of_nat i * 64 :: u32)) (bytes_of_fe zero_fe)
        = Some (replicate (64 * Suc i) 0 @ drop 64 rest)" if "i < 8" "64 \<le> length rest" for i and rest :: "u8 list"
  proof -
    have "unat (of_nat i * 64 :: u32) = 64 * i" using that(1) by (simp add: unat_word_ariths unat_of_nat)
    then show ?thesis
      using that by (simp add: mem_write_def bytes_of_zero_fe replicate_add [symmetric] add.commute flip: append_assoc)
  qed
  then have step: "fill_entries 64 [i..<8] (replicate (64 * i) 0 @ rest)
      = fill_entries 64 [Suc i..<8] (replicate (64 * Suc i) 0 @ drop 64 rest)" if "i < 8" "64 \<le> length rest" for i rest
    using that by (simp add: upt_conv_Cons)
  have "fill_entries 64 [i..<8] (replicate (64 * i) 0 @ rest) = Some (replicate 512 0)"
    if "length rest = 512 - 64 * i" "i \<le> 8" for i rest
    using that
  proof (induction "8 - i" arbitrary: i rest)
    case 0
    then have "i = 8" "rest = []" by simp_all
    then show ?case by simp
  next
    case (Suc k)
    then have "i < 8" "64 \<le> length rest" by simp_all
    with Suc.hyps(1) [of "Suc i" "drop 64 rest"] Suc.hyps(2) Suc.prems step [of i rest] show ?case by simp
  qed
  from this [of block 0] assms show ?thesis by simp
qed

section \<open>What is on the device afterwards\<close>

lemma write_blocks_zero:
  "fd_pos f + 512 * n \<le> length (fd_data f) \<Longrightarrow>
   fd_data (write_blocks n (replicate 512 0) f)
     = take (fd_pos f) (fd_data f) @ replicate (512 * n) 0 @ drop (fd_pos f + 512 * n) (fd_data f)"
proof (induction n arbitrary: f)
  case 0
  then show ?case by simp
next
  case (Suc n)
  let ?f = "fd_write f (replicate 512 0)"
  have w: "fd_data ?f = take (fd_pos f) (fd_data f) @ replicate 512 0 @ drop (fd_pos f + 512) (fd_data f)"
      "fd_pos ?f = fd_pos f + 512"
    using Suc.prems by (simp_all add: fd_write_def)
  have "fd_pos ?f + 512 * n \<le> length (fd_data ?f)" using Suc.prems w by simp
  from Suc.IH [OF this] show ?case
    using Suc.prems by (simp add: w replicate_add add.commute add.left_commute)
qed

lemma table_fits:
  assumes "1 \<le> n"
  shows "512 + 512 * (n div 10) \<le> n * (512::nat)"
proof -
  have "1 + n div 10 \<le> n" using assms by presburger
  then have "(1 + n div 10) * 512 \<le> n * 512" by (rule mult_le_mono1)
  then show ?thesis by simp
qed

lemma format_main_image:
  assumes n: "length d = n * 512" "1 \<le> n" "n < 2 ^ 32" and b: "length block = 512"
  defines "s \<equiv> format_sb (of_nat (length d))"
  shows "format_main 2 (Some d) (Some (of_nat (length d))) block =
     Some (0, Some (bytes_of_sb s @ replicate (512 * (n div 10)) 0 @ drop (512 + 512 * (n div 10)) d))"
proof -
  have "length d < 2 ^ 64" using n by simp
  then have "unat (of_nat (length d) :: u64) = length d" by (intro unat_of_nat_small) simp
  then have u: "unat (of_nat (length d) :: u64) = n * 512" unfolding n(1) .
  note f = format_sb_fields [OF u n(3), folded s_def]
  have l: "length (bytes_of_sb s) = 512" by (rule length_bytes_of_sb [OF f(9)])
  have w: "write_super_block (fd_open d) s = \<lparr>fd_data = bytes_of_sb s @ drop 512 d, fd_pos = 512\<rparr>"
    using n l by (simp add: write_super_block_def fd_write_def Let_def)
  have c: "unat (block_size s div entry_size s) = 8" by (simp add: f)
  have fit: "512 + 512 * (n div 10) \<le> length d"
    unfolding n(1) by (rule table_fits [OF n(2)])
  have "fd_data (write_blocks (n div 10) (replicate 512 0) \<lparr>fd_data = bytes_of_sb s @ drop 512 d, fd_pos = 512\<rparr>)
      = bytes_of_sb s @ replicate (512 * (n div 10)) 0 @ drop (512 + 512 * (n div 10)) d"
    using write_blocks_zero [of "\<lparr>fd_data = bytes_of_sb s @ drop 512 d, fd_pos = 512\<rparr>" "n div 10"] fit l
    by (simp add: add.commute)
  then show ?thesis
    unfolding format_main_def clear_file_entries_def c
    by (simp add: w f(2,5,6) fill_entries_zero [OF b] flip: s_def)
qed

section \<open>Mounting a formatted device\<close>

lemma formatted_volume:
  assumes n: "length d = n * 512" "1 \<le> n" "n < 2 ^ 23"
  defines "s \<equiv> format_sb (of_nat (length d))"
  defines "img \<equiv> bytes_of_sb s @ replicate (512 * (n div 10)) 0 @ drop (512 + 512 * (n div 10)) d"
  assumes i: "vfs_dev info = img" "sb info = s"
  shows "vol_ok ram_bdev ram_nblk ram_ok info"
    and "file_table ram_bdev info = replicate (n div 10 * 8) zero_fe"
proof -
  have "length d < 2 ^ 64" using n by simp
  then have "unat (of_nat (length d) :: u64) = length d" by (intro unat_of_nat_small) simp
  then have u: "unat (of_nat (length d) :: u64) = n * 512" unfolding n(1) .
  have n32: "n < 2 ^ 32" using n(3) by simp
  note f = format_sb_fields [OF u n32, folded s_def]
  have l: "length (bytes_of_sb s) = 512" by (rule length_bytes_of_sb [OF f(9)])
  have fit: "512 + 512 * (n div 10) \<le> n * 512"
    by (rule table_fits [OF n(2)])
  have li: "length img = n * 512" using fit l by (simp add: img_def n(1))
  have r: "ram_ok img" "ram_nblk img = n" using li n(3) by (simp_all add: ram_ok_def ram_nblk_def RB_SECTOR_SIZE_def)
  have ec: "unat (entry_count s) = n div 10 * 8" using f(3) n(3) by simp
  have "sfs_layout (bd_block_size ram_bdev) n s"
    using fit n f ec by (simp add: sfs_layout_def SIMULA_FS_BLOCK_SIZE_def word_le_nat_alt)
  moreover have b0: "bread ram_bdev img 0 = Some (bytes_of_sb s)"
    using ram_bread [OF r(1), of 0] n(2) l by (simp add: r(2)) (simp add: img_def)
  then have "peek ram_bdev img 0 0 SIMULA_FS_BLOCK_SIZE = Some (bytes_of_sb s)"
    using l by (simp add: peek_def mem_read_def SIMULA_FS_BLOCK_SIZE_def)
  then have "read_sb_from_real_sfs ram_bdev info = Some (Inr s)"
    using read_sb_peek [of ram_bdev info] sb_roundtrip [OF f(9)] i by simp
  ultimately show v: "vol_ok ram_bdev ram_nblk ram_ok info" using r f(7) i by (simp add: vol_ok_def)
  show "file_table ram_bdev info = replicate (n div 10 * 8) zero_fe"
  proof (rule nth_equalityI)
    show "length (file_table ram_bdev info) = length (replicate (n div 10 * 8) zero_fe)" using i ec by simp
  next
    fix k assume "k < length (file_table ram_bdev info)"
    then have k: "k < unat (entry_count (sb info))" "k < n div 10 * 8" using i ec by simp_all
    have a: "eaddr (sb info) k = 512 + 64 * k" using i f by (simp add: eaddr_def)
    have "k div 8 < n div 10" using k(2) by (simp add: div_less_iff_less_mult mult.commute)
    then have blk: "(512 + 64 * k) div 512 = 1 + k div 8" "(512 + 64 * k) mod 512 = 64 * (k mod 8)" "1 + k div 8 < n"
      using fit n(2) mult_mod_right [of 64 k 8] by (simp_all add: div_mult2_eq [of _ 64 8, symmetric])
    have "take 512 (drop ((1 + k div 8) * 512) img) = replicate 512 0"
      using l \<open>k div 8 < n div 10\<close> by (simp add: img_def algebra_simps)
    then have "bread ram_bdev img (1 + k div 8) = Some (replicate 512 0)"
      using ram_bread [OF r(1), of "1 + k div 8"] blk(3) r(2) by simp
    then have "peek ram_bdev img (1 + k div 8) (64 * (k mod 8)) 64 = Some (replicate 64 0)"
      by (simp add: peek_def mem_read_def)
    then have "read_entry_from_real_sfs ram_bdev info (int k) = Some (Inr (fe_of_bytes (replicate 64 0)))"
      using ram.read_entry_peek [OF v k(1)] a blk i by auto
    with ram.read_entry_ok(1) [OF v k(1)] k(2) show "file_table ram_bdev info ! k = replicate (n div 10 * 8) zero_fe ! k"
      by (simp only: fe_of_zero_bytes) simp
  qed
qed

lemma empty_table_ok:
  "owned (replicate k zero_fe) = []" "blocks_ok s (replicate k zero_fe)" "names_ok (replicate k zero_fe)"
proof -
  show o: "owned (replicate k zero_fe) = []" by (induction k) (simp_all add: file_blocks_def)
  show "blocks_ok s (replicate k zero_fe)" "names_ok (replicate k zero_fe)"
    by (auto simp: blocks_ok_def names_ok_def o)
qed

section \<open>Properties\<close>

text \<open>
  C5: formatting a device of \<open>n\<close> blocks (at least one, below 4 GiB) and mounting it gives a
  consistent empty volume: the mount succeeds, the layout is the one derived from the size
  (a tenth of the blocks for the entry table, eight entries per block), no file exists and
  exactly the data area is free.
\<close>

theorem format_then_mount:
  assumes n: "length d = n * SIMULA_FS_BLOCK_SIZE" "1 \<le> n" "n < 2 ^ 23" and b: "length block = SIMULA_FS_BLOCK_SIZE"
    and al: "\<forall>k. \<exists>mem. alloc k = Some mem \<and> length mem = k"
  shows "\<exists>d' s' info. format_main 2 (Some d) (Some (of_nat (length d))) block = Some (0, Some d') \<and>
     sfs_fill_super ram_bdev True alloc (Some (i_new, root)) True d' s = Some (0, s') \<and> s_info s' = Some info \<and>
     sfs_inv ram_bdev ram_nblk ram_ok info \<and>
     unat (partition_size (sb info)) = n \<and> unat (data_block_start (sb info)) = 1 + n div 10 \<and>
     file_table ram_bdev info = replicate (n div 10 * 8) zero_fe \<and>
     used_blocks info = Some (replicate (1 + n div 10) 1 @ replicate (n - (1 + n div 10)) 0)"
proof -
  have n': "length d = n * 512" "n < 2 ^ 32" and b': "length block = 512"
    using n b by (simp_all add: SIMULA_FS_BLOCK_SIZE_def)
  let ?s = "format_sb (of_nat (length d))"
  let ?img = "bytes_of_sb ?s @ replicate (512 * (n div 10)) 0 @ drop (512 + 512 * (n div 10)) d"
  have "length d < 2 ^ 64" using n' by simp
  then have "unat (of_nat (length d) :: u64) = length d" by (intro unat_of_nat_small) simp
  then have u: "unat (of_nat (length d) :: u64) = n * 512" unfolding n'(1) .
  note f = format_sb_fields [OF u n'(2)]
  let ?z = "zero_info ?img"
  have z: "vfs_dev (?z\<lparr>sb := ?s\<rparr>) = ?img" "sb (?z\<lparr>sb := ?s\<rparr>) = ?s" by (simp_all add: zero_info_def)
  note fv = formatted_volume [OF n'(1) n(2,3) z]
  obtain mem where mem: "alloc (unat (partition_size ?s)) = Some mem" "length mem = unat (partition_size ?s)"
    using al by blast
  let ?tr = "tracker ?s (replicate (n div 10 * 8) zero_fe)"
  let ?info = "?z\<lparr>sb := ?s, used_blocks := Some ?tr, s_fs_info := True, locked := False\<rparr>"
  have bk: "blocks_ok ?s (file_table ram_bdev (?z\<lparr>sb := ?s\<rparr>))" unfolding fv(2) by (rule empty_table_ok(2))
  have ib: "init_browsing ram_bdev alloc ?z = Some (0, ?info)"
    using ram.init_browsing_ok [where alloc = alloc and s = ?s and info = ?z, OF mem fv(1) bk] fv(2) by simp
  then obtain s' where m: "sfs_fill_super ram_bdev True alloc (Some (i_new, root)) True ?img s = Some (0, s')"
      "s_info s' = Some ?info"
    by (simp add: sfs_fill_super_def Let_def)
  have e: "vfs_dev ?info = vfs_dev (?z\<lparr>sb := ?s\<rparr>)" "sb ?info = sb (?z\<lparr>sb := ?s\<rparr>)" by simp_all
  have t: "file_table ram_bdev ?info = replicate (n div 10 * 8) zero_fe"
    using file_table_dev_sb [OF e, of ram_bdev] fv(2) by simp
  have "vol_ok ram_bdev ram_nblk ram_ok ?info" using vol_ok_dev_sb [OF e] fv(1) by simp
  then have inv: "sfs_inv ram_bdev ram_nblk ram_ok ?info" unfolding sfs_inv_def t by (simp add: empty_table_ok)
  have "1 + n div 10 \<le> n" using n(2) by presburger
  then have "?tr = replicate (1 + n div 10) 1 @ replicate (n - (1 + n div 10)) 0"
    by (intro nth_equalityI) (auto simp: nth_tracker f(1,4) empty_table_ok(1) nth_append simp del: replicate_Suc)
  with format_main_image [OF n'(1) n(2) n'(2) b'] m inv t f z show ?thesis
    by (intro exI [of _ ?img] exI [of _ s'] exI [of _ ?info]) simp
qed

theorem format_then_mount_witness:
  "\<exists>d' s' info. format_main 2 (Some (replicate 10240 9)) (Some 10240) (replicate 512 3) = Some (0, Some d') \<and>
     sfs_fill_super ram_bdev True (\<lambda>k. Some (replicate k 1))
       (Some (True, \<lparr>i_ino = 1, i_size = 0, i_mode = 0, i_atime = 0, i_mtime = 0, i_ctime = 0, i_nlink = 1\<rparr>)) True d'
       \<lparr>s_magic = 0, s_blocksize = 0, s_blocksize_bits = 0, s_info = None, s_root = None, s_info_freed = False\<rparr> = Some (0, s') \<and>
     s_info s' = Some info \<and> length (file_table ram_bdev info) = 16"
proof -
  have a: "length (replicate 10240 (9::u8)) = 20 * SIMULA_FS_BLOCK_SIZE" "1 \<le> (20::nat)" "20 < (2::nat) ^ 23"
    "length (replicate 512 (3::u8)) = SIMULA_FS_BLOCK_SIZE"
    by (simp_all add: SIMULA_FS_BLOCK_SIZE_def)
  have al: "\<forall>k. \<exists>mem. (\<lambda>k. Some (replicate k (1::u8))) k = Some mem \<and> length mem = k" by simp
  from format_then_mount [OF a al, of True "\<lparr>i_ino = 1, i_size = 0, i_mode = 0, i_atime = 0, i_mtime = 0, i_ctime = 0, i_nlink = 1\<rparr>"
      "\<lparr>s_magic = 0, s_blocksize = 0, s_blocksize_bits = 0, s_info = None, s_root = None, s_info_freed = False\<rparr>"]
  show ?thesis by (simp only: length_replicate of_nat_numeral) (elim exE conjE, intro exI conjI, assumption+, simp)
qed

text \<open>
  On a device of 40 GiB the 32-bit product that gives the number of entries wraps
  around: the formatter reserves 8388608 blocks for the entry table and records no entries.
\<close>

theorem format_entry_count_wraps:
  "unat (entry_table_size (format_sb 42949672960)) = 8388608 \<and> entry_count (format_sb 42949672960) = 0"
proof -
  have "unat (42949672960 :: u64) = 83886080 * 512" "(83886080 :: nat) < 2 ^ 32" by simp_all
  note f = format_sb_fields [OF this]
  have "unat (entry_count (format_sb 42949672960)) = 0" unfolding f(3) by simp
  then have "entry_count (format_sb 42949672960) = 0" by (simp only: unat_eq_zero)
  with f(2) show ?thesis by simp
qed

end
