(* ===== verification/Sfs_Browse.thy ===== *)
theory Sfs_Browse
  imports Posix_File Sfs_Inv
begin

text \<open>
  The Simula shell, \<^verbatim>\<open>src/USB/Apps/browse_real_sfs.c\<close>: a user-space program that reads and
  changes a volume through the device file. \<open>shell\<close> holds the program's globals (super block,
  used-block tracker, block buffer), the open device, what was printed, and in \<open>sh_junk\<close> the
  contents of uninitialised locals. \<open>None\<close> is an access outside an array. Functions are named
  after the C functions with the prefix \<open>sh_\<close>, since the kernel module has functions of the
  same names.
\<close>

section \<open>State and output\<close>

datatype message =
    Row "u8 list" u32 u32 u64
  | Already_exists "u8 list"
  | No_entries_left
  | Doesnt_exist "u8 list"
  | No_read_perm "u8 list"
  | No_write_perm "u8 list"
  | Out_of_memory
  | Usage
  | Unknown_command "u8 list"
  | Data "u8 list"

record shell =
  sh_file :: fd
  sh_sb :: sfs_super_block
  sh_used :: "u8 list"
  sh_block :: "u8 list"
  sh_out :: "message list"
  sh_junk :: sfs_file_entry

definition say :: "message \<Rightarrow> shell \<Rightarrow> shell" where
  "say x st = st\<lparr>sh_out := sh_out st @ [x]\<rparr>"

text \<open>\<open>read(sfs_handle, &fe, sizeof(fe))\<close>, and the two seeks into the entry table.\<close>

definition read_fe :: "fd \<Rightarrow> sfs_file_entry \<Rightarrow> sfs_file_entry \<times> fd" where
  "read_fe f fe = (let (buf, f) = fd_read f (bytes_of_fe fe) 64 in (fe_of_bytes buf, f))"

definition table_start :: "sfs_super_block \<Rightarrow> nat" where
  "table_start s = unat (entry_table_block_start s * block_size s)"

definition entry_pos :: "sfs_super_block \<Rightarrow> nat \<Rightarrow> nat" where
  "entry_pos s i = unat (entry_table_block_start s * block_size s + of_nat i * entry_size s)"

section \<open>The used-block tracker\<close>

fun sh_mark_entries :: "nat \<Rightarrow> fd \<Rightarrow> sfs_file_entry \<Rightarrow> u8 list \<Rightarrow> (fd \<times> u8 list) option" where
  "sh_mark_entries 0 f fe ub = Some (f, ub)"
| "sh_mark_entries (Suc n) f fe ub =
     (let (fe, f) = read_fe f fe in
      if \<not> fe_used fe then sh_mark_entries n f fe ub
      else do { ub \<leftarrow> mark_blocks (fe_blocks fe) ub; sh_mark_entries n f fe ub })"

text \<open>\<open>mem\<close>: whether \<open>calloc\<close> returned memory; without it the program exits with status 1.\<close>

definition sh_init_browsing :: "bool \<Rightarrow> shell \<Rightarrow> (int + shell) option" where
  "sh_init_browsing mem st =
     (if \<not> mem then Some (Inl 1)
      else do {
        ub \<leftarrow> fill_used 1 [0..<unat (data_block_start (sh_sb st))]
               (replicate (unat (partition_size (sh_sb st))) 0);
        (f, ub) \<leftarrow> sh_mark_entries (unat (entry_count (sh_sb st)))
                   (fd_seek (sh_file st) (table_start (sh_sb st))) (sh_junk st) ub;
        Some (Inr (st\<lparr>sh_file := f, sh_used := ub\<rparr>))
      })"

definition sh_get_data_block :: "shell \<Rightarrow> (int \<times> shell) option" where
  "sh_get_data_block st = do {
     r \<leftarrow> scan_free (sh_used st) [unat (data_block_start (sh_sb st))..<unat (partition_size (sh_sb st))];
     (case r of
        Some i \<Rightarrow> do { ub \<leftarrow> arr_set (sh_used st) i 1; Some (int i, st\<lparr>sh_used := ub\<rparr>) }
      | None \<Rightarrow> Some (- 1, st))
   }"

definition sh_put_data_block :: "shell \<Rightarrow> int \<Rightarrow> shell option" where
  "sh_put_data_block st i = do {
     ub \<leftarrow> (if i < 0 then None else arr_set (sh_used st) (nat i) 0);
     Some (st\<lparr>sh_used := ub\<rparr>)
   }"

fun sh_put_blocks :: "shell \<Rightarrow> u32 list \<Rightarrow> shell option" where
  "sh_put_blocks st [] = Some st"
| "sh_put_blocks st (b # bs) =
     (if b = 0 then Some st else do { st \<leftarrow> sh_put_data_block st (sint b); sh_put_blocks st bs })"

section \<open>Files\<close>

text \<open>\<open>ctime\<close> reads a 64-bit \<open>time_t\<close> at the address of the 32-bit time stamp: its upper half is
  the field behind it, the permissions.\<close>

definition shown_time :: "sfs_file_entry \<Rightarrow> u64" where
  "shown_time fe = ucast (fe_timestamp fe) OR push_bit 32 (ucast (fe_perms fe))"

fun sh_list_loop :: "nat \<Rightarrow> fd \<Rightarrow> sfs_file_entry \<Rightarrow> message list \<Rightarrow> fd \<times> message list" where
  "sh_list_loop 0 f fe out = (f, out)"
| "sh_list_loop (Suc n) f fe out =
     (let (fe, f) = read_fe f fe in
      if \<not> fe_used fe then sh_list_loop n f fe out
      else sh_list_loop n f fe (out @ [Row (cstr (fe_name fe)) (fe_size fe) (fe_perms fe) (shown_time fe)]))"

definition sh_list :: "shell \<Rightarrow> shell" where
  "sh_list st =
     (let (f, out) = sh_list_loop (unat (entry_count (sh_sb st)))
                       (fd_seek (sh_file st) (table_start (sh_sb st))) (sh_junk st) (sh_out st)
      in st\<lparr>sh_file := f, sh_out := out\<rparr>)"

text \<open>The search loop of \<open>sfs_create\<close>: at the first free entry, at an entry with the name, or
  at the end.\<close>

datatype create_search = Free sfs_file_entry fd | Duplicate fd | Full fd

fun sh_create_loop :: "u8 list \<Rightarrow> nat \<Rightarrow> fd \<Rightarrow> sfs_file_entry \<Rightarrow> create_search" where
  "sh_create_loop fn 0 f fe = Full f"
| "sh_create_loop fn (Suc n) f fe =
     (let (fe, f) = read_fe f fe in
      if \<not> fe_used fe then Free fe f
      else if cstr (fe_name fe) = fn then Duplicate f
      else sh_create_loop fn n f fe)"

definition sh_create :: "u32 \<Rightarrow> shell \<Rightarrow> u8 list \<Rightarrow> shell" where
  "sh_create now st fn =
     (case sh_create_loop fn (unat (entry_count (sh_sb st)))
             (fd_seek (sh_file st) (table_start (sh_sb st))) (sh_junk st) of
        Duplicate f \<Rightarrow> say (Already_exists fn) (st\<lparr>sh_file := f\<rparr>)
      | Full f \<Rightarrow> say No_entries_left (st\<lparr>sh_file := f\<rparr>)
      | Free fe f \<Rightarrow>
          st\<lparr>sh_file := fd_write (fd_back f (unat (entry_size (sh_sb st))))
               (bytes_of_fe (new_entry fe fn 7 now))\<rparr>)"

fun sh_lookup_loop :: "u8 list \<Rightarrow> nat list \<Rightarrow> fd \<Rightarrow> sfs_file_entry \<Rightarrow> int \<times> sfs_file_entry \<times> fd" where
  "sh_lookup_loop fn [] f fe = (- 1, fe, f)"
| "sh_lookup_loop fn (i # is) f fe =
     (let (fe, f) = read_fe f fe in
      if fe_used fe \<and> cstr (fe_name fe) = fn then (int i, fe, f) else sh_lookup_loop fn is f fe)"

definition sh_lookup :: "shell \<Rightarrow> u8 list \<Rightarrow> int \<times> sfs_file_entry \<times> shell" where
  "sh_lookup st fn =
     (let (i, fe, f) = sh_lookup_loop fn [0..<unat (entry_count (sh_sb st))]
                         (fd_seek (sh_file st) (table_start (sh_sb st))) (sh_junk st)
      in (i, fe, st\<lparr>sh_file := f\<rparr>))"

definition write_entry_at :: "nat \<Rightarrow> sfs_file_entry \<Rightarrow> shell \<Rightarrow> shell" where
  "write_entry_at i fe st =
     st\<lparr>sh_file := fd_write (fd_seek (sh_file st) (entry_pos (sh_sb st) i)) (bytes_of_fe fe)\<rparr>"

definition sh_remove :: "shell \<Rightarrow> u8 list \<Rightarrow> shell option" where
  "sh_remove st fn =
     (let (i, fe, st) = sh_lookup st fn in
      if i = - 1 then Some (say (Doesnt_exist fn) st)
      else do {
        st \<leftarrow> sh_put_blocks st (fe_blocks fe);
        Some (write_entry_at (nat i) zero_fe st)
      })"

definition sh_update :: "u32 \<Rightarrow> shell \<Rightarrow> u8 list \<Rightarrow> int option \<Rightarrow> bool \<Rightarrow> int option \<Rightarrow> shell" where
  "sh_update now st fn sz update_ts perms =
     (let (i, fe, st) = sh_lookup st fn in
      if i = - 1 then say (Doesnt_exist fn) st
      else write_entry_at (nat i)
        (update_fields fe sz (if update_ts then Some (uint now) else None) perms) st)"

definition sh_chperm :: "u32 \<Rightarrow> shell \<Rightarrow> u8 list \<Rightarrow> int \<Rightarrow> shell" where
  "sh_chperm now st fn perm = sh_update now st fn None False (Some perm)"

section \<open>File contents\<close>

text \<open>
  The loop of \<open>sfs_read\<close> over the remaining blocks. \<open>rem_to_read\<close> is an \<open>int\<close> that is compared
  with the unsigned block size, so 32-bit unsigned arithmetic gives the same values.
\<close>

fun sh_read_loop :: "u32 list \<Rightarrow> u32 \<Rightarrow> shell \<Rightarrow> shell option" where
  "sh_read_loop [] rem st = Some st"
| "sh_read_loop (b # bs) rem st =
     (if b = 0 then Some st
      else let to_read = (if rem \<ge> block_size (sh_sb st) then block_size (sh_sb st) else rem) in
        if unat to_read > length (sh_block st) then None
        else let (block, f) = fd_read (fd_seek (sh_file st) (unat (b * block_size (sh_sb st)))) (sh_block st) (unat to_read);
                 st = say (Data (take (unat to_read) block)) (st\<lparr>sh_file := f, sh_block := block\<rparr>);
                 rem = rem - to_read
             in if rem = 0 then Some st else sh_read_loop bs rem st)"

definition sh_read :: "shell \<Rightarrow> u8 list \<Rightarrow> shell option" where
  "sh_read st fn =
     (let (i, fe, st) = sh_lookup st fn in
      if i = - 1 then Some (say (Doesnt_exist fn) st)
      else if fe_perms fe AND 4 = 0 then Some (say (No_read_perm fn) st)
      else sh_read_loop (fe_blocks fe) (fe_size fe) st)"

text \<open>
  Standard input during \<open>sfs_write\<close> is the list of pieces that \<open>read(0, ...)\<close> delivers; an
  empty piece, or the end of the list, is end of file.
\<close>

fun read0 :: "u8 list list \<Rightarrow> nat \<Rightarrow> u8 list \<times> u8 list list" where
  "read0 [] n = ([], [])"
| "read0 (c # cs) n = (if n < length c then (take n c, drop n c # cs) else (c, cs))"

lemma read0_size:
  "(got, rest) = read0 cs n \<Longrightarrow> got \<noteq> [] \<Longrightarrow> sum_list (map length rest) < sum_list (map length cs)"
  by (induction cs n rule: read0.induct) (auto split: if_splits)

text \<open>
  The variables of \<open>sfs_write\<close> that its loop changes, and the loop: it ends at end of file
  (\<open>wr_eof\<close>), at the file size limit or when the volume is full.
\<close>

record wr =
  wr_sh :: shell
  wr_fe :: sfs_file_entry
  cur_read_i :: nat
  to_read :: nat
  total_size :: u32
  block_i :: nat
  wr_eof :: bool

function sh_write_loop :: "u8 list list \<Rightarrow> wr \<Rightarrow> wr option" where
  "sh_write_loop cs w =
     (let (got, rest) = read0 cs (to_read w) in
      if got = [] then Some (w\<lparr>wr_eof := True\<rparr>)
      else do {
        block \<leftarrow> mem_write (sh_block (wr_sh w)) (cur_read_i w) got;
        let st = (wr_sh w)\<lparr>sh_block := block\<rparr>;
        let bs = block_size (sh_sb st);
        if length got = to_read w
        then
          if block_i w = SIMULA_FS_DATA_BLOCK_CNT then Some (w\<lparr>wr_sh := st, wr_eof := False\<rparr>)
          else do {
            (free_i, st) \<leftarrow> sh_get_data_block st;
            if free_i = - 1 then Some (w\<lparr>wr_sh := st, wr_eof := False\<rparr>)
            else do {
              data \<leftarrow> mem_read block 0 (unat bs);
              let st = st\<lparr>sh_file := fd_write (fd_seek (sh_file st) (unat (word_of_int free_i * bs))) data\<rparr>;
              blocks \<leftarrow> arr_set (fe_blocks (wr_fe w)) (block_i w) (word_of_int free_i);
              sh_write_loop rest
                (w\<lparr>wr_sh := st, wr_fe := (wr_fe w)\<lparr>fe_blocks := blocks\<rparr>, block_i := block_i w + 1,
                   total_size := total_size w + bs, cur_read_i := 0, to_read := unat bs\<rparr>)
            }
          }
        else sh_write_loop rest
          (w\<lparr>wr_sh := st, cur_read_i := cur_read_i w + length got, to_read := to_read w - length got\<rparr>)
      })"
  by pat_completeness auto
termination sh_write_loop
  by (relation "measure (\<lambda>(cs, _). sum_list (map length cs))") (auto dest: read0_size)

declare sh_write_loop.simps [simp del]

text \<open>The partial block after the loop. The block number is stored before it is compared.\<close>

definition sh_write_tail :: "wr \<Rightarrow> wr option" where
  "sh_write_tail w =
     (if wr_eof w \<and> cur_read_i w \<noteq> 0 \<and> block_i w \<noteq> SIMULA_FS_DATA_BLOCK_CNT
      then do {
        (free_i, st) \<leftarrow> sh_get_data_block (wr_sh w);
        blocks \<leftarrow> arr_set (fe_blocks (wr_fe w)) (block_i w) (word_of_int free_i);
        let w = w\<lparr>wr_sh := st, wr_fe := (wr_fe w)\<lparr>fe_blocks := blocks\<rparr>\<rparr>;
        if (word_of_int free_i :: u32) \<noteq> - 1
        then do {
          data \<leftarrow> mem_read (sh_block st) 0 (cur_read_i w);
          Some (w\<lparr>wr_sh := st\<lparr>sh_file := fd_write (fd_seek (sh_file st)
                    (unat (word_of_int free_i * block_size (sh_sb st)))) data\<rparr>,
                  total_size := total_size w + of_nat (cur_read_i w)\<rparr>)
        }
        else Some w
      }
      else Some w)"

definition sh_write :: "u32 \<Rightarrow> shell \<Rightarrow> u8 list \<Rightarrow> u8 list list \<Rightarrow> shell option" where
  "sh_write now st fn cs =
     (let (i, fe, st) = sh_lookup st fn in
      if i = - 1 then Some (say (Doesnt_exist fn) st)
      else if fe_perms fe AND 2 = 0 then Some (say (No_write_perm fn) st)
      else do {
        st \<leftarrow> sh_put_blocks st (fe_blocks fe);
        w \<leftarrow> sh_write_loop cs \<lparr>wr_sh = st, wr_fe = fe, cur_read_i = 0,
               to_read = unat (block_size (sh_sb st)), total_size = 0, block_i = 0, wr_eof = False\<rparr>;
        w \<leftarrow> sh_write_tail w;
        Some (write_entry_at (nat i) ((wr_fe w)\<lparr>fe_size := total_size w, fe_timestamp := now\<rparr>) (wr_sh w))
      })"

section \<open>The command loop\<close>

definition str :: "string \<Rightarrow> u8 list" where
  "str s = map of_char s"

text \<open>\<open>cmd[i]\<close> of a string that ends at most at \<open>i\<close>.\<close>

definition ch :: "u8 list \<Rightarrow> nat \<Rightarrow> u8" where
  "ch s i = (if i < length s then s ! i else 0)"

datatype command =
    Cmd_usage | Cmd_quit | Cmd_list | Cmd_create "u8 list" | Cmd_remove "u8 list"
  | Cmd_chperm int "u8 list" | Cmd_read "u8 list" | Cmd_write "u8 list" | Cmd_unknown

text \<open>The file name behind position \<open>k\<close>: skips blanks, and must not be empty.\<close>

definition with_name :: "u8 list \<Rightarrow> nat \<Rightarrow> (u8 list \<Rightarrow> command) \<Rightarrow> command" where
  "with_name cmd k c = (let fn = dropWhile (\<lambda>x. x = 32) (drop k cmd) in if fn \<noteq> [] then c fn else Cmd_unknown)"

definition parse_command :: "u8 list \<Rightarrow> command" where
  "parse_command cmd =
     (if cmd = str ''?'' then Cmd_usage
      else if cmd = str ''quit'' then Cmd_quit
      else if cmd = str ''list'' then Cmd_list
      else if take 6 cmd = str ''create'' then (if ch cmd 6 = 32 then with_name cmd 7 Cmd_create else Cmd_unknown)
      else if take 6 cmd = str ''remove'' then (if ch cmd 6 = 32 then with_name cmd 7 Cmd_remove else Cmd_unknown)
      else if take 6 cmd = str ''chperm'' then
        (let perm = sint (ch cmd 7) - 48 in
         if ch cmd 6 = 32 \<and> 0 \<le> perm \<and> perm \<le> 7 \<and> ch cmd 8 = 32
         then with_name cmd 9 (Cmd_chperm perm) else Cmd_unknown)
      else if take 4 cmd = str ''read'' then (if ch cmd 4 = 32 then with_name cmd 5 Cmd_read else Cmd_unknown)
      else if take 5 cmd = str ''write'' then (if ch cmd 5 = 32 then with_name cmd 6 Cmd_write else Cmd_unknown)
      else Cmd_unknown)"

text \<open>
  One command, with the time and the standard input it sees; the flag says that the shell is
  done.
\<close>

definition run_command :: "u32 \<Rightarrow> u8 list list \<Rightarrow> u8 list \<Rightarrow> shell \<Rightarrow> (bool \<times> shell) option" where
  "run_command now cs cmd st =
     (case parse_command cmd of
        Cmd_usage \<Rightarrow> Some (False, say Usage st)
      | Cmd_quit \<Rightarrow> Some (True, st)
      | Cmd_list \<Rightarrow> Some (False, sh_list st)
      | Cmd_create fn \<Rightarrow> Some (False, sh_create now st fn)
      | Cmd_remove fn \<Rightarrow> map_option (Pair False) (sh_remove st fn)
      | Cmd_chperm perm fn \<Rightarrow> Some (False, sh_chperm now st fn perm)
      | Cmd_read fn \<Rightarrow> map_option (Pair False) (sh_read st fn)
      | Cmd_write fn \<Rightarrow> map_option (Pair False) (sh_write now st fn cs)
      | Cmd_unknown \<Rightarrow> Some (False, say Usage (say (Unknown_command cmd) st)))"

text \<open>
  The loop over the input lines; the end of the list is end of file. \<open>scanf\<close> stores a line of
  any length in the 256-byte buffer.
\<close>

fun browse_loop :: "(u8 list \<times> u8 list list \<times> u32) list \<Rightarrow> shell \<Rightarrow> shell option" where
  "browse_loop [] st = Some st"
| "browse_loop ((line, cs, now) # input) st =
     (if line = [] then browse_loop input st
      else if length line \<ge> 256 then None
      else do {
        (finished, st) \<leftarrow> run_command now cs line st;
        if finished then Some st else browse_loop input st
      })"

definition browse_sfs :: "bool \<Rightarrow> (u8 list \<times> u8 list list \<times> u32) list \<Rightarrow> shell \<Rightarrow> (int + shell) option" where
  "browse_sfs mem input st = do {
     r \<leftarrow> sh_init_browsing mem st;
     (case r of
        Inl e \<Rightarrow> Some (Inl e)
      | Inr st \<Rightarrow> do { st \<leftarrow> browse_loop input st; Some (Inr st) })
   }"

text \<open>\<open>main\<close>: exit status and, when the shell ran, its final state. Globals start as zeros.\<close>

definition browse_main ::
    "int \<Rightarrow> u8 list option \<Rightarrow> sfs_file_entry \<Rightarrow> bool \<Rightarrow> (u8 list \<times> u8 list list \<times> u32) list
     \<Rightarrow> (int \<times> shell option) option" where
  "browse_main argc dev_file junk mem input =
     (if argc \<noteq> 2 then Some (1, None)
      else case dev_file of
        None \<Rightarrow> Some (2, None)
      | Some d \<Rightarrow>
          let (buf, f) = fd_read (fd_open d) (replicate SIMULA_FS_BLOCK_SIZE 0) SIMULA_FS_BLOCK_SIZE;
              s = sb_of_bytes buf
          in if sb_type s \<noteq> SIMULA_FS_TYPE then Some (3, None)
             else do {
               r \<leftarrow> browse_sfs mem input
                     \<lparr>sh_file = f, sh_sb = s, sh_used = [], sh_block = replicate SIMULA_FS_BLOCK_SIZE 0,
                      sh_out = [], sh_junk = junk\<rparr>;
               (case r of Inl e \<Rightarrow> Some (e, None) | Inr st \<Rightarrow> Some (0, Some st))
             })"

end
