(* ===== verification/Sfs_Shell.thy ===== *)
theory Sfs_Shell
  imports Sfs_Browse Sfs_Props
begin

text \<open>
  The Simula shell on a well-formed volume: its byte-wise accesses are reads and updates of the
  file table and of data blocks, its tracker is the kernel module's, and what a file was
  written with is what reading it prints.
\<close>

section \<open>The device as entries and blocks\<close>

text \<open>
  The layout the formatter produces: 512-byte blocks, 64-byte entries, the table between super
  block and data area, all byte offsets below 4 GiB.
\<close>

definition shell_layout :: "nat \<Rightarrow> sfs_super_block \<Rightarrow> bool" where
  "shell_layout len s \<longleftrightarrow> block_size s = 512 \<and> entry_size s = 64 \<and>
     unat (entry_table_block_start s) * 512 + 64 * unat (entry_count s) \<le> unat (data_block_start s) * 512 \<and>
     data_block_start s \<le> partition_size s \<and> 0 < unat (data_block_start s) \<and>
     unat (partition_size s) * 512 \<le> len \<and> unat (partition_size s) < 2 ^ 23"

definition stbl :: "u8 list \<Rightarrow> sfs_super_block \<Rightarrow> sfs_file_entry list" where
  "stbl d s = map (\<lambda>i. fe_of_bytes (take 64 (drop (eaddr s i) d))) [0..<unat (entry_count s)]"

definition dblock :: "u8 list \<Rightarrow> u32 \<Rightarrow> u8 list" where
  "dblock d b = take 512 (drop (512 * unat b) d)"

lemma length_stbl [simp]: "length (stbl d s) = unat (entry_count s)"
  by (simp add: stbl_def)

lemma nth_stbl: "i < unat (entry_count s) \<Longrightarrow> stbl d s ! i = fe_of_bytes (take 64 (drop (eaddr s i) d))"
  by (simp add: stbl_def)

lemma layout_eaddr:
  assumes "shell_layout len s"
  shows "eaddr s i = unat (entry_table_block_start s) * 512 + 64 * i"
    and "i < unat (entry_count s) \<Longrightarrow> eaddr s i + 64 \<le> unat (data_block_start s) * 512"
    and "unat (data_block_start s) * 512 \<le> len" and "unat (data_block_start s) * 512 < 2 ^ 32"
    and "i \<le> unat (entry_count s) \<Longrightarrow> eaddr s i \<le> unat (data_block_start s) * 512"
  using assms by (simp_all add: shell_layout_def eaddr_def word_le_nat_alt)

lemma layout_words:
  assumes l: "shell_layout len s"
  shows "table_start s = eaddr s 0" and "i < unat (entry_count s) \<Longrightarrow> entry_pos s i = eaddr s i"
    and "b < partition_size s \<Longrightarrow> unat (b * block_size s) = 512 * unat b"
proof -
  have bs: "block_size s = 512" and es: "entry_size s = 64" and ps: "unat (partition_size s) < 2 ^ 23"
    using l by (simp_all add: shell_layout_def)
  have t: "unat (entry_table_block_start s) * 512 < 2 ^ 32"
    using layout_eaddr(1) [OF l, of 0] layout_eaddr(5) [OF l, of 0] layout_eaddr(4) [OF l] by simp
  then have tw: "unat (entry_table_block_start s * 512) = unat (entry_table_block_start s) * 512"
    by (intro unat_sectors) simp_all
  then show "table_start s = eaddr s 0" using layout_eaddr(1) [OF l] by (simp add: table_start_def bs)
  show "entry_pos s i = eaddr s i" if i: "i < unat (entry_count s)"
  proof -
    have b: "eaddr s i < 2 ^ 32" using layout_eaddr(2) [OF l, of i] layout_eaddr(4) [OF l] i by simp
    have "entry_table_block_start s * 512 + of_nat i * 64 = (of_nat (eaddr s i) :: u32)"
      by (simp add: layout_eaddr(1) [OF l])
    then have "unat (entry_table_block_start s * 512 + of_nat i * 64) = eaddr s i"
      using b by (simp only: unat_of_nat) simp
    then show ?thesis by (simp add: entry_pos_def bs es)
  qed
  show "unat (b * block_size s) = 512 * unat b" if "b < partition_size s"
  proof -
    have "unat b < 2 ^ 23" using that ps by (simp add: word_less_nat_alt)
    then have "unat (b * 512) = unat b * 512" by (intro unat_sectors) simp_all
    then show ?thesis by (simp add: bs)
  qed
qed

section \<open>Reading the table\<close>

lemma read_fe_ok:
  assumes l: "shell_layout (length (fd_data f)) s" and p: "fd_pos f = eaddr s i" and i: "i < unat (entry_count s)"
    and fe: "wf_fe fe"
  shows "read_fe f fe = (stbl (fd_data f) s ! i, f\<lparr>fd_pos := eaddr s (Suc i)\<rparr>)"
    and "wf_fe (stbl (fd_data f) s ! i)"
proof -
  have b: "eaddr s i + 64 \<le> length (fd_data f)" using layout_eaddr(2,3) [OF l] i by (meson le_trans)
  then have "fd_read f (bytes_of_fe fe) 64 = (take 64 (drop (eaddr s i) (fd_data f)), f\<lparr>fd_pos := eaddr s i + 64\<rparr>)"
    using p length_bytes_of_fe [OF fe] by (simp add: fd_read_in)
  moreover have "eaddr s (Suc i) = eaddr s i + 64" by (simp add: eaddr_def)
  ultimately show "read_fe f fe = (stbl (fd_data f) s ! i, f\<lparr>fd_pos := eaddr s (Suc i)\<rparr>)"
    using i by (simp add: read_fe_def nth_stbl)
  show "wf_fe (stbl (fd_data f) s ! i)" using b i by (simp add: nth_stbl wf_fe_of_bytes)
qed

lemma sh_mark_entries_ok:
  assumes "shell_layout (length (fd_data f)) s" and "fd_pos f = eaddr s k" and "k + n = unat (entry_count s)"
    and "wf_fe fe" and "\<forall>i<unat (entry_count s). \<forall>b\<in>set (file_blocks (stbl (fd_data f) s ! i)). unat b < length ub"
  shows "\<exists>f'. fd_data f' = fd_data f \<and> sh_mark_entries n f fe ub =
     Some (f', set_marks 1 ub (concat (map (\<lambda>i. file_blocks (stbl (fd_data f) s ! i)) [k..<unat (entry_count s)])))"
  using assms
proof (induction n arbitrary: k f fe ub)
  case 0
  then show ?case by simp
next
  case (Suc n)
  let ?e = "stbl (fd_data f) s ! k" and ?f = "f\<lparr>fd_pos := eaddr s (Suc k)\<rparr>"
  have k: "k < unat (entry_count s)" using Suc.prems(3) by simp
  note rd = read_fe_ok [OF Suc.prems(1,2) k Suc.prems(4)]
  have up: "[k..<unat (entry_count s)] = k # [Suc k..<unat (entry_count s)]" using k by (simp add: upt_conv_Cons)
  have ih: "\<exists>f'. fd_data f' = fd_data ?f \<and> sh_mark_entries n ?f ?e ub' =
     Some (f', set_marks 1 ub' (concat (map (\<lambda>i. file_blocks (stbl (fd_data ?f) s ! i)) [Suc k..<unat (entry_count s)])))"
    if "length ub' = length ub" for ub'
    using Suc.prems that rd(2) by (intro Suc.IH) simp_all
  show ?case
  proof (cases "fe_used ?e")
    case True
    then have "mark_blocks (fe_blocks ?e) ub = Some (set_marks 1 ub (file_blocks ?e))"
      using Suc.prems(5) k by (simp add: file_blocks_def mark_blocks_ok)
    with True ih [of "set_marks 1 ub (file_blocks ?e)"] show ?thesis
      by (auto simp: rd(1) up set_marks_append)
  next
    case False
    with ih [of ub] show ?thesis by (auto simp: rd(1) up file_blocks_def)
  qed
qed

lemma sh_lookup_loop_ok:
  fixes fn :: "u8 list"
  assumes "shell_layout (length (fd_data f)) s" and "fd_pos f = eaddr s k" and "k \<le> unat (entry_count s)" and "wf_fe fe"
  defines "P \<equiv> \<lambda>i. fe_used (stbl (fd_data f) s ! i) \<and> cstr (fe_name (stbl (fd_data f) s ! i)) = fn"
  shows "\<exists>fe' p. sh_lookup_loop fn [k..<unat (entry_count s)] f fe =
       (case find P [k..<unat (entry_count s)] of None \<Rightarrow> - 1 | Some i \<Rightarrow> int i, fe', f\<lparr>fd_pos := p\<rparr>) \<and>
     (\<forall>i. find P [k..<unat (entry_count s)] = Some i \<longrightarrow> fe' = stbl (fd_data f) s ! i)"
  using assms(1-4) unfolding P_def
proof (induction "unat (entry_count s) - k" arbitrary: k f fe)
  case 0
  then show ?case by (auto intro!: exI [of _ "fd_pos f"])
next
  case (Suc n)
  let ?e = "stbl (fd_data f) s ! k" and ?f = "f\<lparr>fd_pos := eaddr s (Suc k)\<rparr>"
  have k: "k < unat (entry_count s)" using Suc.hyps(2) by simp
  note rd = read_fe_ok [OF Suc.prems(1,2) k Suc.prems(4)]
  have up: "[k..<unat (entry_count s)] = k # [Suc k..<unat (entry_count s)]" using k by (simp add: upt_conv_Cons)
  show ?case
  proof (cases "fe_used ?e \<and> cstr (fe_name ?e) = fn")
    case True
    then show ?thesis by (auto simp: up rd(1))
  next
    case False
    then have s: "sh_lookup_loop fn [k..<unat (entry_count s)] f fe
        = sh_lookup_loop fn [Suc k..<unat (entry_count s)] ?f ?e"
      by (auto simp: up rd(1))
    have fi: "find (\<lambda>i. fe_used (stbl (fd_data f) s ! i) \<and> cstr (fe_name (stbl (fd_data f) s ! i)) = fn) [k..<unat (entry_count s)]
       = find (\<lambda>i. fe_used (stbl (fd_data f) s ! i) \<and> cstr (fe_name (stbl (fd_data f) s ! i)) = fn) [Suc k..<unat (entry_count s)]"
      using False unfolding up by auto
    show ?thesis
      using Suc.hyps(1) [of "Suc k" ?f ?e] Suc.hyps(2) Suc.prems k rd(2) unfolding s fi by auto
  qed
qed

section \<open>Agreement with the kernel module\<close>

lemma kernel_table:
  assumes v: "vol_ok ram_bdev ram_nblk ram_ok info"
  shows "file_table ram_bdev info = stbl (vfs_dev info) (sb info)"
proof (rule nth_equalityI)
  fix i assume "i < length (file_table ram_bdev info)"
  then have i: "i < unat (entry_count (sb info))" by simp
  let ?d = "vfs_dev info" and ?a = "eaddr (sb info) i"
  have r: "ram_ok ?d" and l: "sfs_layout (bd_block_size ram_bdev) (ram_nblk ?d) (sb info)"
    using v by (simp_all add: vol_ok_def)
  have b: "?a div 512 < ram_nblk ?d" and o: "?a mod 512 + 64 \<le> 512"
    using entry_location(3,4) [OF l i] by simp_all
  obtain bs where bs: "peek ram_bdev ?d (?a div 512) (?a mod 512) 64 = Some bs"
      "read_entry_from_real_sfs ram_bdev info (int i) = Some (Inr (fe_of_bytes bs))"
    using ram.read_entry_peek [OF v i] by auto
  have "bs = take 64 (drop (?a mod 512) (take 512 (drop (?a div 512 * 512) ?d)))"
    using bs(1) ram_bread [OF r b] ram_sector_number(2) [OF r b] o by (simp add: peek_def mem_read_def split: if_splits)
  also have "\<dots> = take 64 (drop (?a mod 512 + ?a div 512 * 512) ?d)"
    using o by (simp add: drop_take min_def)
  also have "?a mod 512 + ?a div 512 * 512 = ?a" by simp
  finally show "file_table ram_bdev info ! i = stbl ?d (sb info) ! i"
    using ram.read_entry_ok(1) [OF v i] bs(2) i by (simp add: nth_stbl)
qed simp

lemma sh_init_browsing_ok:
  assumes l: "shell_layout (length (fd_data (sh_file st))) (sh_sb st)" and j: "wf_fe (sh_junk st)"
    and bk: "blocks_ok (sh_sb st) (stbl (fd_data (sh_file st)) (sh_sb st))"
  shows "\<exists>f'. fd_data f' = fd_data (sh_file st) \<and> sh_init_browsing True st =
     Some (Inr (st\<lparr>sh_file := f', sh_used := tracker (sh_sb st) (stbl (fd_data (sh_file st)) (sh_sb st))\<rparr>))"
proof -
  let ?s = "sh_sb st" and ?f = "sh_file st"
  let ?t = "stbl (fd_data ?f) ?s" and ?n = "unat (partition_size (sh_sb st))" and ?a = "unat (data_block_start (sh_sb st))"
  let ?ub = "map (\<lambda>i. if i \<in> set [0..<?a] then 1 else replicate ?n 0 ! i) [0..<?n] :: u8 list"
  have an: "?a \<le> ?n" using l by (simp add: shell_layout_def word_le_nat_alt)
  have fl: "fill_used 1 [0..<?a] (replicate ?n 0) = Some ?ub"
    using an fill_used_ok [of "[0..<?a]" "replicate ?n 0" 1] by simp
  have bd: "\<forall>i<unat (entry_count ?s). \<forall>b\<in>set (file_blocks (?t ! i)). unat b < length ?ub"
    using file_blocks_bound [OF bk nth_mem] by simp
  have m: "map (\<lambda>i. file_blocks (?t ! i)) [0..<unat (entry_count ?s)] = map file_blocks ?t"
    by (rule nth_equalityI) simp_all
  obtain f' where f': "fd_data f' = fd_data ?f"
      "sh_mark_entries (unat (entry_count ?s)) (fd_seek ?f (table_start ?s)) (sh_junk st) ?ub = Some (f', set_marks 1 ?ub (owned ?t))"
    using sh_mark_entries_ok [of "fd_seek ?f (table_start ?s)" ?s 0 "unat (entry_count ?s)" "sh_junk st" ?ub]
      l j bd layout_words(1) [OF l] m by (auto simp: owned_def)
  have "set_marks 1 ?ub (owned ?t) = tracker ?s ?t"
    by (rule nth_equalityI) (simp_all add: nth_set_marks nth_tracker)
  with fl f' show ?thesis by (auto simp: sh_init_browsing_def)
qed

section \<open>Writing entries and blocks\<close>

lemma slice_write:
  assumes "fd_pos f + length bs \<le> length (fd_data f)" and "off + n \<le> length (fd_data f)"
    and "off + n \<le> fd_pos f \<or> fd_pos f + length bs \<le> off"
  shows "take n (drop off (fd_data (fd_write f bs))) = take n (drop off (fd_data f))"
  using mem_read_write_disjoint [OF fd_write_in(1) [OF assms(1)] assms(3)] assms by (simp add: mem_read_def)

lemma slice_write_same:
  assumes "fd_pos f + length bs \<le> length (fd_data f)"
  shows "take (length bs) (drop (fd_pos f) (fd_data (fd_write f bs))) = bs"
  using mem_read_write_same [OF fd_write_in(1) [OF assms]] by (simp add: mem_read_def split: if_splits)

lemma block_bounds:
  assumes l: "shell_layout len s" and b: "data_block_start s \<le> b" "b < partition_size s"
  shows "512 * unat b + 512 \<le> len" and "unat (data_block_start s) * 512 \<le> 512 * unat b"
proof -
  have "unat b + 1 \<le> unat (partition_size s)" using b by (simp add: word_less_nat_alt)
  then have "512 * (unat b + 1) \<le> 512 * unat (partition_size s)" by (rule mult_le_mono2)
  moreover have "unat (partition_size s) * 512 \<le> len" using l by (simp add: shell_layout_def)
  ultimately show "512 * unat b + 512 \<le> len" by simp
  show "unat (data_block_start s) * 512 \<le> 512 * unat b" using b by (simp add: word_le_nat_alt)
qed

lemma write_entry_at_ok:
  assumes l: "shell_layout (length (fd_data (sh_file st))) (sh_sb st)" and i: "i < unat (entry_count (sh_sb st))"
    and fe: "wf_fe fe"
  defines "d \<equiv> fd_data (sh_file st)" and "d' \<equiv> fd_data (sh_file (write_entry_at i fe st))"
  shows "length d' = length d" and "stbl d' (sh_sb st) = (stbl d (sh_sb st))[i := fe]"
    and "data_block_start (sh_sb st) \<le> b \<Longrightarrow> b < partition_size (sh_sb st) \<Longrightarrow> dblock d' b = dblock d b"
proof -
  let ?s = "sh_sb st"
  let ?f = "fd_seek (sh_file st) (eaddr ?s i)"
  have d': "d' = fd_data (fd_write ?f (bytes_of_fe fe))"
    using layout_words(2) [OF l i] by (simp add: d'_def write_entry_at_def)
  have len: "length (bytes_of_fe fe) = 64" by (rule length_bytes_of_fe [OF fe])
  have e: "eaddr ?s i + 64 \<le> unat (data_block_start ?s) * 512" "unat (data_block_start ?s) * 512 \<le> length d"
    using layout_eaddr(2,3) [OF l] i by (simp_all add: d_def)
  then have fit: "fd_pos ?f + length (bytes_of_fe fe) \<le> length (fd_data ?f)" by (simp add: len d_def)
  show "length d' = length d" using e by (simp add: d' d_def)
  show "stbl d' ?s = (stbl d ?s)[i := fe]"
  proof (rule nth_equalityI)
    fix k assume "k < length (stbl d' ?s)"
    then have k: "k < unat (entry_count ?s)" by simp
    show "stbl d' ?s ! k = (stbl d ?s)[i := fe] ! k"
    proof (cases "k = i")
      case True
      have "take 64 (drop (eaddr ?s i) d') = bytes_of_fe fe"
        using slice_write_same [OF fit] by (simp add: d' len)
      with True k fe show ?thesis by (simp add: nth_stbl fe_roundtrip)
    next
      case False
      then have "eaddr ?s k + 64 \<le> eaddr ?s i \<or> eaddr ?s i + 64 \<le> eaddr ?s k"
        by (cases k i rule: linorder_cases) (simp_all add: eaddr_def)
      then have "take 64 (drop (eaddr ?s k) d') = take 64 (drop (eaddr ?s k) d)"
        using slice_write [OF fit, of "eaddr ?s k" 64] layout_eaddr(2) [OF l k] e(2) by (simp add: d' d_def len)
      with False k show ?thesis by (simp add: nth_stbl)
    qed
  qed simp
  show "dblock d' b = dblock d b" if "data_block_start ?s \<le> b" "b < partition_size ?s"
    using slice_write [OF fit, of "512 * unat b" 512] block_bounds [OF l that] e by (simp add: dblock_def d' d_def len)
qed

lemma write_block_ok:
  assumes l: "shell_layout (length (fd_data f)) s" and b: "data_block_start s \<le> b" "b < partition_size s"
    and n: "length bs \<le> 512"
  defines "d' \<equiv> fd_data (fd_write (fd_seek f (unat (b * block_size s))) bs)"
  shows "length d' = length (fd_data f)" and "stbl d' s = stbl (fd_data f) s"
    and "take (length bs) (dblock d' b) = bs"
    and "c \<noteq> b \<Longrightarrow> data_block_start s \<le> c \<Longrightarrow> c < partition_size s \<Longrightarrow> dblock d' c = dblock (fd_data f) c"
proof -
  let ?f = "fd_seek f (512 * unat b)"
  have d': "d' = fd_data (fd_write ?f bs)" using layout_words(3) [OF l b(2)] by (simp add: d'_def)
  note bb = block_bounds [OF l b]
  have fit: "fd_pos ?f + length bs \<le> length (fd_data ?f)" using bb(1) n by simp
  show "length d' = length (fd_data f)" using bb(1) by (simp add: d')
  show "stbl d' s = stbl (fd_data f) s"
  proof (rule nth_equalityI)
    fix k assume "k < length (stbl d' s)"
    then have k: "k < unat (entry_count s)" by simp
    then have "take 64 (drop (eaddr s k) d') = take 64 (drop (eaddr s k) (fd_data f))"
      using slice_write [OF fit, of "eaddr s k" 64] layout_eaddr(2) [OF l k] layout_eaddr(3) [OF l] bb by (simp add: d')
    with k show "stbl d' s ! k = stbl (fd_data f) s ! k" by (simp add: nth_stbl)
  qed simp
  show "take (length bs) (dblock d' b) = bs"
    using slice_write_same [OF fit] n by (simp add: dblock_def d' min_def)
  show "dblock d' c = dblock (fd_data f) c" if "c \<noteq> b" "data_block_start s \<le> c" "c < partition_size s"
  proof -
    have "unat c < unat b \<or> unat b < unat c" using that(1) by (metis linorder_cases word_unat_eq_iff)
    then have "512 * unat c + 512 \<le> 512 * unat b \<or> 512 * unat b + 512 \<le> 512 * unat c" by auto
    then show ?thesis
      using slice_write [OF fit, of "512 * unat c" 512] block_bounds [OF l that(2,3)] n by (auto simp: dblock_def d')
  qed
qed

section \<open>Reading a file\<close>

definition data_out :: "message list \<Rightarrow> u8 list" where
  "data_out out = concat (map (\<lambda>x. case x of Data bs \<Rightarrow> bs | _ \<Rightarrow> []) out)"

lemma data_out_say [simp]:
  "sh_out (say x st) = sh_out st @ [x]" "sh_file (say x st) = sh_file st" "sh_sb (say x st) = sh_sb st"
  "sh_block (say x st) = sh_block st" "data_out (out @ [Data bs]) = data_out out @ bs"
  by (simp_all add: say_def data_out_def)

lemma read_block_ok:
  assumes l: "shell_layout (length (fd_data (sh_file st))) (sh_sb st)" and b: "data_block_start (sh_sb st) \<le> b" "b < partition_size (sh_sb st)"
    and n: "n \<le> 512" and len: "length (sh_block st) = 512"
  shows "\<exists>block p. fd_read (fd_seek (sh_file st) (unat (b * block_size (sh_sb st)))) (sh_block st) n
      = (block, (sh_file st)\<lparr>fd_pos := p\<rparr>) \<and> length block = 512 \<and> take n block = take n (dblock (fd_data (sh_file st)) b)"
proof -
  have "512 * unat b + n \<le> length (fd_data (sh_file st))" using block_bounds(1) [OF l b] n by simp
  then have r: "fd_read (fd_seek (sh_file st) (512 * unat b)) (sh_block st) n
      = (take n (drop (512 * unat b) (fd_data (sh_file st))) @ drop n (sh_block st),
         (sh_file st)\<lparr>fd_pos := 512 * unat b + n\<rparr>)"
    by (subst fd_read_upto) (simp_all add: fd_seek_def)
  have len': "length (take n (drop (512 * unat b) (fd_data (sh_file st)))) = n"
    using \<open>512 * unat b + n \<le> length (fd_data (sh_file st))\<close> by simp
  then show ?thesis
    unfolding layout_words(3) [OF l b(2)] r using n len
    by (intro exI [of _ "take n (drop (512 * unat b) (fd_data (sh_file st))) @ drop n (sh_block st)"]
        exI [of _ "512 * unat b + n"]) (simp add: dblock_def min_def)
qed

lemma sh_read_loop_ok:
  assumes "shell_layout (length (fd_data (sh_file st))) (sh_sb st)" and "length (sh_block st) = 512"
    and "\<forall>b\<in>set bs. data_block_start (sh_sb st) \<le> b \<and> b < partition_size (sh_sb st)"
    and "unat rem \<le> 512 * length bs" and "512 * length bs < unat rem + 512"
    and "stale = [] \<or> bs \<noteq> [] \<or> hd stale = 0 \<or> unat rem = 0"
  shows "\<exists>st'. sh_read_loop (bs @ stale) rem st = Some st' \<and> fd_data (sh_file st') = fd_data (sh_file st) \<and>
     data_out (sh_out st') = data_out (sh_out st) @ take (unat rem) (concat (map (dblock (fd_data (sh_file st))) bs))"
  using assms
proof (induction bs arbitrary: rem st)
  case Nil
  then have r: "rem = 0" by (simp add: unat_eq_zero)
  have bs: "block_size (sh_sb st) = 512" using Nil.prems(1) by (simp add: shell_layout_def)
  show ?case
  proof (cases stale)
    case (Cons b bs')
    then show ?thesis using r bs by (simp add: Let_def fd_read_def say_def data_out_def)
  qed simp
next
  case (Cons b bs)
  let ?d = "fd_data (sh_file st)" and ?s = "sh_sb st"
  have bs: "block_size ?s = 512" and d0: "0 < unat (data_block_start ?s)" using Cons.prems(1) by (simp_all add: shell_layout_def)
  have b: "data_block_start ?s \<le> b" "b < partition_size ?s" using Cons.prems(3) by simp_all
  have b0: "b \<noteq> 0" using b(1) d0 by (auto simp: word_le_nat_alt)
  have lb: "length (dblock ?d b) = 512" using block_bounds(1) [OF Cons.prems(1) b] by (simp add: dblock_def)
  define tr where "tr = (if rem \<ge> block_size ?s then block_size ?s else rem)"
  have tr: "unat tr = min (unat rem) 512" by (auto simp: tr_def bs word_le_nat_alt)
  obtain block p where fr: "fd_read (fd_seek (sh_file st) (unat (b * block_size ?s))) (sh_block st) (unat tr)
      = (block, (sh_file st)\<lparr>fd_pos := p\<rparr>)" "length block = 512" "take (unat tr) block = take (unat tr) (dblock ?d b)"
    using read_block_ok [OF Cons.prems(1) b _ Cons.prems(2), of "unat tr"] tr by auto
  let ?st = "say (Data (take (unat tr) (dblock ?d b))) (st\<lparr>sh_file := (sh_file st)\<lparr>fd_pos := p\<rparr>, sh_block := block\<rparr>)"
  have step: "sh_read_loop ((b # bs) @ stale) rem st = (if rem - tr = 0 then Some ?st else sh_read_loop (bs @ stale) (rem - tr) ?st)"
  proof -
    have "\<not> unat tr > length (sh_block st)" using tr Cons.prems(2) by simp
    then show ?thesis
      unfolding append_Cons sh_read_loop.simps Let_def tr_def [symmetric] fr(1) prod.case fr(3) using b0 by simp
  qed
  have ur: "unat (rem - tr) = unat rem - unat tr" using tr by (intro unat_sub) (simp add: word_le_nat_alt)
  show ?case
  proof (cases "unat rem \<le> 512")
    case True
    then have "unat (rem - tr) = 0" unfolding ur tr by (simp only: min_absorb1 diff_self_eq_0)
    then have "rem - tr = 0" by (simp only: unat_eq_zero)
    then have r: "sh_read_loop ((b # bs) @ stale) rem st = Some ?st" using step by simp
    have "512 * length bs < unat rem" using Cons.prems(5) by simp
    with True have "length bs = 0" by linarith
    then have "take (unat rem) (concat (map (dblock ?d) (b # bs))) = take (unat tr) (dblock ?d b)"
      using tr True by simp
    with r show ?thesis by (intro exI [of _ ?st]) simp
  next
    case False
    then have u: "unat (rem - tr) = unat rem - 512" "unat tr = 512" using ur tr by simp_all
    have ne: "bs \<noteq> []" using Cons.prems(4) False by auto
    have "rem - tr \<noteq> 0" using u False by auto
    moreover have "\<exists>st'. sh_read_loop (bs @ stale) (rem - tr) ?st = Some st' \<and> fd_data (sh_file st') = fd_data (sh_file ?st) \<and>
       data_out (sh_out st') = data_out (sh_out ?st) @ take (unat (rem - tr)) (concat (map (dblock (fd_data (sh_file ?st))) bs))"
      using Cons.prems fr(2) u ne by (intro Cons.IH) simp_all
    moreover have "take (unat rem) (concat (map (dblock ?d) (b # bs)))
        = take (unat tr) (dblock ?d b) @ take (unat (rem - tr)) (concat (map (dblock ?d) bs))"
      using u lb False by simp
    ultimately show ?thesis unfolding step by auto
  qed
qed

section \<open>Writing a file\<close>

definition nfree :: "shell \<Rightarrow> nat" where
  "nfree st = card {j \<in> {unat (data_block_start (sh_sb st))..<unat (partition_size (sh_sb st))}. sh_used st ! j = 0}"

lemma sh_get_data_block_ok:
  assumes len: "length (sh_used st) = unat (partition_size (sh_sb st))" and f: "0 < nfree st"
  obtains j where "sh_get_data_block st = Some (int j, st\<lparr>sh_used := (sh_used st)[j := 1]\<rparr>)"
    "unat (data_block_start (sh_sb st)) \<le> j" "j < unat (partition_size (sh_sb st))" "sh_used st ! j = 0"
    "nfree (st\<lparr>sh_used := (sh_used st)[j := 1]\<rparr>) = nfree st - 1"
proof -
  let ?is = "[unat (data_block_start (sh_sb st))..<unat (partition_size (sh_sb st))]"
  let ?S = "{j \<in> {unat (data_block_start (sh_sb st))..<unat (partition_size (sh_sb st))}. sh_used st ! j = 0}"
  have "?S \<noteq> {}" using f unfolding nfree_def by (metis card.empty less_numeral_extra(3))
  then obtain j where j: "find (\<lambda>j. sh_used st ! j = 0) ?is = Some j"
    by (cases "find (\<lambda>j. sh_used st ! j = 0) ?is") (auto simp: find_None_iff)
  have r: "unat (data_block_start (sh_sb st)) \<le> j" "j < unat (partition_size (sh_sb st))" "sh_used st ! j = 0"
    using find_Some_nth [OF j] by simp_all
  have "scan_free (sh_used st) ?is = Some (Some j)" using scan_free_ok [of ?is "sh_used st"] len j by simp
  then have g: "sh_get_data_block st = Some (int j, st\<lparr>sh_used := (sh_used st)[j := 1]\<rparr>)"
    using r len by (simp add: sh_get_data_block_def arr_set_in)
  have "{k \<in> {unat (data_block_start (sh_sb st))..<unat (partition_size (sh_sb st))}. (sh_used st)[j := 1] ! k = 0} = ?S - {j}"
    using len r by (auto simp: nth_list_update)
  then have "nfree (st\<lparr>sh_used := (sh_used st)[j := 1]\<rparr>) = nfree st - 1"
    using r by (simp add: nfree_def card_Diff_singleton)
  with that g r show thesis by blast
qed

text \<open>
  The invariant of the write loop: \<open>written\<close> is what was read from standard input so far, the
  full blocks of it on the device, the rest in the block buffer.
\<close>

definition wr_inv :: "shell \<Rightarrow> sfs_file_entry \<Rightarrow> wr \<Rightarrow> u8 list \<Rightarrow> bool" where
  "wr_inv st0 fe0 w written \<longleftrightarrow>
     (let st = wr_sh w; s = sh_sb st; d = fd_data (sh_file st); blks = take (block_i w) (fe_blocks (wr_fe w)) in
      s = sh_sb st0 \<and> sh_out st = sh_out st0 \<and> sh_junk st = sh_junk st0 \<and>
      length d = length (fd_data (sh_file st0)) \<and> stbl d s = stbl (fd_data (sh_file st0)) s \<and>
      fe_name (wr_fe w) = fe_name fe0 \<and> fe_perms (wr_fe w) = fe_perms fe0 \<and> wf_fe (wr_fe w) \<and>
      shell_layout (length d) s \<and> length (sh_block st) = 512 \<and> length (sh_used st) = unat (partition_size s) \<and>
      block_i w \<le> 9 \<and> cur_read_i w < 512 \<and> to_read w = 512 - cur_read_i w \<and>
      total_size w = of_nat (512 * block_i w) \<and>
      (\<forall>b\<in>set blks. data_block_start s \<le> b \<and> b < partition_size s \<and> sh_used st ! unat b \<noteq> 0) \<and>
      concat (map (dblock d) blks) @ take (cur_read_i w) (sh_block st) = written)"

lemma alloc_word:
  assumes l: "shell_layout len s" and j: "unat (data_block_start s) \<le> j" "j < unat (partition_size s)"
  shows "unat (word_of_int (int j) :: u32) = j" and "data_block_start s \<le> word_of_int (int j)"
    and "word_of_int (int j) < partition_size s" and "(word_of_int (int j) :: u32) \<noteq> - 1"
proof -
  have b: "j < 2 ^ 31" using l j(2) by (simp add: shell_layout_def)
  then show u: "unat (word_of_int (int j) :: u32) = j" by (simp add: unat_of_nat_small)
  show "data_block_start s \<le> word_of_int (int j)" "word_of_int (int j) < partition_size s"
    using j u by (simp_all add: word_le_nat_alt word_less_nat_alt)
  show "(word_of_int (int j) :: u32) \<noteq> - 1" using block_number_valid [OF b] by (simp add: INV_BLOCK_def)
qed

lemma read0_ok:
  assumes "[] \<notin> set cs" and "cs \<noteq> []" and "0 < n"
  obtains got rest where "read0 cs n = (got, rest)" "got \<noteq> []" "length got \<le> n" "[] \<notin> set rest"
    "concat cs = got @ concat rest"
proof (cases cs)
  case (Cons c cs')
  show thesis
  proof (cases "n < length c")
    case True
    then show thesis using that [of "take n c" "drop n c # cs'"] assms Cons by fastforce
  next
    case False
    then show thesis using that [of c cs'] assms Cons by fastforce
  qed
qed (use assms in simp)

text \<open>A piece that does not fill the block.\<close>

lemma wr_inv_part:
  assumes w: "wr_inv st0 fe0 w written" and r: "read0 cs (to_read w) = (got, rest)"
    and g: "got \<noteq> []" "length got < to_read w"
  shows "\<exists>w'. sh_write_loop cs w = sh_write_loop rest w' \<and> wr_inv st0 fe0 w' (written @ got) \<and>
     nfree (wr_sh w') = nfree (wr_sh w) \<and> block_i w' = block_i w \<and> cur_read_i w' = cur_read_i w + length got"
proof -
  let ?blk = "sh_block (wr_sh w)" and ?c = "cur_read_i w"
  have len: "length ?blk = 512" "to_read w = 512 - ?c" "?c < 512" using w by (simp_all add: wr_inv_def Let_def)
  have "?c + length got \<le> length ?blk" using len g by simp
  then obtain blk where b: "mem_write ?blk ?c got = Some blk" using mem_write_ex by blast
  have blk: "length blk = 512" "take (?c + length got) blk = take ?c ?blk @ got"
    using b len g by (auto simp: mem_write_def split: if_splits)
  let ?w' = "w\<lparr>wr_sh := (wr_sh w)\<lparr>sh_block := blk\<rparr>, cur_read_i := ?c + length got, to_read := to_read w - length got\<rparr>"
  have "sh_write_loop cs w = sh_write_loop rest ?w'"
    using r g b by (subst sh_write_loop.simps) (simp add: Let_def)
  moreover have "wr_inv st0 fe0 ?w' (written @ got)" using w g blk len by (auto simp: wr_inv_def Let_def)
  moreover have "nfree (wr_sh ?w') = nfree (wr_sh w)" by (simp add: nfree_def)
  ultimately show ?thesis by (intro exI [of _ ?w']) simp
qed

text \<open>A piece that fills the block, which goes to a newly allocated block of the device.\<close>

lemma wr_inv_full:
  assumes w: "wr_inv st0 fe0 w written" and r: "read0 cs (to_read w) = (got, rest)"
    and g: "got \<noteq> []" "length got = to_read w" and room: "block_i w < 9" "0 < nfree (wr_sh w)"
  shows "\<exists>w'. sh_write_loop cs w = sh_write_loop rest w' \<and> wr_inv st0 fe0 w' (written @ got) \<and>
     nfree (wr_sh w') = nfree (wr_sh w) - 1 \<and> block_i w' = Suc (block_i w) \<and> cur_read_i w' = 0"
proof -
  let ?st = "wr_sh w" and ?c = "cur_read_i w" and ?bi = "block_i w"
  let ?s = "sh_sb ?st" and ?d = "fd_data (sh_file (wr_sh w))" and ?blks = "take (block_i w) (fe_blocks (wr_fe w))"
  have i: "length (sh_block ?st) = 512" "to_read w = 512 - ?c" "?c < 512" "shell_layout (length ?d) ?s"
    "length (sh_used ?st) = unat (partition_size ?s)" "wf_fe (wr_fe w)" "total_size w = of_nat (512 * ?bi)"
    and bl: "\<forall>b\<in>set ?blks. data_block_start ?s \<le> b \<and> b < partition_size ?s \<and> sh_used ?st ! unat b \<noteq> 0"
    and wr: "concat (map (dblock ?d) ?blks) @ take ?c (sh_block ?st) = written"
    using w unfolding wr_inv_def Let_def by blast+
  have "?c + length got \<le> length (sh_block ?st)" using i(1-3) g by simp
  then obtain blk where b: "mem_write (sh_block ?st) ?c got = Some blk" using mem_write_ex by blast
  have blk: "length blk = 512" "blk = take ?c (sh_block ?st) @ got"
    using b i g by (auto simp: mem_write_def split: if_splits)
  let ?st1 = "?st\<lparr>sh_block := blk\<rparr>"
  have nf1: "nfree ?st1 = nfree ?st" by (simp add: nfree_def)
  obtain j where j: "sh_get_data_block ?st1 = Some (int j, ?st1\<lparr>sh_used := (sh_used ?st1)[j := 1]\<rparr>)"
      "unat (data_block_start ?s) \<le> j" "j < unat (partition_size ?s)" "sh_used ?st ! j = 0"
      "nfree (?st1\<lparr>sh_used := (sh_used ?st1)[j := 1]\<rparr>) = nfree ?st1 - 1"
    using sh_get_data_block_ok [of ?st1] i(5) room(2) nf1 by auto
  note aw = alloc_word [OF i(4) j(2,3)]
  let ?b = "word_of_int (int j) :: u32"
  let ?f = "fd_write (fd_seek (sh_file ?st) (unat (?b * block_size ?s))) blk"
  let ?blocks = "(fe_blocks (wr_fe w))[?bi := ?b]"
  let ?w' = "w\<lparr>wr_sh := ?st1\<lparr>sh_used := (sh_used ?st)[j := 1], sh_file := ?f\<rparr>,
     wr_fe := (wr_fe w)\<lparr>fe_blocks := ?blocks\<rparr>, block_i := Suc ?bi, total_size := total_size w + block_size ?s,
     cur_read_i := 0, to_read := unat (block_size ?s)\<rparr>"
  have bs: "block_size ?s = 512" using i(4) by (simp add: shell_layout_def)
  have fl: "length (fe_blocks (wr_fe w)) = 9" using i(6) by (rule wf_fe_lengths)
  have run: "sh_write_loop cs w = sh_write_loop rest ?w'"
    using r g b j(1) room(1) bs fl blk(1)
    by (subst sh_write_loop.simps) (simp add: Let_def mem_read_def arr_set_in)
  have b512: "length blk \<le> 512" using blk(1) by simp
  note wb = write_block_ok [OF i(4) aw(2,3) b512]
  have tk: "take (Suc ?bi) ?blocks = ?blks @ [?b]"
    using room(1) fl by (simp add: take_Suc_conv_app_nth)
  have nb: "?b \<notin> set ?blks" using bl j(4) aw(1) by auto
  have keep: "map (dblock (fd_data ?f)) ?blks = map (dblock ?d) ?blks"
  proof (rule map_cong [OF refl])
    fix c assume c: "c \<in> set ?blks"
    then have "c \<noteq> ?b" using nb by auto
    then show "dblock (fd_data ?f) c = dblock ?d c" using bl c by (intro wb(4)) auto
  qed
  have new: "dblock (fd_data ?f) ?b = blk"
    using wb(3) blk(1) aw(1) block_bounds(1) [OF i(4) aw(2,3)] wb(1) by (simp add: dblock_def)
  have con: "concat (map (dblock (fd_data ?f)) (take (Suc ?bi) ?blocks)) = written @ got"
  proof -
    have "concat (map (dblock (fd_data ?f)) (?blks @ [?b])) = concat (map (dblock (fd_data ?f)) ?blks) @ dblock (fd_data ?f) ?b"
      by simp
    also have "\<dots> = concat (map (dblock ?d) ?blks) @ (take ?c (sh_block ?st) @ got)"
      unfolding keep new using blk(2) by blast
    finally show ?thesis unfolding tk using wr by simp
  qed
  have "\<forall>b\<in>set (take (Suc ?bi) ?blocks). data_block_start ?s \<le> b \<and> b < partition_size ?s \<and> (sh_used ?st)[j := 1] ! unat b \<noteq> 0"
    unfolding tk using bl aw i(5) j(3) by (auto simp: nth_list_update)
  moreover have "?s = sh_sb st0" "sh_out ?st = sh_out st0" "sh_junk ?st = sh_junk st0"
      "length ?d = length (fd_data (sh_file st0))" "stbl ?d ?s = stbl (fd_data (sh_file st0)) ?s"
      "fe_name (wr_fe w) = fe_name fe0" "fe_perms (wr_fe w) = fe_perms fe0"
    using w unfolding wr_inv_def Let_def by blast+
  moreover have "wf_fe ((wr_fe w)\<lparr>fe_blocks := ?blocks\<rparr>)" using i(6) by (simp add: wf_fe_def)
  ultimately have "wr_inv st0 fe0 ?w' (written @ got)"
    using con wb(1,2) blk(1) room(1) bs i(4,5,7) by (simp add: wr_inv_def Let_def)
  with run j(5) nf1 show ?thesis by (intro exI [of _ ?w']) (simp add: nfree_def)
qed

lemma sh_write_loop_ok:
  assumes "wr_inv st0 fe0 w written" and "[] \<notin> set cs"
    and "512 * block_i w + cur_read_i w + length (concat cs) \<le> 4608"
    and "cur_read_i w + length (concat cs) \<le> 512 * nfree (wr_sh w)"
  shows "\<exists>w'. sh_write_loop cs w = Some w' \<and> wr_inv st0 fe0 w' (written @ concat cs) \<and> wr_eof w' \<and>
     (cur_read_i w' \<noteq> 0 \<longrightarrow> 0 < nfree (wr_sh w') \<and> block_i w' < 9)"
  using assms
proof (induction "sum_list (map length cs)" arbitrary: cs w written rule: less_induct)
  case less
  show ?case
  proof (cases "cs = []")
    case True
    let ?w = "w\<lparr>wr_eof := True\<rparr>"
    have "sh_write_loop cs w = Some ?w" using True by (simp add: sh_write_loop.simps)
    moreover have "wr_inv st0 fe0 ?w written" using less.prems(1) by (simp add: wr_inv_def)
    moreover have "cur_read_i w \<noteq> 0 \<longrightarrow> 0 < nfree (wr_sh w) \<and> block_i w < 9"
      using less.prems(3,4) True by (cases "nfree (wr_sh w)") auto
    ultimately show ?thesis using True by simp
  next
    case False
    have t: "to_read w = 512 - cur_read_i w" "cur_read_i w < 512" using less.prems(1) by (simp_all add: wr_inv_def Let_def)
    obtain got rest where r: "read0 cs (to_read w) = (got, rest)" "got \<noteq> []" "length got \<le> to_read w"
        "[] \<notin> set rest" "concat cs = got @ concat rest"
      using read0_ok [OF less.prems(2) False, of "to_read w"] t by auto
    have dec: "sum_list (map length rest) < sum_list (map length cs)"
      using read0_size [OF r(1) [symmetric] r(2)] .
    show ?thesis
    proof (cases "length got = to_read w")
      case True
      then have room: "block_i w < 9" "0 < nfree (wr_sh w)"
        using less.prems(3,4) t r(5) by (cases "nfree (wr_sh w)"; simp)+
      from wr_inv_full [OF less.prems(1) r(1,2) True room] obtain w' where
          w': "sh_write_loop cs w = sh_write_loop rest w'" "wr_inv st0 fe0 w' (written @ got)"
            "nfree (wr_sh w') = nfree (wr_sh w) - 1" "block_i w' = Suc (block_i w)" "cur_read_i w' = 0" by blast
      have "\<exists>w''. sh_write_loop rest w' = Some w'' \<and> wr_inv st0 fe0 w'' ((written @ got) @ concat rest) \<and> wr_eof w'' \<and>
         (cur_read_i w'' \<noteq> 0 \<longrightarrow> 0 < nfree (wr_sh w'') \<and> block_i w'' < 9)"
        using less.prems(3,4) w' t r(4,5) True room by (intro less.hyps [OF dec w'(2)]) (simp_all add: algebra_simps)
      then show ?thesis using w'(1) r(5) by simp
    next
      case False
      then have lt: "length got < to_read w" using r(3) by simp
      from wr_inv_part [OF less.prems(1) r(1,2) lt] obtain w' where
          w': "sh_write_loop cs w = sh_write_loop rest w'" "wr_inv st0 fe0 w' (written @ got)"
            "nfree (wr_sh w') = nfree (wr_sh w)" "block_i w' = block_i w" "cur_read_i w' = cur_read_i w + length got" by blast
      have "\<exists>w''. sh_write_loop rest w' = Some w'' \<and> wr_inv st0 fe0 w'' ((written @ got) @ concat rest) \<and> wr_eof w'' \<and>
         (cur_read_i w'' \<noteq> 0 \<longrightarrow> 0 < nfree (wr_sh w'') \<and> block_i w'' < 9)"
        using less.prems(3,4) w' r(4,5) by (intro less.hyps [OF dec w'(2)]) simp_all
      then show ?thesis using w'(1) r(5) by simp
    qed
  qed
qed

text \<open>What the entry holds when the whole input has been written: blocks \<open>bs\<close> with the data,
  possibly followed by block numbers left from before.\<close>

definition wr_done :: "shell \<Rightarrow> sfs_file_entry \<Rightarrow> wr \<Rightarrow> u8 list \<Rightarrow> bool" where
  "wr_done st0 fe0 w written \<longleftrightarrow>
     (let st = wr_sh w; s = sh_sb st; d = fd_data (sh_file st) in
      s = sh_sb st0 \<and> sh_out st = sh_out st0 \<and> sh_junk st = sh_junk st0 \<and>
      length d = length (fd_data (sh_file st0)) \<and> stbl d s = stbl (fd_data (sh_file st0)) s \<and>
      fe_name (wr_fe w) = fe_name fe0 \<and> fe_perms (wr_fe w) = fe_perms fe0 \<and> wf_fe (wr_fe w) \<and>
      shell_layout (length d) s \<and> length (sh_block st) = 512 \<and>
      total_size w = of_nat (length written) \<and> length written \<le> 4608 \<and>
      (\<exists>bs stale. fe_blocks (wr_fe w) = bs @ stale \<and>
         (\<forall>b\<in>set bs. data_block_start s \<le> b \<and> b < partition_size s) \<and>
         length written \<le> 512 * length bs \<and> 512 * length bs < length written + 512 \<and>
         take (length written) (concat (map (dblock d) bs)) = written))"

lemma length_dblocks:
  assumes "shell_layout (length d) s" and "\<forall>b\<in>set bs. data_block_start s \<le> b \<and> b < partition_size s"
  shows "length (concat (map (dblock d) bs)) = 512 * length bs"
  using assms(2)
proof (induction bs)
  case (Cons b bs)
  have "length (dblock d b) = 512" using block_bounds(1) [OF assms(1), of b] Cons.prems by (simp add: dblock_def)
  with Cons show ?case by simp
qed simp

lemma wr_inv_frame:
  assumes "wr_inv st0 fe0 w written"
  shows "sh_sb (wr_sh w) = sh_sb st0" "sh_out (wr_sh w) = sh_out st0" "sh_junk (wr_sh w) = sh_junk st0"
    "length (fd_data (sh_file (wr_sh w))) = length (fd_data (sh_file st0))"
    "stbl (fd_data (sh_file (wr_sh w))) (sh_sb (wr_sh w)) = stbl (fd_data (sh_file st0)) (sh_sb (wr_sh w))"
    "fe_name (wr_fe w) = fe_name fe0" "fe_perms (wr_fe w) = fe_perms fe0" "wf_fe (wr_fe w)"
    "shell_layout (length (fd_data (sh_file (wr_sh w)))) (sh_sb (wr_sh w))" "length (sh_block (wr_sh w)) = 512"
    "length (sh_used (wr_sh w)) = unat (partition_size (sh_sb (wr_sh w)))" "block_i w \<le> 9" "cur_read_i w < 512"
    "total_size w = of_nat (512 * block_i w)"
    "\<forall>b\<in>set (take (block_i w) (fe_blocks (wr_fe w))). data_block_start (sh_sb (wr_sh w)) \<le> b \<and>
       b < partition_size (sh_sb (wr_sh w)) \<and> sh_used (wr_sh w) ! unat b \<noteq> 0"
    "concat (map (dblock (fd_data (sh_file (wr_sh w)))) (take (block_i w) (fe_blocks (wr_fe w))))
       @ take (cur_read_i w) (sh_block (wr_sh w)) = written"
  using assms unfolding wr_inv_def Let_def by blast+

lemma wr_inv_length:
  assumes "wr_inv st0 fe0 w written"
  shows "length written = 512 * block_i w + cur_read_i w"
proof -
  note f = wr_inv_frame [OF assms]
  have "length (fe_blocks (wr_fe w)) = 9" using f(8) by (rule wf_fe_lengths)
  then have "length (concat (map (dblock (fd_data (sh_file (wr_sh w)))) (take (block_i w) (fe_blocks (wr_fe w))))) = 512 * block_i w"
    using length_dblocks [OF f(9), of "take (block_i w) (fe_blocks (wr_fe w))"] f(12,15) by simp
  then show ?thesis using f(10,13,16) by (metis length_append length_take min.absorb2 less_or_eq_imp_le)
qed

lemma sh_write_tail_none:
  assumes w: "wr_inv st0 fe0 w written" and c: "cur_read_i w = 0" and n: "length written \<le> 4608"
  shows "sh_write_tail w = Some w" and "wr_done st0 fe0 w written"
proof -
  note f = wr_inv_frame [OF w] and len = wr_inv_length [OF w]
  show "sh_write_tail w = Some w" using c by (simp add: sh_write_tail_def)
  let ?bs = "take (block_i w) (fe_blocks (wr_fe w))"
  have "length (fe_blocks (wr_fe w)) = 9" using f(8) by (rule wf_fe_lengths)
  then have lb: "length ?bs = block_i w" using f(12) by simp
  have cc: "concat (map (dblock (fd_data (sh_file (wr_sh w)))) ?bs) = written" using f(16) c by simp
  have ex: "\<exists>bs stale. fe_blocks (wr_fe w) = bs @ stale \<and>
       (\<forall>b\<in>set bs. data_block_start (sh_sb (wr_sh w)) \<le> b \<and> b < partition_size (sh_sb (wr_sh w))) \<and>
       length written \<le> 512 * length bs \<and> 512 * length bs < length written + 512 \<and>
       take (length written) (concat (map (dblock (fd_data (sh_file (wr_sh w)))) bs)) = written"
    using f(15) lb len c cc by (intro exI [of _ ?bs] exI [of _ "drop (block_i w) (fe_blocks (wr_fe w))"]) simp
  show "wr_done st0 fe0 w written"
    unfolding wr_done_def Let_def using f(1-10) f(14) len c n ex by (intro conjI) simp_all
qed

lemma sh_write_tail_some:
  assumes w: "wr_inv st0 fe0 w written" and c: "cur_read_i w \<noteq> 0" and n: "length written \<le> 4608"
    and e: "wr_eof w" and room: "0 < nfree (wr_sh w)" "block_i w < 9"
  shows "\<exists>w'. sh_write_tail w = Some w' \<and> wr_done st0 fe0 w' written"
proof -
  note f = wr_inv_frame [OF w] and len = wr_inv_length [OF w]
  let ?st = "wr_sh w" and ?c = "cur_read_i w" and ?bi = "block_i w"
  let ?s = "sh_sb (wr_sh w)" and ?d = "fd_data (sh_file (wr_sh w))" and ?blks = "take (block_i w) (fe_blocks (wr_fe w))"
  obtain j where j: "sh_get_data_block ?st = Some (int j, ?st\<lparr>sh_used := (sh_used ?st)[j := 1]\<rparr>)"
      "unat (data_block_start ?s) \<le> j" "j < unat (partition_size ?s)" "sh_used ?st ! j = 0"
    using sh_get_data_block_ok [OF f(11) room(1)] by metis
  note aw = alloc_word [OF f(9) j(2,3)]
  let ?b = "word_of_int (int j) :: u32" and ?data = "take ?c (sh_block ?st)"
  let ?f = "fd_write (fd_seek (sh_file ?st) (unat (?b * block_size ?s))) ?data"
  let ?blocks = "(fe_blocks (wr_fe w))[?bi := ?b]"
  let ?w' = "w\<lparr>wr_sh := ?st\<lparr>sh_used := (sh_used ?st)[j := 1], sh_file := ?f\<rparr>,
     wr_fe := (wr_fe w)\<lparr>fe_blocks := ?blocks\<rparr>, total_size := total_size w + of_nat ?c\<rparr>"
  have fl: "length (fe_blocks (wr_fe w)) = 9" using f(8) by (rule wf_fe_lengths)
  have dl: "length ?data = ?c" "length ?data \<le> 512" using f(10,13) by simp_all
  have run: "sh_write_tail w = Some ?w'"
    using e c room(2) j(1) fl aw(4) f(10,13) by (simp add: sh_write_tail_def arr_set_in mem_read_def Let_def)
  note wb = write_block_ok [OF f(9) aw(2,3) dl(2)]
  have tk: "?blocks = (?blks @ [?b]) @ drop (Suc ?bi) (fe_blocks (wr_fe w))"
    using room(2) fl by (simp add: upd_conv_take_nth_drop)
  have nb: "?b \<notin> set ?blks" using f(15) j(4) aw(1) by auto
  have keep: "map (dblock (fd_data ?f)) ?blks = map (dblock ?d) ?blks"
  proof (rule map_cong [OF refl])
    fix x assume x: "x \<in> set ?blks"
    then have "x \<noteq> ?b" using nb by auto
    then show "dblock (fd_data ?f) x = dblock ?d x" using f(15) x by (intro wb(4)) auto
  qed
  have lk: "length (concat (map (dblock ?d) ?blks)) = 512 * ?bi"
    using length_dblocks [OF f(9), of ?blks] f(12,15) fl by simp
  have "take (length written) (concat (map (dblock (fd_data ?f)) (?blks @ [?b])))
      = concat (map (dblock ?d) ?blks) @ take ?c (dblock (fd_data ?f) ?b)"
    unfolding map_append concat_append keep using lk len by simp
  also have "take ?c (dblock (fd_data ?f) ?b) = ?data" using wb(3) dl(1) by simp
  finally have con: "take (length written) (concat (map (dblock (fd_data ?f)) (?blks @ [?b]))) = written"
    using f(16) by simp
  have ex: "\<exists>bs stale. ?blocks = bs @ stale \<and> (\<forall>b\<in>set bs. data_block_start ?s \<le> b \<and> b < partition_size ?s) \<and>
       length written \<le> 512 * length bs \<and> 512 * length bs < length written + 512 \<and>
       take (length written) (concat (map (dblock (fd_data ?f)) bs)) = written"
    using tk con f(12,13,15) aw len c fl by (intro exI [of _ "?blks @ [?b]"] exI [of _ "drop (Suc ?bi) (fe_blocks (wr_fe w))"]) auto
  have "total_size w + of_nat ?c = of_nat (length written)" using f(14) len by simp
  moreover have "wf_fe ((wr_fe w)\<lparr>fe_blocks := ?blocks\<rparr>)" using f(8) by (simp add: wf_fe_def)
  moreover have "length (fd_data ?f) = length (fd_data (sh_file st0))" "stbl (fd_data ?f) ?s = stbl (fd_data (sh_file st0)) ?s"
    "shell_layout (length (fd_data ?f)) ?s" using wb(1,2) f(4,5,9) by simp_all
  ultimately have "wr_done st0 fe0 ?w' written"
    unfolding wr_done_def Let_def using f(1-3,6,7,10) n ex by (intro conjI) simp_all
  with run show ?thesis by blast
qed

section \<open>Writing and reading by name\<close>

definition shell_ok :: "shell \<Rightarrow> bool" where
  "shell_ok st \<longleftrightarrow> shell_layout (length (fd_data (sh_file st))) (sh_sb st) \<and> length (sh_block st) = 512 \<and>
     length (sh_used st) = unat (partition_size (sh_sb st)) \<and> wf_fe (sh_junk st)"

lemma sh_lookup_ok:
  assumes l: "shell_layout (length (fd_data (sh_file st))) (sh_sb st)" and j: "wf_fe (sh_junk st)"
  shows "\<exists>fe p. sh_lookup st fn =
     (case tbl_lookup (stbl (fd_data (sh_file st)) (sh_sb st)) fn of None \<Rightarrow> - 1 | Some i \<Rightarrow> int i, fe,
      st\<lparr>sh_file := (sh_file st)\<lparr>fd_pos := p\<rparr>\<rparr>) \<and>
     (\<forall>i. tbl_lookup (stbl (fd_data (sh_file st)) (sh_sb st)) fn = Some i \<longrightarrow>
        fe = stbl (fd_data (sh_file st)) (sh_sb st) ! i)"
proof -
  let ?f = "fd_seek (sh_file st) (table_start (sh_sb st))"
  have pos: "(?f\<lparr>fd_pos := p\<rparr>) = (sh_file st)\<lparr>fd_pos := p\<rparr>" for p by (simp add: fd_seek_def)
  have ft: "shell_layout (length (fd_data ?f)) (sh_sb st)" "fd_pos ?f = eaddr (sh_sb st) 0"
      "0 \<le> unat (entry_count (sh_sb st))"
    using l layout_words(1) [OF l] by simp_all
  from sh_lookup_loop_ok [OF ft j, of fn] obtain fe p where
      "sh_lookup_loop fn [0..<unat (entry_count (sh_sb st))] ?f (sh_junk st) =
        (case tbl_lookup (stbl (fd_data (sh_file st)) (sh_sb st)) fn of None \<Rightarrow> - 1 | Some i \<Rightarrow> int i, fe, ?f\<lparr>fd_pos := p\<rparr>)"
      "\<forall>i. tbl_lookup (stbl (fd_data (sh_file st)) (sh_sb st)) fn = Some i \<longrightarrow>
        fe = stbl (fd_data (sh_file st)) (sh_sb st) ! i"
    unfolding tbl_lookup_def length_stbl fd_seek_simps by blast
  then show ?thesis unfolding sh_lookup_def pos by (intro exI [of _ fe] exI [of _ p]) simp
qed

lemma sh_put_blocks_ok:
  "length (sh_used st) < 2 ^ 31 \<Longrightarrow> \<forall>b\<in>set (takeWhile (\<lambda>b. b \<noteq> 0) bs). unat b < length (sh_used st) \<Longrightarrow>
   sh_put_blocks st bs = Some (st\<lparr>sh_used := set_marks 0 (sh_used st) (takeWhile (\<lambda>b. b \<noteq> 0) bs)\<rparr>)"
proof (induction bs arbitrary: st)
  case (Cons b bs)
  show ?case
  proof (cases "b = 0")
    case False
    have "sint b = int (unat b)" using Cons.prems False by (intro sint_small) simp
    then have "sh_put_data_block st (sint b) = Some (st\<lparr>sh_used := (sh_used st)[unat b := 0]\<rparr>)"
      using Cons.prems False by (simp add: sh_put_data_block_def arr_set_in)
    with False Cons show ?thesis by simp
  qed simp
qed simp

lemma wr_start:
  assumes st: "shell_ok st" and fe: "wf_fe fe"
  shows "wr_inv st fe \<lparr>wr_sh = st, wr_fe = fe, cur_read_i = 0, to_read = unat (block_size (sh_sb st)),
     total_size = 0, block_i = 0, wr_eof = False\<rparr> []"
proof -
  have "block_size (sh_sb st) = 512" using st by (simp add: shell_ok_def shell_layout_def)
  with assms show ?thesis by (simp add: wr_inv_def shell_ok_def)
qed

lemma sh_write_ok:
  assumes st: "shell_ok st" and l: "tbl_lookup (stbl (fd_data (sh_file st)) (sh_sb st)) fn = Some i"
  defines "fe \<equiv> stbl (fd_data (sh_file st)) (sh_sb st) ! i"
  assumes pm: "fe_perms fe AND 2 \<noteq> 0" and fb: "\<forall>b\<in>set (file_blocks fe). unat b < unat (partition_size (sh_sb st))"
    and cs: "[] \<notin> set cs" "length (concat cs) \<le> 4608"
      "length (concat cs) \<le> 512 * nfree (st\<lparr>sh_used := set_marks 0 (sh_used st) (file_blocks fe)\<rparr>)"
  shows "\<exists>w. wr_done st fe w (concat cs) \<and> sh_write now st fn cs =
     Some (write_entry_at i ((wr_fe w)\<lparr>fe_size := total_size w, fe_timestamp := now\<rparr>) (wr_sh w))"
proof -
  have lay: "shell_layout (length (fd_data (sh_file st))) (sh_sb st)" and j: "wf_fe (sh_junk st)"
    and lu: "length (sh_used st) = unat (partition_size (sh_sb st))" "length (sh_used st) < 2 ^ 31"
    using st by (simp_all add: shell_ok_def shell_layout_def)
  note i = tbl_lookup_Some [OF l]
  obtain p where lo: "sh_lookup st fn = (int i, fe, st\<lparr>sh_file := (sh_file st)\<lparr>fd_pos := p\<rparr>\<rparr>)"
    using sh_lookup_ok [OF lay j, of fn] l by (auto simp: fe_def)
  let ?st = "st\<lparr>sh_file := (sh_file st)\<lparr>fd_pos := p\<rparr>\<rparr>"
  let ?st1 = "?st\<lparr>sh_used := set_marks 0 (sh_used st) (file_blocks fe)\<rparr>"
  have us: "fe_used fe" and i': "i < unat (entry_count (sh_sb st))" using i by (simp_all add: fe_def)
  then have wf: "wf_fe fe" using read_fe_ok(2) [of "fd_seek (sh_file st) (eaddr (sh_sb st) i)" "sh_sb st" i zero_fe] lay
    by (simp add: fe_def)
  have pb: "sh_put_blocks ?st (fe_blocks fe) = Some ?st1"
    using sh_put_blocks_ok [of ?st "fe_blocks fe"] lu fb us by (simp add: file_blocks_def)
  have ok1: "shell_ok ?st1" using st by (simp add: shell_ok_def)
  let ?w0 = "\<lparr>wr_sh = ?st1, wr_fe = fe, cur_read_i = 0, to_read = unat (block_size (sh_sb ?st1)),
     total_size = 0, block_i = 0, wr_eof = False\<rparr>"
  have "nfree ?st1 = nfree (st\<lparr>sh_used := set_marks 0 (sh_used st) (file_blocks fe)\<rparr>)" by (simp add: nfree_def)
  then obtain w where w: "sh_write_loop cs ?w0 = Some w" "wr_inv ?st1 fe w (concat cs)" "wr_eof w"
      "cur_read_i w \<noteq> 0 \<longrightarrow> 0 < nfree (wr_sh w) \<and> block_i w < 9"
    using sh_write_loop_ok [OF wr_start [OF ok1 wf] cs(1)] cs(2,3) by auto
  obtain w' where w': "sh_write_tail w = Some w'" "wr_done ?st1 fe w' (concat cs)"
  proof (cases "cur_read_i w = 0")
    case True
    then show thesis using sh_write_tail_none [OF w(2) True cs(2)] that by blast
  next
    case False
    then have room: "0 < nfree (wr_sh w)" "block_i w < 9" using w(4) by simp_all
    show thesis using sh_write_tail_some [OF w(2) False cs(2) w(3) room] that by blast
  qed
  have "sh_write now st fn cs = Some (write_entry_at i ((wr_fe w')\<lparr>fe_size := total_size w', fe_timestamp := now\<rparr>) (wr_sh w'))"
    using lo pm pb w(1) w'(1) by (simp add: sh_write_def)
  moreover have "wr_done st fe w' (concat cs)" using w'(2) by (simp add: wr_done_def)
  ultimately show ?thesis by blast
qed

section \<open>Properties\<close>

text \<open>
  C13: started on the device of a consistent volume, the shell reads the super block the kernel
  module works with and computes exactly the tracker the kernel module keeps; with no input it
  ends with status 0 and has changed nothing on the device.
\<close>

theorem shell_agrees_with_kernel:
  assumes inv: "sfs_inv ram_bdev ram_nblk ram_ok info"
    and l: "shell_layout (length (vfs_dev info)) (sb info)" and j: "wf_fe junk"
  shows "\<exists>st. browse_main 2 (Some (vfs_dev info)) junk True [] = Some (0, Some st) \<and>
     sh_sb st = sb info \<and> used_blocks info = Some (sh_used st) \<and> fd_data (sh_file st) = vfs_dev info"
proof -
  let ?d = "vfs_dev info"
  have v: "vol_ok ram_bdev ram_nblk ram_ok info" and bk: "blocks_ok (sb info) (file_table ram_bdev info)"
    and ub: "used_blocks info = Some (tracker (sb info) (file_table ram_bdev info))"
    using inv by (simp_all add: sfs_inv_def)
  have t: "file_table ram_bdev info = stbl ?d (sb info)" by (rule kernel_table [OF v])
  have r: "ram_ok ?d" and rd: "read_sb_from_real_sfs ram_bdev info = Some (Inr (sb info))"
    and ty: "sb_type (sb info) = SIMULA_FS_TYPE" using v by (simp_all add: vol_ok_def)
  have len: "512 \<le> length ?d" using l by (simp add: shell_layout_def word_le_nat_alt)
  then have n: "0 < ram_nblk ?d" by (simp add: ram_nblk_def RB_SECTOR_SIZE_def div_greater_zero_iff)
  have s: "sb info = sb_of_bytes (take 512 ?d)"
    using read_sb_peekD [OF rd] ram_bread [OF r n] len by (auto simp: peek_def mem_read_def SIMULA_FS_BLOCK_SIZE_def)
  have f: "fd_read (fd_open ?d) (replicate SIMULA_FS_BLOCK_SIZE 0) SIMULA_FS_BLOCK_SIZE
      = (take 512 ?d, (fd_open ?d)\<lparr>fd_pos := 512\<rparr>)"
    using len by (simp add: fd_read_def Let_def SIMULA_FS_BLOCK_SIZE_def)
  let ?st = "\<lparr>sh_file = (fd_open ?d)\<lparr>fd_pos := 512\<rparr>, sh_sb = sb info, sh_used = [],
      sh_block = replicate SIMULA_FS_BLOCK_SIZE 0, sh_out = [], sh_junk = junk\<rparr>"
  obtain f' where f': "fd_data f' = ?d" "sh_init_browsing True ?st = Some (Inr (?st\<lparr>sh_file := f', sh_used := tracker (sb info) (stbl ?d (sb info))\<rparr>))"
    using sh_init_browsing_ok [of ?st] l j bk t by auto
  have "browse_main 2 (Some ?d) junk True [] =
      Some (0, Some (?st\<lparr>sh_file := f', sh_used := tracker (sb info) (stbl ?d (sb info))\<rparr>))"
    using f' ty by (simp add: browse_main_def f browse_sfs_def flip: s)
  with f' ub t show ?thesis by auto
qed

theorem shell_agrees_with_kernel_witness:
  "\<exists>st. browse_main 2 (Some sample_disk) zero_fe True [] = Some (0, Some st) \<and>
     sh_used st = [1, 1, 0, 0, 0, 0, 0, 0]"
proof -
  have d: "vfs_dev sample_info = sample_disk" "used_blocks sample_info = Some [1, 1, 0, 0, 0, 0, 0, 0]"
    by (simp_all add: sample_info_def)
  have "shell_layout (length (vfs_dev sample_info)) (sb sample_info)"
    unfolding d length_sample_disk by (simp add: sample_info_def shell_layout_def sample_sb_def)
  from shell_agrees_with_kernel [OF sample_inv this wf_zero_fe] show ?thesis by (auto simp: d)
qed

text \<open>
  C14: what is written to a file is what reading it prints. For a file with read and write
  permission, whatever pieces standard input arrives in, if the data fits in nine blocks and
  in the free space (the file's own blocks included), writing succeeds and reading the file
  afterwards prints exactly these bytes.
\<close>

theorem shell_write_then_read:
  assumes st: "shell_ok st" and l: "tbl_lookup (stbl (fd_data (sh_file st)) (sh_sb st)) fn = Some i"
    and pm: "fe_perms (stbl (fd_data (sh_file st)) (sh_sb st) ! i) AND 2 \<noteq> 0"
      "fe_perms (stbl (fd_data (sh_file st)) (sh_sb st) ! i) AND 4 \<noteq> 0"
    and fb: "\<forall>b\<in>set (file_blocks (stbl (fd_data (sh_file st)) (sh_sb st) ! i)). b < partition_size (sh_sb st)"
    and cs: "[] \<notin> set cs" "length (concat cs) \<le> SIMULA_FS_DATA_BLOCK_CNT * SIMULA_FS_BLOCK_SIZE"
      "length (concat cs) \<le> SIMULA_FS_BLOCK_SIZE * nfree (st\<lparr>sh_used := set_marks 0 (sh_used st)
         (file_blocks (stbl (fd_data (sh_file st)) (sh_sb st) ! i))\<rparr>)"
  shows "\<exists>st1 st2. sh_write now st fn cs = Some st1 \<and> sh_read st1 fn = Some st2 \<and>
     data_out (sh_out st2) = data_out (sh_out st) @ concat cs"
proof -
  let ?t = "stbl (fd_data (sh_file st)) (sh_sb st)"
  let ?fe = "?t ! i" and ?data = "concat cs"
  note i = tbl_lookup_Some [OF l]
  have "\<forall>b\<in>set (file_blocks ?fe). unat b < unat (partition_size (sh_sb st))" using fb by (simp add: word_less_nat_alt)
  then obtain w where w: "wr_done st ?fe w ?data"
      and wr: "sh_write now st fn cs = Some (write_entry_at i ((wr_fe w)\<lparr>fe_size := total_size w, fe_timestamp := now\<rparr>) (wr_sh w))"
    using sh_write_ok [OF st l pm(1) _ cs(1)] cs(2,3) by (auto simp: SIMULA_FS_BLOCK_SIZE_def)
  let ?e = "(wr_fe w)\<lparr>fe_size := total_size w, fe_timestamp := now\<rparr>" and ?d = "fd_data (sh_file (wr_sh w))"
  let ?st1 = "write_entry_at i ?e (wr_sh w)"
  have f: "sh_sb (wr_sh w) = sh_sb st" "sh_out (wr_sh w) = sh_out st" "sh_junk (wr_sh w) = sh_junk st"
      "stbl ?d (sh_sb (wr_sh w)) = stbl (fd_data (sh_file st)) (sh_sb (wr_sh w))"
      "fe_name (wr_fe w) = fe_name ?fe" "fe_perms (wr_fe w) = fe_perms ?fe" "wf_fe (wr_fe w)"
      "shell_layout (length ?d) (sh_sb (wr_sh w))" "length (sh_block (wr_sh w)) = 512"
      "total_size w = of_nat (length ?data)" "length ?data \<le> 4608"
    using w unfolding wr_done_def Let_def by blast+
  obtain bs stale where b: "fe_blocks (wr_fe w) = bs @ stale"
      "\<forall>b\<in>set bs. data_block_start (sh_sb (wr_sh w)) \<le> b \<and> b < partition_size (sh_sb (wr_sh w))"
      "length ?data \<le> 512 * length bs" "512 * length bs < length ?data + 512"
      "take (length ?data) (concat (map (dblock ?d) bs)) = ?data"
    using w unfolding wr_done_def Let_def by blast
  have wfe: "wf_fe ?e" using f(7) by (simp add: wf_fe_def)
  have i': "i < unat (entry_count (sh_sb (wr_sh w)))" using i f(1) by simp
  note we = write_entry_at_ok [OF f(8) i' wfe]
  let ?d1 = "fd_data (sh_file ?st1)"
  have s1: "sh_sb ?st1 = sh_sb st" "sh_out ?st1 = sh_out st" "sh_junk ?st1 = sh_junk st" "length (sh_block ?st1) = 512"
    using f by (simp_all add: write_entry_at_def)
  have lay1: "shell_layout (length ?d1) (sh_sb ?st1)" using we(1) f(1,8) s1(1) by simp
  have j1: "wf_fe (sh_junk ?st1)" using st s1(3) by (simp add: shell_ok_def)
  have t1: "stbl ?d1 (sh_sb ?st1) = ?t[i := ?e]" using we(2) f(1,4) s1(1) by simp
  have "tbl_lookup (?t[i := ?e]) fn = tbl_lookup ?t fn"
    using i f(5) by (intro tbl_lookup_other) (simp_all add: fe_used_def)
  then have l1: "tbl_lookup (stbl ?d1 (sh_sb ?st1)) fn = Some i" using t1 l by simp
  obtain p where lo: "sh_lookup ?st1 fn = (int i, ?e, ?st1\<lparr>sh_file := (sh_file ?st1)\<lparr>fd_pos := p\<rparr>\<rparr>)"
    using sh_lookup_ok [OF lay1 j1, of fn] l1 t1 i by auto
  let ?st2 = "?st1\<lparr>sh_file := (sh_file ?st1)\<lparr>fd_pos := p\<rparr>\<rparr>"
  have "map (dblock ?d1) bs = map (dblock ?d) bs"
    using we(3) b(2) by (intro map_cong) auto
  then have con: "take (length ?data) (concat (map (dblock ?d1) bs)) = ?data" using b(5) by (simp only:)
  have un: "unat (total_size w) = length ?data" using f(10,11) by (simp add: unat_of_nat_small)
  have "stale = [] \<or> bs \<noteq> [] \<or> hd stale = 0 \<or> unat (total_size w) = 0" using b(3) un by auto
  then have "\<exists>st'. sh_read_loop (bs @ stale) (total_size w) ?st2 = Some st' \<and> fd_data (sh_file st') = fd_data (sh_file ?st2) \<and>
     data_out (sh_out st') = data_out (sh_out ?st2) @ take (unat (total_size w)) (concat (map (dblock (fd_data (sh_file ?st2))) bs))"
    using lay1 s1 b(2-4) f(1) un by (intro sh_read_loop_ok) simp_all
  then obtain st' where rl: "sh_read_loop (bs @ stale) (total_size w) ?st2 = Some st'" "data_out (sh_out st') = data_out (sh_out st) @ ?data"
    using un con s1(2) by auto
  have "sh_read ?st1 fn = Some st'" using lo pm(2) f(6) rl(1) b(1) by (simp add: sh_read_def)
  with wr rl(2) show ?thesis by blast
qed

text \<open>A shell on the sample volume that holds the empty file \<open>a\<close>.\<close>

lemma sample_shell:
  "\<exists>st. shell_ok st \<and> sh_sb st = sample_sb \<and> sh_used st = replicate 2 1 @ replicate 6 0 \<and> sh_out st = [] \<and>
     stbl (fd_data (sh_file st)) (sh_sb st) = (replicate 8 zero_fe)[0 := sample_entry]"
proof -
  let ?st = "\<lparr>sh_file = fd_open sample_disk, sh_sb = sample_sb, sh_used = replicate 2 1 @ replicate 6 0,
      sh_block = replicate 512 0, sh_out = [], sh_junk = zero_fe\<rparr>"
  have d: "vfs_dev sample_info = sample_disk" "sb sample_info = sample_sb" by (simp_all add: sample_info_def)
  have t: "stbl sample_disk sample_sb = replicate 8 zero_fe"
    using kernel_table [OF sample_volume] sample_table by (simp add: d)
  have l: "shell_layout (length (fd_data (sh_file ?st))) (sh_sb ?st)"
    by (simp add: length_sample_disk shell_layout_def sample_sb_def fd_open_def)
  have i: "0 < unat (entry_count (sh_sb ?st))" by (simp add: sample_sb_def)
  have "wf_fe sample_entry" unfolding sample_entry_def by (rule wf_new_entry) simp
  note we = write_entry_at_ok [OF l i this]
  let ?st' = "write_entry_at 0 sample_entry ?st"
  have k: "sh_sb ?st' = sample_sb" "sh_used ?st' = replicate 2 1 @ replicate 6 0" "sh_out ?st' = []"
      "sh_block ?st' = replicate 512 0" "sh_junk ?st' = zero_fe" by (simp_all add: write_entry_at_def)
  have "shell_ok ?st'" using l we(1) unfolding shell_ok_def k by (simp add: sample_sb_def)
  with k we(2) t show ?thesis by (intro exI [of _ ?st']) (simp add: fd_open_def)
qed

theorem shell_write_then_read_witness:
  "\<exists>st st1 st2. sh_write 9 st [97] [[104], [105, 33]] = Some st1 \<and> sh_read st1 [97] = Some st2 \<and>
     data_out (sh_out st2) = [104, 105, 33]"
proof -
  obtain st where st: "shell_ok st" "sh_sb st = sample_sb" "sh_used st = replicate 2 1 @ replicate 6 0" "sh_out st = []"
      "stbl (fd_data (sh_file st)) (sh_sb st) = (replicate 8 zero_fe)[0 := sample_entry]"
    using sample_shell by blast
  have l: "tbl_lookup (stbl (fd_data (sh_file st)) (sh_sb st)) [97] = Some 0"
    unfolding st(5) by (simp add: tbl_lookup_def upt_rec sample_entry_facts)
  have e: "stbl (fd_data (sh_file st)) (sh_sb st) ! 0 = sample_entry" unfolding st(5) by simp
  have "2 \<in> {j \<in> {unat (data_block_start sample_sb)..<unat (partition_size sample_sb)}. (replicate 2 1 @ replicate 6 0 :: u8 list) ! j = 0}"
    by (simp add: sample_sb_def nth_append)
  then have "0 < nfree st" unfolding nfree_def st(2,3) by (subst card_gt_0_iff) auto
  moreover have "fe_perms sample_entry = 6" by (simp add: sample_entry_def new_entry_def)
  ultimately show ?thesis
    using shell_write_then_read [OF st(1) l, of "[[104], [105, 33]]" 9] st(4) unfolding e sample_entry_facts
    by (fastforce simp: SIMULA_FS_BLOCK_SIZE_def SIMULA_FS_DATA_BLOCK_CNT_def data_out_def set_marks_def)
qed

end
