(* ===== verification/Usb_Core.thy ===== *)
theory Usb_Core
  imports Storage_Prelude
begin

text \<open>
  The USB core as the drivers of \<^verbatim>\<open>src/USB/USBDriver\<close> and \<^verbatim>\<open>src/BlockDriver/ddk_storage.c\<close> call
  it. It is not part of this repository: a value of type \<open>'u usb\<close> holds the answers of
  \<open>usb_control_msg\<close> and \<open>usb_interrupt_msg\<close>, separately for the two directions, on a device
  whose state has type \<open>'u\<close>. A control message has request, request type, value, index and
  data; it returns the byte count or a negative error. An interrupt message returns 0 or an
  error, and the bytes moved.
\<close>

record 'u usb =
  usb_control_out :: "u8 \<Rightarrow> u8 \<Rightarrow> u16 \<Rightarrow> u16 \<Rightarrow> u8 list \<Rightarrow> 'u \<Rightarrow> int \<times> 'u"
  usb_control_in :: "u8 \<Rightarrow> u8 \<Rightarrow> u16 \<Rightarrow> u16 \<Rightarrow> nat \<Rightarrow> 'u \<Rightarrow> int \<times> u8 list \<times> 'u"
  usb_int_out :: "u8 \<Rightarrow> u8 list \<Rightarrow> 'u \<Rightarrow> int \<times> nat \<times> 'u"
  usb_int_in :: "u8 \<Rightarrow> nat \<Rightarrow> 'u \<Rightarrow> int \<times> u8 list \<times> 'u"

text \<open>\<open>USB_DIR_OUT | USB_TYPE_VENDOR | USB_RECIP_DEVICE\<close> and its \<open>USB_DIR_IN\<close> form.\<close>

abbreviation (input) VENDOR_OUT :: u8 where "VENDOR_OUT \<equiv> 0x40"
abbreviation (input) VENDOR_IN :: u8 where "VENDOR_IN \<equiv> 0xC0"

text \<open>A \<open>short\<close> that was received as two little-endian bytes.\<close>

definition short_of :: "u8 list \<Rightarrow> int" where
  "short_of bs = sint (unle bs :: u16)"

end
