(* ===== verification/Ddk_Storage.thy ===== *)
theory Ddk_Storage
  imports Block_Transfer Usb_Core
begin

text \<open>
  The storage half of the USB block driver, \<^verbatim>\<open>src/BlockDriver/ddk_storage.c\<close>: sectors of the
  board's flash are moved in packets of 8 bytes over interrupt endpoints, after a control
  message has set the read or write offset.

  \<open>stor\<close> holds the two statics: the device pointer (\<open>None\<close> is NULL) with the state of the
  device behind it, and whether the mutex is held. Locking a held mutex would block for ever
  and has no result (\<open>None\<close>), as has an access outside the caller's buffer.
\<close>

section \<open>Constants and state\<close>

definition CUSTOM_RQ_SET_MEM_RD_OFFSET :: u8 where "CUSTOM_RQ_SET_MEM_RD_OFFSET = 3"
definition CUSTOM_RQ_SET_MEM_WR_OFFSET :: u8 where "CUSTOM_RQ_SET_MEM_WR_OFFSET = 5"
definition CUSTOM_RQ_GET_MEM_SIZE :: u8 where "CUSTOM_RQ_GET_MEM_SIZE = 7"
definition CUSTOM_RQ_SET_MEM_TYPE :: u8 where "CUSTOM_RQ_SET_MEM_TYPE = 8"
definition MEM_EP_IN :: u8 where "MEM_EP_IN = 0x81"
definition MEM_EP_OUT :: u8 where "MEM_EP_OUT = 0x01"
definition MAX_PKT_SIZE :: nat where "MAX_PKT_SIZE = 8"
definition DDK_SECTOR_SIZE :: nat where "DDK_SECTOR_SIZE = 512"
definition flash :: u16 where "flash = 1"

lemmas ddk_consts = CUSTOM_RQ_SET_MEM_RD_OFFSET_def CUSTOM_RQ_SET_MEM_WR_OFFSET_def CUSTOM_RQ_GET_MEM_SIZE_def
  CUSTOM_RQ_SET_MEM_TYPE_def MEM_EP_IN_def MEM_EP_OUT_def MAX_PKT_SIZE_def DDK_SECTOR_SIZE_def flash_def

record 'u stor =
  device :: "'u option"
  m :: bool

definition mutex_lock :: "'u stor \<Rightarrow> 'u stor option" where
  "mutex_lock s = (if m s then None else Some (s\<lparr>m := True\<rparr>))"

definition mutex_unlock :: "'u stor \<Rightarrow> 'u stor" where
  "mutex_unlock s = s\<lparr>m := False\<rparr>"

datatype dir = e_read | e_write

section \<open>Control messages\<close>

definition set_mem_raw :: "'u usb \<Rightarrow> 'u \<Rightarrow> int \<times> 'u" where
  "set_mem_raw usb dev = usb_control_out usb CUSTOM_RQ_SET_MEM_TYPE VENDOR_OUT flash 0 [] dev"

definition set_mem :: "'u usb \<Rightarrow> 'u stor \<Rightarrow> (int \<times> 'u stor) option" where
  "set_mem usb s = do {
     s \<leftarrow> mutex_lock s;
     (case device s of
        None \<Rightarrow> Some (- ENODEV, mutex_unlock s)
      | Some dev \<Rightarrow>
          let (retval, dev) = set_mem_raw usb dev
          in Some (retval, mutex_unlock (s\<lparr>device := Some dev\<rparr>)))
   }"

definition get_size_raw :: "'u usb \<Rightarrow> 'u \<Rightarrow> int \<times> 'u" where
  "get_size_raw usb dev =
     (let (retval, val, dev) = usb_control_in usb CUSTOM_RQ_GET_MEM_SIZE VENDOR_IN 0 0 2 dev
      in (if retval = 2 then short_of val else int DDK_SECTOR_SIZE, dev))"

definition get_size :: "'u usb \<Rightarrow> 'u stor \<Rightarrow> (int \<times> 'u stor) option" where
  "get_size usb s = do {
     s \<leftarrow> mutex_lock s;
     (case device s of
        None \<Rightarrow> Some (- ENODEV, mutex_unlock s)
      | Some dev \<Rightarrow>
          let (retval, dev) = get_size_raw usb dev
          in Some (retval, mutex_unlock (s\<lparr>device := Some dev\<rparr>)))
   }"

text \<open>The offset is an \<open>int\<close>; the USB core takes it as a 16-bit value.\<close>

definition set_off_raw :: "'u usb \<Rightarrow> dir \<Rightarrow> u32 \<Rightarrow> 'u \<Rightarrow> int \<times> 'u" where
  "set_off_raw usb d offset dev =
     usb_control_out usb (if d = e_read then CUSTOM_RQ_SET_MEM_RD_OFFSET else CUSTOM_RQ_SET_MEM_WR_OFFSET)
       VENDOR_OUT (ucast offset) 0 [] dev"

definition ddk_storage_init :: "'u usb \<Rightarrow> 'u stor \<Rightarrow> (int \<times> 'u stor) option" where
  "ddk_storage_init usb s = do {
     (retval, s) \<leftarrow> set_mem usb s;
     if retval < 0 then Some (retval, s)
     else do {
       (retval, s) \<leftarrow> get_size usb s;
       if retval < 0 then Some (retval, s) else Some (retval div int DDK_SECTOR_SIZE, s)
     }
   }"

definition ddk_storage_cleanup :: "'u stor \<Rightarrow> 'u stor" where
  "ddk_storage_cleanup s = s"

section \<open>Transfers\<close>

text \<open>
  The loops of the two transfers: a negative result is the error of the USB core, otherwise it
  is the byte count. Every packet is sent with \<open>MAX_PKT_SIZE\<close> bytes from the buffer.
\<close>

function write_loop :: "'u usb \<Rightarrow> u8 list \<Rightarrow> int \<Rightarrow> nat \<Rightarrow> 'u \<Rightarrow> ((int + nat) \<times> 'u) option" where
  "write_loop usb buffer cnt wrote_cnt dev =
     (if int wrote_cnt < cnt
      then do {
        pkt \<leftarrow> mem_read buffer wrote_cnt MAX_PKT_SIZE;
        let (retval, wrote_size, dev) = usb_int_out usb MEM_EP_OUT pkt dev;
        if retval \<noteq> 0 then Some (Inl retval, dev)
        else if wrote_size = 0 then Some (Inr wrote_cnt, dev)
        else write_loop usb buffer cnt (wrote_cnt + wrote_size) dev
      }
      else Some (Inr wrote_cnt, dev))"
  by pat_completeness auto
termination write_loop
  by (relation "measure (\<lambda>(usb, buffer, cnt, wrote_cnt, dev). nat (cnt - int wrote_cnt))") auto

function read_loop :: "'u usb \<Rightarrow> u8 list \<Rightarrow> int \<Rightarrow> nat \<Rightarrow> 'u \<Rightarrow> ((int + nat) \<times> u8 list \<times> 'u) option" where
  "read_loop usb buffer cnt read_cnt dev =
     (if int read_cnt < cnt
      then do {
        let (retval, got, dev) = usb_int_in usb MEM_EP_IN MAX_PKT_SIZE dev;
        buffer \<leftarrow> mem_write buffer read_cnt got;
        if retval \<noteq> 0 then Some (Inl retval, buffer, dev)
        else if got = [] then Some (Inr read_cnt, buffer, dev)
        else read_loop usb buffer cnt (read_cnt + length got) dev
      }
      else Some (Inr read_cnt, buffer, dev))"
  by pat_completeness auto
termination read_loop
  by (relation "measure (\<lambda>(usb, buffer, cnt, read_cnt, dev). nat (cnt - int read_cnt))") auto

declare write_loop.simps [simp del] read_loop.simps [simp del]

text \<open>\<open>offset\<close> and \<open>cnt\<close> are \<open>int\<close>s: the 64-bit, respectively unsigned, product is cut to 32 bits.\<close>

definition ddk_storage_write :: "'u usb \<Rightarrow> 'u stor \<Rightarrow> u64 \<Rightarrow> u8 list \<Rightarrow> u32 \<Rightarrow> (int \<times> 'u stor) option" where
  "ddk_storage_write usb s sector_off buffer nsect = do {
     let offset = (ucast (sector_off * of_nat DDK_SECTOR_SIZE) :: u32);
     let cnt = sint (nsect * of_nat DDK_SECTOR_SIZE);
     s \<leftarrow> mutex_lock s;
     (case device s of
        None \<Rightarrow> Some (- ENODEV, mutex_unlock s)
      | Some dev \<Rightarrow>
          let (retval, dev) = set_off_raw usb e_write offset dev
          in if retval < 0 then Some (retval, mutex_unlock (s\<lparr>device := Some dev\<rparr>))
             else do {
               (r, dev) \<leftarrow> write_loop usb buffer cnt 0 dev;
               Some (case r of Inl e \<Rightarrow> e | Inr wrote_cnt \<Rightarrow> int wrote_cnt, mutex_unlock (s\<lparr>device := Some dev\<rparr>))
             })
   }"

definition ddk_storage_read :: "'u usb \<Rightarrow> 'u stor \<Rightarrow> u64 \<Rightarrow> u8 list \<Rightarrow> u32 \<Rightarrow> (int \<times> u8 list \<times> 'u stor) option" where
  "ddk_storage_read usb s sector_off buffer nsect = do {
     let offset = (ucast (sector_off * of_nat DDK_SECTOR_SIZE) :: u32);
     let cnt = sint (nsect * of_nat DDK_SECTOR_SIZE);
     s \<leftarrow> mutex_lock s;
     (case device s of
        None \<Rightarrow> Some (- ENODEV, buffer, mutex_unlock s)
      | Some dev \<Rightarrow>
          let (retval, dev) = set_off_raw usb e_read offset dev
          in if retval < 0 then Some (retval, buffer, mutex_unlock (s\<lparr>device := Some dev\<rparr>))
             else do {
               (r, buffer, dev) \<leftarrow> read_loop usb buffer cnt 0 dev;
               Some (case r of Inl e \<Rightarrow> e | Inr read_cnt \<Rightarrow> int read_cnt, buffer,
                     mutex_unlock (s\<lparr>device := Some dev\<rparr>))
             })
   }"

section \<open>A board with working memory\<close>

text \<open>
  What the driver expects of the board: its memory \<open>mem\<close> and the two offsets; an offset
  message sets one offset, a packet of 8 bytes inside the memory is stored at the write
  offset, or fetched from the read offset, and moves it.
\<close>

definition memory_board :: "'u usb \<Rightarrow> ('u \<Rightarrow> u8 list) \<Rightarrow> ('u \<Rightarrow> nat) \<Rightarrow> ('u \<Rightarrow> nat) \<Rightarrow> bool" where
  "memory_board usb mem rd wr \<longleftrightarrow>
     (\<forall>u v r u'. usb_control_out usb 3 VENDOR_OUT v 0 [] u = (r, u') \<longrightarrow>
        0 \<le> r \<and> mem u' = mem u \<and> rd u' = unat v) \<and>
     (\<forall>u v r u'. usb_control_out usb 5 VENDOR_OUT v 0 [] u = (r, u') \<longrightarrow>
        0 \<le> r \<and> mem u' = mem u \<and> wr u' = unat v) \<and>
     (\<forall>u pkt r n u'. length pkt = 8 \<longrightarrow> wr u + 8 \<le> length (mem u) \<longrightarrow> usb_int_out usb 1 pkt u = (r, n, u') \<longrightarrow>
        r = 0 \<and> n = 8 \<and> wr u' = wr u + 8 \<and> mem_write (mem u) (wr u) pkt = Some (mem u')) \<and>
     (\<forall>u r bs u'. rd u + 8 \<le> length (mem u) \<longrightarrow> usb_int_in usb 0x81 8 u = (r, bs, u') \<longrightarrow>
        r = 0 \<and> bs = take 8 (drop (rd u) (mem u)) \<and> mem u' = mem u \<and> rd u' = rd u + 8)"

lemma board_set_off:
  assumes b: "memory_board usb mem rd wr"
  obtains r u' where "set_off_raw usb d v u = (r, u')" "0 \<le> r" "mem u' = mem u"
    "(case d of e_read \<Rightarrow> rd u' | e_write \<Rightarrow> wr u') = unat (ucast v :: u16)"
proof -
  obtain r u' where e: "set_off_raw usb d v u = (r, u')" by (cases "set_off_raw usb d v u")
  show thesis
  proof (cases d)
    case e_read
    with e have "usb_control_out usb 3 VENDOR_OUT (ucast v) 0 [] u = (r, u')" by (simp add: set_off_raw_def ddk_consts)
    then have "0 \<le> r \<and> mem u' = mem u \<and> rd u' = unat (ucast v :: u16)" using b unfolding memory_board_def by blast
    with e_read show thesis by (intro that [OF e]) simp_all
  next
    case e_write
    with e have "usb_control_out usb 5 VENDOR_OUT (ucast v) 0 [] u = (r, u')" by (simp add: set_off_raw_def ddk_consts)
    then have "0 \<le> r \<and> mem u' = mem u \<and> wr u' = unat (ucast v :: u16)" using b unfolding memory_board_def by blast
    with e_write show thesis by (intro that [OF e]) simp_all
  qed
qed

lemma board_out:
  assumes b: "memory_board usb mem rd wr" and "length pkt = 8" and "wr u + 8 \<le> length (mem u)"
  obtains u' where "usb_int_out usb 1 pkt u = (0, 8, u')" "wr u' = wr u + 8" "mem_write (mem u) (wr u) pkt = Some (mem u')"
proof -
  obtain r n u' where e: "usb_int_out usb 1 pkt u = (r, n, u')" by (cases "usb_int_out usb 1 pkt u")
  then have "r = 0 \<and> n = 8 \<and> wr u' = wr u + 8 \<and> mem_write (mem u) (wr u) pkt = Some (mem u')"
    using assms unfolding memory_board_def by blast
  with e show thesis using that by simp
qed

lemma board_in:
  assumes b: "memory_board usb mem rd wr" and "rd u + 8 \<le> length (mem u)"
  obtains u' where "usb_int_in usb 0x81 8 u = (0, take 8 (drop (rd u) (mem u)), u')" "mem u' = mem u" "rd u' = rd u + 8"
proof -
  obtain r bs u' where e: "usb_int_in usb 0x81 8 u = (r, bs, u')" by (cases "usb_int_in usb 0x81 8 u")
  then have "r = 0 \<and> bs = take 8 (drop (rd u) (mem u)) \<and> mem u' = mem u \<and> rd u' = rd u + 8"
    using assms unfolding memory_board_def by blast
  with e show thesis using that by simp
qed

text \<open>The loops move the whole buffer, packet by packet.\<close>

lemma write_loop_ok:
  assumes b: "memory_board usb mem rd wr"
  shows "length buf = 8 * n \<Longrightarrow> 8 * k + 8 * j = 8 * n \<Longrightarrow> wr u = base + 8 * k \<Longrightarrow> base + 8 * n \<le> length (mem u) \<Longrightarrow>
     \<exists>u'. write_loop usb buf (8 * int n) (8 * k) u = Some (Inr (8 * n), u') \<and>
       mem_write (mem u) (base + 8 * k) (drop (8 * k) buf) = Some (mem u')"
proof (induction j arbitrary: k u)
  case 0
  then show ?case by (simp add: write_loop.simps mem_write_def)
next
  case (Suc j)
  let ?p = "take 8 (drop (8 * k) buf)"
  have k: "8 * k + 8 \<le> 8 * n" "length ?p = 8" using Suc.prems by simp_all
  have w: "wr u + 8 \<le> length (mem u)" using Suc.prems k by simp
  obtain u1 where o: "usb_int_out usb 1 ?p u = (0, 8, u1)" "wr u1 = wr u + 8" "mem_write (mem u) (wr u) ?p = Some (mem u1)"
    by (rule board_out [OF b k(2) w])
  then have u1: "usb_int_out usb 1 ?p u = (0, 8, u1)" "wr u1 = base + 8 * Suc k" "mem_write (mem u) (base + 8 * k) ?p = Some (mem u1)"
    using Suc.prems(3) by simp_all
  have fit: "8 * Suc k + 8 * j = 8 * n" "base + 8 * n \<le> length (mem u1)"
    using Suc.prems mem_write_length [OF u1(3)] by simp_all
  have st: "write_loop usb buf (8 * int n) (8 * k) u = write_loop usb buf (8 * int n) (8 * Suc k) u1"
  proof -
    have "mem_read buf (8 * k) 8 = Some ?p" using k(1) Suc.prems(1) by (simp add: mem_read_def)
    moreover have "int (8 * k) < 8 * int n" "8 * k + 8 = 8 * Suc k" using k(1) by simp_all
    ultimately show ?thesis
      unfolding write_loop.simps [of usb buf "8 * int n" "8 * k"] by (simp add: u1(1) ddk_consts add.commute [of 8])
  qed
  from Suc.IH [OF Suc.prems(1) fit(1) u1(2) fit(2)] obtain u' where
    u': "write_loop usb buf (8 * int n) (8 * Suc k) u1 = Some (Inr (8 * n), u')"
      "mem_write (mem u1) (base + 8 * Suc k) (drop (8 * Suc k) buf) = Some (mem u')"
    by blast
  have "?p @ drop (8 * Suc k) buf = drop (8 * k) buf" using take_drop_split [of 8 "8 * k" buf] by (simp add: add.commute)
  moreover have "base + 8 * k + length ?p = base + 8 * Suc k" using k by simp
  ultimately have "mem_write (mem u) (base + 8 * k) (drop (8 * k) buf) = Some (mem u')"
    using mem_write_append [OF u1(3), of "drop (8 * Suc k) buf"] u'(2) by (simp only:)
  with st u'(1) show ?case by auto
qed

lemma read_loop_ok:
  assumes b: "memory_board usb mem rd wr"
  shows "length buf = 8 * n \<Longrightarrow> 8 * k + 8 * j = 8 * n \<Longrightarrow> rd u = base + 8 * k \<Longrightarrow> base + 8 * n \<le> length (mem u) \<Longrightarrow>
     \<exists>u'. read_loop usb buf (8 * int n) (8 * k) u =
        Some (Inr (8 * n), take (8 * k) buf @ take (8 * j) (drop (base + 8 * k) (mem u)), u') \<and> mem u' = mem u"
proof (induction j arbitrary: k u buf)
  case 0
  then show ?case by (simp add: read_loop.simps)
next
  case (Suc j)
  let ?p = "take 8 (drop (base + 8 * k) (mem u))"
  have r: "rd u + 8 \<le> length (mem u)" using Suc.prems by simp
  obtain u1 where i: "usb_int_in usb 0x81 8 u = (0, take 8 (drop (rd u) (mem u)), u1)" "mem u1 = mem u" "rd u1 = rd u + 8"
    by (rule board_in [OF b r])
  then have u1: "usb_int_in usb 0x81 8 u = (0, ?p, u1)" "mem u1 = mem u" "rd u1 = base + 8 * Suc k"
    using Suc.prems(3) by simp_all
  let ?buf = "take (8 * k) buf @ ?p @ drop (8 * k + 8) buf"
  have p: "length ?p = 8" "length ?buf = 8 * n" "?p \<noteq> []" using Suc.prems by auto
  have fit: "8 * Suc k + 8 * j = 8 * n" "base + 8 * n \<le> length (mem u1)" using Suc.prems u1(2) by simp_all
  have mw: "mem_write buf (8 * k) ?p = Some ?buf" using Suc.prems(1,2) p(1) by (simp add: mem_write_def)
  have st: "read_loop usb buf (8 * int n) (8 * k) u = read_loop usb ?buf (8 * int n) (8 * Suc k) u1"
  proof -
    have "int (8 * k) < 8 * int n" "8 * k + 8 = 8 * Suc k" using Suc.prems(2) by simp_all
    then show ?thesis
      unfolding read_loop.simps [of usb buf "8 * int n" "8 * k"] using p(1,3) mw by (simp add: u1(1) ddk_consts add.commute [of 8])
  qed
  from Suc.IH [OF p(2) fit(1) u1(3) fit(2)] obtain u' where
    u': "read_loop usb ?buf (8 * int n) (8 * Suc k) u1 =
        Some (Inr (8 * n), take (8 * Suc k) ?buf @ take (8 * j) (drop (base + 8 * Suc k) (mem u1)), u')" "mem u' = mem u1"
    by blast
  have t1: "take (8 * Suc k) ?buf = take (8 * k) buf @ ?p" using p(1) Suc.prems(1,2) by simp
  have t2: "?p @ take (8 * j) (drop (base + 8 * Suc k) (mem u)) = take (8 * Suc j) (drop (base + 8 * k) (mem u))"
    using take_add [of 8 "8 * j" "drop (base + 8 * k) (mem u)"] by (simp add: ac_simps)
  have "take (8 * Suc k) ?buf @ take (8 * j) (drop (base + 8 * Suc k) (mem u1))
      = take (8 * k) buf @ take (8 * Suc j) (drop (base + 8 * k) (mem u))"
    unfolding t1 u1(2) append_assoc t2 ..
  then show ?case using u' unfolding st u1(2) by (intro exI [of _ u']) (simp only: simp_thms)
qed

section \<open>The board as a sector store\<close>

text \<open>A plugged-in board with at most 32 KiB of memory, and a free mutex.\<close>

definition stor_mem :: "('u \<Rightarrow> u8 list) \<Rightarrow> 'u stor \<Rightarrow> u8 list" where
  "stor_mem mem s = (case device s of None \<Rightarrow> [] | Some u \<Rightarrow> mem u)"

definition stor_ok :: "('u \<Rightarrow> u8 list) \<Rightarrow> 'u stor \<Rightarrow> bool" where
  "stor_ok mem s \<longleftrightarrow> \<not> m s \<and> device s \<noteq> None \<and> length (stor_mem mem s) \<le> 2 ^ 15"

lemma ddk_sizes:
  fixes p :: u64 and n :: u32
  assumes "(unat p + unat n) * 512 \<le> L" and "L \<le> 2 ^ 15"
  shows "unat (ucast (ucast (p * 512) :: u32) :: u16) = unat p * 512" and "sint (n * 512) = 8 * int (64 * unat n)"
proof -
  have "unat (p * 512) = unat p * 512" and n: "unat (n * 512) = unat n * 512" using assms by (intro unat_sectors; simp)+
  moreover have "unat p * 512 < 2 ^ 16" using assms by simp
  ultimately show "unat (ucast (ucast (p * 512) :: u32) :: u16) = unat p * 512"
    by (simp add: unsigned_ucast_eq unsigned_take_bit_eq take_bit_nat_eq_self)
  have "unat (n * 512) < 2 ^ 31" using n assms by simp
  then show "sint (n * 512) = 8 * int (64 * unat n)" using n by (simp add: sint_small)
qed

lemma board_store_write:
  assumes b: "memory_board usb mem rd wr" and s: "stor_ok mem s"
    and fit: "(unat p + unat n) * 512 \<le> length (stor_mem mem s)" and len: "length buf = unat n * 512"
  shows "\<exists>s'. ddk_storage_write usb s p buf n = Some (int (length buf), s') \<and> stor_ok mem s' \<and>
     mem_write (stor_mem mem s) (unat p * 512) buf = Some (stor_mem mem s')"
proof -
  obtain u where u: "device s = Some u" "\<not> m s" "length (mem u) \<le> 2 ^ 15" and fu: "(unat p + unat n) * 512 \<le> length (mem u)"
    using s fit by (auto simp: stor_ok_def stor_mem_def)
  note sz = ddk_sizes [OF fu u(3)]
  obtain r u1 where o': "set_off_raw usb e_write (ucast (p * 512)) u = (r, u1)" "0 \<le> r" "mem u1 = mem u"
      "(case e_write of e_read \<Rightarrow> rd u1 | e_write \<Rightarrow> wr u1) = unat (ucast (ucast (p * 512) :: u32) :: u16)"
    by (rule board_set_off [OF b, of e_write "ucast (p * 512)" u])
  then have o: "wr u1 = unat p * 512 + 8 * 0" unfolding sz(1) by simp
  have l: "length buf = 8 * (64 * unat n)" "8 * 0 + 8 * (64 * unat n) = 8 * (64 * unat n)" using len by simp_all
  have f: "unat p * 512 + 8 * (64 * unat n) \<le> length (mem u1)" using o'(3) fu by simp
  from write_loop_ok [OF b l o f] obtain u' where
    w: "write_loop usb buf (8 * int (64 * unat n)) 0 u1 = Some (Inr (8 * (64 * unat n)), u')"
      "mem_write (mem u1) (unat p * 512) buf = Some (mem u')"
    by auto
  have "ddk_storage_write usb s p buf n = Some (int (length buf), \<lparr>device = Some u', m = False\<rparr>)"
    using u(1,2) o'(1,2) w(1) sz(2) l(1)
    by (cases s) (simp add: ddk_storage_write_def mutex_lock_def mutex_unlock_def DDK_SECTOR_SIZE_def)
  moreover have "length (mem u') = length (mem u)" using mem_write_length [OF w(2)] o'(3) by simp
  ultimately show ?thesis using u w(2) o'(3) by (auto simp: stor_ok_def stor_mem_def)
qed

lemma board_store_read:
  assumes b: "memory_board usb mem rd wr" and s: "stor_ok mem s"
    and fit: "(unat p + unat n) * 512 \<le> length (stor_mem mem s)" and len: "length buf = unat n * 512"
  shows "\<exists>s'. ddk_storage_read usb s p buf n =
       Some (int (length buf), take (unat n * 512) (drop (unat p * 512) (stor_mem mem s)), s') \<and>
     stor_ok mem s' \<and> stor_mem mem s' = stor_mem mem s"
proof -
  obtain u where u: "device s = Some u" "\<not> m s" "length (mem u) \<le> 2 ^ 15" and fu: "(unat p + unat n) * 512 \<le> length (mem u)"
    using s fit by (auto simp: stor_ok_def stor_mem_def)
  note sz = ddk_sizes [OF fu u(3)]
  obtain r u1 where o': "set_off_raw usb e_read (ucast (p * 512)) u = (r, u1)" "0 \<le> r" "mem u1 = mem u"
      "(case e_read of e_read \<Rightarrow> rd u1 | e_write \<Rightarrow> wr u1) = unat (ucast (ucast (p * 512) :: u32) :: u16)"
    by (rule board_set_off [OF b, of e_read "ucast (p * 512)" u])
  then have o: "rd u1 = unat p * 512 + 8 * 0" unfolding sz(1) by simp
  have l: "length buf = 8 * (64 * unat n)" "8 * 0 + 8 * (64 * unat n) = 8 * (64 * unat n)" using len by simp_all
  have f: "unat p * 512 + 8 * (64 * unat n) \<le> length (mem u1)" using o'(3) fu by simp
  from read_loop_ok [OF b l o f] obtain u' where
    w: "read_loop usb buf (8 * int (64 * unat n)) 0 u1 =
        Some (Inr (8 * (64 * unat n)), take (unat n * 512) (drop (unat p * 512) (mem u1)), u')" "mem u' = mem u1"
    by (auto simp: ac_simps)
  have "ddk_storage_read usb s p buf n =
      Some (int (length buf), take (unat n * 512) (drop (unat p * 512) (mem u)), \<lparr>device = Some u', m = False\<rparr>)"
    using u(1,2) o'(1-3) w(1) sz(2) l(1)
    by (cases s) (simp add: ddk_storage_read_def mutex_lock_def mutex_unlock_def DDK_SECTOR_SIZE_def)
  then show ?thesis using u w(2) o'(3) by (auto simp: stor_ok_def stor_mem_def)
qed

text \<open>A working board meets the contract the block driver relies on.\<close>

lemma board_store:
  assumes b: "memory_board usb mem rd wr"
  shows "sector_store (ddk_storage_write usb) (ddk_storage_read usb) (stor_mem mem) (stor_ok mem)"
proof
  fix s and p :: u64 and n :: u32 and buf :: "u8 list"
  assume s: "stor_ok mem s" and a: "(unat p + unat n) * 512 \<le> length (stor_mem mem s)" "length buf = unat n * 512"
  from board_store_write [OF b s a] show "\<exists>r s'. ddk_storage_write usb s p buf n = Some (r, s') \<and> 0 \<le> r \<and> stor_ok mem s' \<and>
      mem_write (stor_mem mem s) (unat p * 512) buf = Some (stor_mem mem s')"
    by auto
  from board_store_read [OF b s a] show "\<exists>r s'. ddk_storage_read usb s p buf n =
      Some (r, take (unat n * 512) (drop (unat p * 512) (stor_mem mem s)), s') \<and> 0 \<le> r \<and> stor_ok mem s' \<and>
      stor_mem mem s' = stor_mem mem s"
    by auto
qed (auto simp: stor_ok_def)

end
