(* ===== verification/Ddk_Block.thy ===== *)
theory Ddk_Block
  imports Ddk_Storage "HOL-Library.Multiset"
begin

text \<open>
  The USB block driver, \<^verbatim>\<open>src/BlockDriver/ddk_block.c\<close>, with the probe and disconnect functions of
  \<^verbatim>\<open>ddk_storage.c\<close>. A request is fetched under the queue lock and handed to a work item through
  \<open>current_req\<close>; \<open>under_process\<close> says that the hand-over is not finished. The work function
  copies \<open>current_req\<close>, clears the flag, and transfers the data.

  Requests are identified by their address, a number; \<open>reqs\<close> maps it to the request. The
  answers of the kernel (\<open>schedule_work\<close>, \<open>register_blkdev\<close>, \<open>blk_init_queue\<close>, \<open>alloc_disk\<close>)
  are arguments.
\<close>

section \<open>Opening, geometry and ioctl\<close>

definition DDK_FIRST_MINOR :: nat where "DDK_FIRST_MINOR = 0"
definition DDK_MINOR_CNT :: nat where "DDK_MINOR_CNT = 16"

definition ddk_open :: "nat \<Rightarrow> int" where
  "ddk_open unit = (if unit > DDK_MINOR_CNT then - ENODEV else 0)"

definition ddk_close :: "nat \<Rightarrow> int" where
  "ddk_close disk = 0"

definition ddk_geo_fill :: hd_geometry where
  "ddk_geo_fill = \<lparr>heads = 1, cylinders = 1, sectors = 1, start = 0\<rparr>"

definition ddk_getgeo :: "int \<times> hd_geometry" where
  "ddk_getgeo = (0, ddk_geo_fill)"

datatype blk_cmd = BLKGETSIZE | BLKGETSIZE64 | BLKSSZGET | BLKBSZGET | HDIO_GETGEO | OTHER_CMD u32

text \<open>What is copied to the user, with the width the code gives it on a 64-bit machine.\<close>

datatype user_value = V_long u64 | V_u64 u64 | V_size u64 | V_int u32 | V_geo hd_geometry

text \<open>\<open>fault\<close>: whether \<open>copy_to_user\<close> reports a fault.\<close>

definition ddk_ioctl :: "u32 \<Rightarrow> bool \<Rightarrow> blk_cmd \<Rightarrow> int \<times> user_value option" where
  "ddk_ioctl dev_size fault cmd =
     (let copy = (\<lambda>v. if fault then (- EFAULT, None) else (0, Some v)) in
      case cmd of
        BLKGETSIZE \<Rightarrow> copy (V_long (ucast dev_size))
      | BLKGETSIZE64 \<Rightarrow> copy (V_u64 (ucast dev_size * of_nat DDK_SECTOR_SIZE))
      | BLKSSZGET \<Rightarrow> copy (V_size (of_nat DDK_SECTOR_SIZE))
      | BLKBSZGET \<Rightarrow> copy (V_int (of_nat DDK_SECTOR_SIZE))
      | HDIO_GETGEO \<Rightarrow> copy (V_geo ddk_geo_fill)
      | OTHER_CMD _ \<Rightarrow> (- EINVAL, None))"

section \<open>The transfer of one request\<close>

text \<open>The loop over the segments is the shared one; an error of the storage replaces the code so far.\<close>

definition ddk_segments :: "'u usb \<Rightarrow> direction \<Rightarrow> u64 \<Rightarrow> bio_vec list \<Rightarrow> int \<Rightarrow> u64 \<Rightarrow> 'u stor
    \<Rightarrow> (int \<times> u64 \<times> 'u stor \<times> bio_vec list) option" where
  "ddk_segments usb = segments (ddk_storage_write usb) (ddk_storage_read usb)"

definition ddk_transfer_data :: "'u usb \<Rightarrow> 'u stor \<Rightarrow> request \<Rightarrow> (int \<times> 'u stor \<times> request) option" where
  "ddk_transfer_data usb s req = do {
     (ret, sector_offset, s, bvs) \<leftarrow> ddk_segments usb (rq_dir req) (rq_pos req) (rq_segs req) 0 0 s;
     let ret = (if sector_offset \<noteq> ucast (rq_sectors req) then - EIO else ret);
     Some (ret, s, req\<lparr>rq_segs := bvs\<rparr>)
   }"

section \<open>The driver's state and its steps\<close>

text \<open>
  A running invocation of \<open>ddk_transfer\<close>: before it has read \<open>current_req\<close>, before it has
  cleared the flag, and with the data transfer still to do.
\<close>

datatype worker = Entered | Loaded nat | Cleared nat

record 'u ddk =
  storage :: "'u stor"
  reqs :: "nat \<Rightarrow> request"
  queue :: "nat list"
  under_process :: bool
  current_req :: "nat option"
  work_pending :: bool
  workers :: "worker list"
  ended :: "(nat \<times> int) list"

text \<open>\<open>sched req\<close> is the answer of \<open>schedule_work\<close> when it is called for \<open>req\<close>; a negative one
  leaves the work item unscheduled.\<close>

definition ddk_initiate_transfer :: "(nat \<Rightarrow> int) \<Rightarrow> nat \<Rightarrow> 'u ddk \<Rightarrow> int \<times> 'u ddk" where
  "ddk_initiate_transfer sched req d =
     (let d = d\<lparr>under_process := True, current_req := Some req\<rparr>;
          ret = sched req
      in if ret < 0 then (ret, d\<lparr>under_process := False\<rparr>)
         else (0, d\<lparr>work_pending := True\<rparr>))"

text \<open>The fetch loop of \<open>ddk_request\<close>, over the queued requests.\<close>

fun fetch_loop :: "(nat \<Rightarrow> int) \<Rightarrow> nat list \<Rightarrow> 'u ddk \<Rightarrow> 'u ddk" where
  "fetch_loop sched [] d = d\<lparr>queue := []\<rparr>"
| "fetch_loop sched (req # q) d =
     (let (ret, d) = ddk_initiate_transfer sched req (d\<lparr>queue := q\<rparr>)
      in if ret < 0 then fetch_loop sched q (d\<lparr>ended := ended d @ [(req, ret)]\<rparr>)
         else d)"

definition ddk_request :: "(nat \<Rightarrow> int) \<Rightarrow> 'u ddk \<Rightarrow> 'u ddk" where
  "ddk_request sched d = (if under_process d then d else fetch_loop sched (queue d) d)"

text \<open>
  \<open>ddk_transfer\<close> as the steps of one invocation: the entry (the workqueue takes the pending
  item), the load of \<open>current_req\<close> (\<open>None\<close>: the pointer is NULL and dereferenced), the
  clearing of the flag, and the transfer with \<open>blk_end_request_all\<close>.
\<close>

definition work_enter :: "'u ddk \<Rightarrow> 'u ddk" where
  "work_enter d = d\<lparr>work_pending := False, workers := workers d @ [Entered]\<rparr>"

definition transfer_load :: "nat \<Rightarrow> 'u ddk \<Rightarrow> 'u ddk option" where
  "transfer_load i d = do { req \<leftarrow> current_req d; Some (d\<lparr>workers := (workers d)[i := Loaded req]\<rparr>) }"

definition transfer_clear :: "nat \<Rightarrow> nat \<Rightarrow> 'u ddk \<Rightarrow> 'u ddk" where
  "transfer_clear i req d = d\<lparr>under_process := False, workers := (workers d)[i := Cleared req]\<rparr>"

definition transfer_end :: "'u usb \<Rightarrow> nat \<Rightarrow> nat \<Rightarrow> 'u ddk \<Rightarrow> 'u ddk option" where
  "transfer_end usb i req d = do {
     (ret, s, r) \<leftarrow> ddk_transfer_data usb (storage d) (reqs d req);
     Some (d\<lparr>storage := s, reqs := (reqs d)(req := r), ended := ended d @ [(req, ret)],
             workers := take i (workers d) @ drop (Suc i) (workers d)\<rparr>)
   }"

text \<open>
  The interleavings: the block layer queues a request, it calls the request function, the
  workqueue starts the item, and each running invocation makes its next step. The label lists
  the requests that the step submits.
\<close>

inductive ddk_step :: "'u usb \<Rightarrow> nat list \<Rightarrow> 'u ddk \<Rightarrow> 'u ddk \<Rightarrow> bool" for usb where
  submit: "ddk_step usb [req] d (d\<lparr>queue := queue d @ [req], reqs := (reqs d)(req := r)\<rparr>)"
| request: "ddk_step usb [] d (ddk_request sched d)"
| enter: "work_pending d \<Longrightarrow> ddk_step usb [] d (work_enter d)"
| load: "i < length (workers d) \<Longrightarrow> workers d ! i = Entered \<Longrightarrow> transfer_load i d = Some d' \<Longrightarrow> ddk_step usb [] d d'"
| clear: "i < length (workers d) \<Longrightarrow> workers d ! i = Loaded req \<Longrightarrow> ddk_step usb [] d (transfer_clear i req d)"
| finish: "i < length (workers d) \<Longrightarrow> workers d ! i = Cleared req \<Longrightarrow> transfer_end usb i req d = Some d' \<Longrightarrow>
    ddk_step usb [] d d'"

inductive_cases ddk_stepE: "ddk_step usb rs d d'"

inductive ddk_run :: "'u usb \<Rightarrow> nat list \<Rightarrow> 'u ddk \<Rightarrow> 'u ddk \<Rightarrow> bool" for usb where
  run_refl: "ddk_run usb [] d d"
| run_step: "ddk_run usb rs d d' \<Longrightarrow> ddk_step usb rs' d' d'' \<Longrightarrow> ddk_run usb (rs @ rs') d d''"

text \<open>The state that \<open>block_register_dev\<close> sets up.\<close>

definition ddk_idle :: "'u stor \<Rightarrow> 'u ddk" where
  "ddk_idle s = \<lparr>storage = s, reqs = (\<lambda>_. \<lparr>rq_dir = READ, rq_pos = 0, rq_sectors = 0, rq_segs = []\<rparr>), queue = [],
     under_process = False, current_req = None, work_pending = False, workers = [], ended = []\<rparr>"

section \<open>Registration\<close>

text \<open>The rest of \<open>struct ddk_device\<close>, with what the driver holds of the block layer.\<close>

record 'u ddk_device =
  ddk :: "'u ddk"
  ddk_major :: u32
  ddk_size :: u32
  ddk_registered :: bool
  ddk_queue :: bool
  ddk_disk :: bool
  ddk_capacity :: u32
  ddk_live :: bool

text \<open>
  \<open>reg\<close> is what \<open>register_blkdev\<close> returns. The first three assignments reset the hand-over; a
  new queue is empty and no work is scheduled.
\<close>

definition block_register_dev :: "'u usb \<Rightarrow> int \<Rightarrow> bool \<Rightarrow> bool \<Rightarrow> 'u ddk_device \<Rightarrow> (int \<times> 'u ddk_device) option" where
  "block_register_dev usb reg queue_ok disk_ok s = do {
     let s = s\<lparr>ddk := (ddk s)\<lparr>under_process := False, current_req := None, work_pending := False\<rparr>\<rparr>;
     (ret, st) \<leftarrow> ddk_storage_init usb (storage (ddk s));
     let s = s\<lparr>ddk := (ddk s)\<lparr>storage := st\<rparr>\<rparr>;
     if ret < 0 then Some (ret, s)
     else do {
       let s = s\<lparr>ddk_size := word_of_int ret, ddk_major := word_of_int reg, ddk_registered := 0 < reg\<rparr>;
       let clean = (\<lambda>s. s\<lparr>ddk := (ddk s)\<lparr>storage := ddk_storage_cleanup (storage (ddk s))\<rparr>\<rparr>);
       if ddk_major s \<le> 0 then Some (- EBUSY, clean s)
       else if \<not> queue_ok then Some (- ENOMEM, clean (s\<lparr>ddk_registered := False\<rparr>))
       else do {
         let s = s\<lparr>ddk_queue := True\<rparr>;
         if \<not> disk_ok then Some (- ENOMEM, clean (s\<lparr>ddk_queue := False, ddk_registered := False\<rparr>))
         else Some (0, s\<lparr>ddk_disk := True, ddk_capacity := ddk_size s, ddk_live := True\<rparr>)
       }
     }
   }"

text \<open>
  \<open>cancel_work_sync\<close> takes a pending work item off the workqueue; it returns when no invocation
  is running, so this is a function of states without workers.
\<close>

definition cancel_work :: "'u ddk \<Rightarrow> 'u ddk" where
  "cancel_work d = d\<lparr>work_pending := False\<rparr>"

definition block_deregister_dev :: "'u ddk_device \<Rightarrow> 'u ddk_device" where
  "block_deregister_dev s =
     (let s = s\<lparr>ddk := cancel_work (ddk s), ddk_live := False, ddk_disk := False, ddk_queue := False, ddk_registered := False\<rparr>
      in s\<lparr>ddk := (ddk s)\<lparr>storage := ddk_storage_cleanup (storage (ddk s))\<rparr>\<rparr>)"

definition ddk_probe :: "'u usb \<Rightarrow> int \<Rightarrow> bool \<Rightarrow> bool \<Rightarrow> nat \<Rightarrow> 'u \<Rightarrow> 'u ddk_device \<Rightarrow> (int \<times> 'u ddk_device) option" where
  "ddk_probe usb reg queue_ok disk_ok bInterfaceNumber dev s =
     (if bInterfaceNumber = 0
      then block_register_dev usb reg queue_ok disk_ok (s\<lparr>ddk := (ddk s)\<lparr>storage := (storage (ddk s))\<lparr>device := Some dev\<rparr>\<rparr>\<rparr>)
      else Some (- EINVAL, s))"

definition ddk_disconnect :: "'u ddk_device \<Rightarrow> 'u ddk_device option" where
  "ddk_disconnect s = do {
     let s = block_deregister_dev s;
     st \<leftarrow> mutex_lock (storage (ddk s));
     Some (s\<lparr>ddk := (ddk s)\<lparr>storage := mutex_unlock (st\<lparr>device := None\<rparr>)\<rparr>\<rparr>)
   }"

text \<open>\<open>result\<close> is what \<open>usb_register\<close> returns; the flag says whether the driver is registered.\<close>

definition ddk_init :: "int \<Rightarrow> int \<times> bool" where
  "ddk_init result = (result, result = 0)"

definition ddk_exit :: "bool \<Rightarrow> bool" where
  "ddk_exit registered = False"

section \<open>The hand-over\<close>

text \<open>
  The requests that have been submitted and not ended: queued, handed over, or held by a
  running invocation.
\<close>

fun worker_reqs :: "nat option \<Rightarrow> worker \<Rightarrow> nat list" where
  "worker_reqs c Entered = (case c of None \<Rightarrow> [] | Some r \<Rightarrow> [r])"
| "worker_reqs c (Loaded r) = [r]"
| "worker_reqs c (Cleared r) = [r]"

definition in_flight :: "'u ddk \<Rightarrow> nat multiset" where
  "in_flight d = mset (queue d) + (if work_pending d then mset (worker_reqs (current_req d) Entered) else {#}) +
     mset (concat (map (worker_reqs (current_req d)) (workers d)))"

fun claims :: "worker \<Rightarrow> nat" where
  "claims (Cleared r) = 0"
| "claims _ = 1"

definition ddk_inv :: "nat list \<Rightarrow> 'u ddk \<Rightarrow> bool" where
  "ddk_inv rs d \<longleftrightarrow>
     (if work_pending d then 1 else 0) + sum_list (map claims (workers d)) = (if under_process d then 1 else 0) \<and>
     (under_process d \<longrightarrow> current_req d \<noteq> None) \<and>
     mset rs = mset (map fst (ended d)) + in_flight d"

text \<open>Only invocations past the clearing of the flag are left when nothing is claimed.\<close>

lemma claims_zero:
  "sum_list (map claims ws) = 0 \<Longrightarrow> concat (map (worker_reqs c) ws) = concat (map (worker_reqs c') ws)"
proof (induction ws)
  case (Cons w ws)
  then show ?case by (cases w) simp_all
qed simp

lemma sum_list_update:
  "i < length ws \<Longrightarrow> sum_list (map f ws) = f (ws ! i) + sum_list (map f (take i ws @ drop (Suc i) ws))"
  for f :: "'a \<Rightarrow> nat"
  using arg_cong [OF id_take_nth_drop, of i ws "\<lambda>xs. sum_list (map f xs)"] by simp

lemma mset_worker_update:
  "i < length ws \<Longrightarrow> mset (concat (map f ws)) = mset (f (ws ! i)) + mset (concat (map f (take i ws @ drop (Suc i) ws)))"
  using arg_cong [OF id_take_nth_drop, of i ws "\<lambda>xs. mset (concat (map f xs))"] by simp

lemma fetch_loop_inv:
  assumes "\<not> under_process d" "\<not> work_pending d" "sum_list (map claims (workers d)) = 0"
    and "mset rs = mset (map fst (ended d)) + mset q + mset (concat (map (worker_reqs None) (workers d)))"
  shows "ddk_inv rs (fetch_loop sched q d)"
  using assms
proof (induction q arbitrary: d)
  case Nil
  then show ?case unfolding claims_zero [OF Nil.prems(3), of None "current_req d"]
    by (simp add: ddk_inv_def in_flight_def)
next
  case (Cons req q)
  let ?d = "d\<lparr>queue := q, under_process := True, current_req := Some req\<rparr>"
  show ?case
  proof (cases "sched req < 0")
    case True
    then show ?thesis using Cons.prems by (auto simp: ddk_initiate_transfer_def intro!: Cons.IH)
  next
    case False
    then show ?thesis using Cons.prems unfolding claims_zero [OF Cons.prems(3), of None "Some req"]
      by (simp add: ddk_initiate_transfer_def ddk_inv_def in_flight_def)
  qed
qed

lemma ddk_step_inv:
  assumes "ddk_step usb rs' d d'" and inv: "ddk_inv rs d"
  shows "ddk_inv (rs @ rs') d'"
  using assms(1)
proof (cases rule: ddk_step.cases)
  case (submit req r)
  then show ?thesis using inv by (simp add: ddk_inv_def in_flight_def)
next
  case (request sched)
  show ?thesis
  proof (cases "under_process d")
    case True
    then show ?thesis using request inv by (simp add: ddk_request_def)
  next
    case False
    then have "\<not> work_pending d" "sum_list (map claims (workers d)) = 0" using inv by (auto simp: ddk_inv_def split: if_splits)
    moreover from this have "mset rs = mset (map fst (ended d)) + mset (queue d) + mset (concat (map (worker_reqs None) (workers d)))"
      using inv claims_zero [of "workers d" "current_req d" None] by (simp add: ddk_inv_def in_flight_def)
    ultimately show ?thesis using False request fetch_loop_inv by (simp add: ddk_request_def)
  qed
next
  case enter
  then show ?thesis using inv by (simp add: ddk_inv_def in_flight_def work_enter_def ac_simps)
next
  case (load i)
  then obtain req where c: "current_req d = Some req" "d' = d\<lparr>workers := (workers d)[i := Loaded req]\<rparr>"
    by (cases "current_req d") (auto simp: transfer_load_def)
  then show ?thesis
    using inv load sum_list_update [of i "workers d" claims] sum_list_update [of i "(workers d)[i := Loaded req]" claims]
      mset_worker_update [of i "workers d" "worker_reqs (Some req)"]
      mset_worker_update [of i "(workers d)[i := Loaded req]" "worker_reqs (Some req)"]
    by (simp add: ddk_inv_def in_flight_def)
next
  case (clear i req)
  then show ?thesis
    using inv sum_list_update [of i "workers d" claims] sum_list_update [of i "(workers d)[i := Cleared req]" claims]
      mset_worker_update [of i "workers d" "worker_reqs (current_req d)"]
      mset_worker_update [of i "(workers d)[i := Cleared req]" "worker_reqs (current_req d)"]
    by (simp add: ddk_inv_def in_flight_def transfer_clear_def split: if_splits)
next
  case (finish i req)
  then obtain ret s r where e: "d' = d\<lparr>storage := s, reqs := (reqs d)(req := r), ended := ended d @ [(req, ret)],
      workers := take i (workers d) @ drop (Suc i) (workers d)\<rparr>"
    by (auto simp: transfer_end_def dest!: bind_eq_SomeD)
  show ?thesis unfolding e
    using inv finish sum_list_update [of i "workers d" claims]
      mset_worker_update [of i "workers d" "worker_reqs (current_req d)"]
    by (simp add: ddk_inv_def in_flight_def)
qed

lemma ddk_run_inv: "ddk_run usb rs d d' \<Longrightarrow> ddk_inv rs0 d \<Longrightarrow> ddk_inv (rs0 @ rs) d'"
  by (induction rule: ddk_run.induct) (auto dest: ddk_step_inv)

lemma ddk_idle_inv: "ddk_inv [] (ddk_idle s)"
  by (simp add: ddk_inv_def in_flight_def ddk_idle_def)

end
