(* ===== verification/Ddk_Props.thy ===== *)
theory Ddk_Props
  imports Ddk_Block Ram_Block
begin

text \<open>
  Properties of the USB block driver: its transfers have the effect of the RAM driver's, every
  request is ended exactly once, the driver can always finish its requests, and what happens
  when the device goes away.
\<close>

section \<open>Transfers\<close>

lemma ddk_transfer_write:
  assumes b: "memory_board usb mem rd wr" and s: "stor_ok mem s" "length (stor_mem mem s) = cap * 512"
    and r: "rq_ok cap req" "rq_dir req = WRITE"
  shows "\<exists>s'. ddk_transfer_data usb s req = Some (0, s', req) \<and> stor_ok mem s' \<and>
     mem_write (stor_mem mem s) (unat (rq_pos req) * 512) (payload (rq_segs req)) = Some (stor_mem mem s')"
proof -
  have f: "(unat (rq_pos req) + (unat (0::u64) + seg_sectors (rq_segs req))) * 512 \<le> length (stor_mem mem s)"
    using rq_ok_fit [OF r(1) s(2)] .
  from sector_store.segments_write [OF board_store [OF b] s(1) _ f, where ret = 0] r rq_ok_count [OF r(1)]
  show ?thesis by (auto simp: ddk_transfer_data_def ddk_segments_def rq_ok_def)
qed

lemma ddk_transfer_read:
  assumes b: "memory_board usb mem rd wr" and s: "stor_ok mem s" "length (stor_mem mem s) = cap * 512"
    and r: "rq_ok cap req" "rq_dir req = READ"
  shows "\<exists>s' bvs. ddk_transfer_data usb s req = Some (0, s', req\<lparr>rq_segs := bvs\<rparr>) \<and> stor_ok mem s' \<and>
     stor_mem mem s' = stor_mem mem s \<and> map bv_len bvs = map bv_len (rq_segs req) \<and> list_all seg_ok bvs \<and>
     payload bvs = take (unat (rq_sectors req) * 512) (drop (unat (rq_pos req) * 512) (stor_mem mem s))"
proof -
  have f: "(unat (rq_pos req) + (unat (0::u64) + seg_sectors (rq_segs req))) * 512 \<le> length (stor_mem mem s)"
    using rq_ok_fit [OF r(1) s(2)] .
  from sector_store.segments_read [OF board_store [OF b] s(1) _ f, where ret = 0] r rq_ok_count [OF r(1)]
  show ?thesis by (fastforce simp: ddk_transfer_data_def ddk_segments_def rq_ok_def)
qed

lemma seg_ok_inj:
  assumes "list_all seg_ok bs" "list_all seg_ok cs" "map bv_len bs = map bv_len cs" "payload bs = payload cs"
  shows "bs = cs"
  using map_eq_imp_length_eq [OF assms(3)] assms
proof (induction bs cs rule: list_induct2)
  case (Cons b bs c cs)
  then have "length (bv_data b) = length (bv_data c)" by (simp add: seg_ok_def)
  with Cons show ?case by (cases b; cases c) (simp add: payload_def)
qed simp

lemma rb_transfer_read_ok:
  assumes "rq_ok cap req" "rq_dir req = READ" "length dev = cap * 512" "cap < 2 ^ 23"
  shows "\<exists>bvs. rb_transfer dev req = Some (0, dev, req\<lparr>rq_segs := bvs\<rparr>) \<and> list_all seg_ok bvs \<and>
     map bv_len bvs = map bv_len (rq_segs req) \<and>
     payload bvs = take (unat (rq_sectors req) * 512) (drop (unat (rq_pos req) * 512) dev)"
  using ram_store.segments_read [OF _ _ rq_ok_fit [OF assms(1,3)], where ret = 0] assms rq_ok_count [OF assms(1)]
  by (fastforce simp: rb_transfer_def rq_ok_def rb_segments_eq)

lemma rq_ok_segs:
  assumes "rq_ok cap req" "list_all seg_ok bvs" "map bv_len bvs = map bv_len (rq_segs req)"
  shows "rq_ok cap (req\<lparr>rq_segs := bvs\<rparr>)"
proof -
  have "map (\<lambda>l. unat l div 512) (map bv_len bvs) = map (\<lambda>l. unat l div 512) (map bv_len (rq_segs req))"
    unfolding assms(3) ..
  then have "seg_sectors bvs = seg_sectors (rq_segs req)" unfolding seg_sectors_def map_map comp_def by (simp only:)
  with assms show ?thesis by (simp add: rq_ok_def)
qed

lemma ddk_ram_agree:
  assumes b: "memory_board usb mem rd wr" and s: "stor_ok mem s" "length (stor_mem mem s) = cap * 512" and r: "rq_ok cap req"
  shows "\<exists>s' req'. ddk_transfer_data usb s req = Some (0, s', req') \<and>
     rb_transfer (stor_mem mem s) req = Some (0, stor_mem mem s', req') \<and>
     stor_ok mem s' \<and> length (stor_mem mem s') = cap * 512 \<and> rq_ok cap req'"
proof -
  have cap: "cap < 2 ^ 23" using s by (simp add: stor_ok_def)
  show ?thesis
  proof (cases "rq_dir req")
    case READ
    obtain s' bvs where d: "ddk_transfer_data usb s req = Some (0, s', req\<lparr>rq_segs := bvs\<rparr>)" "stor_ok mem s'"
        "stor_mem mem s' = stor_mem mem s" "map bv_len bvs = map bv_len (rq_segs req)" "list_all seg_ok bvs"
        "payload bvs = take (unat (rq_sectors req) * 512) (drop (unat (rq_pos req) * 512) (stor_mem mem s))"
      using ddk_transfer_read [OF b s r READ] by blast
    obtain cvs where c: "rb_transfer (stor_mem mem s) req = Some (0, stor_mem mem s, req\<lparr>rq_segs := cvs\<rparr>)"
        "list_all seg_ok cvs" "map bv_len cvs = map bv_len (rq_segs req)"
        "payload cvs = take (unat (rq_sectors req) * 512) (drop (unat (rq_pos req) * 512) (stor_mem mem s))"
      using rb_transfer_read_ok [OF r READ s(2) cap] by blast
    have "bvs = cvs" using d c by (intro seg_ok_inj) simp_all
    then show ?thesis using d c rq_ok_segs [OF r d(5,4)] s(2) by auto
  next
    case WRITE
    obtain s' where d: "ddk_transfer_data usb s req = Some (0, s', req)" "stor_ok mem s'"
        "mem_write (stor_mem mem s) (unat (rq_pos req) * 512) (payload (rq_segs req)) = Some (stor_mem mem s')"
      using ddk_transfer_write [OF b s r WRITE] by blast
    then show ?thesis using rb_transfer_write [OF r WRITE s(2) cap] mem_write_length [OF d(3)] s(2) r by auto
  qed
qed

section \<open>Finishing all requests\<close>

text \<open>The steps a request still needs; the requests in flight are well-formed.\<close>

fun worker_steps :: "worker \<Rightarrow> nat" where
  "worker_steps Entered = 3"
| "worker_steps (Loaded r) = 2"
| "worker_steps (Cleared r) = 1"

definition todo :: "'u ddk \<Rightarrow> nat" where
  "todo d = 5 * length (queue d) + (if work_pending d then 4 else 0) + sum_list (map worker_steps (workers d))"

definition ready :: "('u \<Rightarrow> u8 list) \<Rightarrow> nat \<Rightarrow> 'u ddk \<Rightarrow> bool" where
  "ready mem cap d \<longleftrightarrow> stor_ok mem (storage d) \<and> length (stor_mem mem (storage d)) = cap * 512 \<and>
     (\<forall>r. rq_ok cap (reqs d r))"

lemma worker_step:
  assumes b: "memory_board usb mem rd wr" and r: "ready mem cap d" and inv: "ddk_inv rs d" and w: "workers d = w # ws"
  shows "\<exists>d'. ddk_step usb [] d d' \<and> ready mem cap d' \<and> todo d' < todo d"
proof (cases w)
  case Entered
  then have "under_process d" using inv w by (auto simp: ddk_inv_def split: if_splits)
  then obtain req where "current_req d = Some req" using inv by (auto simp: ddk_inv_def)
  then have t: "transfer_load 0 d = Some (d\<lparr>workers := Loaded req # ws\<rparr>)" using w by (simp add: transfer_load_def)
  from ddk_step.load [OF _ _ t, of usb] show ?thesis using w Entered r by (fastforce simp: ready_def todo_def)
next
  case (Loaded req)
  have "ddk_step usb [] d (transfer_clear 0 req d)" using ddk_step.clear [of 0 d req usb] w Loaded by simp
  then show ?thesis using w Loaded r by (fastforce simp: ready_def todo_def transfer_clear_def)
next
  case (Cleared req)
  obtain s' req' where t: "ddk_transfer_data usb (storage d) (reqs d req) = Some (0, s', req')" "stor_ok mem s'"
      "length (stor_mem mem s') = cap * 512" "rq_ok cap req'"
    using ddk_ram_agree [OF b] r unfolding ready_def by blast
  have e: "transfer_end usb 0 req d = Some (d\<lparr>storage := s', reqs := (reqs d)(req := req'), ended := ended d @ [(req, 0)], workers := ws\<rparr>)"
    using t(1) w by (simp add: transfer_end_def)
  from ddk_step.finish [OF _ _ e] show ?thesis using w Cleared r t(2-4) by (fastforce simp: ready_def todo_def)
qed

lemma progress:
  assumes b: "memory_board usb mem rd wr" and r: "ready mem cap d" and inv: "ddk_inv rs d" and n: "in_flight d \<noteq> {#}"
  shows "\<exists>d'. ddk_step usb [] d d' \<and> ready mem cap d' \<and> todo d' < todo d"
proof (cases "workers d")
  case (Cons w ws)
  then show ?thesis by (rule worker_step [OF b r inv])
next
  case Nil
  show ?thesis
  proof (cases "work_pending d")
    case True
    from ddk_step.enter [OF this, of usb] show ?thesis using r Nil True
      by (fastforce simp: ready_def todo_def work_enter_def)
  next
    case False
    then obtain req q where q: "queue d = req # q" using n Nil by (cases "queue d") (auto simp: in_flight_def)
    have "\<not> under_process d" using inv Nil False by (auto simp: ddk_inv_def split: if_splits)
    then have e: "ddk_request (\<lambda>_. 1) d = d\<lparr>queue := q, under_process := True, current_req := Some req, work_pending := True\<rparr>"
      using q by (simp add: ddk_request_def ddk_initiate_transfer_def)
    from ddk_step.request [of usb d "\<lambda>_. 1"] show ?thesis unfolding e using r q False
      by (fastforce simp: ready_def todo_def)
  qed
qed

lemma run_append: "ddk_run usb rs' d' d'' \<Longrightarrow> ddk_step usb rs d d' \<Longrightarrow> ddk_run usb (rs @ rs') d d''"
proof (induction rule: ddk_run.induct)
  case (run_refl d')
  from ddk_run.run_step [OF ddk_run.run_refl run_refl] show ?case by simp
next
  case (run_step rs1 d1 d2 rs2 d3)
  from ddk_run.run_step [OF run_step.IH [OF run_step.prems] run_step.hyps(2)] show ?case by simp
qed

lemma finish_all:
  assumes b: "memory_board usb mem rd wr"
  shows "ready mem cap d \<Longrightarrow> ddk_inv rs d \<Longrightarrow> \<exists>d'. ddk_run usb [] d d' \<and> in_flight d' = {#} \<and> ready mem cap d'"
proof (induction "todo d" arbitrary: d rule: less_induct)
  case less
  show ?case
  proof (cases "in_flight d = {#}")
    case True
    with less.prems show ?thesis by (blast intro: run_refl)
  next
    case False
    obtain d1 where d1: "ddk_step usb [] d d1" "ready mem cap d1" "todo d1 < todo d"
      using progress [OF b less.prems False] by blast
    have "ddk_inv rs d1" using ddk_step_inv [OF d1(1) less.prems(2)] by simp
    from less.hyps [OF d1(3,2) this] obtain d' where "ddk_run usb [] d1 d'" "in_flight d' = {#}" "ready mem cap d'" by blast
    with run_append [OF _ d1(1)] show ?thesis by fastforce
  qed
qed

section \<open>After the cancellation of pending work\<close>

text \<open>The hand-over of a cancelled work item never finishes.\<close>

definition stuck :: "'u ddk \<Rightarrow> 'u ddk \<Rightarrow> bool" where
  "stuck d0 d \<longleftrightarrow> under_process d \<and> \<not> work_pending d \<and> workers d = [] \<and> ended d = ended d0 \<and>
     (\<exists>rs. queue d = queue d0 @ rs)"

lemma stuck_step: "ddk_step usb rs d d' \<Longrightarrow> stuck d0 d \<Longrightarrow> stuck d0 d'"
  by (cases rule: ddk_step.cases) (auto simp: stuck_def ddk_request_def)

lemma stuck_run: "ddk_run usb rs d d' \<Longrightarrow> stuck d0 d \<Longrightarrow> stuck d0 d'"
  by (induction rule: ddk_run.induct) (auto dest: stuck_step)

section \<open>A sample board\<close>

record board =
  b_mem :: "u8 list"
  b_rd :: nat
  b_wr :: nat

definition board_usb :: "board usb" where
  "board_usb = \<lparr>
     usb_control_out = (\<lambda>rq ty v ix bs u.
       if rq = 3 then (0, u\<lparr>b_rd := unat v\<rparr>) else if rq = 5 then (0, u\<lparr>b_wr := unat v\<rparr>) else (0, u)),
     usb_control_in = (\<lambda>rq ty v ix n u. (2, le 2 (of_nat (length (b_mem u)) :: u16), u)),
     usb_int_out = (\<lambda>ep pkt u.
       case mem_write (b_mem u) (b_wr u) pkt of
         None \<Rightarrow> (- EIO, 0, u)
       | Some mem \<Rightarrow> (0, length pkt, u\<lparr>b_mem := mem, b_wr := b_wr u + length pkt\<rparr>)),
     usb_int_in = (\<lambda>ep n u. (0, take n (drop (b_rd u) (b_mem u)), u\<lparr>b_rd := b_rd u + n\<rparr>))\<rparr>"

definition sample_stor :: "board stor" where
  "sample_stor = \<lparr>device = Some \<lparr>b_mem = replicate 1024 0, b_rd = 0, b_wr = 0\<rparr>, m = False\<rparr>"

lemma sample_board: "memory_board board_usb b_mem b_rd b_wr"
  unfolding memory_board_def by (auto simp: board_usb_def mem_write_def)

lemma sample_stor_ok: "stor_ok b_mem sample_stor" "length (stor_mem b_mem sample_stor) = 2 * 512"
  by (simp_all add: stor_ok_def stor_mem_def sample_stor_def)

section \<open>Properties\<close>

text \<open>
  C15: on a board whose memory works, a well-formed request inside the capacity has exactly the
  effect that the RAM driver's transfer has on a RAM disk with the same contents: status 0,
  the same stored bytes afterwards, and the same bytes in the request's segments.
\<close>

theorem ddk_transfer_equals_ram:
  assumes "memory_board usb mem rd wr" and "stor_ok mem s" and "length (stor_mem mem s) = cap * 512" and "rq_ok cap req"
  shows "\<exists>s' req'. ddk_transfer_data usb s req = Some (0, s', req') \<and> stor_ok mem s' \<and>
     rb_transfer (stor_mem mem s) req = Some (0, stor_mem mem s', req')"
  using ddk_ram_agree [OF assms] by blast

theorem ddk_transfer_equals_ram_witness:
  "\<exists>s' req'. ddk_transfer_data board_usb sample_stor
       \<lparr>rq_dir = WRITE, rq_pos = 1, rq_sectors = 1, rq_segs = [\<lparr>bv_data = replicate 512 7, bv_len = 512\<rparr>]\<rparr> = Some (0, s', req') \<and>
     rb_transfer (replicate 1024 0)
       \<lparr>rq_dir = WRITE, rq_pos = 1, rq_sectors = 1, rq_segs = [\<lparr>bv_data = replicate 512 7, bv_len = 512\<rparr>]\<rparr>
     = Some (0, stor_mem b_mem s', req')"
proof -
  have r: "rq_ok 2 \<lparr>rq_dir = WRITE, rq_pos = 1, rq_sectors = 1, rq_segs = [\<lparr>bv_data = replicate 512 7, bv_len = 512\<rparr>]\<rparr>"
    by (simp add: rq_ok_def seg_ok_def seg_sectors_def)
  have m: "stor_mem b_mem sample_stor = replicate 1024 0" by (simp add: stor_mem_def sample_stor_def)
  show ?thesis using ddk_transfer_equals_ram [OF sample_board sample_stor_ok r] unfolding m by blast
qed

text \<open>
  C16: however the block layer's calls, the workqueue and the running invocations interleave,
  and however often \<open>schedule_work\<close> fails: every submitted request is at any time either in
  flight or ended, and never twice; an invocation that is about to read \<open>current_req\<close> finds
  a request there; and at most one hand-over is open.
\<close>

theorem ddk_requests_once:
  assumes "ddk_run usb rs (ddk_idle s) d"
  shows "mset rs = mset (map fst (ended d)) + in_flight d \<and>
     (Entered \<in> set (workers d) \<longrightarrow> current_req d \<noteq> None) \<and>
     (if work_pending d then 1 else 0) + length (filter (\<lambda>w. claims w = 1) (workers d)) \<le> (1 :: nat)"
proof -
  have inv: "ddk_inv rs d" using ddk_run_inv [OF assms ddk_idle_inv] by simp
  have "sum_list (map claims ws) = length (filter (\<lambda>w. claims w = 1) ws)" for ws
  proof (induction ws)
    case (Cons w ws)
    then show ?case by (cases w) simp_all
  qed simp
  then have c: "(if work_pending d then 1 else 0) + length (filter (\<lambda>w. claims w = 1) (workers d)) = (if under_process d then 1 else 0)"
    using inv by (simp add: ddk_inv_def)
  have "under_process d" if "Entered \<in> set (workers d)"
  proof -
    have "filter (\<lambda>w. claims w = 1) (workers d) \<noteq> []" using that by (auto simp: filter_empty_conv intro!: bexI [of _ Entered])
    with c show ?thesis by (auto split: if_splits)
  qed
  with inv c show ?thesis by (auto simp: ddk_inv_def)
qed

theorem ddk_requests_once_witness:
  "\<exists>d. ddk_run board_usb [4] (ddk_idle sample_stor) d \<and> in_flight d = {#4#}"
proof -
  let ?d = "(ddk_idle sample_stor)\<lparr>queue := queue (ddk_idle sample_stor) @ [4], reqs := (reqs (ddk_idle sample_stor))(4 := undefined)\<rparr>"
  have "ddk_run board_usb ([] @ [4]) (ddk_idle sample_stor) ?d" by (rule run_step [OF run_refl submit])
  then have r: "ddk_run board_usb [4] (ddk_idle sample_stor) ?d" by simp
  have "ended ?d = []" by (simp add: ddk_idle_def)
  then have "in_flight ?d = {#4#}" using ddk_requests_once [OF r] by simp
  with r show ?thesis by blast
qed

text \<open>
  C17: the driver can always finish: from any state it can reach on a working board, with
  well-formed requests, there is a continuation without new requests after which every request
  submitted has been ended exactly once.
\<close>

theorem ddk_can_finish:
  assumes b: "memory_board usb mem rd wr" and run: "ddk_run usb rs (ddk_idle s) d"
    and s: "stor_ok mem (storage d)" "length (stor_mem mem (storage d)) = cap * 512" and r: "\<And>r. rq_ok cap (reqs d r)"
  shows "\<exists>d'. ddk_run usb [] d d' \<and> queue d' = [] \<and> \<not> work_pending d' \<and> mset (map fst (ended d')) = mset rs"
proof -
  have inv: "ddk_inv rs d" using ddk_run_inv [OF run ddk_idle_inv] by simp
  obtain d' where d': "ddk_run usb [] d d'" "in_flight d' = {#}"
    using finish_all [OF b _ inv] s r unfolding ready_def by blast
  have inv': "ddk_inv rs d'" using ddk_run_inv [OF d'(1) inv] by simp
  have "\<not> work_pending d'"
  proof
    assume p: "work_pending d'"
    then have "under_process d'" using inv' by (auto simp: ddk_inv_def split: if_splits)
    then obtain c where "current_req d' = Some c" using inv' by (auto simp: ddk_inv_def)
    with p d'(2) show False by (simp add: in_flight_def)
  qed
  with d' inv' show ?thesis by (auto simp: ddk_inv_def in_flight_def)
qed

theorem ddk_can_finish_witness:
  "\<exists>d'. ddk_run board_usb [] ((ddk_idle sample_stor)\<lparr>queue := [4], reqs := (reqs (ddk_idle sample_stor))(4 :=
      \<lparr>rq_dir = READ, rq_pos = 0, rq_sectors = 0, rq_segs = []\<rparr>)\<rparr>) d' \<and> mset (map fst (ended d')) = {#4#}"
proof -
  let ?r = "\<lparr>rq_dir = READ, rq_pos = 0, rq_sectors = 0, rq_segs = []\<rparr>"
  let ?d = "(ddk_idle sample_stor)\<lparr>queue := [4], reqs := (reqs (ddk_idle sample_stor))(4 := ?r)\<rparr>"
  have "ddk_run board_usb ([] @ [4]) (ddk_idle sample_stor)
      ((ddk_idle sample_stor)\<lparr>queue := queue (ddk_idle sample_stor) @ [4], reqs := (reqs (ddk_idle sample_stor))(4 := ?r)\<rparr>)"
    by (rule run_step [OF run_refl submit])
  then have run: "ddk_run board_usb [4] (ddk_idle sample_stor) ?d" by (simp add: ddk_idle_def)
  have st: "stor_ok b_mem (storage ?d)" "length (stor_mem b_mem (storage ?d)) = 2 * 512"
    using sample_stor_ok by (simp_all add: ddk_idle_def)
  have rq: "rq_ok 2 (reqs ?d r)" for r by (simp add: ddk_idle_def rq_ok_def seg_sectors_def)
  from ddk_can_finish [OF sample_board run st rq] show ?thesis by auto
qed

text \<open>
  Cancelling the pending work item at disconnect loses the request that was handed over:
  it stays in flight without being held by anyone, and from then on no step of the driver ends
  any request or takes one from the queue.
\<close>

theorem ddk_cancel_loses_request:
  assumes run: "ddk_run usb rs (ddk_idle s) d" and p: "work_pending d" "workers d = []"
    and after: "ddk_run usb rs' (cancel_work d) d'"
  shows "\<exists>req. current_req d = Some req \<and> count (mset (map fst (ended d'))) req < count (mset rs) req \<and>
     ended d' = ended d \<and> (\<exists>q. queue d' = queue d @ q)"
proof -
  have inv: "ddk_inv rs d" using ddk_run_inv [OF run ddk_idle_inv] by simp
  then have u: "under_process d" using p by (auto simp: ddk_inv_def split: if_splits)
  then obtain req where c: "current_req d = Some req" using inv by (auto simp: ddk_inv_def)
  have "stuck d (cancel_work d)" using u p by (simp add: stuck_def cancel_work_def)
  from stuck_run [OF after this] have st: "ended d' = ended d" "\<exists>q. queue d' = queue d @ q" by (auto simp: stuck_def)
  have "mset rs = mset (map fst (ended d)) + in_flight d" using inv by (simp add: ddk_inv_def)
  moreover have "req \<in># in_flight d" using p c by (simp add: in_flight_def)
  ultimately show ?thesis using c st by simp
qed

theorem ddk_cancel_loses_request_witness:
  "\<exists>d. ddk_run board_usb [4] (ddk_idle sample_stor) d \<and> work_pending d \<and> current_req d = Some 4 \<and>
     count (mset (map fst (ended d))) 4 < count (mset [4]) 4"
proof -
  let ?r = "\<lparr>rq_dir = READ, rq_pos = 0, rq_sectors = 0, rq_segs = []\<rparr>" and ?i = "ddk_idle sample_stor"
  let ?d1 = "?i\<lparr>queue := queue ?i @ [4], reqs := (reqs ?i)(4 := ?r)\<rparr>" and ?d2 = "ddk_request (\<lambda>_. 1)"
  have "ddk_run board_usb (([] @ [4]) @ []) ?i (?d2 ?d1)" by (rule run_step [OF run_step [OF run_refl submit] request])
  then have run: "ddk_run board_usb [4] ?i (?d2 ?d1)" by simp
  have p: "work_pending (?d2 ?d1)" "workers (?d2 ?d1) = []" "current_req (?d2 ?d1) = Some 4"
    by (simp_all add: ddk_idle_def ddk_request_def ddk_initiate_transfer_def)
  from ddk_cancel_loses_request [OF run p(1,2) run_refl] p(3) run p(1) show ?thesis
    by (auto simp: cancel_work_def)
qed

text \<open>
  The storage functions return with the mutex free whenever they were entered with it free,
  whatever the USB core answers; and without a device they answer \<open>-ENODEV\<close> and change nothing.
\<close>

theorem ddk_storage_mutex:
  assumes free: "\<not> m s"
  shows "(\<forall>r s'. ddk_storage_init usb s = Some (r, s') \<longrightarrow> \<not> m s') \<and>
     (\<forall>r s'. ddk_storage_write usb s p buf n = Some (r, s') \<longrightarrow> \<not> m s') \<and>
     (\<forall>r b s'. ddk_storage_read usb s p buf n = Some (r, b, s') \<longrightarrow> \<not> m s') \<and>
     (device s = None \<longrightarrow> ddk_storage_init usb s = Some (- ENODEV, s) \<and>
        ddk_storage_write usb s p buf n = Some (- ENODEV, s) \<and> ddk_storage_read usb s p buf n = Some (- ENODEV, buf, s))"
proof -
  have l: "mutex_lock t = Some (t\<lparr>m := True\<rparr>)" if "\<not> m t" for t :: "'a stor" using that by (simp add: mutex_lock_def)
  have sm: "\<exists>r t'. set_mem usb t = Some (r, t') \<and> \<not> m t'" "\<exists>r t'. get_size usb t = Some (r, t') \<and> \<not> m t'" if "\<not> m t" for t
    using l [OF that] by (auto simp: set_mem_def get_size_def mutex_unlock_def split: option.splits prod.splits)
  have i: "\<not> m s'" if "ddk_storage_init usb s = Some (r, s')" for r s'
  proof -
    obtain r1 t1 where t1: "set_mem usb s = Some (r1, t1)" "\<not> m t1" using sm(1) [OF free] by blast
    obtain r2 t2 where "get_size usb t1 = Some (r2, t2)" "\<not> m t2" using sm(2) [OF t1(2)] by blast
    with that t1 show ?thesis by (auto simp: ddk_storage_init_def split: if_splits)
  qed
  have w: "\<not> m s'" if "ddk_storage_write usb s p buf n = Some (r, s')" for r s'
    using that l [OF free] by (auto simp: ddk_storage_write_def mutex_unlock_def Let_def split: option.splits prod.splits if_splits dest!: bind_eq_SomeD)
  have r: "\<not> m s'" if "ddk_storage_read usb s p buf n = Some (r, b, s')" for r b s'
    using that l [OF free] by (auto simp: ddk_storage_read_def mutex_unlock_def Let_def split: option.splits prod.splits if_splits dest!: bind_eq_SomeD)
  have e: "s\<lparr>m := False\<rparr> = s" using free by (cases s) simp
  have "device s = None \<longrightarrow> ddk_storage_init usb s = Some (- ENODEV, s) \<and>
        ddk_storage_write usb s p buf n = Some (- ENODEV, s) \<and> ddk_storage_read usb s p buf n = Some (- ENODEV, buf, s)"
    using free e by (auto simp: ddk_storage_init_def set_mem_def ddk_storage_write_def ddk_storage_read_def mutex_lock_def mutex_unlock_def)
  with i w r show ?thesis by blast
qed

theorem ddk_storage_mutex_witness:
  "ddk_storage_write board_usb \<lparr>device = None, m = False\<rparr> 0 [] 1 = Some (- ENODEV, \<lparr>device = None, m = False\<rparr>)"
  using ddk_storage_mutex [of "\<lparr>device = None, m = False\<rparr>" board_usb 0 "[]" 1] by simp

text \<open>
  A board that reports 32 KiB or more (and fewer than 64 KiB) cannot be used: the size is
  received in a \<open>short\<close>, so \<open>ddk_storage_init\<close> returns it as a negative number, which its caller
  takes for an error.
\<close>

theorem ddk_large_board_refused:
  assumes "\<not> m s" and "device s = Some u"
    and "usb_control_out usb CUSTOM_RQ_SET_MEM_TYPE VENDOR_OUT flash 0 [] u = (0, u1)"
    and "usb_control_in usb CUSTOM_RQ_GET_MEM_SIZE VENDOR_IN 0 0 2 u1 = (2, le 2 (of_nat bytes :: u16), u2)"
    and "32768 \<le> bytes" and "bytes < 65536"
  shows "\<exists>s'. ddk_storage_init usb s = Some (int bytes - 65536, s') \<and> int bytes - 65536 < 0"
proof -
  let ?w = "of_nat bytes :: u16"
  have u: "uint ?w = int bytes" using assms(6) by (simp add: unsigned_of_nat take_bit_nat_eq_self)
  have h: "int bytes div 32768 = 1" using assms(5,6) by (intro int_div_pos_eq [of _ _ _ "int bytes - 32768"]) simp_all
  have "sint ?w = signed_take_bit 15 (uint ?w)" by (simp add: sint_uint)
  also have "\<dots> = int bytes - 65536"
    unfolding u using assms(5,6) by (subst signed_take_bit_eq_take_bit_minus) (simp add: take_bit_int_eq_self bit_iff_odd h)
  finally have "short_of (le 2 ?w) = int bytes - 65536" by (simp add: short_of_def)
  then show ?thesis using assms
    by (auto simp: ddk_storage_init_def set_mem_def get_size_def set_mem_raw_def get_size_raw_def mutex_lock_def mutex_unlock_def)
qed

theorem ddk_large_board_refused_witness:
  "\<exists>s'. ddk_storage_init board_usb \<lparr>device = Some \<lparr>b_mem = replicate 32768 0, b_rd = 0, b_wr = 0\<rparr>, m = False\<rparr>
     = Some (- 32768, s')"
proof -
  let ?u = "\<lparr>b_mem = replicate 32768 0, b_rd = 0, b_wr = 0\<rparr> :: board"
  have l: "length (b_mem ?u) = 32768" by (simp only: board.simps length_replicate)
  have a: "usb_control_out board_usb CUSTOM_RQ_SET_MEM_TYPE VENDOR_OUT flash 0 [] ?u = (0, ?u)"
    by (simp add: board_usb_def CUSTOM_RQ_SET_MEM_TYPE_def)
  have b: "usb_control_in board_usb CUSTOM_RQ_GET_MEM_SIZE VENDOR_IN 0 0 2 ?u = (2, le 2 (of_nat 32768 :: u16), ?u)"
    unfolding board_usb_def by (simp only: usb.simps l)
  have c: "\<not> m \<lparr>device = Some ?u, m = False\<rparr>" "device \<lparr>device = Some ?u, m = False\<rparr> = Some ?u" by simp_all
  from ddk_large_board_refused [OF c a b] show ?thesis by auto
qed

text \<open>
  With a board and a major number from the valid range, \<open>block_register_dev\<close> either
  returns 0 with the disk live and its capacity the board's size in sectors, exactly when
  every step succeeded, or a negative error with nothing of the block layer held.
\<close>

theorem ddk_register_outcome:
  assumes st: "ddk_storage_init usb (storage (ddk s)) = Some (sz, st')" and sz: "sz < 2 ^ 31" and reg: "0 \<le> reg" "reg < 2 ^ 20"
    and fresh: "\<not> ddk_registered s" "\<not> ddk_queue s" "\<not> ddk_disk s" "\<not> ddk_live s"
  shows "\<exists>ret s'. block_register_dev usb reg queue_ok disk_ok s = Some (ret, s') \<and>
     (ret = 0 \<longleftrightarrow> 0 \<le> sz \<and> 0 < reg \<and> queue_ok \<and> disk_ok) \<and> \<not> under_process (ddk s') \<and>
     (if ret = 0 then ddk_registered s' \<and> ddk_queue s' \<and> ddk_disk s' \<and> ddk_live s' \<and> int (unat (ddk_capacity s')) = sz
      else ret < 0 \<and> \<not> ddk_registered s' \<and> \<not> ddk_queue s' \<and> \<not> ddk_disk s' \<and> \<not> ddk_live s')"
proof -
  have w: "word_of_int reg \<le> (0::u32) \<longleftrightarrow> reg = 0"
    using reg by (simp add: word_le_def unsigned_of_int take_bit_int_eq_self)
  have c: "uint (word_of_int sz :: u32) = sz" if "0 \<le> sz" using that sz by (simp add: unsigned_of_int take_bit_int_eq_self)
  show ?thesis
  proof (cases "sz < 0")
    case True
    then show ?thesis using st fresh by (simp add: block_register_dev_def)
  next
    case False
    then show ?thesis using st fresh w c reg by (simp add: block_register_dev_def Let_def)
  qed
qed

theorem ddk_register_outcome_witness:
  "\<exists>ret s'. block_register_dev board_usb 250 True True
      \<lparr>ddk = ddk_idle sample_stor, ddk_major = 0, ddk_size = 0, ddk_registered = False, ddk_queue = False, ddk_disk = False,
       ddk_capacity = 0, ddk_live = False\<rparr> = Some (ret, s') \<and> ret = 0 \<and> int (unat (ddk_capacity s')) = 2"
proof -
  let ?s = "\<lparr>ddk = ddk_idle sample_stor, ddk_major = 0, ddk_size = 0, ddk_registered = False, ddk_queue = False,
      ddk_disk = False, ddk_capacity = 0, ddk_live = False\<rparr>"
  have "short_of (le 2 (1024 :: u16)) = 1024" by (simp add: short_of_def)
  then have i: "ddk_storage_init board_usb (storage (ddk ?s)) = Some (2, sample_stor)"
    by (simp add: ddk_storage_init_def set_mem_def get_size_def set_mem_raw_def get_size_raw_def mutex_lock_def mutex_unlock_def
        board_usb_def ddk_consts ddk_idle_def sample_stor_def)
  from ddk_register_outcome [OF i, of 250 True True] show ?thesis by auto
qed

end
