(* ===== verification/Ram_Page.thy ===== *)
theory Ram_Page
  imports Ram_Device
begin

text \<open>
  The RAM disk behind a buffer cache whose blocks are pages of eight sectors, the block size
  that the AKP file system sets with \<open>sb_min_blocksize\<close>.
\<close>

definition page_bdev :: "u8 list bdev" where
  "page_bdev =
     \<lparr>bread = (\<lambda>d b. if b < length d div 4096
                     then ramdevice_read d (of_nat (8 * b)) (replicate 4096 0) 8 else None),
      bwrite = (\<lambda>d b bs. case ramdevice_write d (of_nat (8 * b)) bs 8 of Some d' \<Rightarrow> d' | None \<Rightarrow> d),
      bd_block_size = 4096\<rparr>"

definition page_nblk :: "u8 list \<Rightarrow> nat" where
  "page_nblk d = length d div 4096"

definition page_ok :: "u8 list \<Rightarrow> bool" where
  "page_ok d \<longleftrightarrow> length d < 2 ^ 32"

lemma page_number:
  assumes "page_ok d" and "b < page_nblk d"
  shows "unat (of_nat (8 * b) :: u64) = 8 * b" and "b * 4096 + 4096 \<le> length d" and "length d < 2 ^ 32"
proof -
  show l: "length d < 2 ^ 32" using assms by (simp add: page_ok_def)
  have "4096 * (length d div 4096) \<le> length d" by simp
  moreover have "b + 1 \<le> length d div 4096" using assms(2) by (simp add: page_nblk_def)
  ultimately show b: "b * 4096 + 4096 \<le> length d" by linarith
  then have "8 * b < 2 ^ 64" using l by simp
  then show "unat (of_nat (8 * b) :: u64) = 8 * b" by (intro unat_of_nat_small) simp
qed

lemma page_bread:
  assumes "page_ok d" and "b < page_nblk d"
  shows "bread page_bdev d b = Some (take 4096 (drop (b * 4096) d))"
proof -
  note p = page_number [OF assms]
  have "ramdevice_read d (of_nat (8 * b)) (replicate 4096 0) 8 = Some (take 4096 (drop (8 * b * 512) d))"
    using ramdevice_read_eq [of "of_nat (8 * b)" 8 d "replicate 4096 0"] p by (simp del: of_nat_mult)
  moreover have "8 * b * 512 = b * 4096" by simp
  ultimately show ?thesis using assms(2) by (simp add: page_bdev_def page_nblk_def del: of_nat_mult)
qed

lemma page_bread_outside: "\<not> b < page_nblk d \<Longrightarrow> bread page_bdev d b = None"
  by (simp add: page_bdev_def page_nblk_def)

lemma page_bwrite:
  assumes "page_ok d" and "b < page_nblk d" and "length bs = 4096"
  shows "mem_write d (b * 4096) bs = Some (bwrite page_bdev d b bs)"
proof -
  note p = page_number [OF assms(1,2)]
  have "ramdevice_write d (of_nat (8 * b)) bs 8 = mem_write d (8 * b * 512) bs"
    using ramdevice_write_eq [of "of_nat (8 * b)" 8 d bs] p assms(3) by (simp del: of_nat_mult)
  moreover have e: "8 * b * 512 = b * 4096" by simp
  moreover have "\<exists>d'. mem_write d (b * 4096) bs = Some d'" using p(2) assms(3) by (intro mem_write_ex) simp
  ultimately show ?thesis by (auto simp: page_bdev_def simp del: of_nat_mult)
qed

lemma bd_block_size_page [simp]: "unat (bd_block_size page_bdev) = 4096"
  by (simp add: page_bdev_def)

interpretation page: buffer_cache page_bdev page_nblk page_ok
proof unfold_locales
  fix d b assume d: "page_ok d" "b < page_nblk d"
  then show "\<exists>bs. bread page_bdev d b = Some bs \<and> length bs = unat (bd_block_size page_bdev)"
    using page_number [OF d] by (simp add: page_bread)
next
  fix d b b' and bs :: "u8 list"
  assume d: "page_ok d" "b < page_nblk d" "length bs = unat (bd_block_size page_bdev)"
  then have w: "mem_write d (b * 4096) bs = Some (bwrite page_bdev d b bs)" (is "_ = Some ?d'")
    by (intro page_bwrite) simp_all
  then have len: "length ?d' = length d" by (rule mem_write_length)
  then show k: "page_ok ?d'" "page_nblk ?d' = page_nblk d" using d by (simp_all add: page_ok_def page_nblk_def)
  then have r: "c < page_nblk d \<Longrightarrow> bread page_bdev ?d' c = mem_read ?d' (c * 4096) 4096" for c
    using page_number(2) [of ?d' c] by (simp add: page_bread mem_read_def len)
  show "bread page_bdev ?d' b' = (if b' = b then Some bs else bread page_bdev d b')"
  proof (cases "b' < page_nblk d")
    case True
    have "bread page_bdev d b' = mem_read d (b' * 4096) 4096"
      using d True page_number(2) [of d b'] by (simp add: page_bread mem_read_def)
    moreover have "mem_read ?d' (b' * 4096) 4096 = mem_read d (b' * 4096) 4096" if "b' \<noteq> b"
      using that d by (intro mem_read_write_disjoint [OF w], cases b b' rule: linorder_cases) auto
    ultimately show ?thesis using r [OF True] mem_read_write_same [OF w] d by auto
  next
    case False
    then have "b' \<noteq> b" using d by auto
    with False k(2) show ?thesis by (simp add: page_bread_outside)
  qed
qed

end
