(* ===== verification/Akpfs.thy ===== *)
theory Akpfs
  imports Ram_Page
begin

text \<open>
  The AKP file system module, \<^verbatim>\<open>src/FSDriver/AKPFS\<close>: inodes of 128 bytes in fixed blocks, a bitmap
  of used blocks, and directories that list inode numbers.

  \<open>akp\<close> is a mounted volume: the state of the device behind it, the super block (the module
  reads it in place from the first block's buffer), and the number of buffer references the
  module holds. As elsewhere, \<open>None\<close> stands for an access outside an object, a use of freed
  memory or a division by zero; the module's own errors are its return values.
\<close>

section \<open>Data structures\<close>

definition AKPFS_SUPER_MAGIC :: u16 where "AKPFS_SUPER_MAGIC = 0xABCD"
definition AKPFS_MAX_FILE_NAME_SIZE :: nat where "AKPFS_MAX_FILE_NAME_SIZE = 16"
definition AKPFS_MAX_BLOCKS_PER_FILE :: nat where "AKPFS_MAX_BLOCKS_PER_FILE = 3 + 24"
definition AKPFS_MAX_ENTRIES_PER_DIR :: nat where "AKPFS_MAX_ENTRIES_PER_DIR = AKPFS_MAX_BLOCKS_PER_FILE"
definition akpfs_dir :: int where "akpfs_dir = -1"
definition akpfs_link :: int where "akpfs_link = -2"

lemmas akp_consts = AKPFS_MAX_FILE_NAME_SIZE_def AKPFS_MAX_BLOCKS_PER_FILE_def AKPFS_MAX_ENTRIES_PER_DIR_def
  akpfs_dir_def akpfs_link_def

record akpfs_sb =
  fs_type :: u16
  block_size :: u16
  block_cnt :: u32
  inodes_per_block :: u32
  inodes_block_start :: u32
  inodes_block_cnt :: u32
  free_bits_per_block :: u32
  free_bits_block_start :: u32
  free_bits_block_cnt :: u32
  data_block_start :: u32
  data_block_cnt :: u32
  root_inode :: u32

text \<open>The union is seen as its array of block numbers (file) or inode numbers (directory).\<close>

record akpfs_inode =
  file_name :: "u8 list"
  file_size :: u32
  file_blocks :: "u32 list"

abbreviation (input) dir_entries :: "akpfs_inode \<Rightarrow> u32 list" where "dir_entries \<equiv> file_blocks"

definition bytes_of_asb :: "akpfs_sb \<Rightarrow> u8 list" where
  "bytes_of_asb s = le 2 (fs_type s) @ le 2 (block_size s) @
     le32s [block_cnt s, inodes_per_block s, inodes_block_start s, inodes_block_cnt s, free_bits_per_block s,
       free_bits_block_start s, free_bits_block_cnt s, data_block_start s, data_block_cnt s, root_inode s]"

definition asb_of_bytes :: "u8 list \<Rightarrow> akpfs_sb" where
  "asb_of_bytes bs =
     (let w = unle32s 10 (drop 4 bs) in
      \<lparr>fs_type = unle (take 2 bs), block_size = unle (take 2 (drop 2 bs)), block_cnt = w ! 0, inodes_per_block = w ! 1,
       inodes_block_start = w ! 2, inodes_block_cnt = w ! 3, free_bits_per_block = w ! 4, free_bits_block_start = w ! 5,
       free_bits_block_cnt = w ! 6, data_block_start = w ! 7, data_block_cnt = w ! 8, root_inode = w ! 9\<rparr>)"

definition bytes_of_inode :: "akpfs_inode \<Rightarrow> u8 list" where
  "bytes_of_inode i = file_name i @ le 4 (file_size i) @ le32s (file_blocks i)"

definition inode_of_bytes :: "u8 list \<Rightarrow> akpfs_inode" where
  "inode_of_bytes bs =
     \<lparr>file_name = take 16 bs, file_size = unle (take 4 (drop 16 bs)), file_blocks = unle32s 27 (drop 20 bs)\<rparr>"

record 'd akp =
  adev :: 'd
  asb :: akpfs_sb
  refs :: int

section \<open>Buffers and inodes\<close>

definition sb_bread :: "'d bdev \<Rightarrow> nat \<Rightarrow> 'd akp \<Rightarrow> u8 list option \<times> 'd akp" where
  "sb_bread dev b a =
     (case bread dev (adev a) b of None \<Rightarrow> (None, a) | Some bs \<Rightarrow> (Some bs, a\<lparr>refs := refs a + 1\<rparr>))"

definition brelse :: "'d akp \<Rightarrow> 'd akp" where
  "brelse a = a\<lparr>refs := refs a - 1\<rparr>"

text \<open>Where inode \<open>ino\<close> is: its block and the offset of the structure in it.\<close>

definition inode_block :: "akpfs_sb \<Rightarrow> u32 \<Rightarrow> nat" where
  "inode_block s ino = unat (inodes_block_start s + ino div inodes_per_block s)"

definition inode_off :: "akpfs_sb \<Rightarrow> u32 \<Rightarrow> nat" where
  "inode_off s ino = 128 * unat (ino mod inodes_per_block s)"

text \<open>On success the caller holds a reference to the inode's buffer.\<close>

definition akpfs_get_inode :: "'d bdev \<Rightarrow> 'd akp \<Rightarrow> u32 \<Rightarrow> (akpfs_inode option \<times> 'd akp) option" where
  "akpfs_get_inode dev a ino =
     (if inodes_per_block (asb a) = 0 then None
      else case sb_bread dev (inode_block (asb a) ino) a of
        (None, a) \<Rightarrow> Some (None, a)
      | (Some b_data, a) \<Rightarrow> do {
          bs \<leftarrow> mem_read b_data (inode_off (asb a) ino) 128;
          Some (Some (inode_of_bytes bs), a)
        })"

text \<open>Stores to the structure in its (held) buffer, which is then marked dirty.\<close>

definition put_inode :: "'d bdev \<Rightarrow> 'd akp \<Rightarrow> u32 \<Rightarrow> akpfs_inode \<Rightarrow> 'd akp option" where
  "put_inode dev a ino i = do {
     d \<leftarrow> patch dev (adev a) (inode_block (asb a) ino) (inode_off (asb a) ino) (bytes_of_inode i);
     Some (a\<lparr>adev := d\<rparr>)
   }"

abbreviation (input) S_IFREG :: u16 where "S_IFREG \<equiv> 0x8000"
abbreviation (input) S_IFDIR :: u16 where "S_IFDIR \<equiv> 0x4000"
abbreviation (input) S_IFLNK :: u16 where "S_IFLNK \<equiv> 0xA000"

definition akpfs_get_file_type :: "akpfs_inode \<Rightarrow> u16" where
  "akpfs_get_file_type ino =
     (if sint (file_size ino) \<ge> 0 then S_IFREG
      else if sint (file_size ino) = akpfs_dir then S_IFDIR
      else if sint (file_size ino) = akpfs_link then S_IFLNK else 0)"

text \<open>The permission bits are \<open>rw-r--r--\<close>, \<open>rwxr-xr-x\<close> and \<open>rwxrwxrwx\<close>.\<close>

definition akpfs_get_inode_flags :: "akpfs_inode \<Rightarrow> u16" where
  "akpfs_get_inode_flags ino =
     (if sint (file_size ino) \<ge> 0 then S_IFREG OR 0x1A4
      else if sint (file_size ino) = akpfs_dir then S_IFDIR OR 0x1ED
      else if sint (file_size ino) = akpfs_link then S_IFLNK OR 0x1FF
      else 0)"

section \<open>The bitmap of used blocks\<close>

text \<open>The inner loop: the first byte that is not \<open>0xFF\<close>.\<close>

fun scan_bytes :: "u8 list \<Rightarrow> nat list \<Rightarrow> nat option option" where
  "scan_bytes bitmask [] = Some None"
| "scan_bytes bitmask (ec # ecs) = do {
     x \<leftarrow> arr_get bitmask ec;
     if x \<noteq> 0xFF then Some (Some ec) else scan_bytes bitmask ecs
   }"

text \<open>The outer loop, over the bitmap's blocks: the block with its buffer held, and the byte.\<close>

datatype bm_scan = Bm_error | Bm_none | Bm_found nat "u8 list" nat

fun scan_blocks :: "'d bdev \<Rightarrow> nat list \<Rightarrow> 'd akp \<Rightarrow> (bm_scan \<times> 'd akp) option" where
  "scan_blocks dev [] a = Some (Bm_none, a)"
| "scan_blocks dev (bi # bis) a =
     (case sb_bread dev (unat (free_bits_block_start (asb a) + of_nat bi)) a of
        (None, a) \<Rightarrow> Some (Bm_error, a)
      | (Some bitmask, a) \<Rightarrow> do {
          r \<leftarrow> scan_bytes bitmask [0..<unat (free_bits_per_block (asb a)) div 8];
          (case r of
             Some ec \<Rightarrow> Some (Bm_found bi bitmask ec, a)
           | None \<Rightarrow> scan_blocks dev bis (brelse a))
        })"

definition free_bit :: "u8 \<Rightarrow> nat" where
  "free_bit x = (case find (\<lambda>i. \<not> bit x i) [0..<8] of None \<Rightarrow> 8 | Some i \<Rightarrow> i)"

text \<open>The result is an \<open>unsigned int\<close>, the error \<open>-EIO\<close> included.\<close>

definition akpfs_get_free_block :: "'d bdev \<Rightarrow> 'd akp \<Rightarrow> (u32 \<times> 'd akp) option" where
  "akpfs_get_free_block dev a = do {
     (r, a) \<leftarrow> scan_blocks dev [0..<unat (free_bits_block_cnt (asb a))] a;
     (case r of
        Bm_error \<Rightarrow> Some (word_of_int (- EIO), a)
      | Bm_none \<Rightarrow> Some (0, a)
      | Bm_found bi bitmask ec \<Rightarrow> do {
          x \<leftarrow> arr_get bitmask ec;
          let i = free_bit x;
          let first_free_blk = of_nat bi * free_bits_per_block (asb a) + of_nat ec * 8 + of_nat i;
          if i \<ge> 8 \<or> first_free_blk \<ge> block_cnt (asb a) then Some (0, brelse a)
          else do {
            bitmask \<leftarrow> arr_set bitmask ec (x OR push_bit i 1);
            Some (first_free_blk, brelse (a\<lparr>adev :=
              bwrite dev (adev a) (unat (free_bits_block_start (asb a) + of_nat bi)) bitmask\<rparr>))
          }
        })
   }"

definition akpfs_put_free_block :: "'d bdev \<Rightarrow> 'd akp \<Rightarrow> u32 \<Rightarrow> (int \<times> 'd akp) option" where
  "akpfs_put_free_block dev a block_no =
     (let s = asb a in
      if block_no \<ge> block_cnt s then Some (- EINVAL, a)
      else if free_bits_per_block s = 0 then None
      else let b = unat (free_bits_block_start s + block_no div free_bits_per_block s) in
        case sb_bread dev b a of
          (None, a) \<Rightarrow> Some (- EIO, a)
        | (Some bitmask, a) \<Rightarrow> do {
            let ec = unat (block_no mod free_bits_per_block s) div 8;
            let bitpos = unat (block_no mod free_bits_per_block s) mod 8;
            x \<leftarrow> arr_get bitmask ec;
            if \<not> bit x bitpos then Some (0, brelse a)
            else do {
              bitmask \<leftarrow> arr_set bitmask ec (x AND NOT (push_bit bitpos 1));
              Some (0, brelse (a\<lparr>adev := bwrite dev (adev a) b bitmask\<rparr>))
            }
          })"

section \<open>Mapping file blocks\<close>

text \<open>The result code, and the block the buffer head is mapped to.\<close>

definition akpfs_get_block :: "'d bdev \<Rightarrow> 'd akp \<Rightarrow> u32 \<Rightarrow> nat \<Rightarrow> bool \<Rightarrow> (int \<times> u32 option \<times> 'd akp) option" where
  "akpfs_get_block dev a ino iblock create =
     (if iblock \<ge> AKPFS_MAX_BLOCKS_PER_FILE then Some (- ENOSPC, None, a)
      else do {
        (r, a) \<leftarrow> akpfs_get_inode dev a ino;
        (case r of
           None \<Rightarrow> Some (- EIO, None, a)
         | Some i \<Rightarrow> do {
             b \<leftarrow> arr_get (file_blocks i) iblock;
             if b \<noteq> 0 then Some (0, Some b, brelse a)
             else if \<not> create then Some (- EIO, None, brelse a)
             else do {
               (b, a) \<leftarrow> akpfs_get_free_block dev a;
               if b = 0 then Some (- ENOSPC, None, brelse a)
               else do {
                 blocks \<leftarrow> arr_set (file_blocks i) iblock b;
                 a \<leftarrow> put_inode dev a ino (i\<lparr>file_blocks := blocks\<rparr>);
                 Some (0, Some b, brelse a)
               }
             }
           })
      })"

section \<open>Writing an inode back\<close>

text \<open>The loop over the block numbers behind the new size; failed puts are ignored.\<close>

fun trunc_loop :: "'d bdev \<Rightarrow> nat list \<Rightarrow> u32 list \<Rightarrow> 'd akp \<Rightarrow> (u32 list \<times> 'd akp) option" where
  "trunc_loop dev [] blocks a = Some (blocks, a)"
| "trunc_loop dev (i # is) blocks a = do {
     b \<leftarrow> arr_get blocks i;
     if b \<noteq> 0
     then do {
       (_, a) \<leftarrow> akpfs_put_free_block dev a b;
       trunc_loop dev is (blocks[i := 0]) a
     }
     else trunc_loop dev is blocks a
   }"

text \<open>
  \<open>(file_size + block_size - 1) / block_size\<close> in \<open>int\<close>: no value for a zero block size, when
  the sum overflows, or for a negative index, which the loop would use.
\<close>

definition first_unused :: "int \<Rightarrow> u16 \<Rightarrow> nat option" where
  "first_unused sz bs =
     (let n = sz + int (unat bs) - 1 in
      if bs = 0 \<or> sz + int (unat bs) \<ge> 2 ^ 31 then None
      else if n \<ge> 0 then Some (nat n div unat bs)
      else if (- n) div int (unat bs) = 0 then Some 0 else None)"

text \<open>\<open>sync\<close>: \<open>None\<close> without \<open>do_sync\<close>, else whether the buffer is up to date after the sync.\<close>

definition akpfs_super_write_inode ::
    "'d bdev \<Rightarrow> bool option \<Rightarrow> 'd akp \<Rightarrow> u32 \<Rightarrow> u16 \<Rightarrow> u64 \<Rightarrow> (int \<times> 'd akp) option" where
  "akpfs_super_write_inode dev sync a i_ino i_mode i_size = do {
     (r, a) \<leftarrow> akpfs_get_inode dev a i_ino;
     (case r of
        None \<Rightarrow> Some (- EIO, a)
      | Some i \<Rightarrow>
          if i_mode AND S_IFREG \<noteq> 0 \<and> sint (file_size i) \<ge> 0
          then do {
            let sz = (ucast i_size :: u32);
            k \<leftarrow> first_unused (sint sz) (block_size (asb a));
            (blocks, a) \<leftarrow> trunc_loop dev [k..<AKPFS_MAX_BLOCKS_PER_FILE] (file_blocks i) a;
            a \<leftarrow> put_inode dev a i_ino (i\<lparr>file_size := sz, file_blocks := blocks\<rparr>);
            Some (if sync = Some False then - EIO else 0, brelse a)
          }
          else Some (0, brelse a))
   }"

section \<open>Directories\<close>

text \<open>\<open>strncmp(name, file_name, AKPFS_MAX_FILE_NAME_SIZE) == 0\<close>\<close>

definition same_name :: "u8 list \<Rightarrow> u8 list \<Rightarrow> bool" where
  "same_name n1 n2 \<longleftrightarrow> take AKPFS_MAX_FILE_NAME_SIZE (cstr n1) = take AKPFS_MAX_FILE_NAME_SIZE (cstr n2)"

text \<open>The search of \<open>akpfs_inode_lookup\<close>: a hit leaves the found inode's buffer held.\<close>

datatype lk_scan = Lk_error | Lk_none | Lk_found u32 akpfs_inode

fun lookup_scan :: "'d bdev \<Rightarrow> u8 list \<Rightarrow> u32 list \<Rightarrow> 'd akp \<Rightarrow> (lk_scan \<times> 'd akp) option" where
  "lookup_scan dev name [] a = Some (Lk_none, a)"
| "lookup_scan dev name (e # es) a =
     (if e = 0 then lookup_scan dev name es a
      else do {
        (r, a) \<leftarrow> akpfs_get_inode dev a e;
        (case r of
           None \<Rightarrow> Some (Lk_error, a)
         | Some i \<Rightarrow> if same_name name (file_name i) then Some (Lk_found e i, a)
                    else lookup_scan dev name es (brelse a))
      })"

datatype iget = Iget_fail | Iget_new | Iget_cached

text \<open>What a new VFS inode is filled with; \<open>None\<close> when it came from the inode cache.\<close>

record akp_vnode =
  v_ino :: u32
  v_size :: int
  v_mode :: u16

definition akpfs_inode_lookup ::
    "'d bdev \<Rightarrow> (u32 \<Rightarrow> iget) \<Rightarrow> 'd akp \<Rightarrow> u32 \<Rightarrow> u8 list \<Rightarrow> ((int + akp_vnode option) \<times> 'd akp) option" where
  "akpfs_inode_lookup dev iget a parent name = do {
     (r, a) \<leftarrow> akpfs_get_inode dev a parent;
     (case r of
        None \<Rightarrow> Some (Inl (- EIO), a)
      | Some p \<Rightarrow> do {
          (l, a) \<leftarrow> lookup_scan dev name (dir_entries p) a;
          Some (case l of
             Lk_error \<Rightarrow> (Inl (- EIO), brelse a)
           | Lk_none \<Rightarrow> (Inl (- ENOENT), brelse a)
           | Lk_found e i \<Rightarrow>
               (case iget e of
                  Iget_fail \<Rightarrow> (Inl (- EACCES), brelse (brelse a))
                | Iget_new \<Rightarrow> (Inr (Some \<lparr>v_ino = e, v_size = sint (file_size i), v_mode = akpfs_get_inode_flags i\<rparr>),
                               brelse (brelse a))
                | Iget_cached \<Rightarrow> (Inr None, brelse (brelse a))))
        })
   }"

text \<open>
  The loop shared by \<open>akpfs_file_readdir\<close> and \<open>akpfs_file_iterate\<close>. \<open>emit\<close> is \<open>filldir\<close>, or
  \<open>dir_emit\<close> with the result \<open>-ENOSPC\<close> for its failure: an error code, or the reader's new
  buffer. The result is the code, the directory position and the buffer.
\<close>

fun dir_loop :: "'d bdev \<Rightarrow> ('c \<Rightarrow> u8 list \<Rightarrow> nat \<Rightarrow> u32 \<Rightarrow> u16 \<Rightarrow> int + 'c) \<Rightarrow> u32 list \<Rightarrow> nat \<Rightarrow> nat \<Rightarrow> 'c \<Rightarrow> 'd akp
    \<Rightarrow> (int \<times> nat \<times> 'c \<times> 'd akp) option" where
  "dir_loop dev emit [] pos f_pos c a = Some (0, f_pos, c, brelse a)"
| "dir_loop dev emit (e # es) pos f_pos c a =
     (if e = 0 then dir_loop dev emit es pos f_pos c a
      else do {
        let pos = pos + 1;
        (r, a) \<leftarrow> akpfs_get_inode dev a e;
        (case r of
           None \<Rightarrow> Some (- EIO, f_pos, c, brelse a)
         | Some i \<Rightarrow>
             if pos = f_pos
             then (case emit c (take AKPFS_MAX_FILE_NAME_SIZE (cstr (file_name i))) f_pos e (akpfs_get_file_type i) of
                     Inl retval \<Rightarrow> Some (retval, f_pos, c, brelse (brelse a))
                   | Inr c \<Rightarrow> dir_loop dev emit es pos (f_pos + 1) c (brelse a))
             else dir_loop dev emit es pos f_pos c (brelse a))
      })"

definition dot :: "u8 list" where "dot = [46]"
definition dotdot :: "u8 list" where "dotdot = [46, 46]"
definition DT_DIR :: u16 where "DT_DIR = 4"

definition akpfs_file_readdir ::
    "'d bdev \<Rightarrow> ('c \<Rightarrow> u8 list \<Rightarrow> nat \<Rightarrow> u32 \<Rightarrow> u16 \<Rightarrow> int + 'c) \<Rightarrow> u32 \<Rightarrow> u32 \<Rightarrow> nat \<Rightarrow> 'c \<Rightarrow> 'd akp
     \<Rightarrow> (int \<times> nat \<times> 'c \<times> 'd akp) option" where
  "akpfs_file_readdir dev filldir i_ino parent_ino f_pos c a =
     (if f_pos \<ge> 2 + AKPFS_MAX_ENTRIES_PER_DIR then Some (0, f_pos, c, a)
      else case (if f_pos = 0 then (case filldir c dot f_pos i_ino DT_DIR of Inl r \<Rightarrow> Inl r | Inr c \<Rightarrow> Inr (f_pos + 1, c))
                 else Inr (f_pos, c)) of
        Inl r \<Rightarrow> Some (r, f_pos, c, a)
      | Inr (f_pos, c) \<Rightarrow>
          (case (if f_pos = 1 then (case filldir c dotdot f_pos parent_ino DT_DIR of Inl r \<Rightarrow> Inl r | Inr c \<Rightarrow> Inr (f_pos + 1, c))
                 else Inr (f_pos, c)) of
             Inl r \<Rightarrow> Some (r, f_pos, c, a)
           | Inr (f_pos, c) \<Rightarrow> do {
               (r, a) \<leftarrow> akpfs_get_inode dev a i_ino;
               (case r of
                  None \<Rightarrow> Some (- EIO, f_pos, c, a)
                | Some i \<Rightarrow> dir_loop dev filldir (dir_entries i) 1 f_pos c a)
             }))"

text \<open>
  \<open>dir_emit\<close> and \<open>dir_emit_dots\<close> answer whether the entry fitted; \<open>dots f_pos c\<close> is the new
  position and buffer, with the flag of \<open>dir_emit_dots\<close>.
\<close>

definition akpfs_file_iterate ::
    "'d bdev \<Rightarrow> (nat \<Rightarrow> 'c \<Rightarrow> bool \<times> nat \<times> 'c) \<Rightarrow> ('c \<Rightarrow> u8 list \<Rightarrow> u32 \<Rightarrow> u16 \<Rightarrow> 'c option) \<Rightarrow> u32 \<Rightarrow> nat \<Rightarrow> 'c \<Rightarrow> 'd akp
     \<Rightarrow> (int \<times> nat \<times> 'c \<times> 'd akp) option" where
  "akpfs_file_iterate dev dots emit i_ino ctx_pos c a =
     (if ctx_pos \<ge> 2 + AKPFS_MAX_ENTRIES_PER_DIR then Some (0, ctx_pos, c, a)
      else case dots ctx_pos c of
        (False, ctx_pos, c) \<Rightarrow> Some (- ENOSPC, ctx_pos, c, a)
      | (True, ctx_pos, c) \<Rightarrow> do {
          (r, a) \<leftarrow> akpfs_get_inode dev a i_ino;
          (case r of
             None \<Rightarrow> Some (- EIO, ctx_pos, c, a)
           | Some i \<Rightarrow> dir_loop dev
               (\<lambda>c n pos e t. case emit c n e t of None \<Rightarrow> Inl (- ENOSPC) | Some c \<Rightarrow> Inr c) (dir_entries i) 1 ctx_pos c a)
        })"

section \<open>Mounting\<close>

text \<open>
  The kernel's super block as far as the module uses it: the private pointer, whether the
  structure it points to is allocated, whether a root is attached, and the references to the root
  inode.
\<close>

record 'd akp_super =
  vol :: "'d akp"
  s_fs_info :: bool
  info_allocated :: bool
  s_root :: bool
  root_refs :: int

text \<open>
  \<open>mem\<close>: whether \<open>kzalloc\<close> returned memory; \<open>dev0\<close>: the buffer cache with the block size before
  \<open>sb_min_blocksize\<close>; \<open>min_blocksize\<close>: the block size that call sets; \<open>iget\<close>: the result of
  \<open>iget_locked\<close> for the root; \<open>made_root\<close>: whether \<open>d_make_root\<close> succeeded, which takes over the
  reference to the inode and otherwise drops it.
\<close>

definition akpfs_fill_super ::
    "'d bdev \<Rightarrow> 'd bdev \<Rightarrow> bool \<Rightarrow> (nat \<Rightarrow> nat) \<Rightarrow> iget \<Rightarrow> bool \<Rightarrow> 'd akp_super \<Rightarrow> (int \<times> 'd akp_super) option" where
  "akpfs_fill_super dev0 dev mem min_blocksize iget made_root s =
     (if \<not> mem then Some (- ENOMEM, s)
      else let s = s\<lparr>info_allocated := True\<rparr>;
               drop_info = (\<lambda>s. s\<lparr>vol := brelse (vol s), info_allocated := False\<rparr>);
               iput = (\<lambda>s. s\<lparr>root_refs := root_refs s - 1\<rparr>) in
      case sb_bread dev0 0 (vol s) of
        (None, a) \<Rightarrow> Some (- EIO, s\<lparr>info_allocated := False\<rparr>)
      | (Some b_data, a) \<Rightarrow> do {
          bs \<leftarrow> mem_read b_data 0 44;
          let s = s\<lparr>vol := a\<lparr>asb := asb_of_bytes bs\<rparr>\<rparr>;
          if fs_type (asb (vol s)) \<noteq> AKPFS_SUPER_MAGIC then Some (- EINVAL, drop_info s)
          else let s = s\<lparr>s_fs_info := True\<rparr> in
            if min_blocksize (unat (block_size (asb (vol s)))) \<noteq> unat (block_size (asb (vol s)))
            then Some (- EINVAL, drop_info s)
            else do {
              (err, s) \<leftarrow>
                (case iget of
                   Iget_fail \<Rightarrow> Some (- EACCES, s)
                 | Iget_cached \<Rightarrow> Some (0, s\<lparr>root_refs := root_refs s + 1\<rparr>)
                 | Iget_new \<Rightarrow> do {
                     let s = s\<lparr>root_refs := root_refs s + 1\<rparr>;
                     (r, a) \<leftarrow> akpfs_get_inode dev (vol s) (root_inode (asb (vol s)));
                     Some (case r of
                        None \<Rightarrow> (- EIO, iput s)
                      | Some i \<Rightarrow> let s = s\<lparr>vol := brelse a\<rparr> in
                          if same_name (file_name i) [47] then (0, s) else (- EINVAL, iput s))
                   });
              if err < 0 then Some (err, drop_info (s\<lparr>s_fs_info := False\<rparr>))
              else if \<not> made_root then Some (- ENOMEM, drop_info ((iput (iput s))\<lparr>s_fs_info := False\<rparr>))
              else Some (0, s\<lparr>s_root := True\<rparr>)
            }
        })"

text \<open>The part of \<open>akpfs_kill_sb\<close> before \<open>kill_block_super\<close>: a pointer to freed memory has no value.\<close>

definition akpfs_kill_sb :: "'d akp_super \<Rightarrow> 'd akp_super option" where
  "akpfs_kill_sb s =
     (if \<not> s_fs_info s then Some s
      else if \<not> info_allocated s then None
      else Some (s\<lparr>vol := brelse (vol s), info_allocated := False\<rparr>))"

end
