(* ===== verification/Akpfs_Vol.thy ===== *)
theory Akpfs_Vol
  imports Akpfs
begin

text \<open>
  A mounted AKP volume seen abstractly: the inode with a given number and the used flag of a
  block, the layout that makes both meaningful, and what the operations of the module do to
  them. The bitmap scan is shown to be the search for the first unused block.
\<close>

section \<open>Layout and views\<close>

definition bs_of :: "'d bdev \<Rightarrow> nat" where
  "bs_of dev = unat (bd_block_size dev)"

definition akp_layout :: "nat \<Rightarrow> nat \<Rightarrow> akpfs_sb \<Rightarrow> bool" where
  "akp_layout bs n s \<longleftrightarrow>
     0 < bs \<and> 0 < unat (inodes_per_block s) \<and> 128 * unat (inodes_per_block s) \<le> bs \<and>
     unat (free_bits_per_block s) = 8 * bs \<and> unat (block_size s) = bs \<and> 0 < unat (inodes_block_start s) \<and>
     unat (inodes_block_start s) + unat (inodes_block_cnt s) \<le> unat (free_bits_block_start s) \<and>
     unat (free_bits_block_start s) + unat (free_bits_block_cnt s) \<le> unat (data_block_start s) \<and>
     data_block_start s \<le> block_cnt s \<and> unat (block_cnt s) \<le> n \<and>
     unat (block_cnt s) \<le> unat (free_bits_block_cnt s) * (8 * bs) \<and>
     unat (free_bits_block_cnt s) * (8 * bs) < 2 ^ 32"

definition akp_ok :: "'d bdev \<Rightarrow> ('d \<Rightarrow> nat) \<Rightarrow> ('d \<Rightarrow> bool) \<Rightarrow> 'd akp \<Rightarrow> bool" where
  "akp_ok dev nblk ok a \<longleftrightarrow> ok (adev a) \<and> akp_layout (bs_of dev) (nblk (adev a)) (asb a)"

definition inodes :: "akpfs_sb \<Rightarrow> nat" where
  "inodes s = unat (inodes_block_cnt s) * unat (inodes_per_block s)"

definition inode_at :: "'d bdev \<Rightarrow> 'd akp \<Rightarrow> u32 \<Rightarrow> akpfs_inode" where
  "inode_at dev a ino =
     inode_of_bytes (case peek dev (adev a) (inode_block (asb a) ino) (inode_off (asb a) ino) 128 of None \<Rightarrow> [] | Some bs \<Rightarrow> bs)"

definition bm_block :: "'d bdev \<Rightarrow> 'd akp \<Rightarrow> nat \<Rightarrow> u8 list" where
  "bm_block dev a bi = (case bread dev (adev a) (unat (free_bits_block_start (asb a)) + bi) of None \<Rightarrow> [] | Some bs \<Rightarrow> bs)"

definition blk_used :: "'d bdev \<Rightarrow> 'd akp \<Rightarrow> nat \<Rightarrow> bool" where
  "blk_used dev a n \<longleftrightarrow> bit (bm_block dev a (n div (8 * bs_of dev)) ! (n mod (8 * bs_of dev) div 8)) (n mod 8)"

section \<open>Bytes with a free bit\<close>

lemma all_bits_ones: "(\<forall>i<8. bit (x :: u8) i) \<longleftrightarrow> x = 0xFF"
proof -
  have f: "(0xFF :: u8) = - 1" by simp
  show ?thesis unfolding f by (auto intro!: bit_word_eqI)
qed

lemma free_bit_ok:
  assumes "x \<noteq> 0xFF"
  shows "free_bit x < 8" and "\<not> bit x (free_bit x)" and "i < free_bit x \<Longrightarrow> bit x i"
proof -
  obtain i where i: "find (\<lambda>i. \<not> bit x i) [0..<8] = Some i"
    using assms all_bits_ones [of x] by (cases "find (\<lambda>i. \<not> bit x i) [0..<8]") (auto simp: find_None_iff)
  then have e: "free_bit x = i" by (simp add: free_bit_def)
  from i show "free_bit x < 8" "\<not> bit x (free_bit x)" unfolding e by (auto simp: find_Some_iff)
  from i show "j < free_bit x \<Longrightarrow> bit x j" for j unfolding e by (auto simp: find_Some_iff)
qed

lemma scan_bytes_find:
  "(\<forall>ec\<in>set ecs. ec < length m) \<Longrightarrow> scan_bytes m ecs = Some (find (\<lambda>ec. m ! ec \<noteq> 0xFF) ecs)"
  by (induction ecs) (auto simp: arr_get_in)

text \<open>Block number \<open>8 * (bi * bs + ec) + i\<close> is bit \<open>i\<close> of byte \<open>ec\<close> of the bitmap's block \<open>bi\<close>.\<close>

lemma bit_address:
  fixes ec bs bi i :: nat
  assumes "ec < bs" "i < 8"
  shows "(bi * (8 * bs) + ec * 8 + i) div (8 * bs) = bi" and "(bi * (8 * bs) + ec * 8 + i) mod (8 * bs) div 8 = ec"
    and "(bi * (8 * bs) + ec * 8 + i) mod 8 = i"
proof -
  have "ec * 8 + i < 8 * bs" using assms by linarith
  then show "(bi * (8 * bs) + ec * 8 + i) div (8 * bs) = bi" and m: "(bi * (8 * bs) + ec * 8 + i) mod (8 * bs) div 8 = ec"
    using assms by (simp_all add: add.assoc)
  have e: "bi * (8 * bs) + ec * 8 + i = (bi * bs + ec) * 8 + i" by (simp add: algebra_simps)
  show "(bi * (8 * bs) + ec * 8 + i) mod 8 = i" unfolding e using assms(2) by (simp only: mod_mult_self3 mod_less)
qed

lemma bit_address_ex:
  fixes n bs :: nat
  assumes "0 < bs"
  obtains bi ec i where "n = bi * (8 * bs) + ec * 8 + i" "ec < bs" "i < 8" "bi = n div (8 * bs)"
proof -
  let ?r = "n mod (8 * bs)"
  have "?r < 8 * bs" using assms by simp
  then have "?r div 8 < bs" by (simp add: less_mult_imp_div_less mult.commute)
  moreover have "n = n div (8 * bs) * (8 * bs) + ?r div 8 * 8 + ?r mod 8"
    by (metis add.assoc div_mult_mod_eq)
  ultimately show thesis using that [of "n div (8 * bs)" "?r div 8" "?r mod 8"] by simp
qed

text \<open>The result of scanning blocks \<open>k\<close> to \<open>c\<close> of a bitmap with \<open>K\<close> bytes per block.\<close>

definition scanned :: "nat \<Rightarrow> nat \<Rightarrow> (nat \<Rightarrow> u8 list) \<Rightarrow> nat \<Rightarrow> bm_scan \<Rightarrow> bool" where
  "scanned K c m k r \<longleftrightarrow>
     (case r of
        Bm_error \<Rightarrow> False
      | Bm_none \<Rightarrow> \<forall>b\<in>{k..<c}. \<forall>e<K. m b ! e = 0xFF
      | Bm_found bi bm ec \<Rightarrow> k \<le> bi \<and> bi < c \<and> bm = m bi \<and> ec < K \<and> m bi ! ec \<noteq> 0xFF \<and>
          (\<forall>b\<in>{k..<bi}. \<forall>e<K. m b ! e = 0xFF) \<and> (\<forall>e<ec. m bi ! e = 0xFF))"

lemma scanned_Suc:
  assumes r: "scanned K c m (Suc k) r" and k: "k < c" and z: "\<forall>e<K. m k ! e = 0xFF"
  shows "scanned K c m k r"
proof -
  have ins: "{k..<x} = insert k {Suc k..<x}" if "k < x" for x using that by auto
  show ?thesis
  proof (cases r)
    case (Bm_found bi bm ec)
    with r ins [of bi] z show ?thesis by (simp add: scanned_def)
  next
    case Bm_none
    with r ins [OF k] z show ?thesis by (simp add: scanned_def)
  qed (use r in \<open>simp add: scanned_def\<close>)
qed

section \<open>Operations on a laid-out volume\<close>

context buffer_cache
begin

abbreviation volume_ok :: "'d akp \<Rightarrow> bool" where
  "volume_ok a \<equiv> akp_ok dev nblk ok a"

lemma layout:
  assumes "volume_ok a"
  shows "ok (adev a)" and "0 < bs_of dev" and "0 < unat (inodes_per_block (asb a))"
    and "128 * unat (inodes_per_block (asb a)) \<le> bs_of dev" and "unat (free_bits_per_block (asb a)) = 8 * bs_of dev"
    and "unat (inodes_block_start (asb a)) + unat (inodes_block_cnt (asb a)) \<le> unat (free_bits_block_start (asb a))"
    and "unat (free_bits_block_start (asb a)) + unat (free_bits_block_cnt (asb a)) \<le> unat (data_block_start (asb a))"
    and "unat (data_block_start (asb a)) \<le> unat (block_cnt (asb a))" and "unat (block_cnt (asb a)) \<le> nblk (adev a)"
    and "unat (block_cnt (asb a)) \<le> unat (free_bits_block_cnt (asb a)) * (8 * bs_of dev)"
    and "unat (free_bits_block_cnt (asb a)) * (8 * bs_of dev) < 2 ^ 32"
  using assms by (simp_all add: akp_ok_def akp_layout_def word_le_nat_alt)

lemma inode_place:
  assumes a: "volume_ok a" and i: "unat ino < inodes (asb a)"
  shows "inode_block (asb a) ino = unat (inodes_block_start (asb a)) + unat ino div unat (inodes_per_block (asb a))"
    and "inode_block (asb a) ino < unat (free_bits_block_start (asb a))" and "inode_block (asb a) ino < nblk (adev a)"
    and "inode_off (asb a) ino + 128 \<le> bs_of dev"
proof -
  note l = layout [OF a]
  let ?q = "unat ino div unat (inodes_per_block (asb a))"
  have q: "?q < unat (inodes_block_cnt (asb a))" using i unfolding inodes_def by (simp add: less_mult_imp_div_less)
  then have lt: "unat (inodes_block_start (asb a)) + ?q < unat (free_bits_block_start (asb a))" using l(6) by linarith
  also have "\<dots> < 2 ^ 32" by (rule unat_u32)
  finally show e: "inode_block (asb a) ino = unat (inodes_block_start (asb a)) + ?q"
    by (simp add: inode_block_def unat_word_ariths unat_div)
  show "inode_block (asb a) ino < unat (free_bits_block_start (asb a))" unfolding e by (rule lt)
  then show "inode_block (asb a) ino < nblk (adev a)" using l(7-9) by linarith
  have "unat ino mod unat (inodes_per_block (asb a)) < unat (inodes_per_block (asb a))" using l(3) by simp
  then show "inode_off (asb a) ino + 128 \<le> bs_of dev" using l(4) by (simp add: inode_off_def unat_mod)
qed

lemma akpfs_get_inode_ok:
  assumes a: "volume_ok a" and i: "unat ino < inodes (asb a)"
  shows "akpfs_get_inode dev a ino = Some (Some (inode_at dev a ino), a\<lparr>refs := refs a + 1\<rparr>)"
proof -
  note l = layout [OF a] and p = inode_place [OF a i]
  obtain bs where bs: "bread dev (adev a) (inode_block (asb a) ino) = Some bs" "length bs = bs_of dev"
    using bread_ok [OF l(1) p(3)] by (auto simp: bs_of_def)
  have "inodes_per_block (asb a) \<noteq> 0" using l(3) by auto
  with bs p(4) show ?thesis
    by (simp add: akpfs_get_inode_def sb_bread_def inode_at_def peek_def mem_simps)
qed

lemma bm_block_ok:
  assumes a: "volume_ok a" and bi: "bi < unat (free_bits_block_cnt (asb a))"
  shows "bread dev (adev a) (unat (free_bits_block_start (asb a) + of_nat bi)) = Some (bm_block dev a bi)"
    and "length (bm_block dev a bi) = bs_of dev"
    and "unat (free_bits_block_start (asb a) + of_nat bi) = unat (free_bits_block_start (asb a)) + bi"
    and "unat (free_bits_block_start (asb a)) + bi < nblk (adev a)"
proof -
  note l = layout [OF a]
  have lt: "unat (free_bits_block_start (asb a)) + bi < unat (data_block_start (asb a))" using l(7) bi by linarith
  also have "\<dots> < 2 ^ 32" by (rule unat_u32)
  finally show e: "unat (free_bits_block_start (asb a) + of_nat bi) = unat (free_bits_block_start (asb a)) + bi"
    using bi by (simp add: unat_word_ariths unat_of_nat_small)
  show n: "unat (free_bits_block_start (asb a)) + bi < nblk (adev a)" using lt l(8,9) by linarith
  from bread_ok [OF l(1) n] show "bread dev (adev a) (unat (free_bits_block_start (asb a) + of_nat bi)) = Some (bm_block dev a bi)"
      and "length (bm_block dev a bi) = bs_of dev"
    unfolding e by (auto simp: bm_block_def bs_of_def)
qed

text \<open>What the scan of the bitmap's blocks from block \<open>k\<close> on finds.\<close>

lemma scan_blocks_ok:
  assumes "volume_ok a" and "k \<le> unat (free_bits_block_cnt (asb a))"
  shows "\<exists>r. scan_blocks dev [k..<unat (free_bits_block_cnt (asb a))] a =
       Some (r, if r = Bm_none then a else a\<lparr>refs := refs a + 1\<rparr>) \<and>
     scanned (bs_of dev) (unat (free_bits_block_cnt (asb a))) (bm_block dev a) k r"
  using assms
proof (induction "unat (free_bits_block_cnt (asb a)) - k" arbitrary: k)
  case 0
  then show ?case by (simp add: scanned_def)
next
  case (Suc n)
  let ?c = "unat (free_bits_block_cnt (asb a))" and ?m = "bm_block dev a k" and ?K = "bs_of dev"
  have k: "k < ?c" using Suc.hyps(2) by simp
  note b = bm_block_ok [OF Suc.prems(1) k]
  have up: "[k..<?c] = k # [Suc k..<?c]" using k by (simp add: upt_conv_Cons)
  have sc: "scan_bytes ?m [0..<?K] = Some (find (\<lambda>ec. ?m ! ec \<noteq> 0xFF) [0..<?K])"
    using b(2) by (intro scan_bytes_find) simp
  have K: "unat (free_bits_per_block (asb a)) div 8 = ?K" using layout(5) [OF Suc.prems(1)] by simp
  show ?case
  proof (cases "find (\<lambda>ec. ?m ! ec \<noteq> 0xFF) [0..<?K]")
    case (Some ec)
    then have ec: "ec < ?K" "?m ! ec \<noteq> 0xFF" "\<forall>e<ec. ?m ! e = 0xFF" by (auto simp: find_Some_iff)
    have "scan_blocks dev [k..<?c] a = Some (Bm_found k ?m ec, a\<lparr>refs := refs a + 1\<rparr>)"
      using b(1) sc Some K by (simp add: up sb_bread_def)
    with ec k show ?thesis by (intro exI [of _ "Bm_found k ?m ec"]) (simp add: scanned_def)
  next
    case None
    then have z: "\<forall>e<?K. ?m ! e = 0xFF" by (auto simp: find_None_iff)
    have st: "scan_blocks dev [k..<?c] a = scan_blocks dev [Suc k..<?c] a"
      using b(1) sc None K by (simp add: up sb_bread_def brelse_def)
    have "n = ?c - Suc k" "Suc k \<le> ?c" using Suc.hyps(2) k by simp_all
    from Suc.hyps(1) [OF this(1) Suc.prems(1) this(2)] obtain r where
      r: "scan_blocks dev [Suc k..<?c] a = Some (r, if r = Bm_none then a else a\<lparr>refs := refs a + 1\<rparr>)"
        "scanned ?K ?c (bm_block dev a) (Suc k) r"
      by blast
    have "scanned ?K ?c (bm_block dev a) k r" using scanned_Suc [OF r(2) k z] .
    with r(1) st show ?thesis by auto
  qed
qed

text \<open>Replacing one byte of the bitmap changes only the eight flags of that byte.\<close>

lemma bm_write:
  fixes x :: u8
  assumes a: "volume_ok a" and bi: "bi < unat (free_bits_block_cnt (asb a))" and ec: "ec < bs_of dev"
  defines "a' \<equiv> a\<lparr>adev := bwrite dev (adev a) (unat (free_bits_block_start (asb a) + of_nat bi)) ((bm_block dev a bi)[ec := x])\<rparr>"
  shows "volume_ok a'" and "bm_block dev a' b = (if b = bi then (bm_block dev a bi)[ec := x] else bm_block dev a b)"
    and "c \<noteq> unat (free_bits_block_start (asb a)) + bi \<Longrightarrow> bread dev (adev a') c = bread dev (adev a) c"
proof -
  note l = layout [OF a] and b = bm_block_ok [OF a bi]
  have len: "length ((bm_block dev a bi)[ec := x]) = unat (bd_block_size dev)" using b(2) by (simp add: bs_of_def)
  note w = bread_bwrite [OF l(1) b(4) len] bwrite_ok [OF l(1) b(4) len] bwrite_nblk [OF l(1) b(4) len]
  show "volume_ok a'" using a w(2,3) b(3) by (simp add: a'_def akp_ok_def)
  show "c \<noteq> unat (free_bits_block_start (asb a)) + bi \<Longrightarrow> bread dev (adev a') c = bread dev (adev a) c"
    using w(1) b(3) by (simp add: a'_def)
  show "bm_block dev a' b = (if b = bi then (bm_block dev a bi)[ec := x] else bm_block dev a b)"
    using w(1) b(3) by (simp add: a'_def bm_block_def)
qed

lemma blk_used_at:
  assumes "ec < bs_of dev" "i < 8"
  shows "blk_used dev a (bi * (8 * bs_of dev) + ec * 8 + i) \<longleftrightarrow> bit (bm_block dev a bi ! ec) i"
  unfolding blk_used_def bit_address [OF assms] ..

lemma bm_write_used:
  assumes a: "volume_ok a" and bi: "bi < unat (free_bits_block_cnt (asb a))" and ec: "ec < bs_of dev" and i: "i < 8"
    and x: "\<And>j. j < 8 \<Longrightarrow> bit x j = (if j = i then v else bit (bm_block dev a bi ! ec) j)"
  defines "a' \<equiv> a\<lparr>adev := bwrite dev (adev a) (unat (free_bits_block_start (asb a) + of_nat bi)) ((bm_block dev a bi)[ec := x])\<rparr>"
  shows "blk_used dev a' n = (if n = bi * (8 * bs_of dev) + ec * 8 + i then v else blk_used dev a n)"
proof -
  note w = bm_write [OF a bi ec, where x = x, folded a'_def]
  obtain bi' ec' i' where n: "n = bi' * (8 * bs_of dev) + ec' * 8 + i'" "ec' < bs_of dev" "i' < 8"
    using bit_address_ex [OF layout(2) [OF a], of n] by metis
  have eq: "n = bi * (8 * bs_of dev) + ec * 8 + i \<longleftrightarrow> bi' = bi \<and> ec' = ec \<and> i' = i"
    using bit_address [OF n(2,3), of bi'] bit_address [OF ec i, of bi] n(1) by metis
  have "blk_used dev a' n = bit (bm_block dev a' bi' ! ec') i'" unfolding n(1) by (rule blk_used_at [OF n(2,3)])
  also have "\<dots> = (if bi' = bi \<and> ec' = ec \<and> i' = i then v else bit (bm_block dev a bi' ! ec') i')"
    using w(2) x [OF n(3)] bm_block_ok(2) [OF a bi] ec n(2) by (auto simp: nth_list_update)
  also have "bit (bm_block dev a bi' ! ec') i' = blk_used dev a n" unfolding n(1) by (rule blk_used_at [OF n(2,3), symmetric])
  finally show ?thesis unfolding eq .
qed

lemma first_free:
  assumes a: "volume_ok a" and s: "scanned (bs_of dev) (unat (free_bits_block_cnt (asb a))) (bm_block dev a) 0 (Bm_found bi bm ec)"
  defines "n \<equiv> bi * (8 * bs_of dev) + ec * 8 + free_bit (bm ! ec)"
  shows "\<not> blk_used dev a n" and "\<forall>m<n. blk_used dev a m" and "n < 2 ^ 32"
proof -
  have f: "bi < unat (free_bits_block_cnt (asb a))" "bm = bm_block dev a bi" "ec < bs_of dev" "bm ! ec \<noteq> 0xFF"
      "\<forall>b<bi. \<forall>e<bs_of dev. bm_block dev a b ! e = 0xFF" "\<forall>e<ec. bm_block dev a bi ! e = 0xFF"
    using s by (auto simp: scanned_def)
  note fb = free_bit_ok [OF f(4)]
  show "\<not> blk_used dev a n" unfolding n_def blk_used_at [OF f(3) fb(1)] using fb(2) f(2) by simp
  have "n < Suc bi * (8 * bs_of dev)" unfolding n_def using f(3) fb(1) by simp
  also have "\<dots> \<le> unat (free_bits_block_cnt (asb a)) * (8 * bs_of dev)" using f(1) by (intro mult_le_mono1) simp
  finally show "n < 2 ^ 32" using layout(11) [OF a] by linarith
  show "\<forall>m<n. blk_used dev a m"
  proof (intro allI impI)
    fix m assume m: "m < n"
    obtain b e i where d: "m = b * (8 * bs_of dev) + e * 8 + i" "e < bs_of dev" "i < 8"
      using bit_address_ex [OF layout(2) [OF a], of m] by metis
    have "b \<le> bi" using div_le_mono [OF less_imp_le [OF m], of "8 * bs_of dev"]
      unfolding n_def d(1) bit_address(1) [OF d(2,3)] bit_address(1) [OF f(3) fb(1)] .
    moreover have "b = bi \<Longrightarrow> e < ec \<or> e = ec \<and> i < free_bit (bm ! ec)" using m d fb(1) unfolding n_def by simp linarith
    ultimately consider "b < bi" | "b = bi" "e < ec" | "b = bi" "e = ec" "i < free_bit (bm ! ec)" by linarith
    then have "bit (bm_block dev a b ! e) i"
      using f(2,5,6) fb(3) d(2,3) all_bits_ones by cases metis+
    then show "blk_used dev a m" unfolding d(1) blk_used_at [OF d(2,3)] .
  qed
qed

lemma find_least: "\<not> P n \<Longrightarrow> \<forall>m<n. P m \<Longrightarrow> n < c \<Longrightarrow> find (\<lambda>n. \<not> P n) [0..<c] = Some n"
  by (auto simp: find_Some_iff intro!: exI [of _ n])

text \<open>
  The state after an operation on the bitmap that was asked to set the flag of \<open>n\<close> to \<open>v\<close>:
  only that flag differs, and no block outside the bitmap does.
\<close>

definition bm_changed :: "'d akp \<Rightarrow> nat \<Rightarrow> bool \<Rightarrow> 'd akp \<Rightarrow> bool" where
  "bm_changed a n v a' \<longleftrightarrow> volume_ok a' \<and> asb a' = asb a \<and> refs a' = refs a \<and>
     (\<forall>m. blk_used dev a' m = (if m = n then v else blk_used dev a m)) \<and>
     (\<forall>c. (c < unat (free_bits_block_start (asb a)) \<or> unat (data_block_start (asb a)) \<le> c) \<longrightarrow>
        bread dev (adev a') c = bread dev (adev a) c)"

lemma bm_changed_write:
  assumes a: "volume_ok a" and bi: "bi < unat (free_bits_block_cnt (asb a))" and ec: "ec < bs_of dev" and i: "i < 8"
    and x: "\<And>j. j < 8 \<Longrightarrow> bit x j = (if j = i then v else bit (bm_block dev a bi ! ec) j)"
  shows "bm_changed a (bi * (8 * bs_of dev) + ec * 8 + i) v
     (a\<lparr>adev := bwrite dev (adev a) (unat (free_bits_block_start (asb a) + of_nat bi)) ((bm_block dev a bi)[ec := x])\<rparr>)"
proof -
  have "c \<noteq> unat (free_bits_block_start (asb a)) + bi"
    if "c < unat (free_bits_block_start (asb a)) \<or> unat (data_block_start (asb a)) \<le> c" for c
    using that layout(7) [OF a] bi by linarith
  with bm_write(1,3) [OF a bi ec] bm_write_used [OF a bi ec i x] show ?thesis unfolding bm_changed_def by simp
qed

lemma akpfs_get_free_block_ok:
  assumes a: "volume_ok a"
  shows "case find (\<lambda>n. \<not> blk_used dev a n) [0..<unat (block_cnt (asb a))] of
     None \<Rightarrow> akpfs_get_free_block dev a = Some (0, a)
   | Some n \<Rightarrow> \<exists>a'. akpfs_get_free_block dev a = Some (of_nat n, a') \<and> bm_changed a n True a'"
proof -
  let ?c = "unat (free_bits_block_cnt (asb a))" and ?P = "blk_used dev a"
  obtain r where r: "scan_blocks dev [0..<?c] a = Some (r, if r = Bm_none then a else a\<lparr>refs := refs a + 1\<rparr>)"
      "scanned (bs_of dev) ?c (bm_block dev a) 0 r"
    using scan_blocks_ok [OF a, of 0] by auto
  show ?thesis
  proof (cases r)
    case Bm_error
    with r(2) show ?thesis by (simp add: scanned_def)
  next
    case Bm_none
    have "?P n" if "n < unat (block_cnt (asb a))" for n
    proof -
      obtain b e i where d: "n = b * (8 * bs_of dev) + e * 8 + i" "e < bs_of dev" "i < 8" "b = n div (8 * bs_of dev)"
        using bit_address_ex [OF layout(2) [OF a], of n] by metis
      have "n < ?c * (8 * bs_of dev)" using that layout(10) [OF a] by linarith
      then have "b < ?c" unfolding d(4) by (rule less_mult_imp_div_less)
      then have "bm_block dev a b ! e = 0xFF" using r(2) Bm_none d(2) by (simp add: scanned_def)
      then show ?thesis unfolding d(1) blk_used_at [OF d(2,3)] using all_bits_ones d(3) by metis
    qed
    then have "find (\<lambda>n. \<not> ?P n) [0..<unat (block_cnt (asb a))] = None" by (auto simp: find_None_iff)
    with r Bm_none show ?thesis by (simp add: akpfs_get_free_block_def)
  next
    case (Bm_found bi bm ec)
    then have f: "bi < ?c" "bm = bm_block dev a bi" "ec < bs_of dev" "bm ! ec \<noteq> 0xFF"
      using r(2) by (simp_all add: scanned_def)
    note ff = first_free [OF a r(2) [unfolded Bm_found]] and fb = free_bit_ok [OF f(4)]
    let ?n = "bi * (8 * bs_of dev) + ec * 8 + free_bit (bm ! ec)"
    let ?w = "of_nat bi * free_bits_per_block (asb a) + of_nat ec * 8 + of_nat (free_bit (bm ! ec)) :: u32"
    have fp: "free_bits_per_block (asb a) = of_nat (8 * bs_of dev)" using layout(5) [OF a] by (metis unat_of_nat word_nat_cases of_nat_unat ucast_id)
    then have w: "?w = of_nat ?n" by simp
    have un: "unat ?w = ?n" unfolding w by (rule unat_of_nat_small) (use ff(3) in simp)
    have ex: "arr_get bm ec = Some (bm ! ec)" using f(2,3) bm_block_ok(2) [OF a f(1)] by (simp add: arr_get_in)
    show ?thesis
    proof (cases "?n < unat (block_cnt (asb a))")
      case True
      have fd: "find (\<lambda>n. \<not> ?P n) [0..<unat (block_cnt (asb a))] = Some ?n" using ff(1,2) True by (rule find_least)
      let ?a = "a\<lparr>adev := bwrite dev (adev a) (unat (free_bits_block_start (asb a) + of_nat bi))
                   ((bm_block dev a bi)[ec := bm ! ec OR push_bit (free_bit (bm ! ec)) 1])\<rparr>"
      have "bm_changed a ?n True ?a"
        using fb(1) f(2) by (intro bm_changed_write [OF a f(1,3)]) (auto simp: bit_or_iff bit_push_bit_iff bit_1_iff bit_exp_iff)
      moreover have "akpfs_get_free_block dev a = Some (of_nat ?n, ?a)"
        using r(1) Bm_found True fb(1) ex un w f(2,3) bm_block_ok(2) [OF a f(1)]
        by (simp add: akpfs_get_free_block_def brelse_def arr_set_in word_le_nat_alt Let_def)
      ultimately show ?thesis using fd by auto
    next
      case False
      then have "find (\<lambda>n. \<not> ?P n) [0..<unat (block_cnt (asb a))] = None" using ff(2) by (auto simp: find_None_iff)
      moreover have "akpfs_get_free_block dev a = Some (0, a)"
        using r(1) Bm_found False ex un by (simp add: akpfs_get_free_block_def brelse_def word_le_nat_alt Let_def)
      ultimately show ?thesis by simp
    qed
  qed
qed

lemma akpfs_put_free_block_ok:
  assumes a: "volume_ok a" and n: "n < block_cnt (asb a)"
  shows "\<exists>a'. akpfs_put_free_block dev a n = Some (0, a') \<and> bm_changed a (unat n) False a'"
proof -
  let ?f = "free_bits_per_block (asb a)"
  have fu: "unat ?f = 8 * bs_of dev" "?f \<noteq> 0" using layout(5,2) [OF a] by auto
  obtain bi ec i where d: "unat n = bi * (8 * bs_of dev) + ec * 8 + i" "ec < bs_of dev" "i < 8" "bi = unat n div (8 * bs_of dev)"
    using bit_address_ex [OF layout(2) [OF a], of "unat n"] by metis
  have "unat n < unat (free_bits_block_cnt (asb a)) * (8 * bs_of dev)"
    using n layout(10) [OF a] by (simp add: word_less_nat_alt)
  then have bi: "bi < unat (free_bits_block_cnt (asb a))" unfolding d(4) by (rule less_mult_imp_div_less)
  have q: "n div ?f = of_nat bi" by (rule word_unat_eq_iff [THEN iffD2]) (metis d(4) fu(1) unat_div of_nat_unat ucast_id)
  have r: "unat (n mod ?f) div 8 = ec" "unat (n mod ?f) mod 8 = i"
  proof -
    have m: "unat (n mod ?f) = unat n mod (8 * bs_of dev)" unfolding unat_mod fu(1) ..
    show "unat (n mod ?f) div 8 = ec" unfolding m d(1) by (rule bit_address(2) [OF d(2,3)])
    have "unat (n mod ?f) mod 8 = unat n mod 8" unfolding m by (rule mod_mod_cancel) simp
    then show "unat (n mod ?f) mod 8 = i" unfolding d(1) bit_address(3) [OF d(2,3)] .
  qed
  note b = bm_block_ok [OF a bi]
  let ?x = "bm_block dev a bi ! ec"
  have ex: "arr_get (bm_block dev a bi) ec = Some ?x" using d(2) b(2) by (simp add: arr_get_in)
  show ?thesis
  proof (cases "bit ?x i")
    case False
    have "akpfs_put_free_block dev a n = Some (0, a)"
      using n fu(2) b(1) q r ex False by (simp add: akpfs_put_free_block_def sb_bread_def brelse_def not_le Let_def)
    moreover have "\<not> blk_used dev a (unat n)" unfolding d(1) blk_used_at [OF d(2,3)] using False .
    ultimately show ?thesis using a by (auto simp: bm_changed_def)
  next
    case True
    let ?a = "a\<lparr>adev := bwrite dev (adev a) (unat (free_bits_block_start (asb a) + of_nat bi))
                 ((bm_block dev a bi)[ec := ?x AND NOT (push_bit i 1)])\<rparr>"
    have "bm_changed a (unat n) False ?a" unfolding d(1)
      by (intro bm_changed_write [OF a bi d(2,3)]) (auto simp: bit_and_iff bit_not_iff bit_push_bit_iff bit_1_iff bit_exp_iff)
    moreover have "akpfs_put_free_block dev a n = Some (0, ?a)"
      using n fu(2) b(1,2) q r ex True d(2) by (simp add: akpfs_put_free_block_def sb_bread_def brelse_def not_le Let_def arr_set_in)
    ultimately show ?thesis by blast
  qed
qed

end

end
