(* ===== verification/Akpfs_Files.thy ===== *)
theory Akpfs_Files
  imports Akpfs_Vol
begin

text \<open>
  The file operations of the AKP module on a laid-out volume: storing an inode, mapping and
  extending a file, truncating it at write-back, and the consistency they keep.
\<close>

section \<open>Inodes in memory\<close>

definition wf_inode :: "akpfs_inode \<Rightarrow> bool" where
  "wf_inode i \<longleftrightarrow> length (file_name i) = 16 \<and> length (file_blocks i) = 27"

lemma length_bytes_of_inode: "wf_inode i \<Longrightarrow> length (bytes_of_inode i) = 128"
  by (simp add: wf_inode_def bytes_of_inode_def)

lemma inode_bytes: "wf_inode i \<Longrightarrow> inode_of_bytes (bytes_of_inode i) = i"
  by (cases i) (simp add: wf_inode_def bytes_of_inode_def inode_of_bytes_def)

lemma wf_inode_of_bytes: "16 \<le> length bs \<Longrightarrow> wf_inode (inode_of_bytes bs)"
  by (simp add: wf_inode_def inode_of_bytes_def)

text \<open>Two inodes in one block do not overlap.\<close>

lemma inode_disjoint:
  assumes "j \<noteq> ino" and "inode_block s j = inode_block s ino"
    and "inode_block s j = unat (inodes_block_start s) + unat j div unat (inodes_per_block s)"
    and "inode_block s ino = unat (inodes_block_start s) + unat ino div unat (inodes_per_block s)"
  shows "inode_off s j + 128 \<le> inode_off s ino \<or> inode_off s ino + 128 \<le> inode_off s j"
proof -
  let ?p = "unat (inodes_per_block s)"
  have "unat j div ?p = unat ino div ?p" using assms(2-4) by simp
  moreover have "unat j \<noteq> unat ino" using assms(1) by (metis word_unat_eq_iff)
  ultimately have "unat j mod ?p \<noteq> unat ino mod ?p" by (metis div_mult_mod_eq)
  then show ?thesis unfolding inode_off_def unat_mod by linarith
qed

lemma foldl_zeros:
  fixes bs :: "u32 list"
  shows "foldl (\<lambda>bs i. bs[i := 0]) bs [k..<length bs] = take k bs @ replicate (length bs - k) 0"
proof (induction "length bs - k" arbitrary: k bs)
  case (Suc n)
  have k: "k < length bs" using Suc.hyps(2) by simp
  have "foldl (\<lambda>bs i. bs[i := 0]) (bs[k := 0]) [Suc k..<length (bs[k := 0])]
      = take (Suc k) (bs[k := 0]) @ replicate (length (bs[k := 0]) - Suc k) 0"
    using Suc.hyps(2) by (intro Suc.hyps(1)) simp
  moreover have "take (Suc k) (bs[k := 0]) = take k bs @ [0]" using k by (simp add: take_Suc_conv_app_nth)
  moreover have "length bs - k = Suc (length bs - Suc k)" using k by simp
  ultimately show ?case using k by (simp add: upt_conv_Cons)
qed simp

context buffer_cache
begin

lemma wf_inode_at:
  assumes a: "volume_ok a" and i: "unat ino < inodes (asb a)"
  shows "wf_inode (inode_at dev a ino)"
proof -
  have "inode_off (asb a) ino + 128 \<le> unat (bd_block_size dev)" using inode_place(4) [OF a i] by (simp add: bs_of_def)
  from peek_ex [OF layout(1) [OF a] inode_place(3) [OF a i] this] show ?thesis
    by (auto simp: inode_at_def intro!: wf_inode_of_bytes)
qed

text \<open>The state after inode \<open>ino\<close> was replaced: nothing else changes.\<close>

definition inode_changed :: "'d akp \<Rightarrow> u32 \<Rightarrow> akpfs_inode \<Rightarrow> 'd akp \<Rightarrow> bool" where
  "inode_changed a ino i a' \<longleftrightarrow> volume_ok a' \<and> asb a' = asb a \<and> refs a' = refs a \<and>
     (\<forall>j. unat j < inodes (asb a) \<longrightarrow> inode_at dev a' j = (if j = ino then i else inode_at dev a j)) \<and>
     blk_used dev a' = blk_used dev a \<and>
     (\<forall>c. unat (free_bits_block_start (asb a)) \<le> c \<longrightarrow> bread dev (adev a') c = bread dev (adev a) c)"

lemma bread_patch_other:
  assumes "ok d" and "b < nblk d" and p: "patch dev d b off bs = Some d'" and "c \<noteq> b"
  shows "bread dev d' c = bread dev d c"
proof -
  obtain blk blk' where blk: "bread dev d b = Some blk" "mem_write blk off bs = Some blk'" "d' = bwrite dev d b blk'"
    using p by (auto simp: patch_def dest!: bind_eq_SomeD)
  have "length blk' = unat (bd_block_size dev)"
    using mem_write_length [OF blk(2)] blk(1) bread_ok [OF assms(1,2)] by auto
  then show ?thesis using assms blk(3) by (simp add: bread_bwrite)
qed

lemma bm_same:
  assumes "asb a' = asb a" and "\<And>c. unat (free_bits_block_start (asb a)) \<le> c \<Longrightarrow> bread dev (adev a') c = bread dev (adev a) c"
  shows "blk_used dev a' = blk_used dev a"
proof -
  have "bm_block dev a' = bm_block dev a" using assms by (intro ext) (simp add: bm_block_def)
  then show ?thesis by (intro ext) (simp add: blk_used_def)
qed

lemma put_inode_ok:
  assumes a: "volume_ok a" and i: "unat ino < inodes (asb a)" and w: "wf_inode i"
  shows "\<exists>a'. put_inode dev a ino i = Some a' \<and> inode_changed a ino i a'"
proof -
  note l = layout [OF a] and p = inode_place [OF a i] and len = length_bytes_of_inode [OF w]
  have fit: "inode_off (asb a) ino + length (bytes_of_inode i) \<le> unat (bd_block_size dev)" using p(4) len by (simp add: bs_of_def)
  obtain d where d: "patch dev (adev a) (inode_block (asb a) ino) (inode_off (asb a) ino) (bytes_of_inode i) = Some d"
      "ok d" "nblk d = nblk (adev a)"
    using patch_ex [OF l(1) p(3) fit] by blast
  let ?a = "a\<lparr>adev := d\<rparr>"
  have v: "volume_ok ?a" using a d(2,3) by (simp add: akp_ok_def)
  have "inode_at dev ?a j = (if j = ino then i else inode_at dev a j)" if j: "unat j < inodes (asb a)" for j
  proof (cases "j = ino")
    case True
    with peek_patch_same [OF l(1) p(3) d(1)] len show ?thesis by (simp add: inode_at_def inode_bytes [OF w])
  next
    case False
    have "inode_block (asb a) j \<noteq> inode_block (asb a) ino \<or> inode_off (asb a) j + 128 \<le> inode_off (asb a) ino \<or>
        inode_off (asb a) ino + length (bytes_of_inode i) \<le> inode_off (asb a) j"
      using inode_disjoint [OF False _ inode_place(1) [OF a j] p(1)] len by auto
    from peek_patch_other [OF l(1) p(3) d(1) this] False show ?thesis by (simp add: inode_at_def)
  qed
  moreover have c: "bread dev (adev ?a) c = bread dev (adev a) c" if "unat (free_bits_block_start (asb a)) \<le> c" for c
    using bread_patch_other [OF l(1) p(3) d(1), of c] that p(2) by simp
  moreover have "blk_used dev ?a = blk_used dev a" using c by (intro bm_same) simp_all
  ultimately have "inode_changed a ino i ?a" using v by (simp add: inode_changed_def)
  with d(1) show ?thesis by (auto simp: put_inode_def)
qed

lemma bm_changed_inodes:
  assumes "volume_ok a" and "bm_changed a n v a'" and "unat j < inodes (asb a)"
  shows "inode_at dev a' j = inode_at dev a j"
proof -
  have "bread dev (adev a') (inode_block (asb a) j) = bread dev (adev a) (inode_block (asb a) j)" "asb a' = asb a"
    using assms(2) inode_place(2) [OF assms(1,3)] by (simp_all add: bm_changed_def)
  then show ?thesis by (simp add: inode_at_def peek_def)
qed

lemma volume_ok_refs [simp]: "volume_ok (a\<lparr>refs := k\<rparr>) = volume_ok a"
  by (simp add: akp_ok_def)

end

lemma views_refs [simp]:
  "inode_at dev (a\<lparr>refs := k\<rparr>) = inode_at dev a" "blk_used dev (a\<lparr>refs := k\<rparr>) = blk_used dev a"
  "adev (brelse a) = adev a" "asb (brelse a) = asb a" "refs (brelse a) = refs a - 1"
  by (auto simp: inode_at_def blk_used_def bm_block_def brelse_def fun_eq_iff)

section \<open>Mapping and truncating files\<close>

context buffer_cache
begin

text \<open>
  The outcome of \<open>akpfs_get_block\<close> on an inode of the volume: an existing block is mapped, a
  missing one is an error unless it is to be created, and then it is the first unused block.
\<close>

lemma akpfs_get_block_ok:
  assumes a: "volume_ok a" and i: "unat ino < inodes (asb a)" and k: "k < 27" and z: "blk_used dev a 0"
  shows "let b = file_blocks (inode_at dev a ino) ! k in
     if b \<noteq> 0 then akpfs_get_block dev a ino k create = Some (0, Some b, a)
     else if \<not> create then akpfs_get_block dev a ino k create = Some (- EIO, None, a)
     else case find (\<lambda>n. \<not> blk_used dev a n) [0..<unat (block_cnt (asb a))] of
       None \<Rightarrow> akpfs_get_block dev a ino k create = Some (- ENOSPC, None, a)
     | Some n \<Rightarrow> \<exists>a1 a2. akpfs_get_block dev a ino k create = Some (0, Some (of_nat n), a2) \<and> bm_changed a n True a1 \<and>
         inode_changed a1 ino ((inode_at dev a ino)\<lparr>file_blocks := (file_blocks (inode_at dev a ino))[k := of_nat n]\<rparr>) a2"
proof -
  let ?i = "inode_at dev a ino" and ?a = "a\<lparr>refs := refs a + 1\<rparr>"
  note gi = akpfs_get_inode_ok [OF a i] and wf = wf_inode_at [OF a i]
  have lb: "length (file_blocks ?i) = 27" using wf by (simp add: wf_inode_def)
  have va: "volume_ok ?a" using a by simp
  have rr: "a\<lparr>refs := refs a + 1 - 1\<rparr> = a" by simp
  show ?thesis
  proof (cases "file_blocks ?i ! k = 0 \<and> create")
    case False
    then show ?thesis using gi k lb by (auto simp: akpfs_get_block_def akp_consts arr_get_in brelse_def Let_def)
  next
    case True
    then have cr: create and b0: "file_blocks ?i ! k = 0" by simp_all
    note fb = akpfs_get_free_block_ok [OF va, unfolded views_refs]
    show ?thesis
    proof (cases "find (\<lambda>n. \<not> blk_used dev a n) [0..<unat (block_cnt (asb a))]")
      case None
      with fb gi k lb cr b0 show ?thesis by (simp add: akpfs_get_block_def akp_consts arr_get_in brelse_def Let_def)
    next
      case (Some n)
      then obtain a1 where a1: "akpfs_get_free_block dev ?a = Some (of_nat n, a1)" "bm_changed ?a n True a1"
        using fb by auto
      have n: "\<not> blk_used dev a n" "n < unat (block_cnt (asb a))" using Some by (auto simp: find_Some_iff)
      have "n < 2 ^ 32" using n(2) unat_u32 [of "block_cnt (asb a)"] by linarith
      then have "unat (of_nat n :: u32) = n" by (intro unat_of_nat_small) simp
      moreover have "n \<noteq> 0" using n(1) z by metis
      ultimately have nz: "(of_nat n :: u32) \<noteq> 0" by (metis unat_0)
      have v1: "volume_ok a1" and e1: "asb a1 = asb a" "refs a1 = refs a + 1" using a1(2) by (simp_all add: bm_changed_def)
      let ?j = "?i\<lparr>file_blocks := (file_blocks ?i)[k := of_nat n]\<rparr>"
      have "wf_inode ?j" using wf by (simp add: wf_inode_def)
      then obtain a2 where a2: "put_inode dev a1 ino ?j = Some a2" "inode_changed a1 ino ?j a2"
        using put_inode_ok [OF v1, of ino ?j] i e1 by auto
      let ?r1 = "a1\<lparr>refs := refs a1 - 1\<rparr>" and ?r2 = "a2\<lparr>refs := refs a2 - 1\<rparr>"
      have "bm_changed a n True ?r1" using a1(2) e1(2) by (simp add: bm_changed_def)
      moreover have "inode_changed ?r1 ino ?j ?r2" using a2(2) by (simp add: inode_changed_def)
      moreover have "akpfs_get_block dev a ino k create = Some (0, Some (of_nat n), ?r2)"
        using gi k lb cr b0 a1(1) a2(1) nz by (simp add: akpfs_get_block_def akp_consts arr_get_in arr_set_in brelse_def Let_def)
      ultimately show ?thesis using Some cr b0 by (auto simp: Let_def)
    qed
  qed
qed

text \<open>The loop of the write-back frees the blocks at the given positions.\<close>

lemma trunc_loop_ok:
  assumes "volume_ok a" and "\<forall>i\<in>set is. i < length blocks \<and> (blocks ! i \<noteq> 0 \<longrightarrow> blocks ! i < block_cnt (asb a))" and "distinct is"
  shows "\<exists>a'. trunc_loop dev is blocks a = Some (foldl (\<lambda>bs i. bs[i := 0]) blocks is, a') \<and> volume_ok a' \<and>
     asb a' = asb a \<and> refs a' = refs a \<and>
     (\<forall>m. blk_used dev a' m \<longleftrightarrow> blk_used dev a m \<and> m \<notin> (\<lambda>i. unat (blocks ! i)) ` {i \<in> set is. blocks ! i \<noteq> 0}) \<and>
     (\<forall>j. unat j < inodes (asb a) \<longrightarrow> inode_at dev a' j = inode_at dev a j)"
  using assms
proof (induction "is" arbitrary: a blocks)
  case Nil
  then show ?case by simp
next
  case (Cons i "is")
  have li: "i < length blocks" using Cons.prems by simp
  show ?case
  proof (cases "blocks ! i = 0")
    case True
    have u: "blocks[i := 0] = blocks" using True by (metis list_update_id)
    have st: "{j \<in> set (i # is). blocks ! j \<noteq> 0} = {j \<in> set is. blocks ! j \<noteq> 0}" using True by auto
    have "trunc_loop dev (i # is) blocks a = trunc_loop dev is blocks a" using True li by (simp add: arr_get_in)
    then show ?thesis using Cons.IH [of a blocks] Cons.prems unfolding st by (simp add: u)
  next
    case False
    have "blocks ! i < block_cnt (asb a)" using Cons.prems(2) False by simp
    from akpfs_put_free_block_ok [OF Cons.prems(1) this] obtain a1 where
      a1: "akpfs_put_free_block dev a (blocks ! i) = Some (0, a1)" "bm_changed a (unat (blocks ! i)) False a1" by blast
    let ?bs = "blocks[i := 0]"
    have ni: "j \<in> set is \<Longrightarrow> ?bs ! j = blocks ! j" for j using Cons.prems(3) by (metis distinct.simps(2) nth_list_update_neq)
    have v1: "volume_ok a1" "asb a1 = asb a" "refs a1 = refs a"
        "\<And>m. blk_used dev a1 m = (if m = unat (blocks ! i) then False else blk_used dev a m)"
      using a1(2) by (simp_all add: bm_changed_def)
    have pre: "\<forall>j\<in>set is. j < length ?bs \<and> (?bs ! j \<noteq> 0 \<longrightarrow> ?bs ! j < block_cnt (asb a1))" "distinct is"
      using Cons.prems(2,3) ni v1(2) by auto
    from Cons.IH [OF v1(1) pre] obtain a' where
      a': "trunc_loop dev is ?bs a1 = Some (foldl (\<lambda>bs i. bs[i := 0]) ?bs is, a')" "volume_ok a'" "asb a' = asb a1" "refs a' = refs a1"
        "\<forall>m. blk_used dev a' m \<longleftrightarrow> blk_used dev a1 m \<and> m \<notin> (\<lambda>j. unat (?bs ! j)) ` {j \<in> set is. ?bs ! j \<noteq> 0}"
        "\<forall>j. unat j < inodes (asb a1) \<longrightarrow> inode_at dev a' j = inode_at dev a1 j"
      by blast
    have im: "(\<lambda>j. unat (?bs ! j)) ` {j \<in> set is. ?bs ! j \<noteq> 0} = (\<lambda>j. unat (blocks ! j)) ` {j \<in> set is. blocks ! j \<noteq> 0}"
      using ni by (intro image_cong) auto
    have "{j \<in> set (i # is). blocks ! j \<noteq> 0} = insert i {j \<in> set is. blocks ! j \<noteq> 0}" using False by auto
    then have "\<forall>m. blk_used dev a' m \<longleftrightarrow> blk_used dev a m \<and> m \<notin> (\<lambda>j. unat (blocks ! j)) ` {j \<in> set (i # is). blocks ! j \<noteq> 0}"
      using a'(5) v1(4) unfolding im by auto
    moreover have "\<forall>j. unat j < inodes (asb a) \<longrightarrow> inode_at dev a' j = inode_at dev a j"
      using a'(6) v1(2) bm_changed_inodes [OF Cons.prems(1) a1(2)] by simp
    ultimately show ?thesis using a' v1(2,3) a1(1) False li by (intro exI [of _ a']) (simp add: arr_get_in)
  qed
qed

lemma akpfs_super_write_inode_ok:
  fixes i_size :: u64
  defines "sz \<equiv> (ucast i_size :: u32)"
  assumes a: "volume_ok a" and i: "unat ino < inodes (asb a)" and reg: "i_mode AND S_IFREG \<noteq> 0" "sint (file_size (inode_at dev a ino)) \<ge> 0"
    and sz: "sint sz \<ge> 0" "sint sz + int (bs_of dev) < 2 ^ 31"
    and bl: "\<forall>j<27. file_blocks (inode_at dev a ino) ! j \<noteq> 0 \<longrightarrow> file_blocks (inode_at dev a ino) ! j < block_cnt (asb a)"
  defines "k \<equiv> (nat (sint sz) + bs_of dev - 1) div bs_of dev"
  shows "\<exists>a1 a'. akpfs_super_write_inode dev sync a ino i_mode i_size = Some (if sync = Some False then - EIO else 0, a') \<and>
     asb a1 = asb a \<and> refs a1 = refs a \<and> volume_ok a1 \<and>
     (\<forall>m. blk_used dev a1 m \<longleftrightarrow> blk_used dev a m \<and>
        m \<notin> (\<lambda>j. unat (file_blocks (inode_at dev a ino) ! j)) ` {j \<in> {k..<27}. file_blocks (inode_at dev a ino) ! j \<noteq> 0}) \<and>
     (\<forall>j. unat j < inodes (asb a) \<longrightarrow> inode_at dev a1 j = inode_at dev a j) \<and>
     inode_changed a1 ino ((inode_at dev a ino)\<lparr>file_size := sz,
        file_blocks := take k (file_blocks (inode_at dev a ino)) @ replicate (27 - k) 0\<rparr>) a'"
proof -
  let ?i = "inode_at dev a ino" and ?a = "a\<lparr>refs := refs a + 1\<rparr>"
  note gi = akpfs_get_inode_ok [OF a i] and wf = wf_inode_at [OF a i] and l = layout [OF a]
  have lb: "length (file_blocks ?i) = 27" using wf by (simp add: wf_inode_def)
  have bs: "unat (block_size (asb a)) = bs_of dev" using a by (simp add: akp_ok_def akp_layout_def)
  have fu: "first_unused (sint sz) (block_size (asb a)) = Some k"
  proof -
    have n: "nat (sint sz + int (bs_of dev) - 1) = nat (sint sz) + bs_of dev - 1" using sz(1) l(2) by linarith
    have "block_size (asb a) \<noteq> 0" using bs l(2) by auto
    then show ?thesis unfolding first_unused_def bs Let_def n k_def using sz l(2) by simp
  qed
  have "\<forall>j\<in>set [k..<27]. j < length (file_blocks ?i) \<and> (file_blocks ?i ! j \<noteq> 0 \<longrightarrow> file_blocks ?i ! j < block_cnt (asb ?a))"
    using bl lb by simp
  from trunc_loop_ok [OF _ this] a obtain a1 where
    t: "trunc_loop dev [k..<27] (file_blocks ?i) ?a = Some (foldl (\<lambda>bs i. bs[i := 0]) (file_blocks ?i) [k..<27], a1)"
      "volume_ok a1" "asb a1 = asb a" "refs a1 = refs a + 1"
      "\<forall>m. blk_used dev a1 m \<longleftrightarrow> blk_used dev a m \<and> m \<notin> (\<lambda>i. unat (file_blocks ?i ! i)) ` {i \<in> {k..<27}. file_blocks ?i ! i \<noteq> 0}"
      "\<forall>j. unat j < inodes (asb a) \<longrightarrow> inode_at dev a1 j = inode_at dev a j"
    by auto
  have fl: "foldl (\<lambda>bs i. bs[i := 0]) (file_blocks ?i) [k..<27] = take k (file_blocks ?i) @ replicate (27 - k) 0"
    using foldl_zeros [of "file_blocks ?i" k] lb by simp
  let ?j = "?i\<lparr>file_size := sz, file_blocks := take k (file_blocks ?i) @ replicate (27 - k) 0\<rparr>"
  have "wf_inode ?j" using wf lb by (simp add: wf_inode_def)
  then obtain a2 where a2: "put_inode dev a1 ino ?j = Some a2" "inode_changed a1 ino ?j a2"
    using put_inode_ok [OF t(2), of ino ?j] i t(3) by auto
  let ?r1 = "a1\<lparr>refs := refs a1 - 1\<rparr>" and ?r2 = "a2\<lparr>refs := refs a2 - 1\<rparr>"
  have "akpfs_super_write_inode dev sync a ino i_mode i_size = Some (if sync = Some False then - EIO else 0, ?r2)"
    using gi reg fu t(1) a2(1) fl by (simp add: akpfs_super_write_inode_def akp_consts brelse_def Let_def flip: sz_def)
  moreover have "inode_changed ?r1 ino ?j ?r2" using a2(2) by (simp add: inode_changed_def)
  ultimately show ?thesis using t by (intro exI [of _ ?r1] exI [of _ ?r2]) simp
qed

end

section \<open>Consistency\<close>

text \<open>
  A volume whose files are the inodes numbered by \<open>files\<close>: the blocks before the data area are
  marked used, and so is every block of a file, which lies in the data area and is a block of
  no other file.
\<close>

definition akp_inv :: "'d bdev \<Rightarrow> ('d \<Rightarrow> nat) \<Rightarrow> ('d \<Rightarrow> bool) \<Rightarrow> u32 set \<Rightarrow> 'd akp \<Rightarrow> bool" where
  "akp_inv dev nblk ok files a \<longleftrightarrow> akp_ok dev nblk ok a \<and> (\<forall>m<unat (data_block_start (asb a)). blk_used dev a m) \<and>
     (\<forall>k\<in>files. unat k < inodes (asb a) \<and> 0 \<le> sint (file_size (inode_at dev a k)) \<and>
        (\<forall>i<27. let b = file_blocks (inode_at dev a k) ! i in
           b \<noteq> 0 \<longrightarrow> data_block_start (asb a) \<le> b \<and> b < block_cnt (asb a) \<and> blk_used dev a (unat b))) \<and>
     (\<forall>k\<in>files. \<forall>k'\<in>files. \<forall>i<27. \<forall>i'<27. file_blocks (inode_at dev a k) ! i \<noteq> 0 \<longrightarrow>
        file_blocks (inode_at dev a k) ! i = file_blocks (inode_at dev a k') ! i' \<longrightarrow> k = k' \<and> i = i')"

inductive akp_step :: "'d bdev \<Rightarrow> u32 set \<Rightarrow> 'd akp \<Rightarrow> 'd akp \<Rightarrow> bool" for dev files where
  map_block: "ino \<in> files \<Longrightarrow> akpfs_get_block dev a ino iblock create = Some (r, b, a') \<Longrightarrow> akp_step dev files a a'"
| write_back: "ino \<in> files \<Longrightarrow> 0 \<le> sint (ucast i_size :: u32) \<Longrightarrow>
    akpfs_super_write_inode dev sync a ino i_mode i_size = Some (r, a') \<Longrightarrow> akp_step dev files a a'"

inductive_cases akp_stepE: "akp_step dev files a a'"

context buffer_cache
begin

abbreviation consistent :: "u32 set \<Rightarrow> 'd akp \<Rightarrow> bool" where
  "consistent files a \<equiv> akp_inv dev nblk ok files a"

lemma consistentD:
  assumes "consistent files a"
  shows "volume_ok a" and "m < unat (data_block_start (asb a)) \<Longrightarrow> blk_used dev a m"
    and "k \<in> files \<Longrightarrow> unat k < inodes (asb a)" and "k \<in> files \<Longrightarrow> 0 \<le> sint (file_size (inode_at dev a k))"
    and "k \<in> files \<Longrightarrow> i < 27 \<Longrightarrow> file_blocks (inode_at dev a k) ! i \<noteq> 0 \<Longrightarrow>
      data_block_start (asb a) \<le> file_blocks (inode_at dev a k) ! i \<and> file_blocks (inode_at dev a k) ! i < block_cnt (asb a) \<and>
      blk_used dev a (unat (file_blocks (inode_at dev a k) ! i))"
    and "k \<in> files \<Longrightarrow> k' \<in> files \<Longrightarrow> i < 27 \<Longrightarrow> i' < 27 \<Longrightarrow> file_blocks (inode_at dev a k) ! i \<noteq> 0 \<Longrightarrow>
      file_blocks (inode_at dev a k) ! i = file_blocks (inode_at dev a k') ! i' \<Longrightarrow> k = k' \<and> i = i'"
  using assms unfolding akp_inv_def Let_def by blast+

lemma block_zero_used: "consistent files a \<Longrightarrow> blk_used dev a 0"
proof -
  assume c: "consistent files a"
  have "0 < unat (inodes_block_start (asb a))" using consistentD(1) [OF c] by (simp add: akp_ok_def akp_layout_def)
  then have "0 < unat (data_block_start (asb a))" using layout(6,7) [OF consistentD(1) [OF c]] by linarith
  then show ?thesis by (rule consistentD(2) [OF c])
qed

lemma extend_consistent:
  assumes c: "consistent files a" and ino: "ino \<in> files" and k: "k < 27"
    and n: "\<not> blk_used dev a n" "n < unat (block_cnt (asb a))"
    and a1: "bm_changed a n True a1"
    and a2: "inode_changed a1 ino ((inode_at dev a ino)\<lparr>file_blocks := (file_blocks (inode_at dev a ino))[k := of_nat n]\<rparr>) a2"
  shows "consistent files a2"
proof -
  note d = consistentD [OF c]
  let ?fb = "\<lambda>j. file_blocks (inode_at dev a j)" and ?fb2 = "\<lambda>j. file_blocks (inode_at dev a2 j)"
  have lb: "length (?fb ino) = 27" using wf_inode_at [OF d(1) d(3) [OF ino]] by (simp add: wf_inode_def)
  have s: "asb a2 = asb a" "volume_ok a2" using a1 a2 by (simp_all add: bm_changed_def inode_changed_def)
  have us: "blk_used dev a2 m = (m = n \<or> blk_used dev a m)" for m using a1 a2 by (simp add: bm_changed_def inode_changed_def)
  have ia: "inode_at dev a2 j = (if j = ino then (inode_at dev a ino)\<lparr>file_blocks := (?fb ino)[k := of_nat n]\<rparr> else inode_at dev a j)"
    if "j \<in> files" for j
    using a2 a1 d(3) [OF that] bm_changed_inodes [OF d(1) a1] by (simp add: inode_changed_def bm_changed_def)
  have fb: "?fb2 j ! i = (if j = ino \<and> i = k then of_nat n else ?fb j ! i)" if "j \<in> files" for j i
    using ia [OF that] lb k by (auto simp: nth_list_update)
  have un: "unat (of_nat n :: u32) = n"
    using n(2) unat_u32 [of "block_cnt (asb a)"] by (intro unat_of_nat_small) simp
  have ge: "unat (data_block_start (asb a)) \<le> n" using n(1) d(2) by (meson not_le)
  have fresh: "?fb j ! i \<noteq> of_nat n" if "j \<in> files" "i < 27" "?fb j ! i \<noteq> 0" for j i
    using d(5) [OF that] n(1) un by metis
  have "of_nat n \<noteq> (0 :: u32)" using block_zero_used [OF c] n(1) un by (metis unat_0)
  show ?thesis unfolding akp_inv_def Let_def s(1)
  proof (intro conjI ballI allI impI)
    fix j i assume j: "j \<in> files" and i: "i < 27" and nz: "?fb2 j ! i \<noteq> 0"
    have "data_block_start (asb a) \<le> ?fb2 j ! i \<and> ?fb2 j ! i < block_cnt (asb a) \<and> blk_used dev a2 (unat (?fb2 j ! i))"
    proof (cases "j = ino \<and> i = k")
      case True
      then have e: "?fb2 j ! i = of_nat n" using fb [OF j] by simp
      show ?thesis unfolding e us un word_le_nat_alt word_less_nat_alt using ge n(2) by simp
    next
      case False
      then have e: "?fb2 j ! i = ?fb j ! i" unfolding fb [OF j] by (rule if_not_P)
      show ?thesis unfolding e us using d(5) [OF j i] nz e by metis
    qed
    then show "data_block_start (asb a) \<le> ?fb2 j ! i" "?fb2 j ! i < block_cnt (asb a)" "blk_used dev a2 (unat (?fb2 j ! i))" by simp_all
  next
    fix j j' i i' assume h: "j \<in> files" "j' \<in> files" "i < 27" "i' < 27" "?fb2 j ! i \<noteq> 0" "?fb2 j ! i = ?fb2 j' ! i'"
    have "j = j' \<and> i = i'"
    proof (cases "j = ino \<and> i = k \<or> j' = ino \<and> i' = k")
      case True
      with h fresh show ?thesis unfolding fb [OF h(1)] fb [OF h(2)] by (metis (no_types, lifting))
    next
      case False
      with h d(6) show ?thesis unfolding fb [OF h(1)] fb [OF h(2)] by (metis (no_types, lifting))
    qed
    then show "j = j'" "i = i'" by simp_all
  qed (use s us d ia in \<open>auto\<close>)
qed

lemma truncate_consistent:
  assumes c: "consistent files a" and ino: "ino \<in> files" and sz: "0 \<le> sint sz"
    and s1: "asb a1 = asb a" "volume_ok a1"
    and us: "\<forall>m. blk_used dev a1 m \<longleftrightarrow> blk_used dev a m \<and>
        m \<notin> (\<lambda>j. unat (file_blocks (inode_at dev a ino) ! j)) ` {j \<in> {k..<27}. file_blocks (inode_at dev a ino) ! j \<noteq> 0}"
    and i1: "\<forall>j. unat j < inodes (asb a) \<longrightarrow> inode_at dev a1 j = inode_at dev a j"
    and a2: "inode_changed a1 ino ((inode_at dev a ino)\<lparr>file_size := sz,
        file_blocks := take k (file_blocks (inode_at dev a ino)) @ replicate (27 - k) 0\<rparr>) a2"
  shows "consistent files a2"
proof -
  note d = consistentD [OF c]
  let ?fb = "\<lambda>j. file_blocks (inode_at dev a j)" and ?fb2 = "\<lambda>j. file_blocks (inode_at dev a2 j)"
  let ?gone = "(\<lambda>j. unat (?fb ino ! j)) ` {j \<in> {k..<27}. ?fb ino ! j \<noteq> 0}"
  have lb: "length (?fb ino) = 27" using wf_inode_at [OF d(1) d(3) [OF ino]] by (simp add: wf_inode_def)
  have s: "asb a2 = asb a" "volume_ok a2" using s1 a2 by (simp_all add: inode_changed_def)
  have u2: "blk_used dev a2 m \<longleftrightarrow> blk_used dev a m \<and> m \<notin> ?gone" for m using us a2 by (simp add: inode_changed_def)
  have ia: "inode_at dev a2 j = (if j = ino then (inode_at dev a ino)\<lparr>file_size := sz,
      file_blocks := take k (?fb ino) @ replicate (27 - k) 0\<rparr> else inode_at dev a j)" if "j \<in> files" for j
    using a2 i1 d(3) [OF that] s1(1) by (simp add: inode_changed_def)
  have fb: "?fb2 j ! i = (if j = ino \<and> k \<le> i then 0 else ?fb j ! i)" if "j \<in> files" "i < 27" for j i
    using ia [OF that(1)] that(2) lb by (auto simp: nth_append)
  have low: "m \<notin> ?gone" if "m < unat (data_block_start (asb a))" for m
  proof
    assume "m \<in> ?gone"
    then obtain j where "j < 27" "?fb ino ! j \<noteq> 0" "m = unat (?fb ino ! j)" by auto
    with d(5) [OF ino, of j] that show False by (simp add: word_le_nat_alt)
  qed
  have keep: "unat (?fb j ! i) \<notin> ?gone" if h: "j \<in> files" "i < 27" "?fb j ! i \<noteq> 0" "\<not> (j = ino \<and> k \<le> i)" for j i
  proof
    assume "unat (?fb j ! i) \<in> ?gone"
    then obtain i' where i': "k \<le> i'" "i' < 27" "unat (?fb j ! i) = unat (?fb ino ! i')" by auto
    then have "?fb j ! i = ?fb ino ! i'" by (metis word_unat_eq_iff)
    with d(6) [OF h(1) ino h(2) i'(2) h(3)] i'(1) h(4) show False by simp
  qed
  show ?thesis unfolding akp_inv_def Let_def s(1)
  proof (intro conjI ballI allI impI)
    fix j i assume j: "j \<in> files" and i: "i < 27" and nz: "?fb2 j ! i \<noteq> 0"
    then have e: "?fb2 j ! i = ?fb j ! i" "\<not> (j = ino \<and> k \<le> i)" unfolding fb [OF j i] by (metis (full_types))+
    then have "?fb j ! i \<noteq> 0" using nz by metis
    from d(5) [OF j i this] keep [OF j i this e(2)]
    show "data_block_start (asb a) \<le> ?fb2 j ! i" "?fb2 j ! i < block_cnt (asb a)" "blk_used dev a2 (unat (?fb2 j ! i))"
      unfolding e(1) u2 by blast+
  next
    fix j j' i i' assume h: "j \<in> files" "j' \<in> files" "i < 27" "i' < 27" "?fb2 j ! i \<noteq> 0" "?fb2 j ! i = ?fb2 j' ! i'"
    then have e: "?fb2 j ! i = ?fb j ! i" "?fb2 j' ! i' = ?fb j' ! i'" unfolding fb [OF h(1,3)] fb [OF h(2,4)] by (metis (full_types))+
    have "j = j' \<and> i = i'" using h(5,6) unfolding e by (rule d(6) [OF h(1-4)])
    then show "j = j'" "i = i'" by simp_all
  qed (use s u2 d ia sz low in \<open>auto\<close>)
qed

lemma akp_step_consistent:
  assumes "akp_step dev files a a'" and c: "consistent files a"
  shows "consistent files a' \<and> refs a' = refs a"
  using assms(1)
proof cases
  case (map_block ino iblock create r b)
  note d = consistentD [OF c]
  show ?thesis
  proof (cases "iblock < 27")
    case False
    with map_block(2) c show ?thesis by (simp add: akpfs_get_block_def akp_consts)
  next
    case True
    note g = akpfs_get_block_ok [OF d(1) d(3) [OF map_block(1)] True block_zero_used [OF c], of create, unfolded Let_def]
    show ?thesis
    proof (cases "file_blocks (inode_at dev a ino) ! iblock = 0 \<and> create \<and>
        find (\<lambda>n. \<not> blk_used dev a n) [0..<unat (block_cnt (asb a))] \<noteq> None")
      case False
      then have "a' = a" using g map_block(2) by (auto split: if_splits)
      with c show ?thesis by simp
    next
      case True
      then obtain n where n: "find (\<lambda>n. \<not> blk_used dev a n) [0..<unat (block_cnt (asb a))] = Some n" by auto
      then have n': "\<not> blk_used dev a n" "n < unat (block_cnt (asb a))" by (auto simp: find_Some_iff)
      obtain a1 where a1: "bm_changed a n True a1" "inode_changed a1 ino
          ((inode_at dev a ino)\<lparr>file_blocks := (file_blocks (inode_at dev a ino))[iblock := of_nat n]\<rparr>) a'"
        using g map_block(2) True n by auto
      have "refs a' = refs a" using a1 by (simp add: bm_changed_def inode_changed_def)
      with extend_consistent [OF c map_block(1) \<open>iblock < 27\<close> n' a1] show ?thesis by simp
    qed
  qed
next
  case (write_back ino i_size sync i_mode r)
  note d = consistentD [OF c]
  note ino = d(3) [OF write_back(1)]
  have bl: "\<forall>j<27. file_blocks (inode_at dev a ino) ! j \<noteq> 0 \<longrightarrow> file_blocks (inode_at dev a ino) ! j < block_cnt (asb a)"
    using d(5) [OF write_back(1)] by blast
  show ?thesis
  proof (cases "i_mode AND S_IFREG \<noteq> 0")
    case True
    have bs: "unat (block_size (asb a)) = bs_of dev" using d(1) by (simp add: akp_ok_def akp_layout_def)
    obtain n where "first_unused (sint (ucast i_size :: u32)) (block_size (asb a)) = Some n"
      using write_back(3) akpfs_get_inode_ok [OF d(1) ino] True d(4) [OF write_back(1)]
      by (auto simp: akpfs_super_write_inode_def Let_def split: bind_splits)
    then have sum: "sint (ucast i_size :: u32) + int (bs_of dev) < 2 ^ 31"
      unfolding first_unused_def bs Let_def not_le [symmetric] by (metis option.distinct(1))
    from akpfs_super_write_inode_ok [OF d(1) ino True d(4) [OF write_back(1)] write_back(2) sum bl, of sync] write_back(3)
    obtain a1 k where a1: "asb a1 = asb a" "refs a1 = refs a" "volume_ok a1"
        "\<forall>m. blk_used dev a1 m \<longleftrightarrow> blk_used dev a m \<and>
          m \<notin> (\<lambda>j. unat (file_blocks (inode_at dev a ino) ! j)) ` {j \<in> {k..<27}. file_blocks (inode_at dev a ino) ! j \<noteq> 0}"
        "\<forall>j. unat j < inodes (asb a) \<longrightarrow> inode_at dev a1 j = inode_at dev a j"
        "inode_changed a1 ino ((inode_at dev a ino)\<lparr>file_size := ucast i_size,
           file_blocks := take k (file_blocks (inode_at dev a ino)) @ replicate (27 - k) 0\<rparr>) a'"
      by auto
    have "refs a' = refs a" using a1(2,6) by (simp add: inode_changed_def)
    with truncate_consistent [OF c write_back(1,2) a1(1,3-6)] show ?thesis by simp
  next
    case False
    then have "a' = a" using write_back(3) akpfs_get_inode_ok [OF d(1) ino]
      by (simp add: akpfs_super_write_inode_def brelse_def)
    with c show ?thesis by simp
  qed
qed

end

end
