(* ===== verification/Akp_Mkfs.thy ===== *)
theory Akp_Mkfs
  imports Posix_File Akpfs_Files
begin

text \<open>
  The tool that makes an AKP file system, \<^verbatim>\<open>src/USB/Apps/mkfs.akp.c\<close>, built with
  \<open>ADD_ONE_FILE\<close>: super block, inode blocks, the root directory with one file, that file's
  data and the bitmap. \<open>junk\<close> is what the uninitialised parts of the local structures hold.
\<close>

section \<open>The tool\<close>

definition PAGE_SIZE :: nat where "PAGE_SIZE = 4096"
definition AVG_FILE_SIZE :: nat where "AVG_FILE_SIZE = PAGE_SIZE"

text \<open>\<open>lseek(fd, 0, SEEK_END)\<close>, stored in an \<open>int\<close>.\<close>

definition get_dev_size :: "fd \<Rightarrow> int \<times> fd" where
  "get_dev_size f = (sint (of_nat (length (fd_data f)) :: u32), fd_seek f (length (fd_data f)))"

definition compute_blk_size :: "int \<Rightarrow> nat" where
  "compute_blk_size dev_size = PAGE_SIZE"

text \<open>Division of \<open>int\<close>s, which rounds towards zero.\<close>

definition cdiv :: "int \<Rightarrow> nat \<Rightarrow> int" where
  "cdiv a b = (if a < 0 then - ((- a) div int b) else a div int b)"

text \<open>The fields are computed from \<open>int\<close>s and the unsigned fields; the block size is positive.\<close>

definition compute_akpfs_sb :: "int \<Rightarrow> nat \<Rightarrow> akpfs_sb" where
  "compute_akpfs_sb dev_size bsize =
     (let cnt = cdiv dev_size bsize;
          per_block = of_nat (bsize div 128) :: u32;
          start = 1 :: u32;
          avg_file_cnt = cdiv cnt ((AVG_FILE_SIZE + bsize - 1) div bsize);
          icnt = (word_of_int avg_file_cnt + per_block - 1) div per_block;
          bits = of_nat (bsize * 8) :: u32;
          bstart = start + icnt;
          bcnt = (word_of_int cnt + bits - 1) div bits;
          dstart = bstart + bcnt
      in \<lparr>fs_type = AKPFS_SUPER_MAGIC, block_size = of_nat bsize, block_cnt = word_of_int cnt, inodes_per_block = per_block,
          inodes_block_start = start, inodes_block_cnt = icnt, free_bits_per_block = bits, free_bits_block_start = bstart,
          free_bits_block_cnt = bcnt, data_block_start = dstart, data_block_cnt = word_of_int cnt - dstart, root_inode = 1\<rparr>)"

definition compute_akpfs_empty_inode :: "akpfs_inode \<Rightarrow> akpfs_inode" where
  "compute_akpfs_empty_inode inode = inode\<lparr>file_name := (file_name inode)[0 := 0]\<rparr>"

definition compute_akpfs_empty_dir_inode :: "u8 list \<Rightarrow> akpfs_inode \<Rightarrow> akpfs_inode" where
  "compute_akpfs_empty_dir_inode dir_name inode =
     inode\<lparr>file_name := strncpy (file_name inode) dir_name AKPFS_MAX_FILE_NAME_SIZE, file_size := word_of_int akpfs_dir,
           file_blocks := replicate AKPFS_MAX_ENTRIES_PER_DIR 0\<rparr>"

definition compute_akpfs_empty_file_inode :: "u8 list \<Rightarrow> akpfs_inode \<Rightarrow> akpfs_inode" where
  "compute_akpfs_empty_file_inode name inode =
     inode\<lparr>file_name := strncpy (file_name inode) name AKPFS_MAX_FILE_NAME_SIZE, file_size := 0,
           file_blocks := replicate AKPFS_MAX_ENTRIES_PER_DIR 0\<rparr>"

definition moksha :: "u8 list" where
  "moksha = map of_char ''moksha.txt''"

definition file_data :: "u8 list" where
  "file_data = map of_char ''Good Morning Universe''"

text \<open>\<open>n\<close> writes of the same bytes, up to the first that fails.\<close>

fun put_times :: "nat \<Rightarrow> u8 list \<Rightarrow> fd \<Rightarrow> bool \<times> fd" where
  "put_times 0 bs f = (True, f)"
| "put_times (Suc n) bs f = (let (good, f) = fd_put f bs in if good then put_times n bs f else (False, f))"

fun clear_inode_blocks :: "nat list \<Rightarrow> nat \<Rightarrow> nat \<Rightarrow> u8 list \<Rightarrow> fd \<Rightarrow> bool \<times> fd" where
  "clear_inode_blocks [] bsize n bs f = (True, f)"
| "clear_inode_blocks (bc # bcs) bsize n bs f =
     (let (good, f) = put_times n bs (fd_seek f (unat (of_nat bc * of_nat bsize :: u32)))
      in if good then clear_inode_blocks bcs bsize n bs f else (False, f))"

text \<open>The bitmap: bytes of ones, the mixed byte, zeros, and a last byte, which is zero too.\<close>

definition write_free_bits :: "nat \<Rightarrow> nat \<Rightarrow> fd \<Rightarrow> int \<times> fd" where
  "write_free_bits used cnt f =
     (let (good, f) = put_times (used div 8) [0xFF] f in
      if \<not> good then (- 4, f) else
      let (good, f) = (if used mod 8 \<noteq> 0 then fd_put f [drop_bit (8 - used mod 8) 0xFF] else (True, f));
          i = used div 8 + (if used mod 8 \<noteq> 0 then 1 else 0) in
      if \<not> good then (- 5, f) else
      let (good, f) = put_times (cnt div 8 - i) [0] f in
      if \<not> good then (- 6, f) else
      let (good, f) = (if cnt mod 8 \<noteq> 0 then fd_put f [drop_bit (8 - cnt mod 8) 0] else (True, f)) in
      if \<not> good then (- 7, f) else (0, f))"

definition make_akpfs :: "akpfs_inode \<times> akpfs_inode \<times> akpfs_inode \<Rightarrow> fd \<Rightarrow> int \<Rightarrow> nat \<Rightarrow> int \<times> fd" where
  "make_akpfs junk f dev_size bsize =
     (let (j0, j1, j2) = junk;
          sb = compute_akpfs_sb dev_size bsize;
          empty_inode = compute_akpfs_empty_inode j0;
          root = (compute_akpfs_empty_dir_inode [47] j1)\<lparr>file_blocks := (replicate AKPFS_MAX_ENTRIES_PER_DIR 0)[0 := root_inode sb + 1]\<rparr>;
          file = (compute_akpfs_empty_file_inode moksha j2)\<lparr>file_size := of_nat (length file_data),
                   file_blocks := (replicate AKPFS_MAX_ENTRIES_PER_DIR 0)[0 := data_block_start sb]\<rparr>;
          (good, f) = fd_put (fd_seek f 0) (bytes_of_asb sb) in
      if \<not> good then (- 1, f) else
      let (good, f) = clear_inode_blocks [unat (inodes_block_start sb)..<unat (inodes_block_start sb) + unat (inodes_block_cnt sb)]
                        bsize (unat (inodes_per_block sb)) (bytes_of_inode empty_inode) f in
      if \<not> good then (- 2, f) else
      let f = fd_seek f (unat ((inodes_block_start sb + root_inode sb div inodes_per_block sb) * of_nat bsize) +
                unat (root_inode sb mod inodes_per_block sb) * 128);
          (good, f) = fd_put f (bytes_of_inode root) in
      if \<not> good then (- 3, f) else
      let (good, f) = fd_put f (bytes_of_inode file) in
      if \<not> good then (- 3, f) else
      let (good, f) = fd_put (fd_seek f (unat (data_block_start sb * of_nat bsize))) file_data in
      if \<not> good then (- 3, f)
      else write_free_bits (unat (data_block_start sb + 1)) (unat (block_cnt sb))
             (fd_seek f (unat (free_bits_block_start sb * of_nat bsize))))"

text \<open>
  \<open>main\<close>: the exit status, and the device when it was opened. \<open>dev_file\<close> is what \<open>stat\<close> and
  \<open>open\<close> find: \<open>None\<close> when \<open>stat\<close> fails, \<open>Some None\<close> when \<open>open\<close> fails.
\<close>

definition mkfs_main :: "int \<Rightarrow> u8 list option option \<Rightarrow> akpfs_inode \<times> akpfs_inode \<times> akpfs_inode \<Rightarrow> int \<times> u8 list option" where
  "mkfs_main argc dev_file junk =
     (if argc \<noteq> 2 then (1, None)
      else case dev_file of
        None \<Rightarrow> (2, None)
      | Some None \<Rightarrow> (3, None)
      | Some (Some d) \<Rightarrow>
          let (dev_size, f) = get_dev_size (fd_open d);
              bsize = compute_blk_size dev_size;
              (r, f) = make_akpfs junk f dev_size bsize
          in (if r < 0 then 4 else 0, Some (fd_data f)))"

section \<open>What is written\<close>

lemma fd_put_ok:
  assumes "fd_pos f + length bs \<le> length (fd_data f)" and "bs \<noteq> []"
  shows "\<exists>f'. fd_put f bs = (True, f') \<and> fd_pos f' = fd_pos f + length bs \<and> mem_write (fd_data f) (fd_pos f) bs = Some (fd_data f')"
proof -
  have "0 < length bs" using assms(2) by simp
  then have "fd_pos f < length (fd_data f)" using assms(1) by linarith
  then show ?thesis using fd_write_in [OF assms(1)] assms(1) by (auto simp: fd_put_def)
qed

lemma put_times_ok:
  assumes "fd_pos f + n * length bs \<le> length (fd_data f)" and "bs \<noteq> []"
  shows "\<exists>f'. put_times n bs f = (True, f') \<and> fd_pos f' = fd_pos f + n * length bs \<and>
     mem_write (fd_data f) (fd_pos f) (concat (replicate n bs)) = Some (fd_data f')"
  using assms(1)
proof (induction n arbitrary: f)
  case 0
  then show ?case by (simp add: mem_write_def)
next
  case (Suc n)
  have "fd_pos f + length bs \<le> length (fd_data f)" using Suc.prems by simp
  from fd_put_ok [OF this assms(2)] obtain f1 where
    f1: "fd_put f bs = (True, f1)" "fd_pos f1 = fd_pos f + length bs" "mem_write (fd_data f) (fd_pos f) bs = Some (fd_data f1)" by blast
  have "fd_pos f1 + n * length bs \<le> length (fd_data f1)" using Suc.prems f1(2) mem_write_length [OF f1(3)] by simp
  from Suc.IH [OF this] obtain f' where f': "put_times n bs f1 = (True, f')" "fd_pos f' = fd_pos f1 + n * length bs"
      "mem_write (fd_data f1) (fd_pos f1) (concat (replicate n bs)) = Some (fd_data f')" by blast
  have "mem_write (fd_data f) (fd_pos f) (concat (replicate (Suc n) bs)) = Some (fd_data f')"
    using mem_write_append [OF f1(3), of "concat (replicate n bs)"] f'(3) f1(2) by simp
  with f1 f' show ?case by simp
qed

lemma clear_inode_blocks_ok:
  assumes "bs \<noteq> []" and "n * length bs \<le> bsize"
    and "\<forall>bc\<in>set bcs. lo \<le> bc * bsize \<and> bc * bsize + bsize \<le> hi \<and> bc * bsize < 2 ^ 32" and "hi \<le> length (fd_data f)" and "bsize < 2 ^ 32"
  shows "\<exists>f'. clear_inode_blocks bcs bsize n bs f = (True, f') \<and> length (fd_data f') = length (fd_data f) \<and>
     (\<forall>off k. off + k \<le> lo \<or> hi \<le> off \<longrightarrow> mem_read (fd_data f') off k = mem_read (fd_data f) off k)"
  using assms(3,4)
proof (induction bcs arbitrary: f)
  case Nil
  then show ?case by simp
next
  case (Cons bc bcs)
  have b: "lo \<le> bc * bsize" "bc * bsize + bsize \<le> hi" "bc * bsize < 2 ^ 32" using Cons.prems by simp_all
  have e: "of_nat bc * of_nat bsize = (of_nat (bc * bsize) :: u32)" by simp
  have u: "unat (of_nat bc * of_nat bsize :: u32) = bc * bsize" unfolding e by (rule unat_of_nat_small) (use b(3) in simp)
  let ?f = "fd_seek f (unat (of_nat bc * of_nat bsize :: u32))"
  have "fd_pos ?f + n * length bs \<le> length (fd_data ?f)" using b(2) Cons.prems(2) assms(2) u by simp
  from put_times_ok [OF this assms(1)] obtain f1 where f1: "put_times n bs ?f = (True, f1)"
      "mem_write (fd_data f) (bc * bsize) (concat (replicate n bs)) = Some (fd_data f1)" using u by auto
  have len: "length (fd_data f1) = length (fd_data f)" using mem_write_length [OF f1(2)] .
  have cl: "length (concat (replicate n bs)) = n * length bs" by (induction n) simp_all
  have same: "mem_read (fd_data f1) off k = mem_read (fd_data f) off k" if "off + k \<le> lo \<or> hi \<le> off" for off k
    using that b(1,2) assms(2) cl by (intro mem_read_write_disjoint [OF f1(2)]) auto
  have "\<forall>bc\<in>set bcs. lo \<le> bc * bsize \<and> bc * bsize + bsize \<le> hi \<and> bc * bsize < 2 ^ 32" "hi \<le> length (fd_data f1)"
    using Cons.prems len by simp_all
  from Cons.IH [OF this] obtain f' where "clear_inode_blocks bcs bsize n bs f1 = (True, f')" "length (fd_data f') = length (fd_data f1)"
      "\<forall>off k. off + k \<le> lo \<or> hi \<le> off \<longrightarrow> mem_read (fd_data f') off k = mem_read (fd_data f1) off k" by blast
  with f1(1) len same show ?case by auto
qed

definition bitmap_bytes :: "nat \<Rightarrow> nat \<Rightarrow> u8 list" where
  "bitmap_bytes used cnt =
     (let mixed = (if used mod 8 \<noteq> 0 then [drop_bit (8 - used mod 8) 0xFF] else []) in
      replicate (used div 8) 0xFF @ mixed @ replicate (cnt div 8 - (used div 8 + length mixed)) 0 @
      (if cnt mod 8 \<noteq> 0 then [0] else []))"

lemma opt_put:
  assumes "fd_pos f + (if c then 1 else 0) \<le> length (fd_data f)"
  shows "\<exists>f'. (if c then fd_put f [x] else (True, f)) = (True, f') \<and> fd_pos f' = fd_pos f + length (if c then [x] else []) \<and>
     mem_write (fd_data f) (fd_pos f) (if c then [x] else []) = Some (fd_data f')"
  using fd_put_ok [of f "[x]"] assms by (auto simp: mem_write_def)

lemma write_free_bits_ok:
  assumes "fd_pos f + length (bitmap_bytes used cnt) \<le> length (fd_data f)"
  shows "\<exists>f'. write_free_bits used cnt f = (0, f') \<and> mem_write (fd_data f) (fd_pos f) (bitmap_bytes used cnt) = Some (fd_data f')"
proof -
  let ?b = "used mod 8 \<noteq> 0" and ?d = "cnt mod 8 \<noteq> 0" and ?x = "drop_bit (8 - used mod 8) 0xFF :: u8"
  let ?i = "used div 8 + (if ?b then 1 else 0)"
  have cr: "concat (replicate n [x]) = replicate n x" for n and x :: u8 by (induction n) simp_all
  have bb: "bitmap_bytes used cnt = ((replicate (used div 8) 0xFF @ (if ?b then [?x] else [])) @ replicate (cnt div 8 - ?i) 0) @ (if ?d then [0] else [])"
    by (simp add: bitmap_bytes_def)
  have len: "fd_pos f + used div 8 + (if ?b then 1 else 0) + (cnt div 8 - ?i) + (if ?d then 1 else 0) \<le> length (fd_data f)"
    using assms unfolding bb by (simp split: if_splits)
  obtain f1 where f1: "put_times (used div 8) [0xFF] f = (True, f1)" "fd_pos f1 = fd_pos f + used div 8"
      "mem_write (fd_data f) (fd_pos f) (replicate (used div 8) 0xFF) = Some (fd_data f1)"
    using put_times_ok [of f "used div 8" "[0xFF]"] len unfolding cr by auto
  note l1 = mem_write_length [OF f1(3)]
  have r1: "fd_pos f1 + (if ?b then 1 else 0) \<le> length (fd_data f1)" using len f1(2) l1 by linarith
  obtain f2 where f2: "(if ?b then fd_put f1 [?x] else (True, f1)) = (True, f2)" "fd_pos f2 = fd_pos f1 + length (if ?b then [?x] else [])"
      "mem_write (fd_data f1) (fd_pos f1) (if ?b then [?x] else []) = Some (fd_data f2)"
    using opt_put [OF r1, of ?x] by blast
  note l2 = mem_write_length [OF f2(3)]
  have p2: "fd_pos f2 = fd_pos f + ?i" using f2(2) f1(2) by simp
  have r2: "fd_pos f2 + (cnt div 8 - ?i) * length [0 :: u8] \<le> length (fd_data f2)" using len p2 l1 l2 by simp
  obtain f3 where f3: "put_times (cnt div 8 - ?i) [0] f2 = (True, f3)" "fd_pos f3 = fd_pos f2 + (cnt div 8 - ?i)"
      "mem_write (fd_data f2) (fd_pos f2) (replicate (cnt div 8 - ?i) 0) = Some (fd_data f3)"
    using put_times_ok [OF r2] unfolding cr by (auto simp del: replicate_Suc)
  note l3 = mem_write_length [OF f3(3)]
  have r3: "fd_pos f3 + (if ?d then 1 else 0) \<le> length (fd_data f3)" using len f3(2) p2 l1 l2 l3 by linarith
  obtain f4 where f4: "(if ?d then fd_put f3 [0] else (True, f3)) = (True, f4)"
      "mem_write (fd_data f3) (fd_pos f3) (if ?d then [0] else []) = Some (fd_data f4)"
    using opt_put [OF r3, of 0] by blast
  have w2: "mem_write (fd_data f) (fd_pos f) (replicate (used div 8) 0xFF @ (if ?b then [?x] else [])) = Some (fd_data f2)"
    using mem_write_append [OF f1(3), of "if ?b then [?x] else []"] f2(3) f1(2) by simp
  have "fd_pos f2 = fd_pos f + length (replicate (used div 8) 0xFF @ (if ?b then [?x] else []))" using p2 by simp
  with mem_write_append [OF w2, of "replicate (cnt div 8 - ?i) 0"] f3(3)
  have w3: "mem_write (fd_data f) (fd_pos f) ((replicate (used div 8) 0xFF @ (if ?b then [?x] else [])) @ replicate (cnt div 8 - ?i) 0) = Some (fd_data f3)"
    by (simp only:)
  have lb: "length (if ?b then [?x] else []) = (if ?b then 1 else 0)" by simp
  have "fd_pos f3 = fd_pos f + length ((replicate (used div 8) 0xFF @ (if ?b then [?x] else [])) @ replicate (cnt div 8 - ?i) 0)"
    unfolding f3(2) p2 length_append length_replicate lb by (simp only: add.assoc)
  with mem_write_append [OF w3, of "if ?d then [0] else []"] f4(2)
  have w4: "mem_write (fd_data f) (fd_pos f) (bitmap_bytes used cnt) = Some (fd_data f4)" unfolding bb by (simp only:)
  have "write_free_bits used cnt f = (0, f4)"
    using f1(1) f2(1) f3(1) f4(1) by (simp add: write_free_bits_def Let_def split: if_splits)
  with w4 show ?thesis by blast
qed

lemma bit_ones_drop: "r \<le> 8 \<Longrightarrow> i < 8 \<Longrightarrow> bit (drop_bit (8 - r) (0xFF :: u8)) i \<longleftrightarrow> i < r"
proof -
  assume "r \<le> 8" "i < 8"
  moreover have f: "(0xFF :: u8) = - 1" by simp
  ultimately show ?thesis unfolding f by (auto simp: bit_drop_bit_eq bit_mask_iff)
qed

lemma bitmap_bit:
  assumes g: "g < length (bitmap_bytes used cnt)" and i: "i < 8"
  shows "bit (bitmap_bytes used cnt ! g) i \<longleftrightarrow> 8 * g + i < used"
proof -
  have u: "used = 8 * (used div 8) + used mod 8" by simp
  let ?mx = "if used mod 8 \<noteq> 0 then [drop_bit (8 - used mod 8) 0xFF :: u8] else []"
  let ?rest = "replicate (cnt div 8 - (used div 8 + length ?mx)) 0 @ (if cnt mod 8 \<noteq> 0 then [0] else []) :: u8 list"
  have b: "bitmap_bytes used cnt = replicate (used div 8) 0xFF @ ?mx @ ?rest" by (simp add: bitmap_bytes_def Let_def)
  have sr: "set ?rest \<subseteq> {0}" by auto
  have z: "j < length ?rest \<Longrightarrow> ?rest ! j = 0" for j using subsetD [OF sr nth_mem] by blast
  have lm: "length ?mx \<le> 1" "used mod 8 = 0 \<Longrightarrow> length ?mx = 0" by simp_all
  consider "g < used div 8" | "g = used div 8" "used mod 8 \<noteq> 0" | "used div 8 + length ?mx \<le> g" using lm by linarith
  then show ?thesis
  proof cases
    case 1
    then have "bitmap_bytes used cnt ! g = 0xFF" unfolding b by (simp add: nth_append)
    moreover have "8 * g + i < used" using 1 i u by linarith
    ultimately show ?thesis using all_bits_ones i by metis
  next
    case 2
    then have e: "bitmap_bytes used cnt ! g = drop_bit (8 - used mod 8) 0xFF" unfolding b by (simp add: nth_append)
    have le8: "used mod 8 \<le> 8" by (simp add: less_imp_le)
    have "8 * g + i < 8 * g + used mod 8 \<longleftrightarrow> i < used mod 8" by simp
    moreover have "8 * g + used mod 8 = used" using 2(1) by simp
    ultimately show ?thesis unfolding e bit_ones_drop [OF le8 i] by (simp only:)
  next
    case 3
    let ?j = "g - (used div 8 + length ?mx)"
    have e1: "bitmap_bytes used cnt = (replicate (used div 8) 0xFF @ ?mx) @ ?rest" unfolding b by simp
    have e2: "((replicate (used div 8) 0xFF @ ?mx) @ ?rest) ! g = ?rest ! (g - length (replicate (used div 8) 0xFF @ ?mx))"
      by (rule nth_append_right) (unfold length_append length_replicate, rule 3)
    have "bitmap_bytes used cnt ! g = ?rest ! ?j" unfolding e1 e2 length_append length_replicate ..
    moreover have "?j < length ?rest" using g 3 unfolding b length_append length_replicate by linarith
    ultimately have e: "bitmap_bytes used cnt ! g = 0" using z by simp
    have "used \<le> 8 * g" using 3 u by (auto split: if_splits)
    then show ?thesis unfolding e by simp
  qed
qed

lemma length_bitmap: "m < cnt \<Longrightarrow> m div 8 < length (bitmap_bytes used cnt)"
  and length_bitmap_le: "used \<le> cnt \<Longrightarrow> length (bitmap_bytes used cnt) \<le> cnt div 8 + 2"
proof -
  show "m div 8 < length (bitmap_bytes used cnt)" if "m < cnt"
  proof -
    have "m div 8 \<le> cnt div 8" using that by (intro div_le_mono) simp
    moreover have "m div 8 < cnt div 8" if "cnt mod 8 = 0" using that \<open>m < cnt\<close> by (metis div_mult_mod_eq add.right_neutral less_mult_imp_div_less)
    ultimately show ?thesis by (auto simp: bitmap_bytes_def Let_def)
  qed
  show "length (bitmap_bytes used cnt) \<le> cnt div 8 + 2" if "used \<le> cnt"
    using div_le_mono [OF that, of 8] by (auto simp: bitmap_bytes_def Let_def)
qed

section \<open>The layout\<close>

text \<open>The numbers of blocks, for a device of \<open>n\<close> blocks.\<close>

definition icnt :: "nat \<Rightarrow> nat" where "icnt n = (n + 31) div 32"
definition bcnt :: "nat \<Rightarrow> nat" where "bcnt n = (n + 32767) div 32768"
definition dstart :: "nat \<Rightarrow> nat" where "dstart n = 1 + icnt n + bcnt n"

lemma layout_numbers:
  assumes "4 \<le> n" "n < 524288"
  shows "n \<le> 32 * icnt n" and "32 * icnt n < n + 32" and "n \<le> 32768 * bcnt n" and "32768 * bcnt n < n + 32768"
    and "dstart n < n" and "1 \<le> icnt n" and "1 \<le> bcnt n" and "bcnt n \<le> 16"
  using assms unfolding dstart_def icnt_def bcnt_def by linarith+

lemma sb_numbers:
  assumes "4 \<le> n" "n < 524288" and "L div 4096 = n"
  defines "s \<equiv> compute_akpfs_sb (int L) 4096"
  shows "unat (block_cnt s) = n" "unat (inodes_per_block s) = 32" "inodes_block_start s = 1" "unat (inodes_block_cnt s) = icnt n"
    "unat (free_bits_per_block s) = 32768" "unat (free_bits_block_start s) = 1 + icnt n" "unat (free_bits_block_cnt s) = bcnt n"
    "unat (data_block_start s) = dstart n" "root_inode s = 1" "unat (block_size s) = 4096" "fs_type s = AKPFS_SUPER_MAGIC"
proof -
  note l = layout_numbers [OF assms(1,2)]
  have c: "cdiv (int L) 4096 = int n" using assms(3) by (simp add: cdiv_def flip: assms(3) zdiv_int)
  have c1: "cdiv (int n) (Suc 0) = int n" by (simp add: cdiv_def)
  have un: "unat (of_nat k :: u32) = k" if "k < 2 ^ 32" for k using that by (intro unat_of_nat_small) simp
  have i: "(of_nat n + 32 - 1 :: u32) = of_nat (n + 31)" "(of_nat n + 32768 - 1 :: u32) = of_nat (n + 32767)" by simp_all
  have q: "unat ((of_nat (n + 31) :: u32) div 32) = icnt n" "unat ((of_nat (n + 32767) :: u32) div 32768) = bcnt n"
    unfolding unat_div icnt_def bcnt_def using assms(2) un [of "n + 31"] un [of "n + 32767"] by simp_all
  have s: "s = \<lparr>fs_type = AKPFS_SUPER_MAGIC, block_size = 4096, block_cnt = of_nat n, inodes_per_block = 32, inodes_block_start = 1,
      inodes_block_cnt = of_nat (n + 31) div 32, free_bits_per_block = 32768, free_bits_block_start = 1 + of_nat (n + 31) div 32,
      free_bits_block_cnt = of_nat (n + 32767) div 32768,
      data_block_start = 1 + of_nat (n + 31) div 32 + of_nat (n + 32767) div 32768,
      data_block_cnt = of_nat n - (1 + of_nat (n + 31) div 32 + of_nat (n + 32767) div 32768), root_inode = 1\<rparr>"
    unfolding s_def compute_akpfs_sb_def Let_def c by (simp add: AVG_FILE_SIZE_def PAGE_SIZE_def c1 add.commute [of "of_nat n" "31 :: u32"] add.commute [of "of_nat n" "32767 :: u32"])
  have b: "unat (1 + (of_nat (n + 31) :: u32) div 32) = 1 + icnt n" using q(1) l(1,2) assms(2) by (simp add: unat_word_ariths)
  show "unat (block_cnt s) = n" "unat (inodes_per_block s) = 32" "inodes_block_start s = 1" "unat (inodes_block_cnt s) = icnt n"
    "unat (free_bits_per_block s) = 32768" "unat (free_bits_block_start s) = 1 + icnt n" "unat (free_bits_block_cnt s) = bcnt n"
    "root_inode s = 1" "unat (block_size s) = 4096" "fs_type s = AKPFS_SUPER_MAGIC"
    unfolding s using un [of n] assms(2) q b by simp_all
  show "unat (data_block_start s) = dstart n"
    unfolding s dstart_def using b q l assms(2) by (simp add: unat_word_ariths)
qed

lemma bitmap_fits:
  assumes "4 \<le> n" "n < 524288"
  shows "length (bitmap_bytes (dstart n + 1) n) \<le> 4096 * bcnt n"
proof -
  note l = layout_numbers [OF assms]
  let ?u = "dstart n + 1"
  let ?i = "?u div 8 + (if ?u mod 8 \<noteq> 0 then 1 else 0)"
  have len: "length (bitmap_bytes ?u n) = ?i + (n div 8 - ?i) + (if n mod 8 \<noteq> 0 then 1 else 0)"
    by (simp add: bitmap_bytes_def Let_def)
  show ?thesis
  proof (cases "?i \<le> n div 8")
    case True
    then have "length (bitmap_bytes ?u n) = n div 8 + (if n mod 8 \<noteq> 0 then 1 else 0)" unfolding len by simp
    moreover have d: "n div 8 \<le> 4096 * bcnt n" using div_le_mono [OF l(3), of 8] by simp
    moreover have "n div 8 \<noteq> 4096 * bcnt n" if "n mod 8 \<noteq> 0"
    proof
      assume "n div 8 = 4096 * bcnt n"
      with div_mult_mod_eq [of n 8] l(3) that show False by linarith
    qed
    ultimately show ?thesis by (auto split: if_splits)
  next
    case False
    then have "n div 8 \<le> ?u div 8" by (auto split: if_splits)
    then have "n < ?u + 8" by linarith
    moreover have "?u = 2 + icnt n + bcnt n" by (simp add: dstart_def)
    ultimately have "n < 20" using l(2,4) by linarith
    moreover have "length (bitmap_bytes ?u n) \<le> n div 8 + 2" using l(5) by (intro length_bitmap_le) simp
    ultimately show ?thesis using l(7) by linarith
  qed
qed

definition mk_root :: "akpfs_inode \<Rightarrow> akpfs_inode" where
  "mk_root j = (compute_akpfs_empty_dir_inode [47] j)\<lparr>file_blocks := (replicate 27 0)[0 := 2]\<rparr>"

definition mk_file :: "u32 \<Rightarrow> akpfs_inode \<Rightarrow> akpfs_inode" where
  "mk_file b j = (compute_akpfs_empty_file_inode moksha j)\<lparr>file_size := 21, file_blocks := (replicate 27 0)[0 := b]\<rparr>"

lemma wf_made: "wf_inode j \<Longrightarrow> wf_inode (mk_root j)" "wf_inode j \<Longrightarrow> wf_inode (mk_file b j)" "wf_inode j \<Longrightarrow> wf_inode (compute_akpfs_empty_inode j)"
  by (simp_all add: wf_inode_def mk_root_def mk_file_def compute_akpfs_empty_dir_inode_def compute_akpfs_empty_file_inode_def
      compute_akpfs_empty_inode_def akp_consts)

lemma length_bytes_of_asb: "length (bytes_of_asb s) = 44"
  by (simp add: bytes_of_asb_def)

lemma length_file_data: "length file_data = 21"
  by (simp add: file_data_def)

text \<open>The device after the tool has run.\<close>

lemma make_akpfs_image:
  assumes n: "4 \<le> n" "n < 524288" "length (fd_data f) div 4096 = n" and j: "wf_inode j0" "wf_inode j1" "wf_inode j2"
  defines "s \<equiv> compute_akpfs_sb (int (length (fd_data f))) 4096"
  defines "B \<equiv> bitmap_bytes (dstart n + 1) n"
  shows "\<exists>f'. make_akpfs (j0, j1, j2) f (int (length (fd_data f))) 4096 = (0, f') \<and> length (fd_data f') = length (fd_data f) \<and>
     mem_read (fd_data f') 0 44 = Some (bytes_of_asb s) \<and>
     mem_read (fd_data f') 4224 256 = Some (bytes_of_inode (mk_root j1) @ bytes_of_inode (mk_file (data_block_start s) j2)) \<and>
     mem_read (fd_data f') (dstart n * 4096) 21 = Some file_data \<and>
     mem_read (fd_data f') ((1 + icnt n) * 4096) (length B) = Some B"
proof -
  let ?L = "length (fd_data f)"
  note l = layout_numbers [OF n(1,2)] and sn = sb_numbers [OF n, folded s_def]
  have L: "n * 4096 \<le> ?L" using n(3) div_times_less_eq_dividend by blast
  have bf: "length B \<le> 4096 * bcnt n" unfolding B_def by (rule bitmap_fits [OF n(1,2)])
  have ds: "dstart n = 1 + icnt n + bcnt n" by (simp add: dstart_def)
  have ipb: "inodes_per_block s = 32" using sn(2) by (intro word_unat_eq_iff [THEN iffD2]) simp
  let ?e = "bytes_of_inode (compute_akpfs_empty_inode j0)" and ?r = "bytes_of_inode (mk_root j1)" and ?m = "bytes_of_inode (mk_file (data_block_start s) j2)"
  have le: "length ?e = 128" "length ?r = 128" "length ?m = 128" by (simp_all add: length_bytes_of_inode wf_made j)
  have ne: "?e \<noteq> []" "?r \<noteq> []" "?m \<noteq> []" "bytes_of_asb s \<noteq> []" "file_data \<noteq> []"
    using le length_bytes_of_asb [of s] length_file_data by auto
  \<comment> \<open>the super block\<close>
  have "fd_pos (fd_seek f 0) + length (bytes_of_asb s) \<le> length (fd_data (fd_seek f 0))" using length_bytes_of_asb L n(1) by simp
  from fd_put_ok [OF this ne(4)] obtain f1 where f1: "fd_put (fd_seek f 0) (bytes_of_asb s) = (True, f1)"
      "mem_write (fd_data f) 0 (bytes_of_asb s) = Some (fd_data f1)" by auto
  have l1: "length (fd_data f1) = ?L" using mem_write_length [OF f1(2)] .
  \<comment> \<open>the inode blocks\<close>
  have c1: "\<forall>bc\<in>set [1..<1 + icnt n]. 4096 \<le> bc * 4096 \<and> bc * 4096 + 4096 \<le> (1 + icnt n) * 4096 \<and> bc * 4096 < 2 ^ 32"
    using l(2) n(2) by auto
  have c2: "(1 + icnt n) * 4096 \<le> length (fd_data f1)"
  proof -
    have "(1 + icnt n) * 4096 \<le> n * 4096" by (rule mult_le_mono1) (use l(5) ds in linarith)
    then show ?thesis unfolding l1 by (rule order_trans [OF _ L])
  qed
  have c3: "32 * length ?e \<le> 4096" "(4096 :: nat) < 2 ^ 32" using le(1) by simp_all
  obtain f2 where f2: "clear_inode_blocks [1..<1 + icnt n] 4096 32 ?e f1 = (True, f2)" "length (fd_data f2) = ?L"
      "\<And>off k. off + k \<le> 4096 \<or> (1 + icnt n) * 4096 \<le> off \<Longrightarrow> mem_read (fd_data f2) off k = mem_read (fd_data f1) off k"
    using clear_inode_blocks_ok [OF ne(1) c3(1) c1 c2 c3(2)] unfolding l1 by blast
  \<comment> \<open>the root directory and its file\<close>
  have "fd_pos (fd_seek f2 4224) + length ?r \<le> length (fd_data (fd_seek f2 4224))" using le f2(2) L n(1) by simp
  from fd_put_ok [OF this ne(2)] obtain f3 where f3: "fd_put (fd_seek f2 4224) ?r = (True, f3)" "fd_pos f3 = 4352"
      "mem_write (fd_data f2) 4224 ?r = Some (fd_data f3)" using le by auto
  have "fd_pos f3 + length ?m \<le> length (fd_data f3)" using f3(2) mem_write_length [OF f3(3)] f2(2) le L n(1) by simp
  from fd_put_ok [OF this ne(3)] obtain f4 where f4: "fd_put f3 ?m = (True, f4)"
      "mem_write (fd_data f2) 4224 (?r @ ?m) = Some (fd_data f4)"
    using mem_write_append [OF f3(3), of ?m] f3(2) le(2) by auto
  have l4: "length (fd_data f4) = ?L" using mem_write_length [OF f4(2)] f2(2) by simp
  \<comment> \<open>the data and the bitmap\<close>
  have p5: "unat (data_block_start s * 4096) = dstart n * 4096" "unat (free_bits_block_start s * 4096) = (1 + icnt n) * 4096"
    using sn(6,8) l(5) n(2) ds by (simp_all add: unat_word_ariths)
  let ?f5 = "fd_seek f4 (dstart n * 4096)"
  have "fd_pos ?f5 + length file_data \<le> length (fd_data ?f5)" using l4 L l(5) length_file_data by simp
  from fd_put_ok [OF this ne(5)] obtain f5 where f5: "fd_put ?f5 file_data = (True, f5)"
      "mem_write (fd_data f4) (dstart n * 4096) file_data = Some (fd_data f5)" by auto
  have l5: "length (fd_data f5) = ?L" using mem_write_length [OF f5(2)] l4 by simp
  let ?f6 = "fd_seek f5 ((1 + icnt n) * 4096)"
  have "fd_pos ?f6 + length B \<le> length (fd_data ?f6)" using l5 L l(5) ds bf by simp
  from write_free_bits_ok [OF this [unfolded B_def]] obtain f6 where f6: "write_free_bits (dstart n + 1) n ?f6 = (0, f6)"
      "mem_write (fd_data f5) ((1 + icnt n) * 4096) B = Some (fd_data f6)" by (auto simp: B_def)
  have l6: "length (fd_data f6) = ?L" using mem_write_length [OF f6(2)] l5 by simp
  have r4: "unat (1 + data_block_start s) = dstart n + 1" "unat (data_block_start s + 1) = dstart n + 1"
    using sn(8) l(5) n(2) by (simp_all add: unat_word_ariths)
  have run: "make_akpfs (j0, j1, j2) f (int ?L) 4096 = (0, f6)"
    unfolding make_akpfs_def Let_def prod.case s_def [symmetric] sn(1-4,9) r4 ipb
    using f1(1) f2(1) f3(1) f4(1) f5(1) f6(1) p5
    by (simp add: mk_root_def mk_file_def akp_consts length_file_data)
  have R: "mem_read (fd_data f6) off k = mem_read (fd_data f5) off k" if "off + k \<le> (1 + icnt n) * 4096 \<or> dstart n * 4096 \<le> off" for off k
    using that bf ds by (intro mem_read_write_disjoint [OF f6(2)]) auto
  have R5: "mem_read (fd_data f5) off k = mem_read (fd_data f4) off k" if "off + k \<le> dstart n * 4096" for off k
    using that by (intro mem_read_write_disjoint [OF f5(2)]) simp
  have R4: "mem_read (fd_data f4) off k = mem_read (fd_data f2) off k" if "off + k \<le> 4224" for off k
    using that by (intro mem_read_write_disjoint [OF f4(2)]) simp
  have "mem_read (fd_data f6) 0 44 = Some (bytes_of_asb s)"
    using R [of 0 44] R5 [of 0 44] R4 [of 0 44] f2(3) [of 0 44] mem_read_write_same [OF f1(2)] length_bytes_of_asb [of s] ds by simp
  moreover have "mem_read (fd_data f6) 4224 256 = Some (?r @ ?m)"
    using R [of 4224 256] R5 [of 4224 256] mem_read_write_same [OF f4(2)] le l(6) ds by simp
  moreover have "mem_read (fd_data f6) (dstart n * 4096) 21 = Some file_data"
    using R [of "dstart n * 4096" 21] mem_read_write_same [OF f5(2)] length_file_data by simp
  ultimately show ?thesis using run l6 mem_read_write_same [OF f6(2)] by blast
qed

end
