(* ===== verification/Akp_Props.thy ===== *)
theory Akp_Props
  imports Akp_Mkfs
begin

text \<open>
  Properties of the AKP file system: a volume made by the tool is mounted as a consistent one
  with its file, consistency is kept by every operation, the bitmap search finds the first
  unused block, and what happens on the error paths.
\<close>

section \<open>A freshly made volume\<close>

lemma asb_bytes: "asb_of_bytes (bytes_of_asb s) = s"
  by (cases s) (simp add: asb_of_bytes_def bytes_of_asb_def Let_def)

lemma page_read:
  assumes "page_ok d" "b < page_nblk d" "off + k \<le> 4096"
  shows "peek page_bdev d b off k = mem_read d (b * 4096 + off) k"
proof -
  note p = page_number [OF assms(1,2)]
  have m: "mem_read d (b * 4096) 4096 = Some (take 4096 (drop (b * 4096) d))" using p(2) by (simp add: mem_read_def)
  show ?thesis using page_bread [OF assms(1,2)] mem_read_part [OF m assms(3)] by (simp add: peek_def)
qed

text \<open>What the tool leaves on a device of \<open>n\<close> blocks, and the volume it is.\<close>

definition made :: "akpfs_inode \<Rightarrow> akpfs_inode \<Rightarrow> nat \<Rightarrow> akpfs_sb \<Rightarrow> u8 list \<Rightarrow> bool" where
  "made j1 j2 n s d \<longleftrightarrow> page_ok d \<and> page_nblk d = n \<and> akp_layout 4096 n s \<and> unat (data_block_start s) = dstart n \<and>
     unat (block_cnt s) = n \<and> unat (inodes_per_block s) = 32 \<and> inodes_block_start s = 1 \<and> unat (inodes_block_cnt s) = icnt n \<and>
     unat (free_bits_block_start s) = 1 + icnt n \<and> root_inode s = 1 \<and> fs_type s = AKPFS_SUPER_MAGIC \<and>
     mem_read d 0 44 = Some (bytes_of_asb s) \<and>
     mem_read d 4224 256 = Some (bytes_of_inode (mk_root j1) @ bytes_of_inode (mk_file (data_block_start s) j2)) \<and>
     mem_read d (dstart n * 4096) 21 = Some file_data \<and>
     mem_read d ((1 + icnt n) * 4096) (length (bitmap_bytes (dstart n + 1) n)) = Some (bitmap_bytes (dstart n + 1) n)"

lemma made_layout:
  assumes n: "4 \<le> n" "n < 524288" "L div 4096 = n"
  shows "akp_layout 4096 n (compute_akpfs_sb (int L) 4096)"
proof -
  note l = layout_numbers [OF n(1,2)] and sn = sb_numbers [OF n]
  have "dstart n = 1 + icnt n + bcnt n" by (simp add: dstart_def)
  then show ?thesis using l by (simp add: akp_layout_def sn word_le_nat_alt)
qed

lemma mkfs_made:
  assumes n: "4 \<le> n" "n < 524288" "length d div 4096 = n" and j: "wf_inode j0" "wf_inode j1" "wf_inode j2"
  shows "\<exists>d'. mkfs_main 2 (Some (Some d)) (j0, j1, j2) = (0, Some d') \<and> length d' = length d \<and>
     made j1 j2 n (compute_akpfs_sb (int (length d)) 4096) d'"
proof -
  let ?s = "compute_akpfs_sb (int (length d)) 4096"
  have L: "length d < 2 ^ 31" using dividend_less_times_div [of 4096 "length d"] n(2,3) by simp
  have sz: "sint (of_nat (length d) :: u32) = int (length d)"
    using L sint_small [of "of_nat (length d)"] by (simp add: unat_of_nat_small)
  let ?f = "fd_seek (fd_open d) (length d)"
  have fd: "fd_data ?f = d" by simp
  obtain f' where f': "make_akpfs (j0, j1, j2) ?f (int (length d)) 4096 = (0, f')" "length (fd_data f') = length d"
      "mem_read (fd_data f') 0 44 = Some (bytes_of_asb ?s)"
      "mem_read (fd_data f') 4224 256 = Some (bytes_of_inode (mk_root j1) @ bytes_of_inode (mk_file (data_block_start ?s) j2))"
      "mem_read (fd_data f') (dstart n * 4096) 21 = Some file_data"
      "mem_read (fd_data f') ((1 + icnt n) * 4096) (length (bitmap_bytes (dstart n + 1) n)) = Some (bitmap_bytes (dstart n + 1) n)"
    using make_akpfs_image [of n ?f j0 j1 j2] n j unfolding fd by blast
  have "mkfs_main 2 (Some (Some d)) (j0, j1, j2) = (0, Some (fd_data f'))"
    using f'(1) by (simp add: mkfs_main_def get_dev_size_def sz compute_blk_size_def PAGE_SIZE_def)
  moreover have "page_ok (fd_data f')" "page_nblk (fd_data f') = n" using f'(2) L n(3) by (simp_all add: page_ok_def page_nblk_def)
  ultimately show ?thesis using f' made_layout [OF n] sb_numbers [OF n] by (auto simp: made_def)
qed

lemma made_volume:
  fixes r :: int
  assumes m: "made j1 j2 n s d" and n: "4 \<le> n" "n < 524288" and j: "wf_inode j1" "wf_inode j2"
  defines "a \<equiv> \<lparr>adev = d, asb = s, refs = r\<rparr>"
  shows "akp_ok page_bdev page_nblk page_ok a" and "inode_at page_bdev a 1 = mk_root j1"
    and "inode_at page_bdev a 2 = mk_file (data_block_start s) j2" and "inodes (asb a) = 32 * icnt n"
    and "k < n \<Longrightarrow> blk_used page_bdev a k \<longleftrightarrow> k < dstart n + 1"
proof -
  note l = layout_numbers [OF n]
  have M: "page_ok d" "page_nblk d = n" "akp_layout 4096 n s" "unat (inodes_per_block s) = 32" "inodes_block_start s = 1"
      "unat (inodes_block_cnt s) = icnt n" "unat (free_bits_block_start s) = 1 + icnt n"
      "mem_read d 4224 256 = Some (bytes_of_inode (mk_root j1) @ bytes_of_inode (mk_file (data_block_start s) j2))"
      "mem_read d ((1 + icnt n) * 4096) (length (bitmap_bytes (dstart n + 1) n)) = Some (bitmap_bytes (dstart n + 1) n)"
    using m unfolding made_def by blast+
  have bs: "bs_of page_bdev = 4096" by (simp add: bs_of_def)
  show "akp_ok page_bdev page_nblk page_ok a" using M(1-3) by (simp add: akp_ok_def a_def bs)
  show "inodes (asb a) = 32 * icnt n" using M(4,6) by (simp add: inodes_def a_def)
  have ipb: "inodes_per_block s = 32" using M(4) by (intro word_unat_eq_iff [THEN iffD2]) simp
  have le: "length (bytes_of_inode (mk_root j1)) = 128" "length (bytes_of_inode (mk_file (data_block_start s) j2)) = 128"
    by (simp_all add: length_bytes_of_inode wf_made j)
  have p: "peek page_bdev d 1 off 128 = mem_read d (4096 + off) 128" if "off + 128 \<le> 4096" for off
    using page_read [of d 1 off 128] M(1,2) n(1) that by simp
  have r1: "mem_read d 4224 128 = Some (bytes_of_inode (mk_root j1))"
    using mem_read_part [OF M(8), of 0 128] le by (simp add: mem_read_def)
  have r2: "mem_read d 4352 128 = Some (bytes_of_inode (mk_file (data_block_start s) j2))"
    using mem_read_part [OF M(8), of 128 128] le by (simp add: mem_read_def)
  show "inode_at page_bdev a 1 = mk_root j1" "inode_at page_bdev a 2 = mk_file (data_block_start s) j2"
    using p [of 128] p [of 256] r1 r2
    by (simp_all add: inode_at_def a_def inode_block_def inode_off_def ipb M(5) inode_bytes wf_made j)
  show "blk_used page_bdev a k \<longleftrightarrow> k < dstart n + 1" if k: "k < n"
  proof -
    let ?B = "bitmap_bytes (dstart n + 1) n" and ?bi = "k div 32768" and ?ec = "k mod 32768 div 8"
    have g: "k div 8 < length ?B" by (rule length_bitmap [OF k])
    have bi: "1 + icnt n + ?bi < n" using k l(3,5) by (simp add: dstart_def)
    have ad: "?bi * 4096 + ?ec = k div 8"
    proof -
      have "k = (?bi * 4096) * 8 + k mod 32768" using div_mult_mod_eq [of k 32768] by linarith
      then have "k div 8 = ((?bi * 4096) * 8 + k mod 32768) div 8" by (rule arg_cong)
      also have "\<dots> = ?bi * 4096 + ?ec" by (rule div_mult_self3) simp
      finally show ?thesis by (rule sym)
    qed
    have "peek page_bdev d (1 + icnt n + ?bi) ?ec 1 = mem_read d ((1 + icnt n + ?bi) * 4096 + ?ec) 1"
      using bi M(1,2) by (intro page_read) simp_all
    also have "\<dots> = mem_read d ((1 + icnt n) * 4096 + k div 8) 1" using ad by (simp add: algebra_simps)
    also have "\<dots> = mem_read ?B (k div 8) 1" using g by (intro mem_read_part [OF M(9), symmetric]) simp
    also have "\<dots> = Some [?B ! (k div 8)]" using g by (simp add: mem_read_def take_Suc_conv_app_nth hd_drop_conv_nth take_Suc)
    finally have pk: "peek page_bdev d (1 + icnt n + ?bi) ?ec 1 = Some [?B ! (k div 8)]" .
    obtain blk where blk: "bread page_bdev d (1 + icnt n + ?bi) = Some blk" "length blk = 4096"
      using page.bread_ok [OF M(1), of "1 + icnt n + ?bi"] bi M(2) by auto
    have ec: "?ec < 4096" by linarith
    have "blk ! ?ec = ?B ! (k div 8)" using pk blk ec by (simp add: peek_def mem_read_def take_Suc hd_drop_conv_nth)
    then have "blk_used page_bdev a k \<longleftrightarrow> bit (?B ! (k div 8)) (k mod 8)"
      using blk(1) by (simp add: blk_used_def bm_block_def bs a_def M(7))
    also have "\<dots> \<longleftrightarrow> 8 * (k div 8) + k mod 8 < dstart n + 1" by (rule bitmap_bit [OF g]) simp
    finally show ?thesis by simp
  qed
qed

lemma made_consistent:
  assumes m: "made j1 j2 n s d" and n: "4 \<le> n" "n < 524288" and j: "wf_inode j1" "wf_inode j2"
  shows "akp_inv page_bdev page_nblk page_ok {2} \<lparr>adev = d, asb = s, refs = r\<rparr>"
proof -
  let ?a = "\<lparr>adev = d, asb = s, refs = r\<rparr>"
  note v = made_volume [OF m n j, where r = r] and l = layout_numbers [OF n]
  have M: "unat (data_block_start s) = dstart n" "unat (block_cnt s) = n" using m unfolding made_def by blast+
  have fb: "file_blocks (inode_at page_bdev ?a 2) = (replicate 27 0)[0 := data_block_start s]"
    and fs: "file_size (inode_at page_bdev ?a 2) = 21" unfolding v(3) by (simp_all add: mk_file_def)
  have at: "(replicate 27 0)[0 := data_block_start s] ! i = (if i = 0 then data_block_start s else 0)" if "i < 27" for i
    using that by (simp add: nth_list_update)
  have "blk_used page_bdev ?a k" if "k \<le> dstart n" for k using v(5) [of k] that l(5) by simp
  moreover have "(2 :: nat) < inodes s" using v(4) l(6) by simp
  moreover have "data_block_start s < block_cnt s" using M l(5) by (simp add: word_less_nat_alt)
  ultimately show ?thesis
    unfolding akp_inv_def Let_def akp.simps using v(1) M fs by (auto simp: fb at split: if_splits)
qed

lemma moksha_name: "wf_inode j \<Longrightarrow> same_name moksha (file_name (mk_file b j))"
  by (simp add: same_name_def mk_file_def compute_akpfs_empty_file_inode_def moksha_def strncpy_def akp_consts wf_inode_def cstr_def)

lemma root_name: "wf_inode j \<Longrightarrow> same_name (file_name (mk_root j)) [47]"
  by (simp add: same_name_def mk_root_def compute_akpfs_empty_dir_inode_def strncpy_def akp_consts wf_inode_def cstr_def)

section \<open>Listing a directory\<close>

text \<open>What a directory lists: the names and numbers of its entries, the unused ones left out.\<close>

definition akp_listing :: "'d bdev \<Rightarrow> 'd akp \<Rightarrow> u32 list \<Rightarrow> (u8 list \<times> u32) list" where
  "akp_listing dev a es = map (\<lambda>e. (take 16 (cstr (file_name (inode_at dev a e))), e)) (filter (\<lambda>e. e \<noteq> 0) es)"

text \<open>A reader with room for \<open>cap\<close> entries.\<close>

definition emit_list :: "nat \<Rightarrow> (u8 list \<times> u32) list \<Rightarrow> u8 list \<Rightarrow> u32 \<Rightarrow> u16 \<Rightarrow> (u8 list \<times> u32) list option" where
  "emit_list cap c n e t = (if length c < cap then Some (c @ [(n, e)]) else None)"

lemma dir_loop_lists:
  assumes "buffer_cache dev nblk ok" and a: "akp_ok dev nblk ok a"
    and "\<forall>e\<in>set es. unat e < inodes (asb a)" and "pos < f_pos" and "length c \<le> cap"
  defines "L \<equiv> drop (f_pos - pos - 1) (akp_listing dev a es)"
  shows "dir_loop dev (\<lambda>c n pos e t. case emit_list cap c n e t of None \<Rightarrow> Inl (- ENOSPC) | Some c \<Rightarrow> Inr c) es pos f_pos c a
    = Some (if length c + length L \<le> cap then 0 else - ENOSPC, f_pos + min (cap - length c) (length L), take cap (c @ L), brelse a)"
  using assms(3-5) unfolding L_def
proof (induction es arbitrary: pos f_pos c)
  case (Cons e es)
  have gi: "akpfs_get_inode dev a e = Some (Some (inode_at dev a e), a\<lparr>refs := refs a + 1\<rparr>)"
    using buffer_cache.akpfs_get_inode_ok [OF assms(1) a] Cons.prems(1) by simp
  have br: "brelse (a\<lparr>refs := refs a + 1\<rparr>) = a" by (simp add: brelse_def)
  let ?L = "akp_listing dev a"
  show ?case
  proof (cases "e = 0")
    case True
    then show ?thesis using Cons.IH [of pos f_pos c] Cons.prems by (simp add: akp_listing_def)
  next
    case e: False
    let ?n = "(take 16 (cstr (file_name (inode_at dev a e))), e)"
    have L: "?L (e # es) = ?n # ?L es" using e by (simp add: akp_listing_def)
    consider (skip) "Suc pos < f_pos" | (full) "f_pos = Suc pos" "length c = cap" | (emit) "f_pos = Suc pos" "length c < cap"
      using Cons.prems by linarith
    then show ?thesis
    proof cases
      case skip
      then obtain k where "f_pos = Suc (Suc pos) + k" using less_iff_Suc_add by auto
      then show ?thesis using Cons.IH [of "Suc pos" f_pos c] Cons.prems e by (simp add: gi br L)
    next
      case full
      then show ?thesis using e by (simp add: gi br L emit_list_def akp_consts)
    next
      case emit
      then obtain k where "cap = Suc (length c + k)" using less_iff_Suc_add by auto
      then show ?thesis using emit(1) e Cons.IH [of "Suc pos" "Suc f_pos" "c @ [?n]"] Cons.prems
        by (simp add: gi br L emit_list_def akp_consts)
    qed
  qed
qed (simp add: akp_listing_def)

section \<open>Properties\<close>

text \<open>
  C18: on a device of at least four pages and below 2 GiB, whole sectors, the tool succeeds and
  the module then mounts the device: the volume is consistent, exactly the blocks up to the
  file's data block are in use, looking up \<open>moksha.txt\<close> in the root directory finds inode 2
  with 21 bytes and mode \<open>-rw-r--r--\<close>, and its data block starts with the text.
\<close>

theorem mkfs_then_mount:
  assumes len: "4 * 4096 \<le> length d" "length d < 2 ^ 31" "length d mod 512 = 0" and j: "wf_inode j0" "wf_inode j1" "wf_inode j2"
    and s0: "s0 = \<lparr>vol = \<lparr>adev = d', asb = sb0, refs = 0\<rparr>, s_fs_info = False, info_allocated = False, s_root = False, root_refs = 0\<rparr>"
    and mk: "mkfs_main 2 (Some (Some d)) (j0, j1, j2) = (st, Some d')"
  shows "st = 0 \<and> (\<exists>s1. akpfs_fill_super ram_bdev page_bdev True (\<lambda>b. b) Iget_new True s0 = Some (0, s1) \<and>
     akp_inv page_bdev page_nblk page_ok {2} (vol s1) \<and>
     (\<forall>k<unat (block_cnt (asb (vol s1))). blk_used page_bdev (vol s1) k \<longleftrightarrow> k \<le> unat (data_block_start (asb (vol s1)))) \<and>
     akpfs_inode_lookup page_bdev (\<lambda>_. Iget_new) (vol s1) 1 moksha =
       Some (Inr (Some \<lparr>v_ino = 2, v_size = 21, v_mode = 0x81A4\<rparr>), vol s1) \<and>
     peek page_bdev d' (unat (data_block_start (asb (vol s1)))) 0 21 = Some file_data)"
proof -
  let ?n = "length d div 4096"
  have n: "4 \<le> ?n" "?n < 524288" using len(1,2) by (simp_all add: div_le_mono less_mult_imp_div_less)
  note l = layout_numbers [OF n]
  define s where "s = compute_akpfs_sb (int (length d)) 4096"
  obtain d1 where "mkfs_main 2 (Some (Some d)) (j0, j1, j2) = (0, Some d1)" "length d1 = length d" "made j1 j2 ?n s d1"
    using mkfs_made [OF n refl j] unfolding s_def by blast
  then have st: "st = 0" and ld: "length d' = length d" and m: "made j1 j2 ?n s d'" using mk by simp_all
  have M: "page_ok d'" "page_nblk d' = ?n" "unat (data_block_start s) = dstart ?n" "unat (block_cnt s) = ?n" "root_inode s = 1"
      "fs_type s = AKPFS_SUPER_MAGIC" "mem_read d' 0 44 = Some (bytes_of_asb s)" "mem_read d' (dstart ?n * 4096) 21 = Some file_data"
      "unat (block_size s) = 4096"
    using m unfolding made_def akp_layout_def by blast+
  let ?a = "\<lparr>adev = d', asb = s, refs = 1\<rparr>"
  note v = made_volume [OF m n j(2,3), where r = 1]
  have in12: "unat (1 :: u32) < inodes (asb ?a)" "unat (2 :: u32) < inodes (asb ?a)" using v(4) l(6) by simp_all
  note gi = page.akpfs_get_inode_ok [OF v(1)]
  have ro: "ram_ok d'" "0 < ram_nblk d'" using len ld by (simp_all add: ram_ok_def ram_nblk_def RB_SECTOR_SIZE_def div_greater_zero_iff)
  have b0: "bread ram_bdev d' 0 = Some (take 512 d')" using ram_bread [OF ro] by simp
  have "mem_read (take 512 d') 0 44 = mem_read d' 0 44" using ld len(1) by (simp add: mem_read_def)
  then have sb: "mem_read (take 512 d') 0 44 = Some (bytes_of_asb s)" using M(7) by simp
  let ?s1 = "s0\<lparr>vol := ?a, s_fs_info := True, info_allocated := True, s_root := True, root_refs := 1\<rparr>"
  have fill: "akpfs_fill_super ram_bdev page_bdev True (\<lambda>b. b) Iget_new True s0 = Some (0, ?s1)"
    using gi [OF in12(1)] v(2) root_name [OF j(2)]
    by (simp add: akpfs_fill_super_def s0 sb_bread_def b0 sb asb_bytes M(5,6) Let_def brelse_def)
  have look: "akpfs_inode_lookup page_bdev (\<lambda>_. Iget_new) ?a 1 moksha = Some (Inr (Some \<lparr>v_ino = 2, v_size = 21, v_mode = 0x81A4\<rparr>), ?a)"
  proof -
    have e: "file_blocks (mk_root j1) = 2 # replicate 26 0" by (simp add: mk_root_def numeral_eq_Suc)
    have va: "akp_ok page_bdev page_nblk page_ok (\<lparr>adev = d', asb = s, refs = 2\<rparr>)" using made_volume(1) [OF m n j(2,3)] .
    have g2: "akpfs_get_inode page_bdev \<lparr>adev = d', asb = s, refs = 2\<rparr> 2
        = Some (Some (mk_file (data_block_start s) j2), \<lparr>adev = d', asb = s, refs = 3\<rparr>)"
      using page.akpfs_get_inode_ok [OF va, of 2] in12(2) made_volume(3) [OF m n j(2,3), where r = 2] by simp
    have fl: "akpfs_get_inode_flags (mk_file (data_block_start s) j2) = 0x81A4" "file_size (mk_file (data_block_start s) j2) = 21"
      by (simp_all add: akpfs_get_inode_flags_def mk_file_def)
    show ?thesis using gi [OF in12(1)] v(2) by (simp add: akpfs_inode_lookup_def e g2 moksha_name [OF j(3)] fl brelse_def)
  qed
  have pk: "peek page_bdev d' (dstart ?n) 0 21 = Some file_data"
    using page_read [of d' "dstart ?n" 0 21] M(1,2,8) l(5) by simp
  have us: "blk_used page_bdev ?a k \<longleftrightarrow> k \<le> dstart ?n" if "k < ?n" for k using v(5) [OF that] by auto
  show ?thesis
    using st fill made_consistent [OF m n j(2,3), where r = 1] us look pk M(3,4) by (intro conjI exI [of _ ?s1]) simp_all
qed

text \<open>A small device to apply the properties to.\<close>

definition sample_page :: "u8 list" where
  "sample_page = replicate 20480 0"

definition sample_junk :: akpfs_inode where
  "sample_junk = \<lparr>file_name = replicate 16 1, file_size = 5, file_blocks = replicate 27 9\<rparr>"

lemma sample_page: "length sample_page = 20480" "wf_inode sample_junk"
  unfolding sample_page_def sample_junk_def wf_inode_def by (simp_all only: length_replicate akpfs_inode.simps)

lemma sample_made:
  obtains d' where "mkfs_main 2 (Some (Some sample_page)) (sample_junk, sample_junk, sample_junk) = (0, Some d')"
    "akp_inv page_bdev page_nblk page_ok {2} \<lparr>adev = d', asb = compute_akpfs_sb 20480 4096, refs = 1\<rparr>"
    "\<And>k. k < 5 \<Longrightarrow> blk_used page_bdev \<lparr>adev = d', asb = compute_akpfs_sb 20480 4096, refs = 1\<rparr> k \<longleftrightarrow> k < 4"
    "inode_at page_bdev \<lparr>adev = d', asb = compute_akpfs_sb 20480 4096, refs = 1\<rparr> 1 = mk_root sample_junk"
    "inode_at page_bdev \<lparr>adev = d', asb = compute_akpfs_sb 20480 4096, refs = 1\<rparr> 2 = mk_file (data_block_start (compute_akpfs_sb 20480 4096)) sample_junk"
    "inodes (compute_akpfs_sb 20480 4096) = 32"
proof -
  have n: "4 \<le> length sample_page div 4096" "length sample_page div 4096 < 524288" by (simp_all add: sample_page)
  obtain d' where "mkfs_main 2 (Some (Some sample_page)) (sample_junk, sample_junk, sample_junk) = (0, Some d')"
      "made sample_junk sample_junk (length sample_page div 4096) (compute_akpfs_sb (int (length sample_page)) 4096) d'"
    using mkfs_made [OF n refl] sample_page(2) by blast
  moreover have "dstart (length sample_page div 4096) = 3" by (simp add: sample_page dstart_def icnt_def bcnt_def)
  moreover have "icnt (length sample_page div 4096) = 1" by (simp add: sample_page icnt_def)
  ultimately show thesis
    using made_consistent [OF _ n sample_page(2) sample_page(2)] made_volume(2-5) [OF _ n sample_page(2) sample_page(2), where r = 1] sample_page(1)
    by (intro that) simp_all
qed

theorem mkfs_then_mount_witness:
  "\<exists>d' s1. mkfs_main 2 (Some (Some sample_page)) (sample_junk, sample_junk, sample_junk) = (0, Some d') \<and>
     akpfs_fill_super ram_bdev page_bdev True (\<lambda>b. b) Iget_new True
       \<lparr>vol = \<lparr>adev = d', asb = undefined, refs = 0\<rparr>, s_fs_info = False, info_allocated = False, s_root = False, root_refs = 0\<rparr> = Some (0, s1) \<and>
     akpfs_inode_lookup page_bdev (\<lambda>_. Iget_new) (vol s1) 1 moksha =
       Some (Inr (Some \<lparr>v_ino = 2, v_size = 21, v_mode = 0x81A4\<rparr>), vol s1)"
proof -
  obtain d' where d': "mkfs_main 2 (Some (Some sample_page)) (sample_junk, sample_junk, sample_junk) = (0, Some d')"
    using sample_made by blast
  have "4 * 4096 \<le> length sample_page" "length sample_page < 2 ^ 31" "length sample_page mod 512 = 0" by (simp_all add: sample_page)
  from mkfs_then_mount [OF this sample_page(2) sample_page(2) sample_page(2) refl d', of undefined] d' show ?thesis by blast
qed

text \<open>
  C19: from a consistent volume, every sequence of block mappings and inode write-backs on its
  files keeps the volume consistent, so that no block ever belongs to two files or to the
  reserved area, and holds no buffer at the end that it did not hold before.
\<close>

theorem akp_reachable_consistent:
  assumes "buffer_cache dev nblk ok" and "akp_inv dev nblk ok files a" and "(akp_step dev files)\<^sup>*\<^sup>* a a'"
  shows "akp_inv dev nblk ok files a' \<and> refs a' = refs a"
  using assms(3,2)
proof (induction rule: rtranclp_induct)
  case (step b c)
  with buffer_cache.akp_step_consistent [OF assms(1)] show ?case by simp
qed simp

theorem akp_reachable_consistent_witness:
  "\<exists>a a'. akp_step page_bdev {2} a a' \<and> refs a' = 1 \<and> akp_inv page_bdev page_nblk page_ok {2} a'"
proof -
  obtain d' where i: "akp_inv page_bdev page_nblk page_ok {2} \<lparr>adev = d', asb = compute_akpfs_sb 20480 4096, refs = 1\<rparr>" (is "akp_inv _ _ _ _ ?a")
    using sample_made by blast
  have "akpfs_get_block page_bdev ?a 2 30 True = Some (- ENOSPC, None, ?a)" by (simp add: akpfs_get_block_def akp_consts)
  then have s: "akp_step page_bdev {2} ?a ?a" by (intro map_block [of 2]) simp_all
  then have "(akp_step page_bdev {2})\<^sup>*\<^sup>* ?a ?a" by (rule r_into_rtranclp)
  from akp_reachable_consistent [OF page.buffer_cache_axioms i this] s have "akp_step page_bdev {2} ?a ?a \<and> refs ?a = 1 \<and> akp_inv page_bdev page_nblk page_ok {2} ?a"
    by simp
  then show ?thesis by blast
qed

text \<open>
  C20: the search for a free block, which skips full bytes of the bitmap block by block, is the
  plain search for the first unused block number: it returns 0 and changes nothing when all
  blocks of the volume are used, and otherwise returns the first unused one and changes its
  flag, and no other.
\<close>

theorem akp_get_free_block_first:
  assumes "buffer_cache dev nblk ok" and "akp_ok dev nblk ok a"
  shows "case find (\<lambda>n. \<not> blk_used dev a n) [0..<unat (block_cnt (asb a))] of
     None \<Rightarrow> akpfs_get_free_block dev a = Some (0, a)
   | Some n \<Rightarrow> \<exists>a'. akpfs_get_free_block dev a = Some (of_nat n, a') \<and> akp_ok dev nblk ok a' \<and> refs a' = refs a \<and>
       (\<forall>m. blk_used dev a' m = (m = n \<or> blk_used dev a m))"
proof -
  note f = buffer_cache.akpfs_get_free_block_ok [OF assms]
  show ?thesis
  proof (cases "find (\<lambda>n. \<not> blk_used dev a n) [0..<unat (block_cnt (asb a))]")
    case (Some n)
    with f show ?thesis by (fastforce simp: buffer_cache.bm_changed_def [OF assms(1)])
  qed (use f in simp)
qed

theorem akp_get_free_block_first_witness:
  "\<exists>a a'. akp_ok page_bdev page_nblk page_ok a \<and> akpfs_get_free_block page_bdev a = Some (4, a') \<and> blk_used page_bdev a' 4"
proof -
  obtain d' where i: "akp_inv page_bdev page_nblk page_ok {2} \<lparr>adev = d', asb = compute_akpfs_sb 20480 4096, refs = 1\<rparr>"
    and u: "\<And>k. k < 5 \<Longrightarrow> blk_used page_bdev \<lparr>adev = d', asb = compute_akpfs_sb 20480 4096, refs = 1\<rparr> k \<longleftrightarrow> k < 4"
    using sample_made by blast
  let ?a = "\<lparr>adev = d', asb = compute_akpfs_sb 20480 4096, refs = 1\<rparr>"
  from i have ok: "akp_ok page_bdev page_nblk page_ok ?a" by (simp add: akp_inv_def)
  have "unat (block_cnt (asb ?a)) = 5" using sb_numbers(1) [of 5 20480] by simp
  then have "find (\<lambda>n. \<not> blk_used page_bdev ?a n) [0..<unat (block_cnt (asb ?a))] = Some 4"
    using u by (simp add: upt_rec)
  with akp_get_free_block_first [OF page.buffer_cache_axioms ok] ok show ?thesis by auto
qed

text \<open>
  When the root cannot be attached the reference to the root inode is dropped twice, by
  \<open>d_make_root\<close> and by \<open>iget_failed\<close>: one more than was taken. No other failure has this effect.
\<close>

lemma akpfs_root_put_twice:
  assumes "akpfs_fill_super dev0 dev mem min_blocksize iget made_root s = Some (r, s1)" "r \<noteq> 0"
  shows "root_refs s1 = root_refs s - (if r = - ENOMEM \<and> mem then 1 else 0)"
  using assms by (cases iget) (auto simp: akpfs_fill_super_def Let_def split: if_splits option.splits prod.splits dest!: bind_eq_SomeD)

text \<open>
  C22: mounting and unmounting balance: a successful mount keeps one buffer and the module's
  structure, and unmounting gives both back; a failed mount keeps neither, but when the block
  size is refused the super block is left with a pointer to the freed structure, which
  \<open>akpfs_kill_sb\<close> then uses.
\<close>

theorem akp_mount_balance:
  assumes "akpfs_fill_super dev0 dev mem min_blocksize iget made_root s = Some (r, s1)" and "\<not> s_fs_info s" "\<not> info_allocated s"
  shows "(r = 0 \<longrightarrow> refs (vol s1) = refs (vol s) + 1 \<and>
        (\<exists>s2. akpfs_kill_sb s1 = Some s2 \<and> refs (vol s2) = refs (vol s) \<and> \<not> info_allocated s2)) \<and>
     (r \<noteq> 0 \<longrightarrow> refs (vol s1) = refs (vol s) \<and> \<not> info_allocated s1 \<and> (akpfs_kill_sb s1 = None \<longleftrightarrow> s_fs_info s1)) \<and>
     (\<forall>b. mem \<longrightarrow> bread dev0 (adev (vol s)) 0 = Some b \<longrightarrow> 44 \<le> length b \<longrightarrow>
        fs_type (asb_of_bytes (take 44 b)) = AKPFS_SUPER_MAGIC \<longrightarrow>
        min_blocksize (unat (block_size (asb_of_bytes (take 44 b)))) \<noteq> unat (block_size (asb_of_bytes (take 44 b))) \<longrightarrow>
        r = - EINVAL \<and> s_fs_info s1)"
proof -
  have gi: "refs a' = refs a + (if i = None then 0 else 1)" if "akpfs_get_inode dev a ino = Some (i, a')" for a ino i a'
    using that by (auto simp: akpfs_get_inode_def sb_bread_def split: option.splits if_splits dest!: bind_eq_SomeD)
  show ?thesis
  proof (cases "mem \<and> bread dev0 (adev (vol s)) 0 \<noteq> None")
    case False
    then show ?thesis using assms
      by (auto simp: akpfs_fill_super_def sb_bread_def akpfs_kill_sb_def Let_def split: if_splits)
  next
    case True
    then obtain b where b: mem "bread dev0 (adev (vol s)) 0 = Some b" by auto
    let ?q = "asb_of_bytes (take 44 b)"
    let ?a = "(vol s)\<lparr>refs := refs (vol s) + 1, asb := ?q\<rparr>"
    have lb: "44 \<le> length b" using assms(1) b by (auto simp: akpfs_fill_super_def sb_bread_def mem_read_def split: if_splits)
    show ?thesis
    proof (cases "fs_type ?q = AKPFS_SUPER_MAGIC \<and> min_blocksize (unat (block_size ?q)) = unat (block_size ?q)")
      case False
      then show ?thesis using assms b lb
        by (auto simp: akpfs_fill_super_def sb_bread_def mem_read_def akpfs_kill_sb_def brelse_def Let_def split: if_splits)
    next
      case True
      then show ?thesis using assms b lb gi [of ?a "root_inode ?q"]
        by (cases iget) (auto simp: akpfs_fill_super_def sb_bread_def mem_read_def akpfs_kill_sb_def brelse_def Let_def
            split: if_splits option.splits dest!: bind_eq_SomeD)
    qed
  qed
qed

theorem akp_mount_balance_witness:
  "\<exists>s1. akpfs_fill_super ram_bdev page_bdev True (\<lambda>_. 512) Iget_new True
     \<lparr>vol = \<lparr>adev = bytes_of_asb (compute_akpfs_sb 20480 4096) @ replicate 20436 0, asb = undefined, refs = 0\<rparr>,
      s_fs_info = False, info_allocated = False, s_root = False, root_refs = 0\<rparr> = Some (- EINVAL, s1) \<and> akpfs_kill_sb s1 = None"
  (is "\<exists>s1. akpfs_fill_super _ _ _ _ _ _ ?s = _ \<and> _")
proof -
  let ?q = "compute_akpfs_sb 20480 4096" and ?d = "adev (vol ?s)"
  have l: "length (bytes_of_asb ?q) = 44" by (simp add: bytes_of_asb_def)
  have ro: "ram_ok ?d" "0 < ram_nblk ?d" by (simp_all add: ram_ok_def ram_nblk_def RB_SECTOR_SIZE_def l)
  have b: "bread ram_bdev ?d 0 = Some (take 512 ?d)" using ram_bread [OF ro] by simp
  have t: "take 44 (take 512 ?d) = bytes_of_asb ?q" "44 \<le> length (take 512 ?d)" using l by simp_all
  have q: "fs_type ?q = AKPFS_SUPER_MAGIC" "unat (block_size ?q) = 4096" by (simp_all add: compute_akpfs_sb_def Let_def)
  have "mem_read (take 512 ?d) 0 44 = Some (bytes_of_asb ?q)" using t by (simp add: mem_read_def)
  then have "akpfs_fill_super ram_bdev page_bdev True (\<lambda>_. 512) Iget_new True ?s \<noteq> None"
    using b q by (simp add: akpfs_fill_super_def sb_bread_def asb_bytes Let_def)
  then obtain r s1 where f: "akpfs_fill_super ram_bdev page_bdev True (\<lambda>_. 512) Iget_new True ?s = Some (r, s1)" by auto
  have "r = - EINVAL \<and> s_fs_info s1" using akp_mount_balance [OF f] b t q by (simp add: asb_bytes)
  moreover from this have "akpfs_kill_sb s1 = None" using akp_mount_balance [OF f] by simp
  ultimately show ?thesis using f by blast
qed

text \<open>
  C21: reading a directory from position \<open>pos\<close> behind the dots lists the entries from number
  \<open>pos - 2\<close> on, the unused slots left out, in their order and as many as the reader has room for;
  the position advances by exactly that number, so that the next call goes on where this one
  stopped, and no buffer stays held. The result is \<open>-ENOSPC\<close> when entries are left.
\<close>

theorem akp_iterate_lists:
  assumes "buffer_cache dev nblk ok" and "akp_ok dev nblk ok a" and "unat ino < inodes (asb a)"
    and "\<forall>e\<in>set (dir_entries (inode_at dev a ino)). unat e < inodes (asb a)" and "2 \<le> pos"
  shows "let L = drop (pos - 2) (akp_listing dev a (dir_entries (inode_at dev a ino))) in
    akpfs_file_iterate dev (\<lambda>pos c. (True, pos, c)) (emit_list cap) ino pos [] a
    = Some (if length L \<le> cap then 0 else - ENOSPC, pos + min cap (length L), take cap L, a)"
proof -
  let ?a = "a\<lparr>refs := refs a + 1\<rparr>" and ?es = "dir_entries (inode_at dev a ino)"
  have gi: "akpfs_get_inode dev a ino = Some (Some (inode_at dev a ino), ?a)"
    using buffer_cache.akpfs_get_inode_ok [OF assms(1,2,3)] .
  have ok: "akp_ok dev nblk ok ?a" using assms(2) by (simp add: akp_ok_def)
  have at: "akp_listing dev ?a = akp_listing dev a" by (simp add: akp_listing_def inode_at_def fun_eq_iff)
  have br: "brelse ?a = a" by (simp add: brelse_def)
  show ?thesis
  proof (cases "pos \<ge> 2 + AKPFS_MAX_ENTRIES_PER_DIR")
    case True
    have "length (akp_listing dev a ?es) \<le> length ?es" by (simp add: akp_listing_def)
    then have "drop (pos - 2) (akp_listing dev a ?es) = []" using True by (simp add: akp_consts inode_at_def inode_of_bytes_def)
    then show ?thesis using True by (simp add: akpfs_file_iterate_def)
  next
    case False
    then show ?thesis
      using dir_loop_lists [OF assms(1) ok, of ?es 1 pos "[]" cap] assms(4,5)
      by (simp add: akpfs_file_iterate_def gi at br Let_def numeral_2_eq_2)
  qed
qed

theorem akp_iterate_lists_witness:
  "\<exists>a. akp_ok page_bdev page_nblk page_ok a \<and>
     akpfs_file_iterate page_bdev (\<lambda>pos c. (True, pos, c)) (emit_list 5) 1 2 [] a = Some (0, 3, [(moksha, 2)], a)"
proof -
  obtain d' where i: "akp_inv page_bdev page_nblk page_ok {2} \<lparr>adev = d', asb = compute_akpfs_sb 20480 4096, refs = 1\<rparr>"
    and n: "inode_at page_bdev \<lparr>adev = d', asb = compute_akpfs_sb 20480 4096, refs = 1\<rparr> 1 = mk_root sample_junk"
      "inode_at page_bdev \<lparr>adev = d', asb = compute_akpfs_sb 20480 4096, refs = 1\<rparr> 2 = mk_file (data_block_start (compute_akpfs_sb 20480 4096)) sample_junk"
      "inodes (compute_akpfs_sb 20480 4096) = 32"
    using sample_made by blast
  let ?a = "\<lparr>adev = d', asb = compute_akpfs_sb 20480 4096, refs = 1\<rparr>"
  have ok: "akp_ok page_bdev page_nblk page_ok ?a" using i by (simp add: akp_inv_def)
  have e: "file_blocks (mk_root sample_junk) = 2 # replicate 26 0" by (simp add: mk_root_def numeral_eq_Suc)
  have nm: "take 16 (cstr (file_name (mk_file b sample_junk))) = moksha" for b
    by (simp add: mk_file_def compute_akpfs_empty_file_inode_def moksha_def strncpy_def akp_consts cstr_def)
  have l: "akp_listing page_bdev ?a (2 # replicate 26 0) = [(moksha, 2)]" by (simp add: akp_listing_def n nm)
  show ?thesis
    using akp_iterate_lists [OF page.buffer_cache_axioms ok, of 1 2 5] ok by (intro exI [of _ ?a]) (simp add: n e l)
qed

text \<open>
  When the bitmap cannot be read, \<open>akpfs_get_free_block\<close> gives \<open>-EIO\<close> as an unsigned
  number, and \<open>akpfs_get_block\<close> takes it for a block: it stores 4294967291 in the inode, maps
  the page there and reports success.
\<close>

theorem akp_get_block_stores_error:
  assumes "iblock < AKPFS_MAX_BLOCKS_PER_FILE" and "akpfs_get_inode dev a ino = Some (Some i, a1)" and "file_blocks i ! iblock = 0"
    and "free_bits_block_cnt (asb a) \<noteq> 0" and "bread dev (adev a) (unat (free_bits_block_start (asb a))) = None"
    and "put_inode dev a1 ino (i\<lparr>file_blocks := (file_blocks i)[iblock := 0xFFFFFFFB]\<rparr>) = Some a2"
  shows "akpfs_get_block dev a ino iblock True = Some (0, Some 0xFFFFFFFB, brelse a2)"
proof -
  have i: "length (file_blocks i) = 27" "adev a1 = adev a" "asb a1 = asb a"
    using assms(2) by (auto simp: akpfs_get_inode_def sb_bread_def inode_of_bytes_def split: if_splits option.splits dest!: bind_eq_SomeD)
  have "[0..<unat (free_bits_block_cnt (asb a1))] = 0 # [1..<unat (free_bits_block_cnt (asb a1))]"
    using assms(4) i(3) by (simp add: upt_rec unat_gt_0)
  then have "akpfs_get_free_block dev a1 = Some (0xFFFFFFFB, a1)"
    using assms(5) i(2,3) by (simp add: akpfs_get_free_block_def sb_bread_def)
  then show ?thesis using assms i(1) by (simp add: akpfs_get_block_def akp_consts arr_get_def arr_set_def)
qed

theorem akp_get_block_stores_error_witness:
  "\<exists>a2. akpfs_get_block page_bdev
     \<lparr>adev = sample_page, asb = (compute_akpfs_sb 20480 4096)\<lparr>free_bits_block_start := 100, free_bits_block_cnt := 1\<rparr>, refs = 1\<rparr> 2 3 True
     = Some (0, Some 0xFFFFFFFB, a2)"
  (is "\<exists>a2. akpfs_get_block _ ?a _ _ _ = _")
proof -
  have p: "page_ok sample_page" "page_nblk sample_page = 5" by (simp_all add: page_ok_def page_nblk_def sample_page)
  have sn: "inodes_per_block (compute_akpfs_sb 20480 4096) = 32" "inodes_block_start (compute_akpfs_sb 20480 4096) = 1"
    by (simp_all add: compute_akpfs_sb_def Let_def)
  have b: "bread page_bdev sample_page (Suc 0) = Some (replicate 4096 0)"
    using page_bread [OF p(1), of 1] p(2) by (simp add: sample_page_def)
  let ?i = "inode_of_bytes (replicate 128 0)"
  have gi: "akpfs_get_inode page_bdev ?a 2 = Some (Some ?i, ?a\<lparr>refs := 2\<rparr>)"
    by (simp add: akpfs_get_inode_def sb_bread_def inode_block_def inode_off_def sn b mem_read_def)
  have z: "file_blocks ?i ! 3 = 0" by (simp add: inode_of_bytes_def unle32s_def numeral_eq_Suc unle_def)
  have nb: "bread page_bdev sample_page 100 = None" by (rule page_bread_outside) (simp add: p)
  obtain d' where "patch page_bdev sample_page 1 256 (bytes_of_inode (?i\<lparr>file_blocks := (file_blocks ?i)[3 := 0xFFFFFFFB]\<rparr>)) = Some d'"
    using page.patch_ex [OF p(1), of 1 256 "bytes_of_inode (?i\<lparr>file_blocks := (file_blocks ?i)[3 := 0xFFFFFFFB]\<rparr>)"] p(2)
    by (auto simp: bytes_of_inode_def inode_of_bytes_def)
  then have "put_inode page_bdev (?a\<lparr>refs := 2\<rparr>) 2 (?i\<lparr>file_blocks := (file_blocks ?i)[3 := 0xFFFFFFFB]\<rparr>) = Some (?a\<lparr>refs := 2, adev := d'\<rparr>)"
    by (simp add: put_inode_def inode_block_def inode_off_def sn)
  from akp_get_block_stores_error [OF _ gi _ _ _ this] nb show ?thesis by (simp add: akp_consts z)
qed

end
