(* ===== verification/Usb_Char.thy ===== *)
theory Usb_Char
  imports Usb_Core
begin

text \<open>
  The transfer loops that the character drivers of \<^verbatim>\<open>src/USB/USBDriver\<close> share, as they stand in
  \<^verbatim>\<open>ddk_mem.c\<close>: sending a user buffer packet by packet, and handing the bytes of the receive buffer
  to the user with the rest moved to its front.
\<close>

section \<open>The loops\<close>

text \<open>The loop goes on after a transfer of no bytes: it may not return.\<close>

partial_function (option) write_loop ::
    "'u usb \<Rightarrow> u8 \<Rightarrow> nat \<Rightarrow> u8 list \<Rightarrow> nat \<Rightarrow> nat \<Rightarrow> 'u \<Rightarrow> ((int + nat) \<times> 'u) option" where
  "write_loop usb out_ep out_buf_size buf cnt wrote_cnt u =
     (if wrote_cnt < cnt
      then let write_size = min out_buf_size (cnt - wrote_cnt) in
        case mem_read buf wrote_cnt write_size of
          None \<Rightarrow> Some (Inl (- EFAULT), u)
        | Some out_buf \<Rightarrow>
            (case usb_int_out usb out_ep out_buf u of (retval, wrote_size, u) \<Rightarrow>
               if retval \<noteq> 0 then Some (Inl retval, u)
               else write_loop usb out_ep out_buf_size buf cnt (wrote_cnt + wrote_size) u)
      else Some (Inr wrote_cnt, u))"

text \<open>\<open>for (i = cnt; i < read_size; i++) in_buf[i - cnt] = in_buf[i];\<close>\<close>

fun shift_loop :: "nat \<Rightarrow> nat list \<Rightarrow> u8 list \<Rightarrow> u8 list option" where
  "shift_loop cnt [] buf = Some buf"
| "shift_loop cnt (i # is) buf = do {
     x \<leftarrow> arr_get buf i;
     buf \<leftarrow> arr_set buf (i - cnt) x;
     shift_loop cnt is buf
   }"

text \<open>
  The end of \<open>ddk_read\<close>, with \<open>read_size\<close> bytes in \<open>in_buf\<close> and \<open>room\<close> writable bytes at the user's
  pointer: the bytes copied to the user or the error, the new \<open>in_buf\<close> and \<open>in_buf_left_over\<close>.
\<close>

definition deliver :: "u8 list \<Rightarrow> nat \<Rightarrow> nat \<Rightarrow> nat \<Rightarrow> ((int + u8 list) \<times> u8 list \<times> nat) option" where
  "deliver in_buf read_size room cnt = do {
     let read_cnt = (if read_size \<le> cnt then read_size else cnt);
     bytes \<leftarrow> mem_read in_buf 0 read_cnt;
     if room < read_cnt then Some (Inl (- EFAULT), in_buf, read_size)
     else do {
       buf \<leftarrow> shift_loop cnt [cnt..<read_size] in_buf;
       Some (Inr bytes, buf, if cnt < read_size then read_size - cnt else 0)
     }
   }"

section \<open>Sending\<close>

text \<open>
  A device that takes a part, but never nothing, of each packet: the loop returns with the whole
  buffer sent. \<open>P k u\<close> describes the device after \<open>k\<close> bytes.
\<close>

lemma write_loop_sends:
  assumes step: "\<And>k u r n u'. P k u \<Longrightarrow> k < length buf \<Longrightarrow>
      usb_int_out usb ep (take (min sz (length buf - k)) (drop k buf)) u = (r, n, u') \<Longrightarrow>
      r = 0 \<and> 0 < n \<and> n \<le> min sz (length buf - k) \<and> P (k + n) u'"
  shows "P k u \<Longrightarrow> k \<le> length buf \<Longrightarrow>
    \<exists>u'. write_loop usb ep sz buf (length buf) k u = Some (Inr (length buf), u') \<and> P (length buf) u'"
proof (induction "length buf - k" arbitrary: k u rule: less_induct)
  case less
  show ?case
  proof (cases "k < length buf")
    case False
    then have "k = length buf" using less.prems by simp
    then show ?thesis using less.prems by (simp add: write_loop.simps)
  next
    case True
    let ?p = "take (min sz (length buf - k)) (drop k buf)"
    obtain r n u1 where o: "usb_int_out usb ep ?p u = (r, n, u1)" by (cases "usb_int_out usb ep ?p u")
    have s: "r = 0 \<and> 0 < n \<and> n \<le> min sz (length buf - k) \<and> P (k + n) u1" by (rule step [OF less.prems(1) True o])
    then have n: "0 < n" "k + n \<le> length buf" "P (k + n) u1" using True by auto
    have "length buf - (k + n) < length buf - k" using n True by linarith
    from less.hyps [OF this n(3,2)] obtain u' where
      u': "write_loop usb ep sz buf (length buf) (k + n) u1 = Some (Inr (length buf), u')" "P (length buf) u'" by blast
    have "mem_read buf k (min sz (length buf - k)) = Some ?p" using True by (simp add: mem_read_def)
    then have "write_loop usb ep sz buf (length buf) k u = Some (Inr (length buf), u')"
      using True o s u'(1) by (subst write_loop.simps) (simp add: Let_def)
    with u'(2) show ?thesis by blast
  qed
qed

section \<open>Receiving\<close>

lemma shift_loop_moves:
  assumes "i \<le> n" and "n \<le> length buf" and "c \<le> i"
  shows "\<exists>buf'. shift_loop c [i..<n] buf = Some buf' \<and> length buf' = length buf \<and>
    (\<forall>k. k < n - c \<longrightarrow> i - c \<le> k \<longrightarrow> buf' ! k = buf ! (k + c)) \<and> (\<forall>k. k < i - c \<longrightarrow> buf' ! k = buf ! k)"
  using assms
proof (induction "n - i" arbitrary: i buf)
  case (Suc j)
  have i: "i < n" "i < length buf" "i - c < length buf" using Suc by linarith+
  let ?b = "buf[i - c := buf ! i]"
  have "j = n - Suc i" "Suc i \<le> n" "n \<le> length ?b" "c \<le> Suc i" using Suc i by simp_all
  from Suc.hyps(1) [OF this] obtain b' where b': "shift_loop c [Suc i..<n] ?b = Some b'" "length b' = length buf"
    "\<And>k. k < n - c \<Longrightarrow> Suc i - c \<le> k \<Longrightarrow> b' ! k = ?b ! (k + c)" "\<And>k. k < Suc i - c \<Longrightarrow> b' ! k = ?b ! k" by auto
  have "b' ! k = buf ! (k + c)" if k: "k < n - c" "i - c \<le> k" for k
  proof (cases "k = i - c")
    case True
    then have "b' ! k = ?b ! k" using Suc.prems by (intro b'(4)) linarith
    then show ?thesis using True i Suc.prems by simp
  next
    case False
    then have "b' ! k = ?b ! (k + c)" using k Suc.prems by (intro b'(3)) linarith+
    moreover have "k + c \<noteq> i - c" using False k Suc.prems by linarith
    ultimately show ?thesis by simp
  qed
  moreover have "b' ! k = buf ! k" if "k < i - c" for k using that b'(4) [of k] by simp
  ultimately show ?case using b'(1,2) i Suc.prems by (simp add: upt_conv_Cons arr_get_in arr_set_in)
qed simp

lemma shift_loop_drops:
  assumes "c \<le> n" and "n \<le> length buf"
  obtains buf' where "shift_loop c [c..<n] buf = Some buf'" "length buf' = length buf" "take (n - c) buf' = take (n - c) (drop c buf)"
proof -
  obtain buf' where b: "shift_loop c [c..<n] buf = Some buf'" "length buf' = length buf" "\<And>k. k < n - c \<Longrightarrow> buf' ! k = buf ! (k + c)"
    using shift_loop_moves [OF assms order_refl] by auto
  have "take (n - c) buf' = take (n - c) (drop c buf)"
    using assms b(2,3) by (intro nth_equalityI) (simp_all add: add.commute)
  with b that show thesis by blast
qed

text \<open>The bytes in the buffer are those given to the user followed by those left over.\<close>

lemma deliver_splits:
  assumes "n \<le> length buf"
  obtains r buf' k where "deliver buf n room cnt = Some (r, buf', k)" "length buf' = length buf" "k \<le> n"
    "take n buf = (case r of Inl e \<Rightarrow> [] | Inr bs \<Rightarrow> bs) @ take k buf'"
    "case r of Inl e \<Rightarrow> e = - EFAULT \<and> room < cnt | Inr bs \<Rightarrow> length bs = min n cnt"
proof (cases "room < min n cnt")
  case True
  then show thesis using assms by (intro that [of "Inl (- EFAULT)" buf n]) (auto simp: deliver_def mem_read_def)
next
  case False
  obtain buf' where b: "shift_loop cnt [cnt..<n] buf = Some buf'" "length buf' = length buf"
      "take (n - cnt) buf' = take (n - cnt) (drop cnt buf)"
  proof (cases "cnt \<le> n")
    case True
    then show thesis using assms that by (rule shift_loop_drops)
  qed (use that in simp)
  have rk: "(if n \<le> cnt then n else cnt) = min n cnt" "(if cnt < n then n - cnt else 0) = n - cnt" by simp_all
  have d: "deliver buf n room cnt = Some (Inr (take (min n cnt) buf), buf', n - cnt)"
    using assms False b(1) by (simp add: deliver_def mem_read_def rk Let_def)
  have t: "take n buf = take (min n cnt) buf @ take (n - cnt) buf'"
    unfolding b(3) by (cases "cnt \<le> n") (simp_all add: take_add [symmetric])
  show thesis by (rule that [OF d b(2)]) (use assms t in auto)
qed

end
