(* ===== verification/Ddk_Mem.thy ===== *)
theory Ddk_Mem
  imports Usb_Char
begin

text \<open>
  The character driver for the memory of the USB board, \<^verbatim>\<open>src/USB/USBDriver/ddk_mem.c\<close>.

  \<open>ddk_mem\<close> is the state of one interface: whether its minor is registered and its data
  pointer set, the driver's structure (\<open>None\<close>: not allocated), and the number of
  \<open>ddk_device_file\<close> structures that are allocated. The file position is passed and returned.
  \<open>None\<close> stands for blocking for ever (a held mutex, a loop without progress) and for the use
  of freed memory. The bytes of \<open>out_buf\<close> are sent in the iteration that fills them, so only
  its size is kept. A user buffer is its accessible bytes, or for reading their number: a copy
  beyond them is the fault that \<open>copy_from_user\<close> and \<open>copy_to_user\<close> report.
\<close>

section \<open>Data structures\<close>

definition CUSTOM_RQ_SET_MEM_RD_OFFSET :: u8 where "CUSTOM_RQ_SET_MEM_RD_OFFSET = 3"
definition CUSTOM_RQ_GET_MEM_RD_OFFSET :: u8 where "CUSTOM_RQ_GET_MEM_RD_OFFSET = 4"
definition CUSTOM_RQ_SET_MEM_WR_OFFSET :: u8 where "CUSTOM_RQ_SET_MEM_WR_OFFSET = 5"
definition CUSTOM_RQ_GET_MEM_WR_OFFSET :: u8 where "CUSTOM_RQ_GET_MEM_WR_OFFSET = 6"
definition CUSTOM_RQ_GET_MEM_SIZE :: u8 where "CUSTOM_RQ_GET_MEM_SIZE = 7"
definition MEM_EP_IN :: u8 where "MEM_EP_IN = 0x81"
definition MEM_EP_OUT :: u8 where "MEM_EP_OUT = 0x01"
definition USB_ENDPOINT_NUMBER_MASK :: u8 where "USB_ENDPOINT_NUMBER_MASK = 0x0F"

lemmas mem_consts = CUSTOM_RQ_SET_MEM_RD_OFFSET_def CUSTOM_RQ_GET_MEM_RD_OFFSET_def CUSTOM_RQ_SET_MEM_WR_OFFSET_def
  CUSTOM_RQ_GET_MEM_WR_OFFSET_def CUSTOM_RQ_GET_MEM_SIZE_def MEM_EP_IN_def MEM_EP_OUT_def USB_ENDPOINT_NUMBER_MASK_def

datatype dir = e_read | e_write

record 'u ddk_device =
  m :: bool
  open_cnt :: int
  in_ep :: u8
  out_ep :: u8
  in_buf_size :: nat
  out_buf_size :: nat
  device :: 'u

record ddk_device_file =
  in_buf :: "u8 list"
  in_buf_left_over :: nat

record 'u ddk_mem =
  registered :: bool
  intfdata :: bool
  dev :: "'u ddk_device option"
  ddfs :: int

definition mutex_lock :: "'u ddk_device \<Rightarrow> 'u ddk_device option" where
  "mutex_lock d = (if m d then None else Some (d\<lparr>m := True\<rparr>))"

definition mutex_unlock :: "'u ddk_device \<Rightarrow> 'u ddk_device" where
  "mutex_unlock d = d\<lparr>m := False\<rparr>"

section \<open>Control messages\<close>

definition get_size :: "'u usb \<Rightarrow> 'u ddk_device \<Rightarrow> int \<times> 'u ddk_device" where
  "get_size usb d =
     (let (retval, val, u) = usb_control_in usb CUSTOM_RQ_GET_MEM_SIZE VENDOR_IN 0 0 2 (device d)
      in (if retval < 0 then retval else short_of val, d\<lparr>device := u\<rparr>))"

definition get_off :: "'u usb \<Rightarrow> 'u ddk_device \<Rightarrow> dir \<Rightarrow> int \<times> 'u ddk_device" where
  "get_off usb d dir =
     (let (retval, val, u) = usb_control_in usb
        (if dir = e_read then CUSTOM_RQ_GET_MEM_RD_OFFSET else CUSTOM_RQ_GET_MEM_WR_OFFSET) VENDOR_IN 0 0 2 (device d)
      in (if retval < 0 then retval else short_of val, d\<lparr>device := u\<rparr>))"

text \<open>The offset is cut to an \<open>int\<close> by the callers, and to 16 bits by the USB core.\<close>

definition set_off :: "'u usb \<Rightarrow> 'u ddk_device \<Rightarrow> dir \<Rightarrow> int \<Rightarrow> int \<times> 'u ddk_device" where
  "set_off usb d dir offset =
     (let (retval, u) = usb_control_out usb
        (if dir = e_read then CUSTOM_RQ_SET_MEM_RD_OFFSET else CUSTOM_RQ_SET_MEM_WR_OFFSET) VENDOR_OUT (word_of_int offset) 0 []
        (device d)
      in (retval, d\<lparr>device := u\<rparr>))"

section \<open>Opening and closing\<close>

text \<open>\<open>mem\<close> is what \<open>kmalloc\<close> returned: the initial bytes of \<open>in_buf\<close>, of size \<open>in_buf_size\<close>.\<close>

definition ddk_open :: "'u usb \<Rightarrow> u8 list option \<Rightarrow> 'u ddk_mem \<Rightarrow> (int \<times> ddk_device_file option \<times> 'u ddk_mem) option" where
  "ddk_open usb mem s =
     (if \<not> registered s \<or> \<not> intfdata s then Some (- ENODEV, None, s)
      else do {
        d \<leftarrow> dev s;
        d \<leftarrow> mutex_lock d;
        if in_buf_size d = 0 then Some (- ENODEV, None, s\<lparr>dev := Some (mutex_unlock d)\<rparr>)
        else case mem of
          None \<Rightarrow> Some (- ENOMEM, None, s\<lparr>dev := Some d\<rparr>)
        | Some bytes \<Rightarrow>
            let ddf = \<lparr>in_buf = bytes, in_buf_left_over = 0\<rparr>;
                s = s\<lparr>ddfs := ddfs s + 1\<rparr>;
                (retval, d) = set_off usb (mutex_unlock d) e_read 0
            in if retval < 0 then Some (retval, None, s\<lparr>dev := Some d\<rparr>)
               else let (retval, d) = set_off usb d e_write 0
                 in if retval < 0 then Some (retval, None, s\<lparr>dev := Some d\<rparr>)
                    else Some (0, Some ddf, s\<lparr>dev := Some (d\<lparr>open_cnt := open_cnt d + 1\<rparr>)\<rparr>)
      })"

definition ddk_close :: "'u ddk_mem \<Rightarrow> (int \<times> 'u ddk_mem) option" where
  "ddk_close s = do {
     d \<leftarrow> dev s;
     Some (0, s\<lparr>dev := Some (d\<lparr>open_cnt := open_cnt d - 1\<rparr>), ddfs := ddfs s - 1\<rparr>)
   }"

section \<open>Writing\<close>

definition ddk_write :: "'u usb \<Rightarrow> 'u ddk_mem \<Rightarrow> u8 list \<Rightarrow> nat \<Rightarrow> int \<Rightarrow> (int \<times> int \<times> 'u ddk_mem) option" where
  "ddk_write usb s buf cnt off = do {
     d \<leftarrow> dev s;
     let (retval, d) = set_off usb d e_write off;
     if retval < 0 then Some (retval, off, s\<lparr>dev := Some d\<rparr>)
     else do {
       (r, u) \<leftarrow> write_loop usb (out_ep d) (out_buf_size d) buf cnt 0 (device d);
       let d = d\<lparr>device := u\<rparr>;
       (case r of
          Inl retval \<Rightarrow> Some (retval, off, s\<lparr>dev := Some d\<rparr>)
        | Inr wrote_cnt \<Rightarrow>
            let off = off + int wrote_cnt;
                (retval, d) = set_off usb d e_read off
            in Some (if retval < 0 then retval else int wrote_cnt, off, s\<lparr>dev := Some d\<rparr>))
     }
   }"

section \<open>Reading\<close>

text \<open>The number of bytes in \<open>in_buf\<close>: what is left over, or a new packet.\<close>

definition read_fill :: "'u usb \<Rightarrow> ddk_device_file \<Rightarrow> int \<Rightarrow> 'u ddk_device \<Rightarrow> ((int + nat) \<times> ddk_device_file \<times> 'u ddk_device) option" where
  "read_fill usb ddf off d =
     (if in_buf_left_over ddf \<noteq> 0 then Some (Inr (in_buf_left_over ddf), ddf\<lparr>in_buf_left_over := 0\<rparr>, d)
      else let (retval, d) = set_off usb d e_read off in
        if retval < 0 then Some (Inl retval, ddf, d)
        else do {
          let (retval, got, u) = usb_int_in usb (in_ep d) (in_buf_size d) (device d);
          let d = d\<lparr>device := u\<rparr>;
          bytes \<leftarrow> mem_write (in_buf ddf) 0 got;
          let ddf = ddf\<lparr>in_buf := bytes\<rparr>;
          if retval \<noteq> 0 then Some (Inl retval, ddf, d)
          else let (retval, d) = set_off usb d e_write (off + int (length got)) in
            Some (if retval < 0 then Inl retval else Inr (length got), ddf, d)
        })"

text \<open>\<open>room\<close>: the writable bytes at the user's pointer. A success gives the bytes copied there.\<close>

definition ddk_read ::
    "'u usb \<Rightarrow> 'u ddk_mem \<Rightarrow> ddk_device_file \<Rightarrow> nat \<Rightarrow> nat \<Rightarrow> int \<Rightarrow> ((int + u8 list) \<times> int \<times> ddk_device_file \<times> 'u ddk_mem) option" where
  "ddk_read usb s ddf room cnt off = do {
     d \<leftarrow> dev s;
     (r, ddf, d) \<leftarrow> read_fill usb ddf off d;
     let s = s\<lparr>dev := Some d\<rparr>;
     (case r of
        Inl retval \<Rightarrow> Some (Inl retval, off, ddf, s)
      | Inr read_size \<Rightarrow> do {
          (r, buf, left_over) \<leftarrow> deliver (in_buf ddf) read_size room cnt;
          let ddf = ddf\<lparr>in_buf := buf, in_buf_left_over := left_over\<rparr>;
          Some (r, case r of Inl e \<Rightarrow> off | Inr bytes \<Rightarrow> off + int (length bytes), ddf, s)
        })
   }"

section \<open>Seeking and control\<close>

datatype whence = SEEK_SET | SEEK_CUR | SEEK_END | Other_whence

text \<open>The sums are on \<open>loff_t\<close>. The result is the return value and the file position.\<close>

definition ddk_llseek :: "'u usb \<Rightarrow> 'u ddk_mem \<Rightarrow> int \<Rightarrow> whence \<Rightarrow> int \<Rightarrow> (int \<times> int \<times> 'u ddk_mem) option" where
  "ddk_llseek usb s offset whence f_pos = do {
     d \<leftarrow> dev s;
     let (size, d) = get_size usb d;
     if size < 0 then Some (size, f_pos, s\<lparr>dev := Some d\<rparr>)
     else let (target, d) =
         (case whence of
            SEEK_SET \<Rightarrow> (Inr offset, d)
          | SEEK_CUR \<Rightarrow> (let (cur, d) = get_off usb d e_read in (if cur < 0 then Inl cur else Inr (signed_take_bit 63 (offset + cur)), d))
          | SEEK_END \<Rightarrow> (Inr (signed_take_bit 63 (offset + size)), d)
          | Other_whence \<Rightarrow> (Inl (- EINVAL), d))
       in case target of
         Inl e \<Rightarrow> Some (e, f_pos, s\<lparr>dev := Some d\<rparr>)
       | Inr offset \<Rightarrow>
           let offset = (if offset < 0 then 0 else if offset > size then size else offset);
               (retval, d) = set_off usb d e_read offset
           in if retval < 0 then Some (retval, f_pos, s\<lparr>dev := Some d\<rparr>)
              else let (retval, d) = set_off usb d e_write offset
                in if retval < 0 then Some (retval, f_pos, s\<lparr>dev := Some d\<rparr>)
                   else Some (offset, offset, s\<lparr>dev := Some d\<rparr>)
   }"

text \<open>The command numbers of \<^verbatim>\<open>ddk_mem.h\<close> are distinct; \<open>arg_ok\<close>: an \<open>int\<close> can be stored at \<open>arg\<close>.\<close>

datatype ddk_cmd = DDK_RD_OFF_GET | DDK_RD_OFF_SET | DDK_WR_OFF_GET | DDK_WR_OFF_SET | DDK_MEM_SIZE_GET | Other_cmd

definition ddk_ioctl :: "'u usb \<Rightarrow> 'u ddk_mem \<Rightarrow> ddk_cmd \<Rightarrow> int \<Rightarrow> bool \<Rightarrow> (int \<times> int option \<times> 'u ddk_mem) option" where
  "ddk_ioctl usb s cmd arg arg_ok = do {
     d \<leftarrow> dev s;
     let give = (\<lambda>(retval, d). Some (if retval < 0 then (retval, None, s\<lparr>dev := Some d\<rparr>)
                   else if \<not> arg_ok then (- EFAULT, None, s\<lparr>dev := Some d\<rparr>)
                   else (0, Some retval, s\<lparr>dev := Some d\<rparr>)));
     let take_arg = (\<lambda>(retval, d). Some (if retval < 0 then (retval, None, s\<lparr>dev := Some d\<rparr>) else (0, None, s\<lparr>dev := Some d\<rparr>)));
     (case cmd of
        DDK_RD_OFF_GET \<Rightarrow> give (get_off usb d e_read)
      | DDK_RD_OFF_SET \<Rightarrow> take_arg (set_off usb d e_read arg)
      | DDK_WR_OFF_GET \<Rightarrow> give (get_off usb d e_write)
      | DDK_WR_OFF_SET \<Rightarrow> take_arg (set_off usb d e_write arg)
      | DDK_MEM_SIZE_GET \<Rightarrow> give (get_size usb d)
      | Other_cmd \<Rightarrow> Some (- EINVAL, None, s))
   }"

section \<open>Plugging in and out\<close>

text \<open>The endpoint loop; an endpoint is its address and its maximal packet size.\<close>

fun find_endpoints :: "(u8 \<times> u16) list \<Rightarrow> 'u ddk_device \<Rightarrow> 'u ddk_device" where
  "find_endpoints [] d = d"
| "find_endpoints ((bEndpointAddress, wMaxPacketSize) # eps) d =
     (let d = (if bEndpointAddress = MEM_EP_IN
               then d\<lparr>in_ep := bEndpointAddress AND USB_ENDPOINT_NUMBER_MASK, in_buf_size := unat wMaxPacketSize\<rparr> else d);
          d = (if bEndpointAddress = MEM_EP_OUT
               then d\<lparr>out_ep := bEndpointAddress AND USB_ENDPOINT_NUMBER_MASK, out_buf_size := unat wMaxPacketSize\<rparr> else d)
      in find_endpoints eps d)"

text \<open>\<open>mem\<close>: whether \<open>kzalloc\<close> succeeded; \<open>reg\<close>: the result of \<open>usb_register_dev\<close>.\<close>

definition ddk_probe :: "bool \<Rightarrow> int \<Rightarrow> nat \<Rightarrow> (u8 \<times> u16) list \<Rightarrow> 'u \<Rightarrow> 'u ddk_mem \<Rightarrow> int \<times> 'u ddk_mem" where
  "ddk_probe mem reg bInterfaceNumber eps u s =
     (if bInterfaceNumber = 0
      then if \<not> mem then (- ENOMEM, s)
        else let d = find_endpoints eps
               \<lparr>m = False, open_cnt = 0, in_ep = 0, out_ep = 0, in_buf_size = 0, out_buf_size = 0, device = u\<rparr>
          in if reg \<noteq> 0 then (reg, s)
             else (0, s\<lparr>registered := True, intfdata := True, dev := Some d\<rparr>)
      else (- EINVAL, s))"

definition ddk_disconnect :: "'u ddk_mem \<Rightarrow> 'u ddk_mem option" where
  "ddk_disconnect s = do {
     d \<leftarrow> dev s;
     d \<leftarrow> mutex_lock d;
     Some (s\<lparr>registered := False, intfdata := False, dev := None\<rparr>)
   }"

end
