(* ===== verification/Ddk_Mem_Props.thy ===== *)
theory Ddk_Mem_Props
  imports Ddk_Mem
begin

text \<open>
  Properties of the character driver for the board's memory: reads of any sizes give the bytes
  of the memory in order, a write stores its bytes, and what the left-over bytes and the error
  paths of opening do.
\<close>

section \<open>A board with working memory\<close>

text \<open>
  What the driver expects of the board: an offset message sets one offset, a packet is stored
  at the write offset (in part, but never nothing), and a read gives bytes from the read offset.
\<close>

definition char_board :: "'u usb \<Rightarrow> ('u \<Rightarrow> u8 list) \<Rightarrow> ('u \<Rightarrow> nat) \<Rightarrow> ('u \<Rightarrow> nat) \<Rightarrow> bool" where
  "char_board usb mem rd wr \<longleftrightarrow>
     (\<forall>u v r u'. usb_control_out usb 3 VENDOR_OUT v 0 [] u = (r, u') \<longrightarrow> 0 \<le> r \<and> mem u' = mem u \<and> rd u' = unat v) \<and>
     (\<forall>u v r u'. usb_control_out usb 5 VENDOR_OUT v 0 [] u = (r, u') \<longrightarrow> 0 \<le> r \<and> mem u' = mem u \<and> wr u' = unat v) \<and>
     (\<forall>u pkt r n u'. pkt \<noteq> [] \<longrightarrow> wr u + length pkt \<le> length (mem u) \<longrightarrow> usb_int_out usb 1 pkt u = (r, n, u') \<longrightarrow>
        r = 0 \<and> 0 < n \<and> n \<le> length pkt \<and> wr u' = wr u + n \<and> mem_write (mem u) (wr u) (take n pkt) = Some (mem u')) \<and>
     (\<forall>u k r bs u'. usb_int_in usb 1 k u = (r, bs, u') \<longrightarrow>
        r = 0 \<and> mem u' = mem u \<and> length bs \<le> k \<and> bs = take (length bs) (drop (rd u) (mem u)) \<and>
        (0 < k \<and> rd u < length (mem u) \<longrightarrow> bs \<noteq> []))"

lemma board_laws:
  assumes "char_board usb mem rd wr"
  shows "usb_control_out usb 3 VENDOR_OUT v 0 [] u = (r, u') \<Longrightarrow> 0 \<le> r \<and> mem u' = mem u \<and> rd u' = unat v"
    and "usb_control_out usb 5 VENDOR_OUT v 0 [] u = (r, u') \<Longrightarrow> 0 \<le> r \<and> mem u' = mem u \<and> wr u' = unat v"
    and "pkt \<noteq> [] \<Longrightarrow> wr u + length pkt \<le> length (mem u) \<Longrightarrow> usb_int_out usb 1 pkt u = (r, n, u') \<Longrightarrow>
      r = 0 \<and> 0 < n \<and> n \<le> length pkt \<and> wr u' = wr u + n \<and> mem_write (mem u) (wr u) (take n pkt) = Some (mem u')"
    and "usb_int_in usb 1 k u = (r, bs, u') \<Longrightarrow>
      r = 0 \<and> mem u' = mem u \<and> length bs \<le> k \<and> bs = take (length bs) (drop (rd u) (mem u)) \<and>
      (0 < k \<and> rd u < length (mem u) \<longrightarrow> bs \<noteq> [])"
proof -
  note l = assms [unfolded char_board_def]
  show "usb_control_out usb 3 VENDOR_OUT v 0 [] u = (r, u') \<Longrightarrow> 0 \<le> r \<and> mem u' = mem u \<and> rd u' = unat v"
    by (rule l [THEN conjunct1, rule_format])
  show "usb_control_out usb 5 VENDOR_OUT v 0 [] u = (r, u') \<Longrightarrow> 0 \<le> r \<and> mem u' = mem u \<and> wr u' = unat v"
    by (rule l [THEN conjunct2, THEN conjunct1, rule_format])
qed (use assms [unfolded char_board_def, THEN conjunct2, THEN conjunct2] in simp_all)

text \<open>The device as \<open>ddk_probe\<close> sets it up for such a board, with at most 32 KiB of memory.\<close>

definition mem_dev :: "('u \<Rightarrow> u8 list) \<Rightarrow> 'u ddk_device \<Rightarrow> bool" where
  "mem_dev mem d \<longleftrightarrow> in_ep d = 1 \<and> out_ep d = 1 \<and> 0 < in_buf_size d \<and> 0 < out_buf_size d \<and> length (mem (device d)) \<le> 2 ^ 15"

text \<open>The left-over bytes are those of the memory at the file position.\<close>

definition coherent :: "('u \<Rightarrow> u8 list) \<Rightarrow> 'u ddk_device \<Rightarrow> ddk_device_file \<Rightarrow> nat \<Rightarrow> bool" where
  "coherent mem d ddf pos \<longleftrightarrow> mem_dev mem d \<and> length (in_buf ddf) = in_buf_size d \<and> in_buf_left_over ddf \<le> in_buf_size d \<and>
     pos + in_buf_left_over ddf \<le> length (mem (device d)) \<and>
     take (in_buf_left_over ddf) (in_buf ddf) = take (in_buf_left_over ddf) (drop pos (mem (device d)))"

lemma set_off_board:
  assumes "char_board usb mem rd wr" and "n \<le> 2 ^ 15"
  obtains r u where "set_off usb d dir (int n) = (r, d\<lparr>device := u\<rparr>)" "0 \<le> r" "mem u = mem (device d)"
    "dir = e_read \<Longrightarrow> rd u = n" "dir = e_write \<Longrightarrow> wr u = n"
proof -
  have n: "unat (word_of_int (int n) :: u16) = n" using assms(2) by (simp add: unat_of_nat_small)
  obtain r u where c: "usb_control_out usb (if dir = e_read then 3 else 5) VENDOR_OUT (word_of_int (int n)) 0 [] (device d) = (r, u)"
    by fastforce
  then have s: "set_off usb d dir (int n) = (r, d\<lparr>device := u\<rparr>)" by (simp add: set_off_def mem_consts split: if_splits)
  show thesis
  proof (cases dir)
    case e_read
    with c have "usb_control_out usb 3 VENDOR_OUT (word_of_int (int n)) 0 [] (device d) = (r, u)" by simp
    then have "0 \<le> r \<and> mem u = mem (device d) \<and> rd u = unat (word_of_int (int n) :: u16)" by (rule board_laws(1) [OF assms(1)])
    with e_read show thesis using n by (intro that [OF s]) simp_all
  next
    case e_write
    with c have "usb_control_out usb 5 VENDOR_OUT (word_of_int (int n)) 0 [] (device d) = (r, u)" by simp
    then have "0 \<le> r \<and> mem u = mem (device d) \<and> wr u = unat (word_of_int (int n) :: u16)" by (rule board_laws(2) [OF assms(1)])
    with e_write show thesis using n by (intro that [OF s]) simp_all
  qed
qed

section \<open>Reading\<close>

text \<open>After \<open>read_fill\<close> the first \<open>n\<close> bytes of \<open>in_buf\<close> are the memory's bytes at the position.\<close>

lemma read_fill_ok:
  assumes b: "char_board usb mem rd wr" and c: "coherent mem d ddf pos"
  obtains n ddf' u where "read_fill usb ddf (int pos) d = Some (Inr n, ddf', d\<lparr>device := u\<rparr>)" "mem u = mem (device d)"
    "length (in_buf ddf') = in_buf_size d" "n \<le> in_buf_size d" "pos + n \<le> length (mem u)"
    "take n (in_buf ddf') = take n (drop pos (mem u))" "pos < length (mem u) \<Longrightarrow> 0 < n"
proof (cases "in_buf_left_over ddf = 0")
  case False
  then show thesis using c by (intro that [of "in_buf_left_over ddf" "ddf\<lparr>in_buf_left_over := 0\<rparr>" "device d"])
      (simp_all add: read_fill_def coherent_def)
next
  case True
  have d: "in_ep d = 1" "0 < in_buf_size d" and pos: "pos \<le> length (mem (device d))" "length (mem (device d)) \<le> 2 ^ 15"
    and l: "length (in_buf ddf) = in_buf_size d"
    using c by (simp_all add: coherent_def mem_dev_def)
  from pos have p15: "pos \<le> 2 ^ 15" by simp
  obtain r u1 where s1: "set_off usb d e_read (int pos) = (r, d\<lparr>device := u1\<rparr>)" "0 \<le> r" "mem u1 = mem (device d)" "rd u1 = pos"
    by (rule set_off_board [OF b p15, of d e_read]) simp
  obtain r2 bs u2 where i: "usb_int_in usb 1 (in_buf_size d) u1 = (r2, bs, u2)" by (cases "usb_int_in usb 1 (in_buf_size d) u1")
  then have "r2 = 0 \<and> mem u2 = mem u1 \<and> length bs \<le> in_buf_size d \<and> bs = take (length bs) (drop (rd u1) (mem u1)) \<and>
      (0 < in_buf_size d \<and> rd u1 < length (mem u1) \<longrightarrow> bs \<noteq> [])"
    by (rule board_laws(4) [OF b])
  then have g: "r2 = 0" "mem u2 = mem (device d)" "length bs \<le> in_buf_size d" "bs = take (length bs) (drop pos (mem (device d)))"
      "pos < length (mem (device d)) \<Longrightarrow> bs \<noteq> []"
    using s1(3,4) d(2) by simp_all
  have fit: "pos + length bs \<le> length (mem (device d))" using arg_cong [OF g(4), of length] pos by simp
  then have f15: "pos + length bs \<le> 2 ^ 15" using pos by simp
  obtain r3 u3 where s3: "set_off usb (d\<lparr>device := u2\<rparr>) e_write (int (pos + length bs)) = (r3, d\<lparr>device := u3\<rparr>)" "0 \<le> r3" "mem u3 = mem u2"
    by (rule set_off_board [OF b f15, of "d\<lparr>device := u2\<rparr>" e_write]) simp
  let ?buf = "bs @ drop (length bs) (in_buf ddf)"
  have w: "mem_write (in_buf ddf) 0 bs = Some ?buf" using g(3) l by (simp add: mem_write_def)
  show thesis
  proof (rule that)
    show "read_fill usb ddf (int pos) d = Some (Inr (length bs), ddf\<lparr>in_buf := ?buf\<rparr>, d\<lparr>device := u3\<rparr>)"
      using True s1 i g(1) w s3 d(1) by (simp add: read_fill_def)
  qed (use g fit s3(3) l in auto)
qed

section \<open>Writing\<close>

lemma write_loop_stores:
  assumes b: "char_board usb mem rd wr" and sz: "0 < sz" and u: "wr u = base" "mem u = M" and fit: "base + length buf \<le> length M"
  shows "\<exists>u'. write_loop usb 1 sz buf (length buf) 0 u = Some (Inr (length buf), u') \<and> mem_write M base buf = Some (mem u')"
proof -
  define P where "P k u \<longleftrightarrow> wr u = base + k \<and> mem_write M base (take k buf) = Some (mem u)" for k u
  have "r = 0 \<and> 0 < n \<and> n \<le> min sz (length buf - k) \<and> P (k + n) u2"
    if p: "P k u1" and k: "k < length buf" and o: "usb_int_out usb 1 (take (min sz (length buf - k)) (drop k buf)) u1 = (r, n, u2)"
    for k u1 r n u2
  proof -
    let ?p = "take (min sz (length buf - k)) (drop k buf)"
    have w: "wr u1 = base + k" "mem_write M base (take k buf) = Some (mem u1)" using p by (simp_all add: P_def)
    have lp: "length ?p = min sz (length buf - k)" "?p \<noteq> []" using k sz by auto
    have "wr u1 + length ?p \<le> length (mem u1)" using w fit mem_write_length [OF w(2)] lp(1) k by simp
    note l = board_laws(3) [OF b lp(2) this o]
    then have n: "0 < n" "n \<le> min sz (length buf - k)" unfolding lp(1) by blast+
    have tp: "take n ?p = take n (drop k buf)" using n(2) by (simp add: min_absorb1)
    have "mem_write (mem u1) (base + length (take k buf)) (take n (drop k buf)) = Some (mem u2)"
      using l k unfolding tp w(1) by (simp add: min_absorb2)
    then have "mem_write M base (take k buf @ take n (drop k buf)) = Some (mem u2)"
      by (simp only: mem_write_append [OF w(2)])
    then have "P (k + n) u2" using l w(1) by (simp add: P_def take_add)
    then show ?thesis using l n by blast
  qed
  moreover have "P 0 u" using u fit by (simp add: P_def mem_write_def)
  ultimately obtain u' where "write_loop usb 1 sz buf (length buf) 0 u = Some (Inr (length buf), u')" "P (length buf) u'"
    using write_loop_sends [of P buf usb 1 sz 0 u] by blast
  then show ?thesis by (auto simp: P_def)
qed

section \<open>A sample board\<close>

definition sample_usb :: "(u8 list \<times> nat \<times> nat) usb" where
  "sample_usb =
     \<lparr>usb_control_out = (\<lambda>rq t v i bs (m, r, w). (0, if rq = 3 then (m, unat v, w) else if rq = 5 then (m, r, unat v) else (m, r, w))),
      usb_control_in = (\<lambda>rq t v i n (m, r, w). (2, le 2 (of_nat (if rq = 7 then length m else if rq = 4 then r else w) :: u16), (m, r, w))),
      usb_int_out = (\<lambda>ep pkt (m, r, w). case mem_write m w pkt of Some m' \<Rightarrow> (0, length pkt, (m', r, w + length pkt)) | None \<Rightarrow> (- EIO, 0, (m, r, w))),
      usb_int_in = (\<lambda>ep n (m, r, w). let bs = take n (drop r m) in (0, bs, (m, r + length bs, w)))\<rparr>"

lemma sample_usb: "char_board sample_usb fst (fst \<circ> snd) (snd \<circ> snd)"
  by (auto simp: char_board_def sample_usb_def mem_write_def split: if_splits) (simp add: min_def)

definition sample_dev :: "(u8 list \<times> nat \<times> nat) ddk_device" where
  "sample_dev = \<lparr>m = False, open_cnt = 1, in_ep = 1, out_ep = 1, in_buf_size = 8, out_buf_size = 8, device = (map of_nat [1..<13], 0, 0)\<rparr>"

section \<open>Properties\<close>

text \<open>
  C23: reads of any sizes give the bytes of the board's memory in order: when the left-over bytes
  are those at the file position, a read returns bytes from there, at least one unless the end
  is reached or none are asked for, advances the position by their number and leaves the file in
  such a state again; a faulting user buffer loses nothing.
\<close>

theorem ddk_read_stream:
  assumes "char_board usb mem rd wr" and "dev s = Some d" and "coherent mem d ddf pos"
  shows "\<exists>r pos' ddf' d'. ddk_read usb s ddf room cnt (int pos) = Some (r, int pos', ddf', s\<lparr>dev := Some d'\<rparr>) \<and>
    coherent mem d' ddf' pos' \<and> mem (device d') = mem (device d) \<and>
    (case r of
       Inl e \<Rightarrow> e = - EFAULT \<and> room < cnt \<and> pos' = pos
     | Inr bs \<Rightarrow> pos' = pos + length bs \<and> bs = take (length bs) (drop pos (mem (device d))) \<and> length bs \<le> cnt \<and>
         (0 < cnt \<and> pos < length (mem (device d)) \<longrightarrow> bs \<noteq> []))"
proof -
  obtain n ddf1 u where f: "read_fill usb ddf (int pos) d = Some (Inr n, ddf1, d\<lparr>device := u\<rparr>)" "mem u = mem (device d)"
    and n: "length (in_buf ddf1) = in_buf_size d" "n \<le> in_buf_size d" "pos + n \<le> length (mem u)"
      "take n (in_buf ddf1) = take n (drop pos (mem u))" "pos < length (mem u) \<Longrightarrow> 0 < n"
    by (rule read_fill_ok [OF assms(1,3)]) blast
  have md: "mem_dev mem (d\<lparr>device := u\<rparr>)" using assms(3) f(2) by (simp add: coherent_def mem_dev_def)
  have le: "n \<le> length (in_buf ddf1)" using n(1,2) by simp
  obtain r buf k where dl: "deliver (in_buf ddf1) n room cnt = Some (r, buf, k)" "length buf = length (in_buf ddf1)" "k \<le> n"
      "take n (in_buf ddf1) = (case r of Inl e \<Rightarrow> [] | Inr bs \<Rightarrow> bs) @ take k buf"
      "case r of Inl e \<Rightarrow> e = - EFAULT \<and> room < cnt | Inr bs \<Rightarrow> length bs = min n cnt"
    by (rule deliver_splits [OF le])
  let ?bs = "case r of Inl e \<Rightarrow> [] | Inr bs \<Rightarrow> bs" and ?ddf = "ddf1\<lparr>in_buf := buf, in_buf_left_over := k\<rparr>"
  have split: "take n (drop pos (mem u)) = ?bs @ take k buf" using n(4) dl(4) by simp
  have lb: "length ?bs + k = n"
  proof -
    have "length (take n (drop pos (mem u))) = n" using n(3) by simp
    then show ?thesis unfolding split using dl(2,3) n(1,2) by simp
  qed
  then have nk: "n - length ?bs = k" by simp
  have bs: "?bs = take (length ?bs) (drop pos (mem u))" and rest: "take k buf = take k (drop (pos + length ?bs) (mem u))"
    using arg_cong [OF split, of "take (length ?bs)"] arg_cong [OF split, of "drop (length ?bs)"] lb
    by (simp_all add: min_def drop_take add.commute nk)
  have "ddk_read usb s ddf room cnt (int pos) = Some (r, int (pos + length ?bs), ?ddf, s\<lparr>dev := Some (d\<lparr>device := u\<rparr>)\<rparr>)"
    using assms(2) f(1) dl(1) by (cases r) (simp_all add: ddk_read_def Let_def)
  moreover have "coherent mem (d\<lparr>device := u\<rparr>) ?ddf (pos + length ?bs)"
    using md n(1,2,3) dl(2) lb rest by (simp add: coherent_def)
  moreover have "case r of Inl e \<Rightarrow> e = - EFAULT \<and> room < cnt \<and> pos + length ?bs = pos
     | Inr bs \<Rightarrow> pos + length ?bs = pos + length bs \<and> bs = take (length bs) (drop pos (mem (device d))) \<and> length bs \<le> cnt \<and>
         (0 < cnt \<and> pos < length (mem (device d)) \<longrightarrow> bs \<noteq> [])"
    using dl(5) bs n(5) unfolding f(2) by (cases r) auto
  ultimately show ?thesis using f(2)
    by (intro exI [of _ r] exI [of _ "pos + length ?bs"] exI [of _ ?ddf] exI [of _ "d\<lparr>device := u\<rparr>"]) simp
qed

theorem ddk_read_stream_witness:
  "\<exists>r pos' ddf' d'. ddk_read sample_usb \<lparr>registered = True, intfdata = True, dev = Some sample_dev, ddfs = 1\<rparr>
       \<lparr>in_buf = replicate 8 0, in_buf_left_over = 0\<rparr> 5 5 (int 2) =
       Some (r, int pos', ddf', \<lparr>registered = True, intfdata = True, dev = Some d', ddfs = 1\<rparr>) \<and> coherent fst d' ddf' pos'"
proof -
  have "coherent fst sample_dev \<lparr>in_buf = replicate 8 0, in_buf_left_over = 0\<rparr> 2"
    by (simp add: coherent_def mem_dev_def sample_dev_def)
  from ddk_read_stream [OF sample_usb _ this, of "\<lparr>registered = True, intfdata = True, dev = Some sample_dev, ddfs = 1\<rparr>" 5 5]
  show ?thesis by fastforce
qed

text \<open>
  C24: a write returns, whatever part of each packet the board takes: its bytes, and no others,
  are stored at the file position, and the position moves behind them.
\<close>

theorem ddk_write_stores:
  assumes b: "char_board usb mem rd wr" and d: "dev s = Some d" "mem_dev mem d" and fit: "pos + length buf \<le> length (mem (device d))"
  shows "\<exists>d'. ddk_write usb s buf (length buf) (int pos) = Some (int (length buf), int (pos + length buf), s\<lparr>dev := Some d'\<rparr>) \<and>
    mem_write (mem (device d)) pos buf = Some (mem (device d')) \<and> mem_dev mem d'"
proof -
  have sz: "length (mem (device d)) \<le> 2 ^ 15" "out_ep d = 1" "0 < out_buf_size d" using d(2) by (simp_all add: mem_dev_def)
  have p: "pos \<le> 2 ^ 15" "pos + length buf \<le> 2 ^ 15" using fit sz(1) by linarith+
  obtain r u1 where o1: "set_off usb d e_write (int pos) = (r, d\<lparr>device := u1\<rparr>)" "0 \<le> r" "mem u1 = mem (device d)" "wr u1 = pos"
    by (rule set_off_board [OF b p(1), of d e_write]) simp
  obtain u2 where w: "write_loop usb 1 (out_buf_size d) buf (length buf) 0 u1 = Some (Inr (length buf), u2)"
      "mem_write (mem (device d)) pos buf = Some (mem u2)"
    using write_loop_stores [OF b sz(3) o1(4,3) fit] by blast
  obtain r3 u3 where o3: "set_off usb (d\<lparr>device := u2\<rparr>) e_read (int (pos + length buf)) = (r3, d\<lparr>device := u3\<rparr>)" "0 \<le> r3" "mem u3 = mem u2"
    by (rule set_off_board [OF b p(2), of "d\<lparr>device := u2\<rparr>" e_read]) simp
  have "ddk_write usb s buf (length buf) (int pos) = Some (int (length buf), int (pos + length buf), s\<lparr>dev := Some (d\<lparr>device := u3\<rparr>)\<rparr>)"
    using d(1) o1(1,2) w(1) o3(1,2) sz(2) by (simp add: ddk_write_def Let_def)
  moreover have "mem_dev mem (d\<lparr>device := u3\<rparr>)" using d(2) mem_write_length [OF w(2)] o3(3) by (simp add: mem_dev_def)
  ultimately show ?thesis using w(2) o3(3) by (intro exI [of _ "d\<lparr>device := u3\<rparr>"]) simp
qed

theorem ddk_write_stores_witness:
  "\<exists>d'. ddk_write sample_usb \<lparr>registered = True, intfdata = True, dev = Some sample_dev, ddfs = 1\<rparr> [7, 8, 9] 3 4 =
       Some (3, 7, \<lparr>registered = True, intfdata = True, dev = Some d', ddfs = 1\<rparr>) \<and>
     fst (device d') = [1, 2, 3, 4, 7, 8, 9, 8, 9, 10, 11, 12]"
proof -
  let ?s = "\<lparr>registered = True, intfdata = True, dev = Some sample_dev, ddfs = 1\<rparr>"
  have d: "mem_dev fst sample_dev" "4 + length [7 :: u8, 8, 9] \<le> length (fst (device sample_dev))"
    by (simp_all add: mem_dev_def sample_dev_def)
  have "dev ?s = Some sample_dev" by simp
  from ddk_write_stores [OF sample_usb this d] obtain d' where
    d': "ddk_write sample_usb ?s [7, 8, 9] (length [7 :: u8, 8, 9]) (int 4) = Some (int (length [7 :: u8, 8, 9]), int (4 + length [7 :: u8, 8, 9]), ?s\<lparr>dev := Some d'\<rparr>)"
      "mem_write (fst (device sample_dev)) 4 [7, 8, 9] = Some (fst (device d'))"
    by blast
  moreover have "mem_write (fst (device sample_dev)) 4 [7, 8, 9] = Some [1, 2, 3, 4, 7, 8, 9, 8, 9, 10, 11, 12]"
    by (simp add: sample_dev_def mem_write_def upt_rec)
  ultimately show ?thesis by (intro exI [of _ d']) (simp add: eval_nat_numeral)
qed

text \<open>
  Seeking does not drop left-over bytes: after a seek to any position the next read gives
  the bytes left over from the old position.
\<close>

theorem ddk_seek_keeps_left_over:
  assumes "ddk_llseek usb s offset whence f_pos = Some (r, pos, s')" and "in_buf_left_over ddf \<noteq> 0"
    and "in_buf_left_over ddf \<le> length (in_buf ddf)" and "cnt \<le> room"
  shows "\<exists>ddf'. ddk_read usb s' ddf room cnt pos =
    Some (Inr (take (min (in_buf_left_over ddf) cnt) (in_buf ddf)), pos + int (min (in_buf_left_over ddf) cnt), ddf', s')"
proof -
  obtain d' where d': "dev s' = Some d'"
    using assms(1) by (auto simp: ddk_llseek_def Let_def split: whence.splits if_splits prod.splits sum.splits dest!: bind_eq_SomeD)
  then have s': "s'\<lparr>dev := Some d'\<rparr> = s'" by (cases s') simp
  obtain r buf k where dl: "deliver (in_buf ddf) (in_buf_left_over ddf) room cnt = Some (r, buf, k)"
      "take (in_buf_left_over ddf) (in_buf ddf) = (case r of Inl e \<Rightarrow> [] | Inr bs \<Rightarrow> bs) @ take k buf"
      "case r of Inl e \<Rightarrow> e = - EFAULT \<and> room < cnt | Inr bs \<Rightarrow> length bs = min (in_buf_left_over ddf) cnt"
    using deliver_splits [OF assms(3)] by blast
  obtain bs where bs: "r = Inr bs" "length bs = min (in_buf_left_over ddf) cnt" using dl(3) assms(4) by (cases r) auto
  have "bs = take (min (in_buf_left_over ddf) cnt) (in_buf ddf)"
    using arg_cong [OF dl(2), of "take (length bs)"] bs by (simp add: min.commute min.left_commute)
  with bs show ?thesis using d' s' assms(2) dl(1) by (simp add: ddk_read_def read_fill_def Let_def)
qed

theorem ddk_seek_keeps_left_over_witness:
  "\<exists>s' ddf'. ddk_llseek sample_usb \<lparr>registered = True, intfdata = True, dev = Some sample_dev, ddfs = 1\<rparr> 9 SEEK_SET 2 = Some (9, 9, s') \<and>
     ddk_read sample_usb s' \<lparr>in_buf = [3, 4, 5, 6, 7, 8, 9, 10], in_buf_left_over = 2\<rparr> 1 1 9 = Some (Inr [3], 10, ddf', s')"
proof -
  obtain s' where s': "ddk_llseek sample_usb \<lparr>registered = True, intfdata = True, dev = Some sample_dev, ddfs = 1\<rparr> 9 SEEK_SET 2 = Some (9, 9, s')"
    by (simp add: ddk_llseek_def get_size_def set_off_def sample_usb_def sample_dev_def short_of_def mem_consts)
  from ddk_seek_keeps_left_over [OF s', of "\<lparr>in_buf = [3, 4, 5, 6, 7, 8, 9, 10], in_buf_left_over = 2\<rparr>" 1 1] s' show ?thesis by auto
qed

text \<open>
  An open that gets no memory returns with the mutex held: every later open of the device
  blocks, and so does unplugging it.
\<close>

theorem ddk_open_no_memory_blocks:
  assumes "registered s" "intfdata s" "dev s = Some d" "\<not> m d" "in_buf_size d \<noteq> 0"
  shows "\<exists>s'. ddk_open usb None s = Some (- ENOMEM, None, s') \<and> (\<forall>mem. ddk_open usb mem s' = None) \<and> ddk_disconnect s' = None"
  using assms by (simp add: ddk_open_def ddk_disconnect_def mutex_lock_def)

theorem ddk_open_no_memory_blocks_witness:
  "\<exists>s'. ddk_open sample_usb None \<lparr>registered = True, intfdata = True, dev = Some sample_dev, ddfs = 0\<rparr> = Some (- ENOMEM, None, s') \<and>
     ddk_disconnect s' = None"
  using ddk_open_no_memory_blocks [of "\<lparr>registered = True, intfdata = True, dev = Some sample_dev, ddfs = 0\<rparr>" sample_dev sample_usb]
  by (auto simp: sample_dev_def)

end
