(* ===== verification/Ddk_U2s.thy ===== *)
theory Ddk_U2s
  imports Usb_Char
begin

text \<open>
  The USB-to-serial driver \<^verbatim>\<open>src/USB/USBDriver/ddk_u2s.c\<close>: a byte stream over two interrupt endpoints,
  for one open file at a time. Opening takes the mutex and closing gives it back. Unplugging
  clears the interface's data pointer, gives back the minor, and only then waits for the mutex,
  that is for the file to be closed, before it frees the structure.

  \<open>u2s\<close> is the state of the interface: whether the minor is registered and the data pointer set,
  the driver's structure (\<open>None\<close>: not allocated), the number \<open>files\<close> of files that are open, and
  how far a disconnect has come. As in the other USB drivers, \<open>None\<close> as a result is blocking or a
  use of freed or null memory, and user memory is its accessible bytes. The USB core runs \<open>ddk_open\<close>
  with its table of minors locked, so that it does not overlap with giving back the minor, and it
  runs one probe or disconnect of an interface at a time.
\<close>

section \<open>Data structures\<close>

definition SER_EP_IN :: u8 where "SER_EP_IN = 0x82"
definition SER_EP_OUT :: u8 where "SER_EP_OUT = 0x02"

abbreviation (input) ENDPOINT_NUMBER :: "u8 \<Rightarrow> u8" where "ENDPOINT_NUMBER a \<equiv> a AND 0x0F"

text \<open>A buffer pointer is \<open>None\<close> when it is null; the contents of \<open>out_buf\<close> are not kept.\<close>

record 'u u2s_device =
  m :: bool
  in_ep :: u8
  out_ep :: u8
  in_buf_size :: nat
  out_buf_size :: nat
  in_buf :: "u8 list option"
  out_buf :: "unit option"
  in_buf_left_over :: nat
  device :: 'u

text \<open>How far \<open>ddk_disconnect\<close> has come: not called, pointer cleared, minor given back.\<close>

datatype unplug_pc = No_unplug | Cleared | Deregistered

record 'u u2s =
  registered :: bool
  intfdata :: bool
  dev :: "'u u2s_device option"
  files :: nat
  unplug :: unplug_pc

section \<open>File operations\<close>

definition ddk_open :: "'u u2s \<Rightarrow> (int \<times> 'u u2s) option" where
  "ddk_open s =
     (if \<not> registered s \<or> \<not> intfdata s then Some (- ENODEV, s)
      else do {
        d \<leftarrow> dev s;
        if m d then Some (- EBUSY, s)
        else Some (0, s\<lparr>dev := Some (d\<lparr>m := True, in_buf_left_over := 0\<rparr>), files := files s + 1\<rparr>)
      })"

definition ddk_close :: "'u u2s \<Rightarrow> (int \<times> 'u u2s) option" where
  "ddk_close s = do {
     d \<leftarrow> dev s;
     Some (0, s\<lparr>dev := Some (d\<lparr>m := False\<rparr>), files := files s - 1\<rparr>)
   }"

definition ddk_write :: "'u usb \<Rightarrow> 'u u2s \<Rightarrow> u8 list \<Rightarrow> nat \<Rightarrow> (int \<times> 'u u2s) option" where
  "ddk_write usb s buf cnt = do {
     d \<leftarrow> dev s;
     (r, u) \<leftarrow> write_loop usb (out_ep d) (out_buf_size d) buf cnt 0 (device d);
     Some (case r of Inl retval \<Rightarrow> retval | Inr wrote_cnt \<Rightarrow> int wrote_cnt, s\<lparr>dev := Some (d\<lparr>device := u\<rparr>)\<rparr>)
   }"

text \<open>The bytes in \<open>in_buf\<close>: those left over, or what arrives; a timeout gives none.\<close>

definition read_fill :: "'u usb \<Rightarrow> 'u u2s_device \<Rightarrow> ((int + nat) \<times> 'u u2s_device) option" where
  "read_fill usb d =
     (if in_buf_left_over d \<noteq> 0 then Some (Inr (in_buf_left_over d), d\<lparr>in_buf_left_over := 0\<rparr>)
      else do {
        let (retval, got, u) = usb_int_in usb (in_ep d) (in_buf_size d) (device d);
        buf \<leftarrow> in_buf d;
        buf \<leftarrow> mem_write buf 0 got;
        let d = d\<lparr>in_buf := Some buf, device := u\<rparr>;
        Some (if retval = 0 then Inr (length got) else if retval \<noteq> - ETIMEDOUT then Inl retval else Inr 0, d)
      })"

definition ddk_read :: "'u usb \<Rightarrow> 'u u2s \<Rightarrow> nat \<Rightarrow> nat \<Rightarrow> ((int + u8 list) \<times> 'u u2s) option" where
  "ddk_read usb s room cnt = do {
     d \<leftarrow> dev s;
     (r, d) \<leftarrow> read_fill usb d;
     (case r of
        Inl retval \<Rightarrow> Some (Inl retval, s\<lparr>dev := Some d\<rparr>)
      | Inr read_size \<Rightarrow> do {
          buf \<leftarrow> in_buf d;
          (r, buf, left_over) \<leftarrow> deliver buf read_size room cnt;
          Some (r, s\<lparr>dev := Some (d\<lparr>in_buf := Some buf, in_buf_left_over := left_over\<rparr>)\<rparr>)
        })
   }"

section \<open>Plugging in and out\<close>

text \<open>
  The endpoint loop. An endpoint is its address, its maximal packet size and what \<open>kmalloc\<close>
  returns if a buffer is allocated for it. The flag is whether all allocations succeeded.
\<close>

fun set_endpoints :: "(u8 \<times> u16 \<times> u8 list option) list \<Rightarrow> 'u u2s_device \<Rightarrow> bool \<times> 'u u2s_device" where
  "set_endpoints [] d = (True, d)"
| "set_endpoints ((bEndpointAddress, wMaxPacketSize, mem) # eps) d =
     (let d = (if bEndpointAddress = SER_EP_IN
               then d\<lparr>in_ep := ENDPOINT_NUMBER bEndpointAddress, in_buf_size := unat wMaxPacketSize, in_buf := mem\<rparr> else d) in
      if bEndpointAddress = SER_EP_IN \<and> mem = None then (False, d)
      else let d = (if bEndpointAddress = SER_EP_OUT
               then d\<lparr>out_ep := ENDPOINT_NUMBER bEndpointAddress, out_buf_size := unat wMaxPacketSize,
                       out_buf := map_option (\<lambda>_. ()) mem\<rparr> else d) in
      if bEndpointAddress = SER_EP_OUT \<and> mem = None then (False, d)
      else set_endpoints eps d)"

text \<open>
  \<open>mem\<close>: whether \<open>kzalloc\<close> succeeded. When it did not, the code behind \<open>probe_err\<close> reads the
  buffer pointers through the null pointer.
\<close>

definition ddk_probe ::
    "bool \<Rightarrow> int \<Rightarrow> nat \<Rightarrow> (u8 \<times> u16 \<times> u8 list option) list \<Rightarrow> 'u \<Rightarrow> 'u u2s \<Rightarrow> (int \<times> 'u u2s) option" where
  "ddk_probe mem reg bInterfaceNumber eps u s =
     (if bInterfaceNumber = 1
      then if \<not> mem then None
        else let (good, d) = set_endpoints eps
               \<lparr>m = False, in_ep = 0, out_ep = 0, in_buf_size = 0, out_buf_size = 0, in_buf = None, out_buf = None,
                in_buf_left_over = 0, device = u\<rparr>
          in if \<not> good then Some (- ENOMEM, s)
             else if reg \<noteq> 0 then Some (reg, s)
             else Some (0, s\<lparr>registered := True, intfdata := True, dev := Some d\<rparr>)
      else Some (- EINVAL, s))"

text \<open>
  The three parts of \<open>ddk_disconnect\<close>, between which files may be opened and closed: the pointer to
  the structure is kept in a local variable, so that the structure stays \<open>dev\<close>; with no pointer
  set the code would go on with a null pointer. The last part waits while the mutex is taken.
\<close>

definition disconnect_clear :: "'u u2s \<Rightarrow> 'u u2s option" where
  "disconnect_clear s = (if intfdata s then Some (s\<lparr>intfdata := False, unplug := Cleared\<rparr>) else None)"

definition disconnect_deregister :: "'u u2s \<Rightarrow> 'u u2s" where
  "disconnect_deregister s = s\<lparr>registered := False, unplug := Deregistered\<rparr>"

definition disconnect_free :: "'u u2s \<Rightarrow> 'u u2s option" where
  "disconnect_free s = do {
     d \<leftarrow> dev s;
     if m d then None
     else Some (s\<lparr>dev := None, unplug := No_unplug\<rparr>)
   }"

definition ddk_disconnect :: "'u u2s \<Rightarrow> 'u u2s option" where
  "ddk_disconnect s = do {
     s \<leftarrow> disconnect_clear s;
     disconnect_free (disconnect_deregister s)
   }"

section \<open>Interleavings\<close>

text \<open>
  What processes and the USB core can do: any process may open, the one that has the file may
  read, write and close it, and the board may be plugged in and out, with other steps between the
  three parts of a disconnect. A step is one that returns: the last part of a disconnect is none
  while the device is open.
\<close>

inductive u2s_step :: "'u usb \<Rightarrow> 'u u2s \<Rightarrow> 'u u2s \<Rightarrow> bool" for usb where
  probe: "\<not> registered s \<Longrightarrow> unplug s = No_unplug \<Longrightarrow> ddk_probe mem reg ifnum eps u s = Some (r, s') \<Longrightarrow> u2s_step usb s s'"
| unplug_clear: "registered s \<Longrightarrow> unplug s = No_unplug \<Longrightarrow> disconnect_clear s = Some s' \<Longrightarrow> u2s_step usb s s'"
| unplug_deregister: "unplug s = Cleared \<Longrightarrow> u2s_step usb s (disconnect_deregister s)"
| unplug_free: "unplug s = Deregistered \<Longrightarrow> disconnect_free s = Some s' \<Longrightarrow> u2s_step usb s s'"
| open_file: "ddk_open s = Some (r, s') \<Longrightarrow> u2s_step usb s s'"
| close_file: "0 < files s \<Longrightarrow> ddk_close s = Some (r, s') \<Longrightarrow> u2s_step usb s s'"
| read_file: "0 < files s \<Longrightarrow> ddk_read usb s room cnt = Some (x, s') \<Longrightarrow> u2s_step usb s s'"
| write_file: "0 < files s \<Longrightarrow> ddk_write usb s buf cnt = Some (r, s') \<Longrightarrow> u2s_step usb s s'"

text \<open>One file at most, exactly while the mutex is held; then the structure is allocated.\<close>

definition u2s_inv :: "'u u2s \<Rightarrow> bool" where
  "u2s_inv s \<longleftrightarrow>
     (case unplug s of
        No_unplug \<Rightarrow> (registered s \<longleftrightarrow> intfdata s) \<and> (registered s \<longleftrightarrow> dev s \<noteq> None)
      | Cleared \<Rightarrow> registered s \<and> \<not> intfdata s \<and> dev s \<noteq> None
      | Deregistered \<Rightarrow> \<not> registered s \<and> \<not> intfdata s \<and> dev s \<noteq> None) \<and>
     (case dev s of None \<Rightarrow> files s = 0 | Some d \<Rightarrow> files s = (if m d then 1 else 0))"

lemma set_endpoints_mutex: "m (snd (set_endpoints eps d)) = m d"
  by (induction eps d rule: set_endpoints.induct) (simp_all add: Let_def)

lemma read_fill_mutex: "read_fill usb d = Some (r, d') \<Longrightarrow> m d' = m d"
  by (auto simp: read_fill_def Let_def split: if_splits prod.splits dest!: bind_eq_SomeD)

lemmas disconnect_defs = disconnect_clear_def disconnect_deregister_def disconnect_free_def

lemma u2s_step_inv: "u2s_step usb s s' \<Longrightarrow> u2s_inv s \<Longrightarrow> u2s_inv s'"
proof (induction rule: u2s_step.induct)
  case (probe s mem reg ifnum eps u r s')
  have "m (snd (set_endpoints eps d)) = m d" for d :: "'a u2s_device" by (rule set_endpoints_mutex)
  with probe show ?case
    by (auto simp: ddk_probe_def u2s_inv_def Let_def split: if_splits prod.splits) (metis snd_conv u2s_device.select_convs(1))
next
  case (read_file s room cnt x s')
  then show ?case
    by (auto simp: ddk_read_def u2s_inv_def split: sum.splits option.splits unplug_pc.splits dest!: bind_eq_SomeD read_fill_mutex)
next
  case (write_file s buf cnt r s')
  then show ?case by (auto simp: ddk_write_def u2s_inv_def split: option.splits unplug_pc.splits dest!: bind_eq_SomeD)
qed (auto simp: disconnect_defs ddk_open_def ddk_close_def u2s_inv_def
    split: if_splits option.splits unplug_pc.splits dest!: bind_eq_SomeD)

end
