(* ===== verification/Ddk_U2s_Props.thy ===== *)
theory Ddk_U2s_Props
  imports Ddk_U2s
begin

text \<open>
  Properties of the USB-to-serial driver: exclusive use of the device, and the byte streams in
  the two directions.
\<close>

section \<open>Streams\<close>

text \<open>
  What the driver relies on: an interrupt message brings no more bytes than asked for, and none
  when it fails; \<open>recv u\<close> are the bytes the board has delivered so far.
\<close>

definition serial_in :: "'u usb \<Rightarrow> ('u \<Rightarrow> u8 list) \<Rightarrow> bool" where
  "serial_in usb recv \<longleftrightarrow> (\<forall>ep k u r bs u'. usb_int_in usb ep k u = (r, bs, u') \<longrightarrow>
     length bs \<le> k \<and> (r \<noteq> 0 \<longrightarrow> bs = []) \<and> recv u' = recv u @ bs)"

text \<open>A packet that is sent without error is taken in part, but never not at all.\<close>

definition serial_out :: "'u usb \<Rightarrow> ('u \<Rightarrow> u8 list) \<Rightarrow> bool" where
  "serial_out usb sent \<longleftrightarrow> (\<forall>ep pkt u r n u'. pkt \<noteq> [] \<longrightarrow> usb_int_out usb ep pkt u = (r, n, u') \<longrightarrow>
     r = 0 \<and> 0 < n \<and> n \<le> length pkt \<and> sent u' = sent u @ take n pkt)"

text \<open>The device with its receive buffer, and the queue of bytes the buffer stands for.\<close>

definition dev_ok :: "'u u2s_device \<Rightarrow> bool" where
  "dev_ok d \<longleftrightarrow> (\<exists>buf. in_buf d = Some buf \<and> length buf = in_buf_size d) \<and> in_buf_left_over d \<le> in_buf_size d"

definition pending :: "'u u2s_device \<Rightarrow> u8 list" where
  "pending d = (case in_buf d of None \<Rightarrow> [] | Some buf \<Rightarrow> take (in_buf_left_over d) buf)"

lemma read_fill_queue:
  assumes b: "serial_in usb recv" and d: "dev_ok d"
  obtains r d' buf new where "read_fill usb d = Some (r, d')" "in_buf d' = Some buf" "length buf = in_buf_size d'"
    "in_buf_left_over d' = 0" "recv (device d') = recv (device d) @ new" "m d' = m d"
    "case r of Inl e \<Rightarrow> pending d @ new = [] | Inr n \<Rightarrow> n \<le> length buf \<and> take n buf = pending d @ new"
proof -
  obtain buf where buf: "in_buf d = Some buf" "length buf = in_buf_size d" "in_buf_left_over d \<le> in_buf_size d"
    using d by (auto simp: dev_ok_def)
  show thesis
  proof (cases "in_buf_left_over d = 0")
    case False
    then show thesis using buf
      by (intro that [of "Inr (in_buf_left_over d)" "d\<lparr>in_buf_left_over := 0\<rparr>" buf "[]"]) (simp_all add: read_fill_def pending_def)
  next
    case True
    obtain r got u where i: "usb_int_in usb (in_ep d) (in_buf_size d) (device d) = (r, got, u)"
      by (cases "usb_int_in usb (in_ep d) (in_buf_size d) (device d)")
    then have g: "length got \<le> in_buf_size d" "r \<noteq> 0 \<Longrightarrow> got = []" "recv u = recv (device d) @ got"
      using b unfolding serial_in_def by blast+
    let ?buf = "got @ drop (length got) buf"
    have "mem_write buf 0 got = Some ?buf" using g(1) buf(2) by (simp add: mem_write_def)
    then show thesis using True i g buf
      by (intro that [of "if r = 0 then Inr (length got) else if r \<noteq> - 110 then Inl r else Inr 0"
            "d\<lparr>in_buf := Some ?buf, device := u\<rparr>" ?buf got])
        (auto simp: read_fill_def pending_def)
  qed
qed

lemma read_queue:
  assumes b: "serial_in usb recv" and d: "dev s = Some d" "dev_ok d"
  obtains r d' new where "ddk_read usb s room cnt = Some (r, s\<lparr>dev := Some d'\<rparr>)" "dev_ok d'"
    "recv (device d') = recv (device d) @ new" "m d' = m d"
    "pending d @ new = (case r of Inl e \<Rightarrow> [] | Inr bs \<Rightarrow> bs) @ pending d'"
    "case r of Inl e \<Rightarrow> True | Inr bs \<Rightarrow> length bs = min (length (pending d @ new)) cnt"
proof -
  obtain r1 d1 buf new where f: "read_fill usb d = Some (r1, d1)" "in_buf d1 = Some buf" "length buf = in_buf_size d1"
      "in_buf_left_over d1 = 0" "recv (device d1) = recv (device d) @ new" "m d1 = m d"
      "case r1 of Inl e \<Rightarrow> pending d @ new = [] | Inr n \<Rightarrow> n \<le> length buf \<and> take n buf = pending d @ new"
    by (rule read_fill_queue [OF b d(2)])
  show thesis
  proof (cases r1)
    case (Inl e)
    have "dev_ok d1" "pending d1 = []" using f(2-4) by (simp_all add: dev_ok_def pending_def)
    then show thesis using f Inl d(1) by (intro that [of "Inl e" d1 new]) (simp_all add: ddk_read_def)
  next
    case (Inr n)
    then have n: "n \<le> length buf" "take n buf = pending d @ new" using f(7) by simp_all
    obtain r buf' k where dl: "deliver buf n room cnt = Some (r, buf', k)" "length buf' = length buf" "k \<le> n"
        "take n buf = (case r of Inl e \<Rightarrow> [] | Inr bs \<Rightarrow> bs) @ take k buf'"
        "case r of Inl e \<Rightarrow> e = - EFAULT \<and> room < cnt | Inr bs \<Rightarrow> length bs = min n cnt"
      by (rule deliver_splits [OF n(1)])
    let ?d = "d1\<lparr>in_buf := Some buf', in_buf_left_over := k\<rparr>"
    have "length (pending d @ new) = n" using n by (metis length_take min.absorb2)
    then have q: "case r of Inl e \<Rightarrow> True | Inr bs \<Rightarrow> length bs = min (length (pending d @ new)) cnt"
      using dl(5) by (cases r) simp_all
    have "ddk_read usb s room cnt = Some (r, s\<lparr>dev := Some ?d\<rparr>)" using d(1) f(1,2) Inr dl(1) by (simp add: ddk_read_def)
    moreover have "dev_ok ?d" using dl(2,3) n(1) f(3) by (simp add: dev_ok_def)
    moreover have "pending ?d = take k buf'" by (simp add: pending_def)
    ultimately show thesis using f(5,6) n(2) dl(4) q by (intro that [of r ?d new]) simp_all
  qed
qed

text \<open>A sequence of reads, each with the room and count it is called with; faults are retried by the next.\<close>

fun read_all :: "'u usb \<Rightarrow> (nat \<times> nat) list \<Rightarrow> 'u u2s \<Rightarrow> (u8 list \<times> 'u u2s) option" where
  "read_all usb [] s = Some ([], s)"
| "read_all usb ((room, cnt) # cs) s = do {
     (r, s) \<leftarrow> ddk_read usb s room cnt;
     (bytes, s) \<leftarrow> read_all usb cs s;
     Some ((case r of Inl e \<Rightarrow> [] | Inr bs \<Rightarrow> bs) @ bytes, s)
   }"

lemma read_all_queue:
  assumes b: "serial_in usb recv"
  shows "dev s = Some d \<Longrightarrow> dev_ok d \<Longrightarrow>
    \<exists>bytes d' new. read_all usb cs s = Some (bytes, s\<lparr>dev := Some d'\<rparr>) \<and> dev_ok d' \<and>
      recv (device d') = recv (device d) @ new \<and> pending d @ new = bytes @ pending d'"
proof (induction cs arbitrary: s d)
  case Nil
  then have "s\<lparr>dev := Some d\<rparr> = s" by (cases s) simp
  then have "read_all usb [] s = Some ([], s\<lparr>dev := Some d\<rparr>)" by simp
  then show ?case using Nil(2) by (intro exI [of _ "[]"] exI [of _ d] conjI) simp_all
next
  case (Cons c cs)
  obtain room cnt where c: "c = (room, cnt)" by (cases c)
  obtain r d1 new1 where r: "ddk_read usb s room cnt = Some (r, s\<lparr>dev := Some d1\<rparr>)" "dev_ok d1"
      "recv (device d1) = recv (device d) @ new1" "pending d @ new1 = (case r of Inl e \<Rightarrow> [] | Inr bs \<Rightarrow> bs) @ pending d1"
    using read_queue [OF b Cons.prems] by blast
  from Cons.IH [OF _ r(2), of "s\<lparr>dev := Some d1\<rparr>"] obtain bytes d' new2 where
    i: "read_all usb cs (s\<lparr>dev := Some d1\<rparr>) = Some (bytes, s\<lparr>dev := Some d'\<rparr>)" "dev_ok d'"
      "recv (device d') = recv (device d1) @ new2" "pending d1 @ new2 = bytes @ pending d'" by auto
  have "pending d @ new1 @ new2 = ((case r of Inl e \<Rightarrow> [] | Inr bs \<Rightarrow> bs) @ bytes) @ pending d'"
    using r(4) i(4) by (metis append.assoc)
  with r(1,3) i(1-3) show ?case unfolding c
    by (intro exI [of _ "(case r of Inl e \<Rightarrow> [] | Inr bs \<Rightarrow> bs) @ bytes"] exI [of _ d'] exI [of _ "new1 @ new2"]) simp
qed

section \<open>A sample board\<close>

text \<open>Its state: what it has delivered, what it will deliver, and what it was sent, one byte at most at a time.\<close>

definition sample_serial :: "(u8 list \<times> u8 list \<times> u8 list) usb" where
  "sample_serial =
     \<lparr>usb_control_out = (\<lambda>rq t v i bs u. (0, u)), usb_control_in = (\<lambda>rq t v i n u. (0, [], u)),
      usb_int_out = (\<lambda>ep pkt (d, w, sent). (0, min 1 (length pkt), (d, w, sent @ take 1 pkt))),
      usb_int_in = (\<lambda>ep k (d, w, sent). if w = [] then (- 110, [], (d, w, sent)) else (0, take k w, (d @ take k w, drop k w, sent)))\<rparr>"

lemma sample_serial: "serial_in sample_serial fst" "serial_out sample_serial (snd \<circ> snd)"
proof -
  show "serial_in sample_serial fst" by (auto simp: serial_in_def sample_serial_def split: if_splits)
  show "serial_out sample_serial (snd \<circ> snd)"
    by (auto simp: serial_out_def sample_serial_def min_def Suc_le_eq)
qed

definition sample_u2s :: "(u8 list \<times> u8 list \<times> u8 list) u2s" where
  "sample_u2s = \<lparr>registered = True, intfdata = True, dev = Some
     \<lparr>m = False, in_ep = 2, out_ep = 2, in_buf_size = 8, out_buf_size = 8, in_buf = Some (replicate 8 0), out_buf = Some (),
      in_buf_left_over = 0, device = ([], [1, 2, 3], [])\<rparr>, files = 0, unplug = No_unplug\<rparr>"

section \<open>Properties\<close>

text \<open>
  C25: in every interleaving of plugging in, the three parts of unplugging, opening, closing,
  reading and writing at most one file is open. While it is, a second open is refused, with
  \<open>-EBUSY\<close> as long as the board is plugged in and with \<open>-ENODEV\<close> from the moment unplugging has
  cleared the pointer; the structure is not freed before the file is closed, and closing works.
  While none is open, the plugged-in device can be opened and unplugged, a device being unplugged
  cannot be opened, and its disconnect, once the minor is given back, goes through.
\<close>

theorem u2s_exclusive:
  assumes "(u2s_step usb)\<^sup>*\<^sup>* \<lparr>registered = False, intfdata = False, dev = None, files = 0, unplug = No_unplug\<rparr> s"
  shows "files s \<le> 1 \<and>
    (files s = 1 \<longrightarrow> ddk_open s = Some (if unplug s = No_unplug then - EBUSY else - ENODEV, s) \<and>
       disconnect_free s = None \<and> (\<exists>s'. ddk_close s = Some (0, s') \<and> files s' = 0 \<and> unplug s' = unplug s)) \<and>
    (files s = 0 \<and> unplug s = No_unplug \<and> registered s \<longrightarrow>
       (\<exists>s'. ddk_open s = Some (0, s') \<and> files s' = 1) \<and> (\<exists>s'. ddk_disconnect s = Some s' \<and> dev s' = None)) \<and>
    (unplug s \<noteq> No_unplug \<longrightarrow> ddk_open s = Some (- ENODEV, s)) \<and>
    (files s = 0 \<and> unplug s = Deregistered \<longrightarrow> (\<exists>s'. disconnect_free s = Some s' \<and> dev s' = None \<and> unplug s' = No_unplug))"
proof -
  have "u2s_inv s" using assms
  proof (induction rule: rtranclp_induct)
    case base
    show ?case by (simp add: u2s_inv_def)
  next
    case (step s1 s2)
    then show ?case using u2s_step_inv by blast
  qed
  then show ?thesis
    by (cases "unplug s") (auto simp: u2s_inv_def ddk_open_def ddk_close_def ddk_disconnect_def disconnect_defs
        split: option.splits if_splits)
qed

theorem u2s_exclusive_witness:
  "\<exists>s s'. (u2s_step sample_serial)\<^sup>*\<^sup>* \<lparr>registered = False, intfdata = False, dev = None, files = 0, unplug = No_unplug\<rparr> s \<and>
     files s = 1 \<and> ddk_open s = Some (- EBUSY, s) \<and> u2s_step sample_serial s s' \<and> ddk_open s' = Some (- ENODEV, s')"
proof -
  let ?s0 = "\<lparr>registered = False, intfdata = False, dev = None, files = 0, unplug = No_unplug\<rparr> :: (u8 list \<times> u8 list \<times> u8 list) u2s"
  obtain s1 where s1: "ddk_probe True 0 1 [(0x82, 8, Some (replicate 8 0)), (0x02, 8, Some [])] ([], [1, 2, 3], []) ?s0 = Some (0, s1)"
      "registered s1" "intfdata s1" "files s1 = 0" "unplug s1 = No_unplug" "\<exists>d. dev s1 = Some d \<and> \<not> m d"
    by (simp add: ddk_probe_def SER_EP_IN_def SER_EP_OUT_def)
  then obtain s2 where s2: "ddk_open s1 = Some (0, s2)" "files s2 = 1" "unplug s2 = No_unplug" "registered s2" "intfdata s2"
    by (auto simp: ddk_open_def)
  let ?s3 = "s2\<lparr>intfdata := False, unplug := Cleared\<rparr>"
  have "u2s_step sample_serial ?s0 s1" using s1(1) by (intro probe) simp_all
  moreover have "u2s_step sample_serial s1 s2" using s2(1) by (rule open_file)
  ultimately have r: "(u2s_step sample_serial)\<^sup>*\<^sup>* ?s0 s2" by (meson converse_rtranclp_into_rtranclp r_into_rtranclp)
  have c: "u2s_step sample_serial s2 ?s3" using s2 by (intro unplug_clear) (simp_all add: disconnect_clear_def)
  from u2s_exclusive [OF rtranclp.rtrancl_into_rtrancl [OF r c]] have "ddk_open ?s3 = Some (- ENODEV, ?s3)" by simp
  moreover from u2s_exclusive [OF r] s2(2,3) have "ddk_open s2 = Some (- EBUSY, s2)" by simp
  ultimately show ?thesis using r c s2(2) by blast
qed

text \<open>
  C26: what any sequence of reads after an open returns is what arrived since then, in order and
  without loss, whatever the counts and even if some of the calls fault or time out; the rest
  waits in the buffer. The buffer with its left-over count is a queue of bytes.
\<close>

theorem u2s_reads_in_order:
  assumes "serial_in usb recv" and "dev s = Some d" "in_buf d = Some buf" "length buf = in_buf_size d" and "ddk_open s = Some (0, s1)"
  shows "\<exists>bytes d'. read_all usb cs s1 = Some (bytes, s1\<lparr>dev := Some d'\<rparr>) \<and>
    recv (device d') = recv (device d) @ bytes @ pending d'"
proof -
  let ?d = "d\<lparr>m := True, in_buf_left_over := 0\<rparr>"
  have s1: "dev s1 = Some ?d" using assms(2,5) by (auto simp: ddk_open_def split: if_splits)
  have "dev_ok ?d" "pending ?d = []" using assms(3,4) by (simp_all add: dev_ok_def pending_def)
  then show ?thesis using read_all_queue [OF assms(1) s1, of cs] by fastforce
qed

theorem u2s_reads_in_order_witness:
  "\<exists>s1 bytes d'. ddk_open sample_u2s = Some (0, s1) \<and> read_all sample_serial [(2, 2), (0, 1), (4, 4)] s1 = Some (bytes, s1\<lparr>dev := Some d'\<rparr>) \<and>
     fst (device d') = bytes @ pending d'"
proof -
  obtain s1 where s1: "ddk_open sample_u2s = Some (0, s1)" by (simp add: ddk_open_def sample_u2s_def)
  let ?d = "the (dev sample_u2s)"
  have d: "dev sample_u2s = Some ?d" "in_buf ?d = Some (replicate 8 0)" "length (replicate 8 (0 :: u8)) = in_buf_size ?d" "fst (device ?d) = []"
    by (simp_all add: sample_u2s_def)
  from u2s_reads_in_order [OF sample_serial(1) d(1-3) s1, of "[(2, 2), (0, 1), (4, 4)]"] s1 d(4) show ?thesis by fastforce
qed

text \<open>
  A write ends, however little of each packet the board takes, and has sent exactly the bytes
  of the user's buffer, in order.
\<close>

theorem u2s_write_sends:
  assumes b: "serial_out usb sent" and d: "dev s = Some d" "0 < out_buf_size d"
  shows "\<exists>u. ddk_write usb s buf (length buf) = Some (int (length buf), s\<lparr>dev := Some (d\<lparr>device := u\<rparr>)\<rparr>) \<and>
    sent u = sent (device d) @ buf"
proof -
  let ?sz = "out_buf_size d"
  define P where "P k u \<longleftrightarrow> sent u = sent (device d) @ take k buf" for k u
  have "r = 0 \<and> 0 < n \<and> n \<le> min ?sz (length buf - k) \<and> P (k + n) u2"
    if p: "P k u1" and k: "k < length buf"
      and o: "usb_int_out usb (out_ep d) (take (min ?sz (length buf - k)) (drop k buf)) u1 = (r, n, u2)" for k u1 r n u2
  proof -
    let ?p = "take (min ?sz (length buf - k)) (drop k buf)"
    have lp: "length ?p = min ?sz (length buf - k)" "?p \<noteq> []" using k d(2) by auto
    have l: "r = 0 \<and> 0 < n \<and> n \<le> length ?p \<and> sent u2 = sent u1 @ take n ?p"
      using b lp(2) o unfolding serial_out_def by blast
    then have "take n ?p = take n (drop k buf)" unfolding lp(1) by (simp add: min_absorb1)
    then show ?thesis using l p unfolding lp(1) P_def by (simp add: take_add)
  qed
  moreover have "P 0 (device d)" by (simp add: P_def)
  ultimately obtain u where "write_loop usb (out_ep d) ?sz buf (length buf) 0 (device d) = Some (Inr (length buf), u)" "P (length buf) u"
    using write_loop_sends [of P buf usb "out_ep d" ?sz 0 "device d"] by blast
  then have "write_loop usb (out_ep d) ?sz buf (length buf) 0 (device d) = Some (Inr (length buf), u)" "sent u = sent (device d) @ buf"
    by (simp_all add: P_def)
  then show ?thesis using d(1) by (auto simp: ddk_write_def)
qed

theorem u2s_write_sends_witness:
  "\<exists>u s'. ddk_write sample_serial sample_u2s [5, 6, 7] 3 = Some (3, s') \<and> dev s' = Some u \<and> snd (snd (device u)) = [5, 6, 7]"
proof -
  let ?d = "the (dev sample_u2s)"
  have d: "dev sample_u2s = Some ?d" "0 < out_buf_size ?d" "snd (snd (device ?d)) = []" by (simp_all add: sample_u2s_def)
  obtain u where "ddk_write sample_serial sample_u2s [5, 6, 7] (length [5 :: u8, 6, 7]) =
      Some (int (length [5 :: u8, 6, 7]), sample_u2s\<lparr>dev := Some (?d\<lparr>device := u\<rparr>)\<rparr>)" "(snd \<circ> snd) u = (snd \<circ> snd) (device ?d) @ [5, 6, 7]"
    using u2s_write_sends [OF sample_serial(2) d(1,2), of "[5, 6, 7]"] by blast
  then show ?thesis using d(3) by (intro exI [of _ "?d\<lparr>device := u\<rparr>"] exI [of _ "sample_u2s\<lparr>dev := Some (?d\<lparr>device := u\<rparr>)\<rparr>"])
      (simp add: eval_nat_numeral)
qed

end
