(* ===== verification/Char_Device.thy ===== *)
theory Char_Device
  imports Storage_Prelude
begin

text \<open>
  Registration of a character device with its class and node, the same in the UART and the SPI
  driver (\<^verbatim>\<open>src/Uart/Code/final_char_driver.c\<close>, \<^verbatim>\<open>src/SPI/Driver/final_char_driver.c\<close>), the PCI driver and
  \<^verbatim>\<open>src/USB/USBDriver/usb_char_driver.c\<close>.
\<close>

text \<open>
  \<open>fcd\<close> is what is held: the device region, the character device, the class and
  its node. The arguments are the results of the four calls, for the last two the error number
  of the pointer.
\<close>

record fcd =
  region :: bool
  c_dev :: bool
  cl :: bool
  node :: bool

definition fcd_init :: "int \<Rightarrow> int \<Rightarrow> int \<Rightarrow> int \<Rightarrow> fcd \<Rightarrow> int \<times> fcd" where
  "fcd_init alloc_chrdev_region cdev_add class_create device_create s =
     (if alloc_chrdev_region < 0 then (alloc_chrdev_region, s)
      else let s = s\<lparr>region := True\<rparr> in
      if cdev_add < 0 then (cdev_add, s\<lparr>region := False\<rparr>)
      else let s = s\<lparr>c_dev := True\<rparr> in
      if class_create < 0 then (class_create, s\<lparr>c_dev := False, region := False\<rparr>)
      else let s = s\<lparr>cl := True\<rparr> in
      if device_create < 0 then (device_create, s\<lparr>cl := False, c_dev := False, region := False\<rparr>)
      else (0, s\<lparr>node := True\<rparr>))"

text \<open>The four releases of \<open>fcd_exit\<close>.\<close>

definition fcd_release :: "fcd \<Rightarrow> fcd" where
  "fcd_release s = s\<lparr>node := False, cl := False, c_dev := False, region := False\<rparr>"

text \<open>Registration holds all four or none.\<close>

lemma fcd_init_all_or_nothing:
  assumes "fcd_init r1 r2 r3 r4 \<lparr>region = False, c_dev = False, cl = False, node = False\<rparr> = (r, s)"
  shows "s = (if r = 0 then \<lparr>region = True, c_dev = True, cl = True, node = True\<rparr>
              else \<lparr>region = False, c_dev = False, cl = False, node = False\<rparr>) \<and> r \<le> 0"
  using assms by (auto simp: fcd_init_def Let_def split: if_splits)

end
