(* ===== verification/Ddk_Ctl.thy ===== *)
theory Ddk_Ctl
  imports Usb_Core Char_Device
begin

text \<open>
  The USB drivers that only use control messages: \<^verbatim>\<open>src/USB/USBDriver/ddk_io.c\<close> for the registers
  of the board, \<^verbatim>\<open>ddk_led.c\<close> for its LED, and \<^verbatim>\<open>usb_char_driver.c\<close>, which only registers a
  character device.

  \<open>ctl\<close> is the static \<open>ddk_dev\<close> with the state of the board behind its pointer (\<open>None\<close>: null, or a
  device that was released), and whether the minor is registered. A byte that was not received is
  \<open>junk\<close>, what the stack contains. \<open>char\<close> is signed, as on the PCs the board is plugged into.
\<close>

section \<open>Registers\<close>

definition CUSTOM_RQ_SET_LED_STATUS :: u8 where "CUSTOM_RQ_SET_LED_STATUS = 1"
definition CUSTOM_RQ_GET_LED_STATUS :: u8 where "CUSTOM_RQ_GET_LED_STATUS = 2"
definition CUSTOM_RQ_SET_REGISTER :: u8 where "CUSTOM_RQ_SET_REGISTER = 10"
definition CUSTOM_RQ_GET_REGISTER :: u8 where "CUSTOM_RQ_GET_REGISTER = 11"

lemmas ctl_consts = CUSTOM_RQ_SET_LED_STATUS_def CUSTOM_RQ_GET_LED_STATUS_def CUSTOM_RQ_SET_REGISTER_def CUSTOM_RQ_GET_REGISTER_def

record 'u ctl =
  device :: "'u option"
  minor :: bool

text \<open>\<open>Register\<close> of \<^verbatim>\<open>ddk_io.h\<close>: the enumeration of the identifiers has 32 bits.\<close>

record Register =
  reg_id :: u32
  reg_val :: u8

datatype reg_cmd = DDK_REG_GET | DDK_REG_SET | OTHER_REG_CMD

text \<open>
  \<open>arg\<close>: the structure the user passes, if its memory can be read; \<open>writable\<close>: whether it can be
  written. The result has the structure that is stored there.
\<close>

definition io_ioctl ::
    "'u usb \<Rightarrow> u8 \<Rightarrow> Register option \<Rightarrow> bool \<Rightarrow> reg_cmd \<Rightarrow> 'u ctl \<Rightarrow> (int \<times> Register option \<times> 'u ctl) option" where
  "io_ioctl usb junk arg writable cmd s =
     (case arg of
        None \<Rightarrow> Some (- EFAULT, None, s)
      | Some r \<Rightarrow>
          case cmd of
            DDK_REG_GET \<Rightarrow> do {
              u \<leftarrow> device s;
              let (retval, got, u) = usb_control_in usb CUSTOM_RQ_GET_REGISTER VENDOR_IN 0 (ucast (reg_id r)) 1 u;
              let s = s\<lparr>device := Some u\<rparr>;
              Some (if retval < 0 then (retval, None, s)
                    else if writable then (0, Some (r\<lparr>reg_val := (case got of [] \<Rightarrow> junk | b # _ \<Rightarrow> b)\<rparr>), s)
                    else (- EFAULT, None, s))
            }
          | DDK_REG_SET \<Rightarrow> do {
              u \<leftarrow> device s;
              let (retval, u) = usb_control_out usb CUSTOM_RQ_SET_REGISTER VENDOR_OUT (ucast (reg_val r)) (ucast (reg_id r)) [] u;
              Some (if retval < 0 then retval else 0, None, s\<lparr>device := Some u\<rparr>)
            }
          | OTHER_REG_CMD \<Rightarrow> Some (- EINVAL, None, s))"

text \<open>\<open>reg\<close>: the result of \<open>usb_register_dev\<close>.\<close>

definition io_probe :: "nat \<Rightarrow> int \<Rightarrow> 'u \<Rightarrow> 'u ctl \<Rightarrow> int \<times> 'u ctl" where
  "io_probe bNumEndpoints reg u s =
     (if bNumEndpoints = 0
      then let s = s\<lparr>device := Some u\<rparr> in if reg \<noteq> 0 then (reg, s) else (0, s\<lparr>minor := True\<rparr>)
      else (- EINVAL, s))"

text \<open>The pointer keeps its value, but the core releases what it points to.\<close>

definition io_disconnect :: "'u ctl \<Rightarrow> 'u ctl" where
  "io_disconnect s = s\<lparr>minor := False, device := None\<rparr>"

section \<open>The LED\<close>

datatype led_cmd = DDK_LED_GET | DDK_LED_SET u64 | OTHER_LED_CMD

definition led_ioctl :: "'u usb \<Rightarrow> u8 \<Rightarrow> bool \<Rightarrow> led_cmd \<Rightarrow> 'u ctl \<Rightarrow> (int \<times> int option \<times> 'u ctl) option" where
  "led_ioctl usb junk writable cmd s =
     (case cmd of
        DDK_LED_GET \<Rightarrow> do {
          u \<leftarrow> device s;
          let (retval, got, u) = usb_control_in usb CUSTOM_RQ_GET_LED_STATUS VENDOR_IN 0 0 1 u;
          let s = s\<lparr>device := Some u\<rparr>;
          Some (if retval < 0 then (retval, None, s)
                else if writable then (0, Some (sint (case got of [] \<Rightarrow> junk | b # _ \<Rightarrow> b)), s)
                else (- EFAULT, None, s))
        }
      | DDK_LED_SET arg \<Rightarrow> do {
          u \<leftarrow> device s;
          let (retval, u) = usb_control_out usb CUSTOM_RQ_SET_LED_STATUS VENDOR_OUT (ucast (ucast arg :: u32)) 0 [] u;
          Some (if retval < 0 then retval else 0, None, s\<lparr>device := Some u\<rparr>)
        }
      | OTHER_LED_CMD \<Rightarrow> Some (- EINVAL, None, s))"

definition led_probe :: "nat \<Rightarrow> int \<Rightarrow> 'u \<Rightarrow> 'u ctl \<Rightarrow> int \<times> 'u ctl" where
  "led_probe bNumEndpoints reg u s =
     (if bNumEndpoints = 0
      then let s = s\<lparr>device := Some u\<rparr> in if reg \<noteq> 0 then (reg, s) else (0, s\<lparr>minor := True\<rparr>)
      else (- EINVAL, s))"

definition led_disconnect :: "'u ctl \<Rightarrow> 'u ctl" where
  "led_disconnect s = s\<lparr>minor := False, device := None\<rparr>"

section \<open>The driver without a device\<close>

text \<open>The registration and the interface's minor number; \<open>calls\<close> are the results as in \<open>fcd_init\<close>.\<close>

record vert =
  chardev :: fcd
  if_minor :: int

definition vert_register_dev :: "int \<Rightarrow> int \<times> int \<times> int \<times> int \<Rightarrow> vert \<Rightarrow> int \<times> vert" where
  "vert_register_dev dev_minor calls s =
     (let (r1, r2, r3, r4) = calls; (r, f) = fcd_init r1 r2 r3 r4 (chardev s)
      in (r, if r = 0 then s\<lparr>chardev := f, if_minor := dev_minor\<rparr> else s\<lparr>chardev := f\<rparr>))"

definition vert_deregister_dev :: "vert \<Rightarrow> vert" where
  "vert_deregister_dev s = s\<lparr>if_minor := - 1, chardev := fcd_release (chardev s)\<rparr>"

definition vert_probe :: "nat \<Rightarrow> int \<Rightarrow> int \<times> int \<times> int \<times> int \<Rightarrow> vert \<Rightarrow> int \<times> vert" where
  "vert_probe bInterfaceNumber dev_minor calls s = (if bInterfaceNumber = 0 then vert_register_dev dev_minor calls s else (0, s))"

definition vert_disconnect :: "nat \<Rightarrow> vert \<Rightarrow> vert" where
  "vert_disconnect bInterfaceNumber s = (if bInterfaceNumber = 0 then vert_deregister_dev s else s)"

text \<open>Probing takes all of the character device or nothing, and unplugging gives it back.\<close>

lemma vert_balanced:
  assumes "chardev s = \<lparr>region = False, c_dev = False, cl = False, node = False\<rparr>" "vert_probe n k calls s = (r, s')"
  shows "chardev (vert_disconnect n s') = chardev s \<and> (r \<noteq> 0 \<longrightarrow> chardev s' = chardev s)"
proof (cases "n = 0")
  case True
  obtain r1 r2 r3 r4 where c: "calls = (r1, r2, r3, r4)" by (cases calls)
  obtain r f where f: "fcd_init r1 r2 r3 r4 (chardev s) = (r, f)" by (cases "fcd_init r1 r2 r3 r4 (chardev s)")
  from fcd_init_all_or_nothing [of r1 r2 r3 r4 r f] show ?thesis
    using assms True c f by (auto simp: vert_probe_def vert_register_dev_def vert_disconnect_def vert_deregister_dev_def fcd_release_def split: if_splits)
qed (use assms in \<open>simp add: vert_probe_def vert_disconnect_def\<close>)

section \<open>Registers are registers\<close>

text \<open>
  What the driver relies on: \<open>regs u\<close> are the contents by index; setting one stores the low byte
  of the value, and reading gives one byte.
\<close>

definition register_board :: "'u usb \<Rightarrow> ('u \<Rightarrow> u16 \<Rightarrow> u8) \<Rightarrow> bool" where
  "register_board usb regs \<longleftrightarrow>
     (\<forall>v i u r u'. usb_control_out usb 10 0x40 v i [] u = (r, u') \<longrightarrow> 0 \<le> r \<and> regs u' = (regs u)(i := ucast v)) \<and>
     (\<forall>i u r bs u'. usb_control_in usb 11 0xC0 0 i 1 u = (r, bs, u') \<longrightarrow> r = 1 \<and> bs = [regs u i] \<and> regs u' = regs u)"

text \<open>The registers are set one after the other.\<close>

primrec io_sets :: "'u usb \<Rightarrow> u8 \<Rightarrow> Register list \<Rightarrow> 'u ctl \<Rightarrow> 'u ctl option" where
  "io_sets usb junk [] s = Some s"
| "io_sets usb junk (r # rs) s = do {
     (v, _, s) \<leftarrow> io_ioctl usb junk (Some r) False DDK_REG_SET s;
     if v < 0 then None else io_sets usb junk rs s
   }"

lemma io_sets_regs:
  assumes b: "register_board usb regs"
  shows "device s = Some u \<Longrightarrow> \<exists>u'. io_sets usb junk rs s = Some (s\<lparr>device := Some u'\<rparr>) \<and>
    regs u' = foldl (\<lambda>g r. g(ucast (reg_id r) := reg_val r)) (regs u) rs"
proof (induction rs arbitrary: s u)
  case Nil
  then show ?case by (intro exI [of _ u]) (cases s, simp)
next
  case (Cons r rs)
  obtain v u1 where o: "usb_control_out usb 10 0x40 (ucast (reg_val r)) (ucast (reg_id r)) [] u = (v, u1)"
    by (cases "usb_control_out usb 10 0x40 (ucast (reg_val r)) (ucast (reg_id r)) [] u")
  then have g: "0 \<le> v" "regs u1 = (regs u)(ucast (reg_id r) := ucast (ucast (reg_val r) :: u16))" using b unfolding register_board_def by blast+
  have e: "ucast (ucast (reg_val r) :: u16) = reg_val r" by (rule bit_word_eqI) (simp add: bit_simps)
  have "io_sets usb junk (r # rs) s = io_sets usb junk rs (s\<lparr>device := Some u1\<rparr>)"
    using Cons.prems o g(1) by (simp add: io_ioctl_def ctl_consts)
  then show ?case using Cons.IH [of "s\<lparr>device := Some u1\<rparr>" u1] g(2) e by simp
qed

lemma foldl_last_set:
  assumes "\<forall>r \<in> set rs. unat (reg_id r) < 65536" "unat k < 65536"
  shows "foldl (\<lambda>g r. g((ucast (reg_id r) :: u16) := reg_val r)) f rs (ucast k) =
    (case map_of (rev (map (\<lambda>r. (reg_id r, reg_val r)) rs)) k of Some v \<Rightarrow> v | None \<Rightarrow> f (ucast k))"
  using assms
proof (induction rs rule: rev_induct)
  case (snoc r rs)
  have inj: "(ucast k :: u16) = ucast (reg_id r) \<longleftrightarrow> k = reg_id r"
  proof
    assume "(ucast k :: u16) = ucast (reg_id r)"
    then have "unat (ucast k :: u16) = unat (ucast (reg_id r) :: u16)" by simp
    then show "k = reg_id r" using snoc.prems by (simp add: word_unat_eq_iff unsigned_ucast_eq take_bit_nat_eq_self)
  qed simp
  show ?case using snoc inj by auto
qed simp

text \<open>
  After setting registers in any order, reading one gives the value it was last set to, or
  what it had before. The identifiers have to fit the 16 bits of a control message's index.
\<close>

theorem io_set_then_get:
  assumes b: "register_board usb regs" and d: "device s = Some u" and i: "\<forall>r \<in> set rs. unat (reg_id r) < 65536" "unat k < 65536"
  shows "\<exists>s1 s2. io_sets usb junk rs s = Some s1 \<and>
    io_ioctl usb junk (Some \<lparr>reg_id = k, reg_val = v0\<rparr>) True DDK_REG_GET s1 =
      Some (0, Some \<lparr>reg_id = k, reg_val = (case map_of (rev (map (\<lambda>r. (reg_id r, reg_val r)) rs)) k of Some v \<Rightarrow> v | None \<Rightarrow> regs u (ucast k))\<rparr>, s2)"
proof -
  obtain u1 where s1: "io_sets usb junk rs s = Some (s\<lparr>device := Some u1\<rparr>)" "regs u1 = foldl (\<lambda>g r. g(ucast (reg_id r) := reg_val r)) (regs u) rs"
    using io_sets_regs [OF b d] by blast
  obtain r bs u2 where o: "usb_control_in usb 11 0xC0 0 (ucast k) 1 u1 = (r, bs, u2)" by (cases "usb_control_in usb 11 0xC0 0 (ucast k) 1 u1")
  then have g: "r = 1" "bs = [regs u1 (ucast k)]" using b unfolding register_board_def by blast+
  have "io_ioctl usb junk (Some \<lparr>reg_id = k, reg_val = v0\<rparr>) True DDK_REG_GET (s\<lparr>device := Some u1\<rparr>) =
      Some (0, Some \<lparr>reg_id = k, reg_val = regs u1 (ucast k)\<rparr>, s\<lparr>device := Some u2\<rparr>)"
    using o g by (simp add: io_ioctl_def ctl_consts)
  then show ?thesis using s1 foldl_last_set [OF i] by auto
qed

definition sample_registers :: "(u16 \<Rightarrow> u8) usb" where
  "sample_registers = \<lparr>usb_control_out = \<lambda>q t v i bs u. (0, u(i := ucast v)), usb_control_in = \<lambda>q t v i n u. (1, [u i], u),
     usb_int_out = \<lambda>e bs u. (0, 0, u), usb_int_in = \<lambda>e n u. (0, [], u)\<rparr>"

theorem io_set_then_get_witness:
  "\<exists>s1 s2. io_sets sample_registers 0 [\<lparr>reg_id = 5, reg_val = 1\<rparr>, \<lparr>reg_id = 6, reg_val = 2\<rparr>, \<lparr>reg_id = 5, reg_val = 3\<rparr>] \<lparr>device = Some (\<lambda>_. 0), minor = True\<rparr> = Some s1 \<and>
    io_ioctl sample_registers 0 (Some \<lparr>reg_id = 5, reg_val = 0\<rparr>) True DDK_REG_GET s1 = Some (0, Some \<lparr>reg_id = 5, reg_val = 3\<rparr>, s2)"
proof -
  have "register_board sample_registers (\<lambda>u. u)" by (auto simp: register_board_def sample_registers_def)
  from io_set_then_get [OF this, of "\<lparr>device = Some (\<lambda>_. 0), minor = True\<rparr>" "\<lambda>_. 0"
      "[\<lparr>reg_id = 5, reg_val = 1\<rparr>, \<lparr>reg_id = 6, reg_val = 2\<rparr>, \<lparr>reg_id = 5, reg_val = 3\<rparr>]" 5 0 0]
  show ?thesis by simp
qed

text \<open>A file that is still open when the board is unplugged uses the released device.\<close>

lemma ctl_after_unplug:
  "io_ioctl usb junk (Some r) w DDK_REG_GET (io_disconnect s) = None" "io_ioctl usb junk (Some r) w DDK_REG_SET (io_disconnect s) = None"
  "led_ioctl usb junk w DDK_LED_GET (led_disconnect s) = None" "led_ioctl usb junk w (DDK_LED_SET a) (led_disconnect s) = None"
  by (simp_all add: io_ioctl_def led_ioctl_def io_disconnect_def led_disconnect_def)

end
