(* ===== verification/Uart.thy ===== *)
theory Uart
  imports Char_Device
begin

text \<open>
  The interrupt-driven UART character driver: \<^verbatim>\<open>src/Uart/Code/char-serial-new.c\<close> drives the chip and
  \<^verbatim>\<open>src/Uart/Code/final_char_driver.c\<close> is its user interface.

  The chip is a parameter: \<open>'h chip\<close> has the effect of reading and writing a 16-bit register at
  an offset on a chip whose state has type \<open>'h\<close>. \<open>uart\<close> is \<open>struct uart_omap_port\<close> with the parts
  of \<open>struct uart_port\<close> the driver uses, the static \<open>start_flg\<close> and the state of the chip. A null
  buffer pointer is \<open>None\<close>; an access through it, or outside a buffer, has no result. The
  register numbers and bits are those of \<^verbatim>\<open>linux/serial_reg.h\<close> and \<^verbatim>\<open>asm/termbits.h\<close>.
\<close>

section \<open>Registers\<close>

record 'h chip =
  readw :: "nat \<Rightarrow> 'h \<Rightarrow> u16 \<times> 'h"
  writew :: "nat \<Rightarrow> u16 \<Rightarrow> 'h \<Rightarrow> 'h"

abbreviation (input) UART_RX :: nat where "UART_RX \<equiv> 0"
abbreviation (input) UART_TX :: nat where "UART_TX \<equiv> 0"
abbreviation (input) UART_DLL :: nat where "UART_DLL \<equiv> 0"
abbreviation (input) UART_DLM :: nat where "UART_DLM \<equiv> 1"
abbreviation (input) UART_IER :: nat where "UART_IER \<equiv> 1"
abbreviation (input) UART_IIR :: nat where "UART_IIR \<equiv> 2"
abbreviation (input) UART_FCR :: nat where "UART_FCR \<equiv> 2"
abbreviation (input) UART_EFR :: nat where "UART_EFR \<equiv> 2"
abbreviation (input) UART_LCR :: nat where "UART_LCR \<equiv> 3"
abbreviation (input) UART_MCR :: nat where "UART_MCR \<equiv> 4"
abbreviation (input) UART_LSR :: nat where "UART_LSR \<equiv> 5"
abbreviation (input) UART_MSR :: nat where "UART_MSR \<equiv> 6"
abbreviation (input) UART_TI752_TCR :: nat where "UART_TI752_TCR \<equiv> 6"
abbreviation (input) UART_OMAP_MDR1 :: nat where "UART_OMAP_MDR1 \<equiv> 8"
abbreviation (input) UART_OMAP_SCR :: nat where "UART_OMAP_SCR \<equiv> 16"
abbreviation (input) UART_OMAP_WER :: nat where "UART_OMAP_WER \<equiv> 23"

abbreviation (input) UART_IER_RDI :: u8 where "UART_IER_RDI \<equiv> 0x01"
abbreviation (input) UART_IER_THRI :: u8 where "UART_IER_THRI \<equiv> 0x02"
abbreviation (input) UART_IER_RLSI :: u8 where "UART_IER_RLSI \<equiv> 0x04"
abbreviation (input) UART_IIR_NO_INT :: u16 where "UART_IIR_NO_INT \<equiv> 0x01"
abbreviation (input) UART_IIR_THRI :: u16 where "UART_IIR_THRI \<equiv> 0x02"
abbreviation (input) UART_IIR_RDI :: u16 where "UART_IIR_RDI \<equiv> 0x04"
abbreviation (input) UART_IIR_RLSI :: u16 where "UART_IIR_RLSI \<equiv> 0x06"
abbreviation (input) UART_IIR_RX_TIMEOUT :: u16 where "UART_IIR_RX_TIMEOUT \<equiv> 0x0C"
abbreviation (input) UART_LSR_DR :: u16 where "UART_LSR_DR \<equiv> 0x01"
abbreviation (input) UART_LSR_OE :: u16 where "UART_LSR_OE \<equiv> 0x02"
abbreviation (input) UART_LSR_PE :: u16 where "UART_LSR_PE \<equiv> 0x04"
abbreviation (input) UART_LSR_FE :: u16 where "UART_LSR_FE \<equiv> 0x08"
abbreviation (input) UART_LSR_BI :: u16 where "UART_LSR_BI \<equiv> 0x10"
abbreviation (input) UART_LCR_CONF_MODE_A :: u8 where "UART_LCR_CONF_MODE_A \<equiv> 0x80"
abbreviation (input) UART_LCR_CONF_MODE_B :: u8 where "UART_LCR_CONF_MODE_B \<equiv> 0xBF"
abbreviation (input) UART_LCR_SBC :: u8 where "UART_LCR_SBC \<equiv> 0x40"
abbreviation (input) UART_EFR_ECB :: u8 where "UART_EFR_ECB \<equiv> 0x10"
abbreviation (input) UART_EFR_SCD :: u8 where "UART_EFR_SCD \<equiv> 0x20"
abbreviation (input) UART_MCR_TCRTLR :: u8 where "UART_MCR_TCRTLR \<equiv> 0x40"

definition OMAP_UART_TX_WAKEUP_EN :: u8 where "OMAP_UART_TX_WAKEUP_EN = 0x80"
definition OMAP_UART_WER_HAS_TX_WAKEUP :: u32 where "OMAP_UART_WER_HAS_TX_WAKEUP = 1"
definition OMAP_UART_SCR_RX_TRIG_GRANU1_MASK :: u8 where "OMAP_UART_SCR_RX_TRIG_GRANU1_MASK = 0x80"
definition OMAP_UART_FCR_RX_FIFO_TRIG_MASK :: u8 where "OMAP_UART_FCR_RX_FIFO_TRIG_MASK = 0xC0"
definition OMAP_UART_FCR_TX_FIFO_TRIG_MASK :: u8 where "OMAP_UART_FCR_TX_FIFO_TRIG_MASK = 0x30"
definition OMAP_UART_WER_MOD_WKUP :: u8 where "OMAP_UART_WER_MOD_WKUP = 0x7F"
definition OMAP_UART_TCR_TRIG :: u8 where "OMAP_UART_TCR_TRIG = 0x0F"

lemmas omap_consts = OMAP_UART_TX_WAKEUP_EN_def OMAP_UART_WER_HAS_TX_WAKEUP_def OMAP_UART_SCR_RX_TRIG_GRANU1_MASK_def
  OMAP_UART_FCR_RX_FIFO_TRIG_MASK_def OMAP_UART_FCR_TX_FIFO_TRIG_MASK_def OMAP_UART_WER_MOD_WKUP_def OMAP_UART_TCR_TRIG_def

section \<open>State\<close>

record uart_icount =
  rx :: u32
  tx :: u32
  brk :: u32
  parity :: u32
  frame :: u32
  overrun :: u32

record 'h uart =
  ier :: u8
  lcr :: u8
  mcr :: u8
  fcr :: u8
  efr :: u8
  dll :: u8
  dlh :: u8
  mdr1 :: u8
  scr :: u8
  wer :: u8
  features :: u32
  regshift :: nat
  icount :: uart_icount
  rx_buff :: "u8 list option"
  rx_size :: nat
  tx_buff :: "u8 list option"
  tx_size :: nat
  start_flg :: bool
  hw :: 'h

definition serial_in :: "'h chip \<Rightarrow> 'h uart \<Rightarrow> nat \<Rightarrow> u16 \<times> 'h uart" where
  "serial_in c up offset = (let (v, h) = readw c (push_bit (regshift up) offset) (hw up) in (v, up\<lparr>hw := h\<rparr>))"

text \<open>All values written are bytes.\<close>

definition serial_out :: "'h chip \<Rightarrow> nat \<Rightarrow> u8 \<Rightarrow> 'h uart \<Rightarrow> 'h uart" where
  "serial_out c offset v up = up\<lparr>hw := writew c (push_bit (regshift up) offset) (ucast v) (hw up)\<rparr>"

text \<open>A sequence of calls of \<open>serial_out\<close>.\<close>

fun serial_outs :: "'h chip \<Rightarrow> (nat \<times> u8) list \<Rightarrow> 'h uart \<Rightarrow> 'h uart" where
  "serial_outs c [] up = up"
| "serial_outs c ((offset, v) # ws) up = serial_outs c ws (serial_out c offset v up)"

section \<open>Interrupts\<close>

definition serial_omap_clear_fifos :: "'h chip \<Rightarrow> 'h uart \<Rightarrow> 'h uart" where
  "serial_omap_clear_fifos c = serial_outs c [(UART_FCR, 0x01), (UART_FCR, 0x01 OR 0x02 OR 0x04), (UART_FCR, 0)]"

definition serial_omap_stop_tx :: "'h chip \<Rightarrow> 'h uart \<Rightarrow> 'h uart" where
  "serial_omap_stop_tx c up =
     (if ier up AND UART_IER_THRI \<noteq> 0
      then let up = up\<lparr>ier := ier up AND NOT UART_IER_THRI\<rparr> in serial_out c UART_IER (ier up) up
      else up)"

fun transmit_loop :: "'h chip \<Rightarrow> nat list \<Rightarrow> 'h uart \<Rightarrow> 'h uart option" where
  "transmit_loop c [] up = Some up"
| "transmit_loop c (i # is) up = do {
     buf \<leftarrow> tx_buff up;
     x \<leftarrow> arr_get buf i;
     transmit_loop c is (serial_out c UART_TX x up)
   }"

text \<open>The count is an \<open>int\<close>.\<close>

definition transmit_chars :: "'h chip \<Rightarrow> 'h uart \<Rightarrow> 'h uart option" where
  "transmit_chars c up = do {
     up \<leftarrow> transmit_loop c [0..<nat (sint (tx (icount up)))] up;
     Some (serial_omap_stop_tx c up)
   }"

definition serial_omap_enable_ier_thri :: "'h chip \<Rightarrow> 'h uart \<Rightarrow> 'h uart" where
  "serial_omap_enable_ier_thri c up =
     (if ier up AND UART_IER_THRI = 0
      then let up = up\<lparr>ier := ier up OR UART_IER_THRI\<rparr> in serial_out c UART_IER (ier up) up
      else up)"

definition serial_omap_start_tx :: "'h chip \<Rightarrow> 'h uart \<Rightarrow> 'h uart" where
  "serial_omap_start_tx = serial_omap_enable_ier_thri"

text \<open>\<open>handled\<close>: the result of \<open>uart_handle_break\<close>. The character read is not used.\<close>

definition serial_omap_rlsi :: "'h chip \<Rightarrow> bool \<Rightarrow> u16 \<Rightarrow> 'h uart \<Rightarrow> 'h uart" where
  "serial_omap_rlsi c handled lsr up =
     (let up = (if lsr AND UART_LSR_DR \<noteq> 0 then snd (serial_in c up UART_RX) else up);
          ic = icount up;
          ic = ic\<lparr>rx := rx ic + 1\<rparr>;
          bi = (lsr AND UART_LSR_BI \<noteq> 0);
          lsr = (if bi then lsr AND NOT (UART_LSR_FE OR UART_LSR_PE) else lsr);
          ic = (if bi then ic\<lparr>brk := brk ic + 1\<rparr> else ic)
      in if bi \<and> handled then up\<lparr>icount := ic\<rparr>
         else let ic = (if lsr AND UART_LSR_PE \<noteq> 0 then ic\<lparr>parity := parity ic + 1\<rparr> else ic);
                  ic = (if lsr AND UART_LSR_FE \<noteq> 0 then ic\<lparr>frame := frame ic + 1\<rparr> else ic);
                  ic = (if lsr AND UART_LSR_OE \<noteq> 0 then ic\<lparr>overrun := overrun ic + 1\<rparr> else ic)
           in up\<lparr>icount := ic\<rparr>)"

definition serial_read :: "nat \<Rightarrow> 'h uart \<Rightarrow> nat \<times> 'h uart" where
  "serial_read len up =
     (let count = (if unat (rx (icount up)) < len then unat (rx (icount up)) else len)
      in (count, up\<lparr>icount := (icount up)\<lparr>rx := rx (icount up) - of_nat count\<rparr>\<rparr>))"

definition serial_omap_rdi :: "'h chip \<Rightarrow> u16 \<Rightarrow> 'h uart \<Rightarrow> 'h uart option" where
  "serial_omap_rdi c lsr up =
     (if lsr AND UART_LSR_DR = 0 then Some up
      else do {
        let i = rx (icount up);
        let (v, up) = serial_in c (up\<lparr>icount := (icount up)\<lparr>rx := i + 1\<rparr>\<rparr>) UART_RX;
        buf \<leftarrow> rx_buff up;
        buf \<leftarrow> arr_set buf (unat i) (ucast v);
        let up = up\<lparr>rx_buff := Some buf\<rparr>;
        Some (if unat (rx (icount up)) \<ge> rx_size up then up\<lparr>icount := (icount up)\<lparr>rx := 0\<rparr>\<rparr> else up)
      })"

text \<open>
  One round of the interrupt loop: the flag is whether there was an interrupt. \<open>handled\<close> is the
  result of \<open>uart_handle_break\<close>.
\<close>

definition irq_round :: "'h chip \<Rightarrow> bool \<Rightarrow> 'h uart \<Rightarrow> (bool \<times> 'h uart) option" where
  "irq_round c handled up =
     (let (iir, up) = serial_in c up UART_IIR in
      if iir AND UART_IIR_NO_INT \<noteq> 0 then Some (False, up)
      else let (lsr, up) = serial_in c up UART_LSR;
               type = iir AND 0x3e
        in do {
          up \<leftarrow> (if type = UART_IIR_THRI then transmit_chars c up
                else if type = UART_IIR_RX_TIMEOUT \<or> type = UART_IIR_RDI then serial_omap_rdi c lsr up
                else if type = UART_IIR_RLSI then Some (serial_omap_rlsi c handled lsr up)
                else Some up);
          Some (True, up)
        })"

text \<open>\<open>while (\<dots> && max_count--)\<close>; the result is whether the interrupt was handled.\<close>

primrec irq_loop :: "'h chip \<Rightarrow> bool \<Rightarrow> nat \<Rightarrow> bool \<Rightarrow> 'h uart \<Rightarrow> (bool \<times> 'h uart) option" where
  "irq_loop c handled 0 ret up = do {
     (more, up) \<leftarrow> irq_round c handled up;
     Some (ret \<or> more, up)
   }"
| "irq_loop c handled (Suc max_count) ret up = do {
     (more, up) \<leftarrow> irq_round c handled up;
     if more then irq_loop c handled max_count True up else Some (ret, up)
   }"

definition serial_omap_irq :: "'h chip \<Rightarrow> bool \<Rightarrow> 'h uart \<Rightarrow> (bool \<times> 'h uart) option" where
  "serial_omap_irq c handled up = irq_loop c handled 256 False up"

section \<open>Line settings\<close>

text \<open>The line control byte for \<open>c_cflag\<close>.\<close>

definition line_control :: "u32 \<Rightarrow> u8" where
  "line_control c_cflag =
     (let cval = (if c_cflag AND 0x30 = 0x00 then 0x00 else if c_cflag AND 0x30 = 0x10 then 0x01
                  else if c_cflag AND 0x30 = 0x20 then 0x02 else 0x03);
          cval = (if c_cflag AND 0x40 \<noteq> 0 then cval OR 0x04 else cval);
          cval = (if c_cflag AND 0x100 \<noteq> 0 then cval OR 0x08 else cval);
          cval = (if c_cflag AND 0x200 = 0 then cval OR 0x10 else cval)
      in if c_cflag AND 0x40000000 \<noteq> 0 then cval OR 0x20 else cval)"

text \<open>The divisor is the constant 13; the baud rate that is computed before is not used.\<close>

definition serial_omap_set_termios :: "'h chip \<Rightarrow> u32 \<Rightarrow> 'h uart \<Rightarrow> 'h uart" where
  "serial_omap_set_termios c c_cflag up =
     (let cval = line_control c_cflag;
          up = up\<lparr>dll := 13, dlh := 0, mdr1 := 0x07, fcr := 0x40 OR 0x10 OR 0x01\<rparr>;
          up = serial_outs c [(UART_IER, ier up), (UART_LCR, cval)] up;
          up = up\<lparr>lcr := cval, scr := 0\<rparr>;
          up = serial_outs c [(UART_LCR, UART_LCR_CONF_MODE_A), (UART_DLL, 0), (UART_DLM, 0), (UART_LCR, 0),
                              (UART_LCR, UART_LCR_CONF_MODE_B)] up;
          (v, up) = serial_in c up UART_EFR;
          up = up\<lparr>efr := ucast v AND NOT UART_EFR_ECB AND NOT UART_EFR_SCD\<rparr>;
          up = serial_outs c [(UART_EFR, efr up OR UART_EFR_ECB), (UART_LCR, UART_LCR_CONF_MODE_A)] up;
          (v, up) = serial_in c up UART_MCR;
          up = up\<lparr>mcr := ucast v AND NOT UART_MCR_TCRTLR\<rparr>;
          up = serial_out c UART_MCR (mcr up OR UART_MCR_TCRTLR) up;
          up = up\<lparr>scr := scr up OR OMAP_UART_SCR_RX_TRIG_GRANU1_MASK,
                  fcr := (fcr up AND NOT OMAP_UART_FCR_RX_FIFO_TRIG_MASK AND NOT OMAP_UART_FCR_TX_FIFO_TRIG_MASK) OR 0x40 OR 0x20 OR 0x01\<rparr>;
          up = serial_outs c [(UART_FCR, fcr up), (UART_LCR, UART_LCR_CONF_MODE_B), (UART_OMAP_SCR, scr up),
                 (UART_LCR, UART_LCR_CONF_MODE_A), (UART_MCR, mcr up), (UART_LCR, UART_LCR_CONF_MODE_B), (UART_EFR, efr up),
                 (UART_LCR, UART_LCR_CONF_MODE_A), (UART_OMAP_MDR1, mdr1 up), (UART_LCR, UART_LCR_CONF_MODE_B),
                 (UART_EFR, efr up OR UART_EFR_ECB), (UART_LCR, 0), (UART_IER, 0), (UART_LCR, UART_LCR_CONF_MODE_B),
                 (UART_DLL, dll up), (UART_DLM, dlh up), (UART_LCR, 0), (UART_IER, ier up), (UART_LCR, UART_LCR_CONF_MODE_B),
                 (UART_EFR, efr up), (UART_LCR, cval)] up;
          up = up\<lparr>mdr1 := 0x03\<rparr>
      in serial_outs c [(UART_OMAP_MDR1, mdr1 up), (UART_LCR, UART_LCR_CONF_MODE_B), (UART_EFR, efr up OR UART_EFR_ECB),
           (UART_LCR, UART_LCR_CONF_MODE_A), (UART_MCR, mcr up OR UART_MCR_TCRTLR), (UART_TI752_TCR, OMAP_UART_TCR_TRIG),
           (UART_MCR, mcr up), (UART_LCR, UART_LCR_CONF_MODE_B), (UART_EFR, efr up), (UART_LCR, lcr up)] up)"

section \<open>Starting and stopping\<close>

text \<open>Up to the point where interrupts are enabled and the line is set: \<open>CS8 | B115200 | CREAD\<close>.\<close>

definition startup_chip :: "'h chip \<Rightarrow> 'h uart \<Rightarrow> 'h uart" where
  "startup_chip c up =
     (let up = serial_omap_clear_fifos c up;
          (_, up) = serial_in c up UART_LSR;
          (v, up) = serial_in c up UART_LSR;
          up = (if v AND UART_LSR_DR \<noteq> 0 then snd (serial_in c up UART_RX) else up);
          (_, up) = serial_in c up UART_IIR;
          (_, up) = serial_in c up UART_MSR;
          up = serial_out c UART_LCR 0x03 up;
          up = up\<lparr>ier := UART_IER_RLSI OR UART_IER_RDI\<rparr>;
          up = serial_out c UART_IER (ier up) up;
          up = up\<lparr>wer := OMAP_UART_WER_MOD_WKUP\<rparr>;
          up = (if features up AND OMAP_UART_WER_HAS_TX_WAKEUP \<noteq> 0 then up\<lparr>wer := wer up OR OMAP_UART_TX_WAKEUP_EN\<rparr> else up);
          up = serial_out c UART_OMAP_WER (wer up) up
      in serial_omap_set_termios c (0x30 OR 0x1002 OR 0x80) up)"

text \<open>
  \<open>irq\<close>: the result of \<open>request_irq\<close>; \<open>rx_ok\<close> and \<open>tx_ok\<close>: whether the zeroed buffers of 10 bytes
  were allocated.
\<close>

definition serial_omap_startup :: "'h chip \<Rightarrow> int \<Rightarrow> bool \<Rightarrow> bool \<Rightarrow> 'h uart \<Rightarrow> int \<times> 'h uart" where
  "serial_omap_startup c irq rx_ok tx_ok up =
     (if start_flg up then (0, up)
      else let up = up\<lparr>start_flg := True\<rparr> in
        if irq \<noteq> 0 then (irq, up)
        else (0, (startup_chip c up)\<lparr>rx_size := 10, rx_buff := (if rx_ok then Some (replicate 10 0) else None),
                   tx_size := 10, tx_buff := (if tx_ok then Some (replicate 10 0) else None)\<rparr>))"

definition serial_omap_shutdown :: "'h chip \<Rightarrow> 'h uart \<Rightarrow> 'h uart" where
  "serial_omap_shutdown c up =
     (let up = up\<lparr>start_flg := False, ier := 0\<rparr>;
          up = serial_out c UART_IER 0 up;
          (v, up) = serial_in c up UART_LCR;
          up = serial_out c UART_LCR (ucast v AND NOT UART_LCR_SBC) up;
          up = serial_omap_clear_fifos c up;
          (v, up) = serial_in c up UART_LSR
      in if v AND UART_LSR_DR \<noteq> 0 then snd (serial_in c up UART_RX) else up)"

section \<open>The character device\<close>

abbreviation (input) EAGAIN :: int where "EAGAIN \<equiv> 11"

text \<open>\<open>room\<close>: the writable bytes at the user's pointer; the result is the code and the bytes copied, and the file position.\<close>

definition my_read :: "nat \<Rightarrow> nat \<Rightarrow> int \<Rightarrow> 'h uart \<Rightarrow> ((int + u8 list) \<times> int \<times> 'h uart) option" where
  "my_read room len off up =
     (if off = 0
      then let (len, up) = serial_read (if len > 10 then 10 else len) up in
        if len = 0 then Some (Inl (- EAGAIN), off, up)
        else if room < len then Some (Inl (- EFAULT), off, up)
        else do {
          str \<leftarrow> rx_buff up;
          bytes \<leftarrow> mem_read str 0 len;
          Some (Inr bytes, off + 1, up)
        }
      else Some (Inr [], off, up))"

text \<open>\<open>buf\<close> is the accessible user memory. A failing copy leaves the buffer unspecified; it is kept here.\<close>

definition my_write :: "'h chip \<Rightarrow> u8 list \<Rightarrow> nat \<Rightarrow> int \<Rightarrow> 'h uart \<Rightarrow> (int \<times> int \<times> 'h uart) option" where
  "my_write c buf len off up =
     (let count = (if len > tx_size up then tx_size up else len);
          up = up\<lparr>icount := (icount up)\<lparr>tx := of_nat count\<rparr>\<rparr>
      in case mem_read buf 0 count of
           None \<Rightarrow> Some (- EFAULT, off, up)
         | Some bytes \<Rightarrow> do {
             str \<leftarrow> tx_buff up;
             str \<leftarrow> mem_write str 0 bytes;
             Some (int len, 0, serial_omap_start_tx c (up\<lparr>tx_buff := Some str\<rparr>))
           })"

section \<open>Calls that interrupts can come between\<close>

text \<open>
  \<open>my_read\<close> and \<open>my_write\<close> take no lock. On the one processor of the board an interrupt runs
  as a whole, but it can come between any two accesses of a system call to what it shares with
  the handler. \<open>read_access\<close> is one such access of a read at offset 0: the comparison of the
  count, its use as the number of characters, the load and the store of \<open>rx -= count\<close>, and the
  copy; \<open>write_access\<close> the same for a write: the count, the copy and the enabling of the interrupt.
  The constructors are the places in the code, with the local variables that are in use there.
\<close>

datatype reader = R_idle | R_smaller | R_counted nat | R_loaded u32 nat | R_copy nat

fun read_access :: "nat \<Rightarrow> nat \<Rightarrow> reader \<Rightarrow> 'h uart \<Rightarrow> (reader \<times> 'h uart) option" where
  "read_access room len R_idle up =
     (let len = (if len > 10 then 10 else len)
      in Some (if unat (rx (icount up)) < len then R_smaller else R_counted len, up))"
| "read_access room len R_smaller up = Some (R_counted (unat (rx (icount up))), up)"
| "read_access room len (R_counted count) up = Some (R_loaded (rx (icount up)) count, up)"
| "read_access room len (R_loaded v count) up =
     Some (R_copy count, up\<lparr>icount := (icount up)\<lparr>rx := v - of_nat count\<rparr>\<rparr>)"
| "read_access room len (R_copy count) up =
     (if count = 0 \<or> room < count then Some (R_idle, up)
      else do {
        str \<leftarrow> rx_buff up;
        bytes \<leftarrow> mem_read str 0 count;
        Some (R_idle, up)
      })"

datatype writer = W_idle | W_copy nat | W_start

fun write_access :: "'h chip \<Rightarrow> u8 list \<Rightarrow> nat \<Rightarrow> writer \<Rightarrow> 'h uart \<Rightarrow> (writer \<times> 'h uart) option" where
  "write_access c buf len W_idle up =
     (let count = (if len > tx_size up then tx_size up else len)
      in Some (W_copy count, up\<lparr>icount := (icount up)\<lparr>tx := of_nat count\<rparr>\<rparr>))"
| "write_access c buf len (W_copy count) up =
     (case mem_read buf 0 count of
        None \<Rightarrow> Some (W_idle, up)
      | Some bytes \<Rightarrow> do {
          str \<leftarrow> tx_buff up;
          str \<leftarrow> mem_write str 0 bytes;
          Some (W_start, up\<lparr>tx_buff := Some str\<rparr>)
        })"
| "write_access c buf len W_start up = Some (W_idle, serial_omap_start_tx c up)"

definition fcd_exit :: "'h chip \<Rightarrow> fcd \<Rightarrow> 'h uart \<Rightarrow> fcd \<times> 'h uart" where
  "fcd_exit c s up = (fcd_release s, serial_omap_shutdown c up)"

section \<open>Binding to the platform device\<close>

definition DEFAULT_CLK_SPEED :: u32 where "DEFAULT_CLK_SPEED = 48000000"

text \<open>\<open>clock\<close>: the property \<open>clock-frequency\<close>, if it is there; the structure is zeroed before.\<close>

definition of_get_uart_port_info :: "bool \<Rightarrow> u32 option \<Rightarrow> u32 option" where
  "of_get_uart_port_info mem clock = (if \<not> mem then None else Some (case clock of None \<Rightarrow> 0 | Some f \<Rightarrow> f))"

text \<open>
  \<open>info\<close> is the clock of the platform data, \<open>None\<close> for a null pointer; the flags that follow say
  whether the memory and interrupt resources exist, the region could be claimed, the structure
  allocated and the registers mapped; \<open>calls\<close> are the results for \<open>fcd_init\<close>, whose own result is
  not looked at. A success gives the clock of the port and what is registered.
\<close>

definition serial_omap_probe ::
    "bool \<Rightarrow> bool \<Rightarrow> u32 option \<Rightarrow> u32 option \<Rightarrow> bool \<Rightarrow> bool \<Rightarrow> bool \<Rightarrow> bool \<Rightarrow> bool \<Rightarrow> int \<times> int \<times> int \<times> int \<Rightarrow> fcd
     \<Rightarrow> (int + u32 \<times> fcd) option" where
  "serial_omap_probe of_node info_mem clock platdata mem irq claimed up_mem mapped calls s =
     (let info = (if of_node then of_get_uart_port_info info_mem clock else platdata) in
      if \<not> mem then Some (Inl (- ENODEV))
      else if \<not> irq then Some (Inl (- ENODEV))
      else if \<not> claimed then Some (Inl (- EBUSY))
      else if \<not> up_mem then Some (Inl (- ENOMEM))
      else if \<not> mapped then Some (Inl (- ENOMEM))
      else do {
        uartclk \<leftarrow> info;
        let (r1, r2, r3, r4) = calls;
        Some (Inr (if uartclk = 0 then DEFAULT_CLK_SPEED else uartclk, snd (fcd_init r1 r2 r3 r4 s)))
      })"

end
