(* ===== verification/Uart_Props.thy ===== *)
theory Uart_Props
  imports Uart
begin

text \<open>
  Properties of the UART driver: the receive and transmit paths, the bounds of the buffers under
  any interleaving of interrupts and system calls, and the register banks of the line settings.
\<close>

section \<open>Fields the register accesses keep\<close>

lemma serial_in_fields:
  "serial_in c up r = (v, up') \<Longrightarrow> \<exists>h. up' = up\<lparr>hw := h\<rparr>"
  by (auto simp: serial_in_def split: prod.splits)

lemma serial_in_icount:
  assumes "serial_in c up r = (v, up')"
  shows "serial_in c (up\<lparr>icount := ic\<rparr>) r = (v, up'\<lparr>icount := ic\<rparr>)"
  using assms unfolding serial_in_def by (auto split: prod.splits)

section \<open>Receiving and transmitting\<close>

text \<open>The buffers as \<open>serial_omap_startup\<close> makes them, the counters inside them.\<close>

definition uart_ok :: "'h uart \<Rightarrow> bool" where
  "uart_ok up \<longleftrightarrow> (\<exists>b. rx_buff up = Some b \<and> length b = 10) \<and> rx_size up = 10 \<and> unat (rx (icount up)) < 10 \<and>
     (\<exists>b. tx_buff up = Some b \<and> length b = 10) \<and> tx_size up = 10 \<and> unat (tx (icount up)) \<le> 10 \<and> regshift up = 2"

lemma rdi_step:
  assumes "rx_buff up = Some b" "length b = 10" "rx_size up = 10" "unat (rx (icount up)) = k" "k < 10"
    and "serial_in c up 0 = (v, up1)" and l: "lsr AND UART_LSR_DR \<noteq> 0"
  shows "serial_omap_rdi c lsr up = Some (up1\<lparr>rx_buff := Some (b[k := ucast v]),
    icount := (icount up)\<lparr>rx := (if k = 9 then 0 else of_nat (Suc k))\<rparr>\<rparr>)"
proof -
  have e: "rx (icount up) = of_nat k" using assms(4) [symmetric] by simp
  have k: "unat (of_nat (Suc k) :: u32) = Suc k" using assms(5) by (intro unat_of_nat_small) simp
  obtain h where up1: "up1 = up\<lparr>hw := h\<rparr>" using serial_in_fields [OF assms(6)] by blast
  have n: "rx (icount up) + 1 = of_nat (Suc k)" using e by simp
  have "serial_in c (up\<lparr>icount := (icount up)\<lparr>rx := of_nat (Suc k)\<rparr>\<rparr>) 0 = (v, up1\<lparr>icount := (icount up)\<lparr>rx := of_nat (Suc k)\<rparr>\<rparr>)"
    by (rule serial_in_icount [OF assms(6)])
  then have r: "serial_omap_rdi c lsr up = do {
      buf \<leftarrow> arr_set b k (ucast v);
      let up = up1\<lparr>icount := (icount up)\<lparr>rx := of_nat (Suc k)\<rparr>, rx_buff := Some buf\<rparr>;
      Some (if Suc k \<ge> 10 then up\<lparr>icount := (icount up)\<lparr>rx := 0\<rparr>\<rparr> else up) }"
    using assms(1,3,4) l unfolding serial_omap_rdi_def Let_def n up1 by (simp add: k del: of_nat_Suc)
  show ?thesis unfolding r using assms(2,5) by (simp add: arr_set_def up1 Let_def del: of_nat_Suc)
qed

lemma transmit_loop_writes:
  "tx_buff up = Some b \<Longrightarrow> k + n \<le> length b \<Longrightarrow> regshift up = sh \<Longrightarrow>
   transmit_loop c [k..<k + n] up =
     Some (up\<lparr>hw := fold (\<lambda>x. writew c 0 (ucast x)) (take n (drop k b)) (hw up)\<rparr>)"
proof (induction n arbitrary: k up)
  case (Suc n)
  have u: "[k..<k + Suc n] = k # [Suc k..<Suc k + n]" by (simp add: upt_conv_Cons)
  have d: "take (Suc n) (drop k b) = b ! k # take n (drop (Suc k) b)" using Suc.prems(2) by (simp add: Cons_nth_drop_Suc [symmetric])
  show ?case using Suc.prems Suc.IH [of "serial_out c 0 (b ! k) up" "Suc k"]
    unfolding u d by (simp add: arr_get_def serial_out_def)
qed simp

lemma thri_bit: "(x :: u8) AND 2 \<noteq> 0 \<longleftrightarrow> bit x 1"
  using bit_iff_and_push_bit_not_eq_0 [of x 1] by simp

lemma or_thri: "bit (x :: u8) 1 \<Longrightarrow> x OR 2 = x"
  by (rule bit_word_eqI) (auto simp: bit_simps)

section \<open>Bounds\<close>

text \<open>Operations that change only the chip and the enable bits keep the buffers.\<close>

lemma uart_ok_cong:
  "uart_ok up \<Longrightarrow> rx_buff up' = rx_buff up \<Longrightarrow> rx_size up' = rx_size up \<Longrightarrow> icount up' = icount up \<Longrightarrow>
   tx_buff up' = tx_buff up \<Longrightarrow> tx_size up' = tx_size up \<Longrightarrow> regshift up' = regshift up \<Longrightarrow> uart_ok up'"
  by (simp add: uart_ok_def)

lemma serial_in_ok: "serial_in c up r = (v, up') \<Longrightarrow> uart_ok up \<Longrightarrow> uart_ok up'"
  using serial_in_fields by (fastforce intro: uart_ok_cong)

lemma transmit_chars_ok:
  assumes "uart_ok up"
  obtains up' where "transmit_chars c up = Some up'" "uart_ok up'"
proof -
  obtain b where b: "tx_buff up = Some b" "length b = 10" and t: "unat (tx (icount up)) \<le> 10" using assms by (auto simp: uart_ok_def)
  have "sint (tx (icount up)) = int (unat (tx (icount up)))" using t by (intro sint_small) simp
  then have n: "nat (sint (tx (icount up))) = unat (tx (icount up))" by simp
  obtain h where "transmit_loop c [0..<nat (sint (tx (icount up)))] up = Some (up\<lparr>hw := h\<rparr>)"
    using transmit_loop_writes [OF b(1), of 0 "nat (sint (tx (icount up)))"] b(2) t n by simp
  then have e: "transmit_chars c up = Some (serial_omap_stop_tx c (up\<lparr>hw := h\<rparr>))" by (simp add: transmit_chars_def)
  have "uart_ok (serial_omap_stop_tx c (up\<lparr>hw := h\<rparr>))"
    using assms by (auto simp: serial_omap_stop_tx_def serial_out_def Let_def intro!: uart_ok_cong [of up])
  with e that show thesis by blast
qed

lemma rdi_ok:
  assumes "uart_ok up"
  obtains up' where "serial_omap_rdi c lsr up = Some up'" "uart_ok up'"
proof (cases "lsr AND UART_LSR_DR = 0")
  case True
  then show thesis using assms that by (simp add: serial_omap_rdi_def)
next
  case False
  obtain b where b: "rx_buff up = Some b" "length b = 10" "rx_size up = 10" "unat (rx (icount up)) < 10"
    using assms by (auto simp: uart_ok_def)
  obtain v up1 where i: "serial_in c up 0 = (v, up1)" by (cases "serial_in c up 0")
  obtain h where up1: "up1 = up\<lparr>hw := h\<rparr>" using serial_in_fields [OF i] by blast
  have "unat (of_nat (Suc (unat (rx (icount up)))) :: u32) = Suc (unat (rx (icount up)))"
    using b(4) by (intro unat_of_nat_small) simp
  then show thesis
    using rdi_step [OF b(1-3) refl b(4) i False] assms b
    by (intro that) (assumption, auto simp: uart_ok_def up1 simp del: of_nat_Suc)
qed

text \<open>A chip that reports no line status interrupt (offset 8 is the register \<open>IIR\<close>).\<close>

definition no_line_status :: "'h chip \<Rightarrow> bool" where
  "no_line_status c \<longleftrightarrow> (\<forall>h v h'. readw c 8 h = (v, h') \<longrightarrow> v AND 1 \<noteq> 0 \<or> v AND 0x3e \<noteq> 0x06)"

lemma irq_round_ok:
  assumes "no_line_status c" and "uart_ok up"
  obtains more up' where "irq_round c handled up = Some (more, up')" "uart_ok up'"
proof -
  obtain iir up1 where i: "serial_in c up 2 = (iir, up1)" by (cases "serial_in c up 2")
  obtain lsr up2 where l: "serial_in c up1 5 = (lsr, up2)" by (cases "serial_in c up1 5")
  have ok: "uart_ok up1" "uart_ok up2" using serial_in_ok [OF i assms(2)] serial_in_ok [OF l] by blast+
  have n: "iir AND 1 \<noteq> 0 \<or> iir AND 0x3e \<noteq> 0x06"
  proof -
    obtain h where "readw c 8 (hw up) = (iir, h)"
      using i assms(2) by (auto simp: serial_in_def uart_ok_def push_bit_eq_mult split: prod.splits)
    then show ?thesis using assms(1) unfolding no_line_status_def by blast
  qed
  obtain t where t: "transmit_chars c up2 = Some t" "uart_ok t" by (rule transmit_chars_ok [OF ok(2)])
  obtain d where d: "serial_omap_rdi c lsr up2 = Some d" "uart_ok d" by (rule rdi_ok [OF ok(2)])
  show thesis
  proof (cases "iir AND 1 \<noteq> 0")
    case True
    then show thesis using i ok(1) by (intro that [of False up1]) (simp_all add: irq_round_def)
  next
    case False
    then show thesis using i l n t d ok(2)
      by (intro that [of True "if iir AND 0x3e = 0x02 then t else if iir AND 0x3e = 0x0C \<or> iir AND 0x3e = 0x04 then d else up2"])
        (auto simp: irq_round_def Let_def)
  qed
qed

lemma irq_loop_ok:
  assumes "no_line_status c"
  shows "uart_ok up \<Longrightarrow> \<exists>r up'. irq_loop c handled n ret up = Some (r, up') \<and> uart_ok up'"
proof (induction n arbitrary: ret up)
  case 0
  obtain more up' where "irq_round c handled up = Some (more, up')" "uart_ok up'" by (rule irq_round_ok [OF assms 0])
  then show ?case by simp
next
  case (Suc n)
  obtain more up' where "irq_round c handled up = Some (more, up')" "uart_ok up'" by (rule irq_round_ok [OF assms Suc.prems])
  then show ?case using Suc.IH [of up' True] by (cases more) simp_all
qed

text \<open>
  What can happen to a started port with one reading and one writing process: an interrupt, or
  the next access of either process. The interrupts are those that leave at least as many
  characters as a reader between its first two uses of the count has just counted.
\<close>

inductive uart_step :: "'h chip \<Rightarrow> 'h uart \<times> reader \<times> writer \<Rightarrow> 'h uart \<times> reader \<times> writer \<Rightarrow> bool" for c where
  interrupt: "serial_omap_irq c handled up = Some (r, up') \<Longrightarrow>
     (\<forall>count. rd = R_counted count \<longrightarrow> count \<le> unat (rx (icount up'))) \<Longrightarrow> uart_step c (up, rd, wr) (up', rd, wr)"
| user_read: "read_access room len rd up = Some (rd', up') \<Longrightarrow> uart_step c (up, rd, wr) (up', rd', wr)"
| user_write: "write_access c buf len wr up = Some (wr', up') \<Longrightarrow> uart_step c (up, rd, wr) (up', rd, wr')"

text \<open>The counts the processes hold fit the buffer.\<close>

fun reader_ok :: "'h uart \<Rightarrow> reader \<Rightarrow> bool" where
  "reader_ok up (R_counted count) \<longleftrightarrow> count \<le> unat (rx (icount up))"
| "reader_ok up (R_loaded v count) \<longleftrightarrow> count \<le> unat v \<and> unat v < 10"
| "reader_ok up (R_copy count) \<longleftrightarrow> count < 10"
| "reader_ok up _ \<longleftrightarrow> True"

fun writer_ok :: "writer \<Rightarrow> bool" where
  "writer_ok (W_copy count) \<longleftrightarrow> count \<le> 10"
| "writer_ok _ \<longleftrightarrow> True"

lemma read_access_ok:
  assumes "uart_ok up" and "reader_ok up rd"
  obtains rd' up' where "read_access room len rd up = Some (rd', up')" "uart_ok up'" "reader_ok up' rd'"
proof -
  obtain b where b: "rx_buff up = Some b" "length b = 10" "unat (rx (icount up)) < 10" using assms(1) by (auto simp: uart_ok_def)
  show thesis
  proof (cases rd)
    case R_idle
    let ?len = "if len > 10 then 10 else len"
    show thesis using R_idle assms(1)
      by (intro that [of "if unat (rx (icount up)) < ?len then R_smaller else R_counted ?len" up]) (simp_all add: Let_def)
  next
    case R_smaller
    then show thesis using assms(1) by (intro that [of "R_counted (unat (rx (icount up)))" up]) simp_all
  next
    case (R_counted count)
    then show thesis using assms b(3) by (intro that [of "R_loaded (rx (icount up)) count" up]) simp_all
  next
    case (R_loaded v count)
    then have c: "count \<le> unat v" "unat v < 10" using assms(2) by simp_all
    have "unat (of_nat count :: u32) = count" using c by (intro unat_of_nat_small) simp
    then have "unat (v - of_nat count) = unat v - count" using c(1) by (simp add: unat_sub word_le_nat_alt)
    then show thesis using R_loaded assms(1) c by (intro that) (simp, simp_all add: uart_ok_def)
  next
    case (R_copy count)
    then have "mem_read b 0 count = Some (take count b)" using assms(2) b(2) by (simp add: mem_read_def)
    then show thesis using R_copy assms(1) b(1) by (intro that [of R_idle up]) simp_all
  qed
qed

lemma write_access_ok:
  assumes "uart_ok up" and "writer_ok wr"
  obtains wr' up' where "write_access c buf len wr up = Some (wr', up')" "uart_ok up'" "writer_ok wr'"
    "rx (icount up') = rx (icount up)"
proof -
  obtain b where b: "tx_buff up = Some b" "length b = 10" "tx_size up = 10" using assms(1) by (auto simp: uart_ok_def)
  show thesis
  proof (cases wr)
    case W_idle
    have "unat (of_nat (min len 10) :: u32) = min len 10" by (intro unat_of_nat_small) simp
    then show thesis using W_idle assms(1) b(3)
      by (intro that [of "W_copy (min len 10)" "up\<lparr>icount := (icount up)\<lparr>tx := of_nat (min len 10)\<rparr>\<rparr>"])
        (simp_all add: uart_ok_def Let_def min_def)
  next
    case (W_copy count)
    show thesis
    proof (cases "mem_read buf 0 count")
      case None
      then show thesis using W_copy assms(1) by (intro that [of W_idle up]) simp_all
    next
      case (Some bs)
      then have "length bs \<le> 10" using mem_read_length [OF Some] W_copy assms(2) by simp
      then obtain b' where "mem_write b 0 bs = Some b'" "length b' = 10"
        using mem_write_ex [of 0 bs b] mem_write_length [of b 0 bs] b(2) by auto
      then show thesis using W_copy Some assms(1) b(1)
        by (intro that [of W_start "up\<lparr>tx_buff := Some b'\<rparr>"]) (simp_all add: uart_ok_def)
    qed
  next
    case W_start
    have "uart_ok (serial_omap_start_tx c up)" "icount (serial_omap_start_tx c up) = icount up"
      using assms(1) by (auto simp: uart_ok_def serial_omap_start_tx_def serial_omap_enable_ier_thri_def serial_out_def Let_def)
    then show thesis using W_start by (intro that [of W_idle "serial_omap_start_tx c up"]) simp_all
  qed
qed

definition uart_sys_ok :: "'h uart \<times> reader \<times> writer \<Rightarrow> bool" where
  "uart_sys_ok = (\<lambda>(up, rd, wr). uart_ok up \<and> reader_ok up rd \<and> writer_ok wr)"

lemma reader_ok_rx: "rx (icount up') = rx (icount up) \<Longrightarrow> reader_ok up rd \<Longrightarrow> reader_ok up' rd"
  by (cases rd) simp_all

lemma uart_step_ok: "uart_step c s s' \<Longrightarrow> no_line_status c \<Longrightarrow> uart_sys_ok s \<Longrightarrow> uart_sys_ok s'"
proof (induction rule: uart_step.induct)
  case (interrupt handled up r up' rd wr)
  then have "uart_ok up'"
    using irq_loop_ok [OF interrupt.prems(1), of up handled 256 False] by (auto simp: serial_omap_irq_def uart_sys_ok_def)
  moreover have "reader_ok up' rd" using interrupt by (cases rd) (auto simp: uart_sys_ok_def)
  ultimately show ?case using interrupt by (simp add: uart_sys_ok_def)
next
  case (user_read room len rd up rd' up' wr)
  then have "uart_ok up" "reader_ok up rd" by (simp_all add: uart_sys_ok_def)
  from read_access_ok [OF this, of room len] user_read show ?case by (auto simp: uart_sys_ok_def)
next
  case (user_write buf len wr up wr' up' rd)
  then have "uart_ok up" "writer_ok wr" by (simp_all add: uart_sys_ok_def)
  then obtain wr2 up2 where "write_access c buf len wr up = Some (wr2, up2)" "uart_ok up2" "writer_ok wr2"
      "rx (icount up2) = rx (icount up)" by (rule write_access_ok)
  with user_write reader_ok_rx [of up' up rd] show ?case by (auto simp: uart_sys_ok_def)
qed

text \<open>A read and a write that nothing comes between are the accesses in a row.\<close>

lemma read_accesses:
  assumes "my_read room len 0 up = Some (x, off, up')"
  shows "(\<lambda>(rd, up) (rd', up'). read_access room len rd up = Some (rd', up'))\<^sup>*\<^sup>* (R_idle, up) (R_idle, up')"
proof -
  let ?R = "\<lambda>(rd, up :: 'a uart) (rd', up'). read_access room len rd up = Some (rd', up')"
  define l where "l = (if len > 10 then 10 else len)"
  define k where "k = (if unat (rx (icount up)) < l then unat (rx (icount up)) else l)"
  let ?up = "up\<lparr>icount := (icount up)\<lparr>rx := rx (icount up) - of_nat k\<rparr>\<rparr>"
  have s: "serial_read l up = (k, ?up)" by (simp add: serial_read_def k_def Let_def)
  have up': "up' = ?up" and last: "?R (R_copy k, ?up) (R_idle, ?up)"
    using assms unfolding my_read_def l_def [symmetric]
    by (auto simp: s split: if_splits dest!: bind_eq_SomeD)
  have first: "?R\<^sup>*\<^sup>* (R_idle, up) (R_counted k, up)"
  proof (cases "unat (rx (icount up)) < l")
    case True
    then have "?R (R_idle, up) (R_smaller, up)" "?R (R_smaller, up) (R_counted k, up)" by (simp_all add: l_def k_def Let_def)
    then show ?thesis by (rule converse_rtranclp_into_rtranclp [OF _ r_into_rtranclp])
  next
    case False
    then have "?R (R_idle, up) (R_counted k, up)" by (simp add: l_def k_def Let_def)
    then show ?thesis by (rule r_into_rtranclp)
  qed
  have "?R (R_counted k, up) (R_loaded (rx (icount up)) k, up)" "?R (R_loaded (rx (icount up)) k, up) (R_copy k, ?up)" by simp_all
  with first last show ?thesis unfolding up' by (meson rtranclp.rtrancl_into_rtrancl)
qed

lemma write_accesses:
  assumes "my_write c buf len off up = Some (r, off', up')"
  shows "(\<lambda>(wr, up) (wr', up'). write_access c buf len wr up = Some (wr', up'))\<^sup>*\<^sup>* (W_idle, up) (W_idle, up')"
proof -
  let ?W = "\<lambda>(wr, up :: 'a uart) (wr', up'). write_access c buf len wr up = Some (wr', up')"
  define n where "n = (if len > tx_size up then tx_size up else len)"
  let ?up = "up\<lparr>icount := (icount up)\<lparr>tx := of_nat n\<rparr>\<rparr>"
  have a: "?W (W_idle, up) (W_copy n, ?up)" by (simp add: n_def Let_def)
  note w = assms [unfolded my_write_def n_def [symmetric] Let_def]
  show ?thesis
  proof (cases "mem_read buf 0 n")
    case None
    then have "?W (W_copy n, ?up) (W_idle, up')" using w by simp
    with a show ?thesis by (rule converse_rtranclp_into_rtranclp [OF _ r_into_rtranclp])
  next
    case (Some bs)
    then obtain b b' where b: "tx_buff up = Some b" "mem_write b 0 bs = Some b'"
        "up' = serial_omap_start_tx c (?up\<lparr>tx_buff := Some b'\<rparr>)"
      using w by (auto dest!: bind_eq_SomeD)
    then have "?W (W_copy n, ?up) (W_start, ?up\<lparr>tx_buff := Some b'\<rparr>)" "?W (W_start, ?up\<lparr>tx_buff := Some b'\<rparr>) (W_idle, up')"
      using Some by simp_all
    with a show ?thesis by (meson converse_rtranclp_into_rtranclp r_into_rtranclp)
  qed
qed

section \<open>Starting\<close>

lemma serial_out_fields [simp]:
  "icount (serial_out c r v up) = icount up" "regshift (serial_out c r v up) = regshift up"
  "ier (serial_out c r v up) = ier up" "lcr (serial_out c r v up) = lcr up" "rx_buff (serial_out c r v up) = rx_buff up"
  by (simp_all add: serial_out_def)

lemma serial_outs_keep [simp]:
  "icount (serial_outs c ws up) = icount up" "regshift (serial_outs c ws up) = regshift up"
  "ier (serial_outs c ws up) = ier up" "lcr (serial_outs c ws up) = lcr up" "rx_buff (serial_outs c ws up) = rx_buff up"
  by (induction c ws up rule: serial_outs.induct) simp_all

lemma serial_in_keep [simp]:
  "icount (snd (serial_in c up r)) = icount up" "regshift (snd (serial_in c up r)) = regshift up"
  "ier (snd (serial_in c up r)) = ier up" "lcr (snd (serial_in c up r)) = lcr up" "rx_buff (snd (serial_in c up r)) = rx_buff up"
  by (simp_all add: serial_in_def case_prod_unfold Let_def)

lemma set_termios_fields [simp]:
  "icount (serial_omap_set_termios c f up) = icount up" "regshift (serial_omap_set_termios c f up) = regshift up"
  "rx_buff (serial_omap_set_termios c f up) = rx_buff up"
  by (simp_all add: serial_omap_set_termios_def Let_def case_prod_unfold del: serial_outs.simps)

lemma startup_chip_fields:
  "icount (startup_chip c up) = icount up" "regshift (startup_chip c up) = regshift up" "rx_buff (startup_chip c up) = rx_buff up"
  by (simp_all add: startup_chip_def serial_omap_clear_fifos_def Let_def case_prod_unfold del: serial_outs.simps)

section \<open>Setting the line\<close>

text \<open>
  A chip seen through the writes it gets: what they do to the line control register (offset 12),
  to the interrupt enable register (offset 4) and which bytes they transmit (offset 0), the last
  two only while bit 7 of the line control register is clear.
\<close>

definition logs :: "'h chip \<Rightarrow> ('h \<Rightarrow> (nat \<times> u16) list) \<Rightarrow> bool" where
  "logs c log \<longleftrightarrow> (\<forall>r v h. log (writew c r v h) = log h @ [(r, v)]) \<and> (\<forall>r h. log (snd (readw c r h)) = log h)"

fun line_state :: "u16 \<times> u16 \<times> u16 list \<Rightarrow> (nat \<times> u16) list \<Rightarrow> u16 \<times> u16 \<times> u16 list" where
  "line_state s [] = s"
| "line_state (l, i, t) ((r, v) # ws) =
     line_state (if r = 12 then (v, i, t)
                 else if r = 4 \<and> \<not> bit l 7 then (l, v, t)
                 else if r = 0 \<and> \<not> bit l 7 then (l, i, t @ [v]) else (l, i, t)) ws"

lemma log_serial_outs:
  assumes "logs c log"
  shows "log (hw (serial_outs c ws up)) = log (hw up) @ map (\<lambda>(r, v). (push_bit (regshift up) r, ucast v)) ws"
proof (induction ws arbitrary: up)
  case (Cons w ws)
  obtain r v where w: "w = (r, v)" by (cases w)
  have "log (hw (serial_out c r v up)) = log (hw up) @ [(push_bit (regshift up) r, ucast v)]"
    using assms by (simp add: logs_def serial_out_def)
  then show ?case using Cons [of "serial_out c r v up"] by (simp add: w)
qed simp

lemma log_serial_out:
  "logs c log \<Longrightarrow> log (hw (serial_out c r v up)) = log (hw up) @ [(push_bit (regshift up) r, ucast v)]"
  using log_serial_outs [of c log "[(r, v)]" up] by simp

lemma log_serial_in: "logs c log \<Longrightarrow> log (hw (snd (serial_in c up r))) = log (hw up)"
  by (simp add: logs_def serial_in_def case_prod_unfold Let_def)

section \<open>Chips that receive and transmit\<close>

lemma ucast_byte [simp]: "ucast (ucast (x :: u8) :: u16) = x"
  by (rule bit_word_eqI) (simp add: bit_simps)

text \<open>
  A chip seen by the receiver: \<open>fifo\<close> are the characters it holds. While there are any it reports
  received data and gives them in order; with none it reports nothing (offsets 8, 20 and 0 are the
  registers \<open>IIR\<close>, \<open>LSR\<close> and \<open>RX\<close>).
\<close>

definition rx_chip :: "'h chip \<Rightarrow> ('h \<Rightarrow> u8 list) \<Rightarrow> bool" where
  "rx_chip c fifo \<longleftrightarrow> (\<forall>h.
     fifo (snd (readw c 8 h)) = fifo h \<and>
     (if fifo h = [] then fst (readw c 8 h) AND 1 \<noteq> 0
      else fst (readw c 8 h) AND 1 = 0 \<and> fst (readw c 8 h) AND 0x3e = 4) \<and>
     fifo (snd (readw c 20 h)) = fifo h \<and> (fifo h \<noteq> [] \<longrightarrow> fst (readw c 20 h) AND 1 \<noteq> 0) \<and>
     (fifo h \<noteq> [] \<longrightarrow> ucast (fst (readw c 0 h)) = hd (fifo h) \<and> fifo (snd (readw c 0 h)) = tl (fifo h)))"

text \<open>Bursts of characters, each followed by an interrupt; \<open>arrive\<close> is the line's effect on the chip.\<close>

fun receive_bursts :: "'h chip \<Rightarrow> bool \<Rightarrow> (u8 list \<Rightarrow> 'h \<Rightarrow> 'h) \<Rightarrow> u8 list list \<Rightarrow> 'h uart \<Rightarrow> 'h uart option" where
  "receive_bursts c handled arrive [] up = Some up"
| "receive_bursts c handled arrive (bs # bss) up = do {
     (_, up) \<leftarrow> serial_omap_irq c handled (up\<lparr>hw := arrive bs (hw up)\<rparr>);
     receive_bursts c handled arrive bss up
   }"

definition collected :: "'h uart \<Rightarrow> u8 list \<Rightarrow> nat \<Rightarrow> bool" where
  "collected up b k \<longleftrightarrow> rx_buff up = Some b \<and> length b = 10 \<and> rx_size up = 10 \<and> unat (rx (icount up)) = k \<and> regshift up = 2"

lemma serial_in_at: "regshift up = 2 \<Longrightarrow> serial_in c up r = (fst (readw c (4 * r) (hw up)), up\<lparr>hw := snd (readw c (4 * r) (hw up))\<rparr>)"
  by (simp add: serial_in_def push_bit_eq_mult case_prod_unfold mult.commute Let_def)

lemma irq_round_receives:
  assumes c: "rx_chip c fifo" and up: "collected up b k" "k < 9" and f: "fifo (hw up) = x # xs"
  obtains up' where "irq_round c handled up = Some (True, up')" "collected up' (b[k := x]) (Suc k)" "fifo (hw up') = xs"
proof -
  let ?h1 = "snd (readw c 8 (hw up))"
  let ?h2 = "snd (readw c 20 ?h1)"
  let ?h3 = "snd (readw c 0 ?h2)"
  have f1: "fifo ?h1 = x # xs" and t: "fst (readw c 8 (hw up)) AND 1 = 0" "fst (readw c 8 (hw up)) AND 0x3e = 4"
    using c f unfolding rx_chip_def by (metis list.distinct(1))+
  have f2: "fifo ?h2 = x # xs" and l: "fst (readw c 20 ?h1) AND 1 \<noteq> 0" using c f1 unfolding rx_chip_def by (metis list.distinct(1))+
  have f3: "fifo ?h3 = xs" "ucast (fst (readw c 0 ?h2)) = x" using c f2 unfolding rx_chip_def by (metis list.distinct(1) list.sel)+
  let ?up2 = "up\<lparr>hw := ?h2\<rparr>"
  have i: "serial_in c ?up2 0 = (fst (readw c 0 ?h2), up\<lparr>hw := ?h3\<rparr>)" using up(1) serial_in_at [of ?up2 c 0] by (simp add: collected_def)
  let ?up' = "up\<lparr>hw := ?h3, rx_buff := Some (b[k := x]), icount := (icount up)\<lparr>rx := of_nat (Suc k)\<rparr>\<rparr>"
  have "serial_omap_rdi c (fst (readw c 20 ?h1)) ?up2 = Some ?up'"
    using rdi_step [of ?up2 b k c _ _ "fst (readw c 20 ?h1)", OF _ _ _ _ _ i l] up f3(2) by (simp add: collected_def)
  then have "irq_round c handled up = Some (True, ?up')"
    using up(1) t serial_in_at [of up c 2] serial_in_at [of "up\<lparr>hw := ?h1\<rparr>" c 5] by (simp add: irq_round_def collected_def)
  moreover have "unat (of_nat (Suc k) :: u32) = Suc k" using up(2) by (intro unat_of_nat_small) simp
  then have "collected ?up' (b[k := x]) (Suc k)" using up(1) by (simp add: collected_def del: of_nat_Suc)
  ultimately show thesis using f3(1) by (intro that [of ?up']) simp_all
qed

lemma irq_round_idle:
  assumes c: "rx_chip c fifo" and up: "collected up b k" and f: "fifo (hw up) = []"
  obtains h where "irq_round c handled up = Some (False, up\<lparr>hw := h\<rparr>)" "fifo h = []"
proof -
  have "fst (readw c 8 (hw up)) AND 1 \<noteq> 0" "fifo (snd (readw c 8 (hw up))) = []"
    using c f unfolding rx_chip_def by metis+
  then show thesis using up serial_in_at [of up c 2]
    by (intro that [of "snd (readw c 8 (hw up))"]) (simp_all add: irq_round_def collected_def)
qed

lemma irq_loop_end: "irq_round c handled up = Some (False, up') \<Longrightarrow> irq_loop c handled n ret up = Some (ret, up')"
  by (cases n) simp_all

lemma irq_once:
  assumes "irq_round c handled up = Some (True, up1)" and "irq_round c handled up1 = Some (False, up2)"
  shows "serial_omap_irq c handled up = Some (True, up2)"
proof -
  have "irq_loop c handled (Suc n) False up = Some (True, up2)" for n
    using assms irq_loop_end [OF assms(2)] by simp
  from this [of 255] show ?thesis by (simp add: serial_omap_irq_def)
qed

lemma irq_loop_receives:
  assumes c: "rx_chip c fifo"
  shows "collected up b k \<Longrightarrow> k + length (fifo (hw up)) < 10 \<Longrightarrow> length (fifo (hw up)) \<le> n \<Longrightarrow>
    \<exists>r up' b'. irq_loop c handled n ret up = Some (r, up') \<and> collected up' b' (k + length (fifo (hw up))) \<and>
      take (k + length (fifo (hw up))) b' = take k b @ fifo (hw up) \<and> fifo (hw up') = []"
proof (induction n arbitrary: ret up b k)
  case n: 0
  then have "fifo (hw up) = []" by simp
  then obtain h where "irq_round c handled up = Some (False, up\<lparr>hw := h\<rparr>)" "fifo h = []" by (rule irq_round_idle [OF c n(1)])
  then show ?case using n(1) \<open>fifo (hw up) = []\<close>
    by (intro exI [of _ ret] exI [of _ "up\<lparr>hw := h\<rparr>"] exI [of _ b]) (simp add: irq_loop_end collected_def)
next
  case (Suc n)
  show ?case
  proof (cases "fifo (hw up)")
    case Nil
    then obtain h where "irq_round c handled up = Some (False, up\<lparr>hw := h\<rparr>)" "fifo h = []" by (rule irq_round_idle [OF c Suc.prems(1)])
    then show ?thesis using Suc.prems(1) Nil
      by (intro exI [of _ ret] exI [of _ "up\<lparr>hw := h\<rparr>"] exI [of _ b]) (simp add: irq_loop_end collected_def)
  next
    case (Cons x xs)
    have k: "k < 9" "k < length b" using Suc.prems(1,2) Cons by (simp_all add: collected_def)
    obtain up1 where r: "irq_round c handled up = Some (True, up1)" "collected up1 (b[k := x]) (Suc k)" "fifo (hw up1) = xs"
      by (rule irq_round_receives [OF c Suc.prems(1) k(1) Cons])
    obtain r2 up' b' where i: "irq_loop c handled n True up1 = Some (r2, up')" "collected up' b' (Suc k + length xs)"
        "take (Suc k + length xs) b' = take (Suc k) (b[k := x]) @ xs" "fifo (hw up') = []"
      using Suc.IH [OF r(2), of True] Suc.prems(2,3) Cons r(3) by auto
    have "take (Suc k) (b[k := x]) = take k b @ [x]" using k(2) by (simp add: take_Suc_conv_app_nth)
    with r(1) i Cons show ?thesis by (intro exI [of _ r2] exI [of _ up'] exI [of _ b']) simp
  qed
qed

lemma receive_bursts_collect:
  assumes c: "rx_chip c fifo" and a: "\<forall>bs h. fifo (arrive bs h) = fifo h @ bs"
  shows "collected up b k \<Longrightarrow> fifo (hw up) = [] \<Longrightarrow> k + length (concat bss) < 10 \<Longrightarrow>
    \<exists>up' b'. receive_bursts c handled arrive bss up = Some up' \<and> collected up' b' (k + length (concat bss)) \<and>
      take (k + length (concat bss)) b' = take k b @ concat bss"
proof (induction bss arbitrary: up b k)
  case Nil
  then show ?case by auto
next
  case (Cons bs bss)
  let ?up = "up\<lparr>hw := arrive bs (hw up)\<rparr>"
  have up: "collected ?up b k" "fifo (hw ?up) = bs" using Cons.prems(1,2) a by (simp_all add: collected_def)
  obtain r up1 b1 where i: "serial_omap_irq c handled ?up = Some (r, up1)" "collected up1 b1 (k + length bs)"
      "take (k + length bs) b1 = take k b @ bs" "fifo (hw up1) = []"
    using irq_loop_receives [OF c up(1), of 256 handled False] Cons.prems(3) up(2) by (auto simp: serial_omap_irq_def)
  from Cons.IH [OF i(2,4)] Cons.prems(3) obtain up' b' where
      "receive_bursts c handled arrive bss up1 = Some up'" "collected up' b' (k + length bs + length (concat bss))"
      "take (k + length bs + length (concat bss)) b' = take (k + length bs) b1 @ concat bss" by auto
  with i show ?case by (intro exI [of _ up'] exI [of _ b']) (simp add: add.assoc)
qed

text \<open>A chip whose state is the characters it holds.\<close>

definition fifo_chip :: "u8 list chip" where
  "fifo_chip = \<lparr>readw = (\<lambda>r h. if r = 8 then (if h = [] then 1 else 4, h) else if r = 20 then (if h = [] then 0 else 1, h)
       else (ucast (hd h), tl h)), writew = (\<lambda>r v h. h)\<rparr>"

lemma fifo_chip: "rx_chip fifo_chip (\<lambda>h. h)"
  by (simp add: rx_chip_def fifo_chip_def)

text \<open>A started port on a chip in a given state.\<close>

definition port_on :: "'h \<Rightarrow> 'h uart" where
  "port_on h = \<lparr>ier = 5, lcr = 0, mcr = 0, fcr = 0, efr = 0, dll = 0, dlh = 0, mdr1 = 0, scr = 0, wer = 0, features = 0, regshift = 2,
     icount = \<lparr>rx = 0, tx = 0, brk = 0, parity = 0, frame = 0, overrun = 0\<rparr>, rx_buff = Some (replicate 10 0), rx_size = 10,
     tx_buff = Some (replicate 10 0), tx_size = 10, start_flg = True, hw = h\<rparr>"

text \<open>
  A chip seen by the transmitter: \<open>ien\<close> is whether the transmit interrupt is enabled in its
  register \<open>IER\<close> (offset 4), \<open>sent\<close> are the characters written to \<open>TX\<close> (offset 0). It reports an
  empty transmitter exactly while that interrupt is enabled.
\<close>

definition tx_chip :: "'h chip \<Rightarrow> ('h \<Rightarrow> bool) \<Rightarrow> ('h \<Rightarrow> u8 list) \<Rightarrow> bool" where
  "tx_chip c ien sent \<longleftrightarrow> (\<forall>h v.
     ien (writew c 4 v h) = bit v 1 \<and> sent (writew c 4 v h) = sent h \<and>
     ien (writew c 0 v h) = ien h \<and> sent (writew c 0 v h) = sent h @ [ucast v] \<and>
     ien (snd (readw c 8 h)) = ien h \<and> sent (snd (readw c 8 h)) = sent h \<and>
     (if ien h then fst (readw c 8 h) AND 1 = 0 \<and> fst (readw c 8 h) AND 0x3e = 2 else fst (readw c 8 h) AND 1 \<noteq> 0) \<and>
     ien (snd (readw c 20 h)) = ien h \<and> sent (snd (readw c 20 h)) = sent h)"

lemma ucast_bit1: "bit (ucast (v :: u8) :: u16) (Suc 0) = bit v (Suc 0)"
  by (simp add: bit_simps)

lemma tx_chip_writes:
  assumes c: "tx_chip c ien sent"
  shows "sent (fold (\<lambda>x. writew c 0 (ucast x)) bs h) = sent h @ bs \<and> ien (fold (\<lambda>x. writew c 0 (ucast x)) bs h) = ien h"
proof (induction bs arbitrary: h)
  case (Cons x bs)
  have "sent (writew c 0 (ucast x) h) = sent h @ [x]" "ien (writew c 0 (ucast x) h) = ien h"
    using c unfolding tx_chip_def by simp_all
  with Cons [of "writew c 0 (ucast x) h"] show ?case by simp
qed simp

text \<open>A chip whose state is whether the interrupt is enabled and what was sent.\<close>

definition tx_sample :: "(bool \<times> u8 list) chip" where
  "tx_sample = \<lparr>readw = (\<lambda>r (e, s). (if r = 8 \<and> e then 2 else 1, (e, s))),
     writew = (\<lambda>r v (e, s). if r = 4 then (bit v 1, s) else if r = 0 then (e, s @ [ucast v]) else (e, s))\<rparr>"

lemma tx_sample: "tx_chip tx_sample fst snd"
  by (simp add: tx_chip_def tx_sample_def case_prod_unfold)

section \<open>Properties\<close>

text \<open>
  C27: from a started port with one reading and one writing process, in every interleaving of
  interrupts with the single accesses of the two, no access is outside a buffer: every interrupt
  and every next access returns, and the receive count stays below the size of the buffer. This is
  for a chip that reports no line status interrupt, and for interleavings in which no interrupt
  resets the count while a read is between counting the characters and loading the count to
  lower it; \<open>uart_read_race\<close> shows what such an interrupt does.
\<close>

theorem uart_stays_in_bounds:
  assumes c: "no_line_status c" and up0: "\<not> start_flg up0" "rx (icount up0) = 0" "tx (icount up0) = 0" "regshift up0 = 2"
    and up1: "serial_omap_startup c 0 True True up0 = (r, up1)"
    and s: "(uart_step c)\<^sup>*\<^sup>* (up1, R_idle, W_idle) (up, rd, wr)"
  shows "r = 0 \<and> unat (rx (icount up)) < 10 \<and> serial_omap_irq c handled up \<noteq> None \<and> read_access room len rd up \<noteq> None \<and>
    write_access c buf len' wr up \<noteq> None"
proof -
  have e: "r = 0" "up1 = (startup_chip c (up0\<lparr>start_flg := True\<rparr>))\<lparr>rx_size := 10, rx_buff := Some (replicate 10 0), tx_size := 10,
      tx_buff := Some (replicate 10 0)\<rparr>"
    using up1 up0(1) by (simp_all add: serial_omap_startup_def)
  have "uart_ok up1" using up0(2-4) unfolding e(2) uart_ok_def by (simp add: startup_chip_fields)
  then have "uart_sys_ok (up1, R_idle, W_idle)" by (simp add: uart_sys_ok_def)
  with s have "uart_sys_ok (up, rd, wr)"
  proof (induction rule: rtranclp_induct)
    case (step y z)
    then show ?case using uart_step_ok [OF _ c] by blast
  qed
  then have ok: "uart_ok up" "reader_ok up rd" "writer_ok wr" by (simp_all add: uart_sys_ok_def)
  have "serial_omap_irq c handled up \<noteq> None" using irq_loop_ok [OF c ok(1), of handled 256 False] by (auto simp: serial_omap_irq_def)
  moreover have "read_access room len rd up \<noteq> None" by (rule read_access_ok [OF ok(1,2), of room len]) simp
  moreover have "write_access c buf len' wr up \<noteq> None" by (rule write_access_ok [OF ok(1,3), of c buf len']) simp
  ultimately show ?thesis using e(1) ok by (simp add: uart_ok_def)
qed

text \<open>A chip that has nothing to report, and a port on it.\<close>

definition idle_chip :: "(nat \<times> u16) list chip" where
  "idle_chip = \<lparr>readw = (\<lambda>r h. (1, h)), writew = (\<lambda>r v h. h @ [(r, v)])\<rparr>"

definition idle_port :: "(nat \<times> u16) list uart" where
  "idle_port = \<lparr>ier = 0, lcr = 0, mcr = 0, fcr = 0, efr = 0, dll = 0, dlh = 0, mdr1 = 0, scr = 0, wer = 0, features = 0, regshift = 2,
     icount = \<lparr>rx = 0, tx = 0, brk = 0, parity = 0, frame = 0, overrun = 0\<rparr>, rx_buff = None, rx_size = 0, tx_buff = None, tx_size = 0,
     start_flg = False, hw = []\<rparr>"

theorem uart_stays_in_bounds_witness:
  "\<exists>up1 up. serial_omap_startup idle_chip 0 True True idle_port = (0, up1) \<and>
     write_access idle_chip [65, 66] 2 W_idle up1 = Some (W_copy 2, up) \<and> serial_omap_irq idle_chip False up \<noteq> None"
proof -
  have c: "no_line_status idle_chip" by (simp add: no_line_status_def idle_chip_def)
  have p: "\<not> start_flg idle_port" "rx (icount idle_port) = 0" "tx (icount idle_port) = 0" "regshift idle_port = 2"
    by (simp_all add: idle_port_def)
  obtain up1 where up1: "serial_omap_startup idle_chip 0 True True idle_port = (0, up1)" by (simp add: serial_omap_startup_def p)
  then have "tx_size up1 = 10" by (auto simp: serial_omap_startup_def p)
  then obtain up where up: "write_access idle_chip [65, 66] 2 W_idle up1 = Some (W_copy 2, up)" by simp
  then have "(uart_step idle_chip)\<^sup>*\<^sup>* (up1, R_idle, W_idle) (up, R_idle, W_copy 2)" by (intro r_into_rtranclp user_write)
  from uart_stays_in_bounds [OF c p up1 this] up1 up show ?thesis by blast
qed

definition started_port :: "(nat \<times> u16) list uart" where
  "started_port = idle_port\<lparr>rx_buff := Some (replicate 10 0), rx_size := 10, tx_buff := Some (replicate 10 0), tx_size := 10, ier := 5\<rparr>"

lemma started_port: "uart_ok started_port" "rx (icount started_port) = 0" "hw started_port = []" "ier started_port = 5"
  by (simp_all add: uart_ok_def started_port_def idle_port_def)

text \<open>
  C28: fewer than ten characters that arrive at a started port with an empty receive buffer, in
  any bursts with an interrupt after each, are what the next read at offset 0 returns, in order,
  if it asks for at least as many and the user's buffer has room for them; the count is then
  zero again.
\<close>

theorem uart_receive_then_read:
  assumes c: "rx_chip c fifo" and a: "\<forall>bs h. fifo (arrive bs h) = fifo h @ bs"
    and up: "uart_ok up" "rx (icount up) = 0" "fifo (hw up) = []"
    and n: "0 < length (concat bss)" "length (concat bss) < 10" "length (concat bss) \<le> len" "length (concat bss) \<le> room"
  shows "\<exists>up1 up2. receive_bursts c handled arrive bss up = Some up1 \<and>
    my_read room len 0 up1 = Some (Inr (concat bss), 1, up2) \<and> rx (icount up2) = 0"
proof -
  let ?n = "length (concat bss)"
  obtain b where "collected up b 0" using up(1,2) by (auto simp: uart_ok_def collected_def)
  from receive_bursts_collect [OF c a this up(3), of bss handled] n(2) obtain up1 b1 where
      r: "receive_bursts c handled arrive bss up = Some up1" "collected up1 b1 ?n" "take ?n b1 = concat bss" by auto
  have b1: "rx_buff up1 = Some b1" "length b1 = 10" "unat (rx (icount up1)) = ?n" using r(2) by (simp_all add: collected_def)
  have e: "rx (icount up1) = of_nat ?n" by (simp flip: b1(3))
  have s: "serial_read (if len > 10 then 10 else len) up1 = (?n, up1\<lparr>icount := (icount up1)\<lparr>rx := 0\<rparr>\<rparr>)"
    using n(2,3) b1(3) e by (auto simp: serial_read_def Let_def)
  have "mem_read b1 0 ?n = Some (concat bss)" using b1(2) r(3) n(2) by (simp add: mem_read_def)
  then have "my_read room len 0 up1 = Some (Inr (concat bss), 1, up1\<lparr>icount := (icount up1)\<lparr>rx := 0\<rparr>\<rparr>)"
    using s b1(1) n(1,4) by (simp add: my_read_def)
  with r(1) show ?thesis by simp
qed

theorem uart_receive_then_read_witness:
  "\<exists>up1 up2. receive_bursts fifo_chip False (\<lambda>bs h. h @ bs) [[72, 105], [33]] (port_on []) = Some up1 \<and>
     my_read 5 5 0 up1 = Some (Inr [72, 105, 33], 1, up2)"
proof -
  have "uart_ok (port_on ([] :: u8 list))" "rx (icount (port_on ([] :: u8 list))) = 0" "hw (port_on ([] :: u8 list)) = []" by (simp_all add: uart_ok_def port_on_def)
  from uart_receive_then_read [OF fifo_chip _ this, of "\<lambda>bs h. h @ bs" "[[72, 105], [33]]" 5 5 False]
  show ?thesis by auto
qed

text \<open>
  C29: a write of any number of characters to a started port stores the first ten of them (all, if
  there are no more) and enables the transmit interrupt on the chip; the interrupt handler then
  sends exactly these, in order, and disables that interrupt, on the chip and in the driver's copy
  of the register. The write reports all characters as written.
\<close>

theorem uart_write_transmits:
  assumes c: "tx_chip c ien sent" and up: "uart_ok up" "ien (hw up) = bit (ier up) 1" and len: "len \<le> length buf"
  shows "\<exists>up1 up2. my_write c buf len off up = Some (int len, 0, up1) \<and> ien (hw up1) \<and> sent (hw up1) = sent (hw up) \<and>
    serial_omap_irq c handled up1 = Some (True, up2) \<and> sent (hw up2) = sent (hw up) @ take 10 (take len buf) \<and>
    \<not> ien (hw up2) \<and> ier up2 = ier up AND NOT UART_IER_THRI"
proof -
  obtain b where b: "tx_buff up = Some b" "length b = 10" "tx_size up = 10" "regshift up = 2" using up(1) by (auto simp: uart_ok_def)
  define n where "n = (if len > 10 then 10 else len)"
  let ?bs = "take n buf"
  have n: "n \<le> 10" "n \<le> len" "take 10 (take len buf) = ?bs" by (simp_all add: n_def min_def)
  have lb: "length ?bs = n" using n(2) len by simp
  let ?b = "?bs @ drop n b"
  let ?up = "up\<lparr>icount := (icount up)\<lparr>tx := of_nat n\<rparr>, tx_buff := Some ?b\<rparr>"
  let ?up1 = "serial_omap_start_tx c ?up"
  have "mem_read buf 0 n = Some ?bs" using n(2) len by (simp add: mem_read_def)
  moreover have "mem_write b 0 ?bs = Some ?b" using lb n(1) b(2) by (simp add: mem_write_def)
  ultimately have w: "my_write c buf len off up = Some (int len, 0, ?up1)"
    using b(1) unfolding my_write_def b(3) n_def [symmetric] Let_def by simp
  have f: "tx_buff ?up1 = Some ?b" "icount ?up1 = icount ?up" "regshift ?up1 = 2" "ier ?up1 = ier up OR UART_IER_THRI"
    using b(4) or_thri [of "ier up"]
    by (simp_all add: serial_omap_start_tx_def serial_omap_enable_ier_thri_def serial_out_def Let_def thri_bit)
  have or2: "bit (ier up OR 2) 1" by (simp add: bit_simps)
  have e: "ien (hw ?up1)" "sent (hw ?up1) = sent (hw up)"
    using c up(2) b(4) or2 unfolding tx_chip_def
    by (simp_all add: serial_omap_start_tx_def serial_omap_enable_ier_thri_def serial_out_def Let_def thri_bit push_bit_eq_mult ucast_bit1)
  let ?h1 = "snd (readw c 8 (hw ?up1))"
  let ?h2 = "snd (readw c 20 ?h1)"
  have t: "fst (readw c 8 (hw ?up1)) AND 1 = 0" "fst (readw c 8 (hw ?up1)) AND 0x3e = 2" "sent ?h2 = sent (hw up)"
    using c e unfolding tx_chip_def by (metis, metis, metis)
  have u: "unat (of_nat n :: u32) = n" using n(1) by (intro unat_of_nat_small) simp
  then have "sint (of_nat n :: u32) = int n" using n(1) sint_small [of "of_nat n :: u32"] by simp
  then have cnt: "nat (sint (tx (icount ?up1))) = n" using f(2) by simp
  let ?h3 = "fold (\<lambda>x. writew c 0 (ucast x)) ?bs ?h2"
  have ie: "(ier up OR 2) AND 2 \<noteq> (0 :: u8)" "(ier up OR 2) AND NOT 2 = ier up AND NOT (2 :: u8)"
    by (simp add: bit.conj_disj_distrib2) (rule bit_word_eqI, auto simp: bit_simps)
  let ?up2 = "?up1\<lparr>hw := writew c 4 (ucast (ier up AND NOT 2)) ?h3, ier := ier up AND NOT 2\<rparr>"
  have "transmit_loop c [0..<n] (?up1\<lparr>hw := ?h2\<rparr>) = Some (?up1\<lparr>hw := ?h3\<rparr>)"
    using transmit_loop_writes [of "?up1\<lparr>hw := ?h2\<rparr>" ?b 0 n 2] f lb by simp
  then have "transmit_chars c (?up1\<lparr>hw := ?h2\<rparr>) = Some ?up2"
    using f ie cnt by (simp add: transmit_chars_def serial_omap_stop_tx_def serial_out_def Let_def push_bit_eq_mult)
  then have r1: "irq_round c handled ?up1 = Some (True, ?up2)"
    using t f(3) serial_in_at [of ?up1 c 2] serial_in_at [of "?up1\<lparr>hw := ?h1\<rparr>" c 5] by (simp add: irq_round_def)
  have "\<not> bit (ier up AND NOT 2) 1" by (simp add: bit_simps)
  then have off: "\<not> ien (hw ?up2)" "sent (hw ?up2) = sent (hw up) @ ?bs"
    using c tx_chip_writes [OF c, of ?bs ?h2] t(3) unfolding tx_chip_def by (simp_all add: ucast_bit1)
  let ?up3 = "?up2\<lparr>hw := snd (readw c 8 (hw ?up2))\<rparr>"
  have q: "fst (readw c 8 (hw ?up2)) AND 1 \<noteq> 0" "\<not> ien (hw ?up3)" "sent (hw ?up3) = sent (hw up) @ ?bs"
    using c off unfolding tx_chip_def by (metis, simp, simp)
  then have r2: "irq_round c handled ?up2 = Some (False, ?up3)"
    using f(3) serial_in_at [of ?up2 c 2] by (simp add: irq_round_def)
  have "serial_omap_irq c handled ?up1 = Some (True, ?up3)" by (rule irq_once [OF r1 r2])
  then show ?thesis using w e q(2,3) unfolding n(3) by (intro exI [of _ ?up1] exI [of _ ?up3]) simp
qed

theorem uart_write_transmits_witness:
  "\<exists>up1 up2. my_write tx_sample [72, 105] 2 0 (port_on (False, [])) = Some (2, 0, up1) \<and> fst (hw up1) \<and>
     serial_omap_irq tx_sample False up1 = Some (True, up2) \<and> hw up2 = (False, [72, 105])"
proof -
  let ?up = "port_on (False, []) :: (bool \<times> u8 list) uart"
  have "uart_ok ?up" by (simp add: uart_ok_def port_on_def)
  moreover have "fst (hw ?up) = bit (ier ?up) 1" by (simp add: port_on_def)
  ultimately obtain up1 up2 where "my_write tx_sample [72, 105] 2 0 ?up = Some (int 2, 0, up1)" "fst (hw up1)"
      "serial_omap_irq tx_sample False up1 = Some (True, up2)" "snd (hw up2) = snd (hw ?up) @ take 10 (take 2 [72, 105])" "\<not> fst (hw up2)"
    using uart_write_transmits [OF tx_sample, of ?up 2 "[72, 105]" 0 False] by auto
  then show ?thesis by (intro exI [of _ up1] exI [of _ up2]) (simp add: port_on_def prod_eq_iff)
qed

text \<open>
  Setting the line transmits nothing, whatever the registers held before: every write to the
  register at offset 0 goes to the divisor latch. It ends with the line control that \<open>c_cflag\<close>
  asks for in force and the interrupts enabled as before.
\<close>

theorem uart_set_termios_quiet:
  assumes "logs c log" and "regshift up = 2"
  shows "\<exists>ws. log (hw (serial_omap_set_termios c c_cflag up)) = log (hw up) @ ws \<and>
    (\<forall>l i. line_state (l, i, []) ws = (ucast (line_control c_cflag), ucast (ier up), []))"
proof -
  have b: "bit (0x80 :: u16) 7" "bit (0xBF :: u16) 7" "\<not> bit (0 :: u16) 7" by simp_all
  show ?thesis
    unfolding serial_omap_set_termios_def Let_def case_prod_unfold
    by (rule exI, intro conjI allI)
      (simp add: log_serial_outs [OF assms(1)] log_serial_out [OF assms(1)] log_serial_in [OF assms(1)] assms(2) del: serial_outs.simps,
       simp add: b push_bit_eq_mult)
qed

theorem uart_set_termios_quiet_witness:
  "\<exists>ws. hw (serial_omap_set_termios idle_chip 0x30 started_port) = ws \<and> line_state (0, 0, []) ws = (0x13, 5, [])"
proof -
  have l: "logs idle_chip (\<lambda>h. h)" by (simp add: logs_def idle_chip_def)
  have r: "regshift started_port = 2" using started_port(1) by (simp add: uart_ok_def)
  have "line_control 0x30 = 0x13" by (simp add: line_control_def)
  then show ?thesis using uart_set_termios_quiet [OF l r, of "0x30"] started_port(3,4) by auto
qed

section \<open>Where the bounds and the order are lost\<close>

text \<open>
  A line status interrupt counts a character without storing it and without the wrap-around at
  the size of the buffer: after one at the last position the next character is stored behind
  the end.
\<close>

lemma uart_line_status_overflows:
  assumes "uart_ok up" and "unat (rx (icount up)) = 9"
  shows "serial_omap_rdi c 1 (serial_omap_rlsi c handled 0 up) = None"
proof -
  obtain b where b: "rx_buff up = Some b" "length b = 10" using assms(1) by (auto simp: uart_ok_def)
  have "rx (icount up) = 9" using assms(2) by (intro word_unat_eq_iff [THEN iffD2]) simp
  then have u: "rx (icount up) + 1 = 10" by simp
  let ?up = "up\<lparr>icount := (icount up)\<lparr>rx := 10\<rparr>\<rparr>"
  have e: "serial_omap_rlsi c handled 0 up = ?up" using u by (simp add: serial_omap_rlsi_def Let_def)
  obtain v up1 where i: "serial_in c (?up\<lparr>icount := (icount ?up)\<lparr>rx := 11\<rparr>\<rparr>) 0 = (v, up1)"
    by (cases "serial_in c (?up\<lparr>icount := (icount ?up)\<lparr>rx := 11\<rparr>\<rparr>) 0")
  then have "rx_buff up1 = Some b" using serial_in_fields [OF i] b(1) by auto
  then show ?thesis unfolding e serial_omap_rdi_def using i b(2) by (simp add: arr_set_def)
qed

text \<open>
  \<open>serial_omap_startup\<close> enables the receive interrupt before the buffer is allocated: a
  character that arrives in between is stored through the null pointer.
\<close>

lemma uart_early_interrupt:
  assumes "rx_buff up = None"
  shows "serial_omap_rdi c 1 (startup_chip c up) = None"
proof -
  let ?up = "startup_chip c up"
  obtain v up1 where i: "serial_in c (?up\<lparr>icount := (icount ?up)\<lparr>rx := rx (icount ?up) + 1\<rparr>\<rparr>) 0 = (v, up1)"
    by (cases "serial_in c (?up\<lparr>icount := (icount ?up)\<lparr>rx := rx (icount ?up) + 1\<rparr>\<rparr>) 0")
  then have "rx_buff up1 = None" using serial_in_fields [OF i] assms by (auto simp: startup_chip_fields)
  then show ?thesis using i by (simp add: serial_omap_rdi_def)
qed

text \<open>
  The race between a read and the receive interrupt: a read has counted characters, the tenth
  character then resets the count, and the read lowers it from 0. The count wraps around and the
  next character is stored outside the buffer.
\<close>

lemma uart_read_race:
  assumes "uart_ok up" and "rx (icount up) = 9" and "0 < len" and "len < 10"
  shows "\<exists>up1 up2. read_access room len R_idle up = Some (R_counted len, up) \<and> serial_omap_rdi c 1 up = Some up1 \<and>
    read_access room len (R_counted len) up1 = Some (R_loaded 0 len, up1) \<and>
    read_access room len (R_loaded 0 len) up1 = Some (R_copy len, up2) \<and> serial_omap_rdi c 1 up2 = None"
proof -
  obtain b where b: "rx_buff up = Some b" "length b = 10" "rx_size up = 10" using assms(1) by (auto simp: uart_ok_def)
  obtain v upv where i: "serial_in c up 0 = (v, upv)" by (cases "serial_in c up 0")
  let ?up1 = "upv\<lparr>rx_buff := Some (b[9 := ucast v]), icount := (icount up)\<lparr>rx := 0\<rparr>\<rparr>"
  have r: "serial_omap_rdi c 1 up = Some ?up1" using rdi_step [OF b _ _ i, of 9 1] assms(2) by simp
  let ?up2 = "?up1\<lparr>icount := (icount ?up1)\<lparr>rx := 0 - of_nat len\<rparr>\<rparr>"
  let ?in = "?up2\<lparr>icount := (icount ?up2)\<lparr>rx := rx (icount ?up2) + 1\<rparr>\<rparr>"
  obtain w upw where j: "serial_in c ?in 0 = (w, upw)" by (cases "serial_in c ?in 0")
  have bw: "rx_buff upw = Some (b[9 := ucast v])" using serial_in_fields [OF j] by auto
  have "(0 - of_nat len :: u32) = of_nat (2 ^ 32 - len)" using assms(4) by (simp add: of_nat_diff)
  moreover have "unat (of_nat (2 ^ 32 - len) :: u32) = 2 ^ 32 - len" using assms(3) by (intro unat_of_nat_small) simp
  ultimately have "unat (0 - of_nat len :: u32) = 2 ^ 32 - len" by metis
  moreover have "10 \<le> (2 :: nat) ^ 32 - len" using assms(4) by simp
  ultimately have l: "10 \<le> unat (0 - of_nat len :: u32)" by metis
  then have "serial_omap_rdi c 1 ?up2 = None" using j bw b(2) by (simp add: serial_omap_rdi_def arr_set_def)
  moreover have "read_access room len R_idle up = Some (R_counted len, up)" using assms(2,4) by (simp add: Let_def)
  ultimately show ?thesis using r by (intro exI [of _ ?up1] exI [of _ ?up2]) simp
qed

text \<open>A read of part of the characters lowers the count and leaves the buffer: the next read gives its beginning again.\<close>

lemma uart_partial_read_repeats:
  assumes "rx_buff up = Some b" "length b = 10" "unat (rx (icount up)) = n" "0 < k" "k < n" "n < 10"
  shows "\<exists>up1 up2. my_read 10 k 0 up = Some (Inr (take k b), 1, up1) \<and> my_read 10 10 0 up1 = Some (Inr (take (n - k) b), 1, up2)"
proof -
  let ?up1 = "up\<lparr>icount := (icount up)\<lparr>rx := rx (icount up) - of_nat k\<rparr>\<rparr>"
  have "unat (of_nat k :: u32) = k" using assms(5,6) by (intro unat_of_nat_small) simp
  then have u: "unat (rx (icount up) - of_nat k) = n - k" using assms(3,5) by (simp add: unat_sub word_le_nat_alt)
  have "my_read 10 k 0 up = Some (Inr (take k b), 1, ?up1)"
    using assms by (simp add: my_read_def serial_read_def mem_read_def Let_def)
  moreover have "n - k < 10" using assms(6) by simp
  then have "\<exists>up2. my_read 10 10 0 ?up1 = Some (Inr (take (n - k) b), 1, up2)"
    using assms u by (simp add: my_read_def serial_read_def mem_read_def Let_def)
  ultimately show ?thesis by blast
qed

end
