(* ===== verification/Polling.thy ===== *)
theory Polling
  imports Storage_Prelude
begin

text \<open>
  The loop by which the SPI and the I2C driver wait for a status bit: read the register, stop
  when it has the value waited for, stop when the time limit has passed, pause, and again.
  \<open>work\<close> is what the loop does in each round before it looks at the clock. The result says
  whether the value was seen, and has the last value read.
\<close>

partial_function (option) poll ::
    "('h \<Rightarrow> nat) \<Rightarrow> ('h \<Rightarrow> 'v \<times> 'h) \<Rightarrow> ('v \<Rightarrow> bool) \<Rightarrow> ('h \<Rightarrow> 'h) \<Rightarrow> ('h \<Rightarrow> 'h) \<Rightarrow> nat \<Rightarrow> 'h \<Rightarrow> (bool \<times> 'v \<times> 'h) option" where
  "poll clk rd again work pause limit h =
     (case rd h of (v, h) \<Rightarrow>
        if \<not> again v then Some (True, v, h)
        else if clk (work h) > limit then Some (False, v, work h)
        else poll clk rd again work pause limit (pause (work h)))"

declare poll.simps [code]

text \<open>The value is there at once.\<close>

lemma poll_now: "rd h = (v, h') \<Longrightarrow> \<not> again v \<Longrightarrow> poll clk rd again work pause limit h = Some (True, v, h')"
  by (simp add: poll.simps)

text \<open>The loop ends when the clock goes on during a pause and is never turned back.\<close>

lemma poll_returns:
  assumes r: "\<And>h. clk h \<le> clk (snd (rd h))" and w: "\<And>h. clk h \<le> clk (work h)" and p: "\<And>h. clk h < clk (pause h)"
  obtains good v h' where "poll clk rd again work pause limit h = Some (good, v, h')" "good \<longleftrightarrow> \<not> again v"
proof -
  have "\<exists>good v h'. poll clk rd again work pause limit h = Some (good, v, h') \<and> (good \<longleftrightarrow> \<not> again v)"
  proof (induction "Suc limit - clk h" arbitrary: h rule: less_induct)
    case less
    obtain v h1 where r1: "rd h = (v, h1)" by (cases "rd h")
    have j: "clk h \<le> clk h1" "clk h1 \<le> clk (work h1)" "clk (work h1) < clk (pause (work h1))"
      using r [of h] w p r1 by simp_all
    show ?case
    proof (cases "again v \<and> clk (work h1) \<le> limit")
      case True
      then have "Suc limit - clk (pause (work h1)) < Suc limit - clk h" using j by linarith
      from less [OF this] show ?thesis using True r1 by (subst poll.simps) simp
    next
      case False
      then show ?thesis using r1 by (subst poll.simps) auto
    qed
  qed
  then show thesis using that by blast
qed

text \<open>What every access keeps, the loop keeps; and the last value is one that was read.\<close>

lemma poll_induct:
  fixes rd :: "'h \<Rightarrow> 'v \<times> 'h"
  assumes "poll clk rd again work pause limit h = Some (good, v, h')" and "P h"
    and r: "\<And>h v h'. rd h = (v, h') \<Longrightarrow> P h \<Longrightarrow> P h' \<and> Q v" and w: "\<And>h. P h \<Longrightarrow> P (work h)" and p: "\<And>h. P h \<Longrightarrow> P (pause h)"
  shows "P h' \<and> Q v"
proof -
  define G where "G = (\<lambda>(clk' :: 'h \<Rightarrow> nat) rd' (again' :: 'v \<Rightarrow> bool) work' pause' (limit' :: nat) h (y :: bool \<times> 'v \<times> 'h).
    rd' = rd \<longrightarrow> work' = work \<longrightarrow> pause' = pause \<longrightarrow> P h \<longrightarrow> P (snd (snd y)) \<and> Q (fst (snd y)))"
  have "G clk rd again work pause limit h (good, v, h')"
  proof (rule poll.raw_induct [of G, OF _ assms(1)])
    fix f clk rd' again work' pause' limit h y
    assume i: "\<And>clk rd again work pause limit h y. f clk rd again work pause limit h = Some y \<Longrightarrow> G clk rd again work pause limit h y"
      and e: "(case rd' h of (v, h) \<Rightarrow> if \<not> again v then Some (True, v, h) else if clk (work' h) > limit then Some (False, v, work' h)
        else f clk rd' again work' pause' limit (pause' (work' h))) = Some y"
    obtain v h1 where r1: "rd' h = (v, h1)" by (cases "rd' h")
    show "G clk rd' again work' pause' limit h y" unfolding G_def
    proof (intro impI)
      assume eq: "rd' = rd" "work' = work" "pause' = pause" and "P h"
      then have 1: "P h1" "Q v" "P (work h1)" "P (pause (work h1))" using r [of h v h1] w p r1 by blast+
      show "P (snd (snd y)) \<and> Q (fst (snd y))"
        using e r1 1 i [of clk rd again work pause limit "pause (work h1)" y] by (auto simp: G_def eq split: if_splits)
    qed
  qed
  then show ?thesis using assms(2) by (simp add: G_def)
qed

end
