(* ===== verification/Spi.thy ===== *)
theory Spi
  imports Char_Device Polling
begin

text \<open>
  The SPI driver \<^verbatim>\<open>src/SPI/Driver/spi-omap2-mcspi.c\<close> with its user interface
  \<^verbatim>\<open>src/SPI/Driver/final_char_driver.c\<close>: transfers byte by byte through the registers of channel 0.

  The controller is a parameter: \<open>'h spi_chip\<close> reads and writes 32-bit registers, and has the
  kernel's clock \<open>jiffies\<close>, a natural number that does not wrap, which goes on while the driver waits;
  \<open>second\<close> is \<open>msecs_to_jiffies(1000)\<close>. \<open>mcspi\<close> is \<open>struct omap2_mcspi\<close> with the
  state of the controller. A loop that never ends, and an access outside a buffer, have no
  result.
\<close>

section \<open>Registers\<close>

record 'h spi_chip =
  readl :: "nat \<Rightarrow> 'h \<Rightarrow> u32 \<times> 'h"
  writel :: "nat \<Rightarrow> u32 \<Rightarrow> 'h \<Rightarrow> 'h"
  jiffies :: "'h \<Rightarrow> nat"
  cpu_relax :: "'h \<Rightarrow> 'h"
  second :: nat

definition OMAP2_MCSPI_MAX_FREQ :: u32 where "OMAP2_MCSPI_MAX_FREQ = 48000000"
definition OMAP2_MCSPI_MODULCTRL :: nat where "OMAP2_MCSPI_MODULCTRL = 0x28"
definition OMAP2_MCSPI_CHCONF0 :: nat where "OMAP2_MCSPI_CHCONF0 = 0x2c"
definition OMAP2_MCSPI_CHSTAT0 :: nat where "OMAP2_MCSPI_CHSTAT0 = 0x30"
definition OMAP2_MCSPI_CHCTRL0 :: nat where "OMAP2_MCSPI_CHCTRL0 = 0x34"
definition OMAP2_MCSPI_TX0 :: nat where "OMAP2_MCSPI_TX0 = 0x38"
definition OMAP2_MCSPI_RX0 :: nat where "OMAP2_MCSPI_RX0 = 0x3c"
definition OMAP2_MCSPI_MODULCTRL_SINGLE :: u32 where "OMAP2_MCSPI_MODULCTRL_SINGLE = 0x1"
definition OMAP2_MCSPI_MODULCTRL_MS :: u32 where "OMAP2_MCSPI_MODULCTRL_MS = 0x4"
definition OMAP2_MCSPI_MODULCTRL_STEST :: u32 where "OMAP2_MCSPI_MODULCTRL_STEST = 0x8"
definition OMAP2_MCSPI_CHCONF_PHA :: u32 where "OMAP2_MCSPI_CHCONF_PHA = 0x1"
definition OMAP2_MCSPI_CHCONF_POL :: u32 where "OMAP2_MCSPI_CHCONF_POL = 0x2"
definition OMAP2_MCSPI_CHCONF_CLKD_MASK :: u32 where "OMAP2_MCSPI_CHCONF_CLKD_MASK = 0x3C"
definition OMAP2_MCSPI_CHCONF_EPOL :: u32 where "OMAP2_MCSPI_CHCONF_EPOL = 0x40"
definition OMAP2_MCSPI_CHCONF_WL_MASK :: u32 where "OMAP2_MCSPI_CHCONF_WL_MASK = 0xF80"
definition OMAP2_MCSPI_CHCONF_DPE0 :: u32 where "OMAP2_MCSPI_CHCONF_DPE0 = 0x10000"
definition OMAP2_MCSPI_CHCONF_DPE1 :: u32 where "OMAP2_MCSPI_CHCONF_DPE1 = 0x20000"
definition OMAP2_MCSPI_CHCONF_IS :: u32 where "OMAP2_MCSPI_CHCONF_IS = 0x40000"
definition OMAP2_MCSPI_CHCONF_FORCE :: u32 where "OMAP2_MCSPI_CHCONF_FORCE = 0x100000"
definition OMAP2_MCSPI_CHSTAT_RXS :: u32 where "OMAP2_MCSPI_CHSTAT_RXS = 0x1"
definition OMAP2_MCSPI_CHSTAT_TXS :: u32 where "OMAP2_MCSPI_CHSTAT_TXS = 0x2"
definition OMAP2_MCSPI_CHCTRL_EN :: u32 where "OMAP2_MCSPI_CHCTRL_EN = 0x1"

lemmas mcspi_consts = OMAP2_MCSPI_MAX_FREQ_def OMAP2_MCSPI_MODULCTRL_def OMAP2_MCSPI_CHCONF0_def OMAP2_MCSPI_CHSTAT0_def
  OMAP2_MCSPI_CHCTRL0_def OMAP2_MCSPI_TX0_def OMAP2_MCSPI_RX0_def OMAP2_MCSPI_MODULCTRL_SINGLE_def OMAP2_MCSPI_MODULCTRL_MS_def
  OMAP2_MCSPI_MODULCTRL_STEST_def OMAP2_MCSPI_CHCONF_PHA_def OMAP2_MCSPI_CHCONF_POL_def OMAP2_MCSPI_CHCONF_CLKD_MASK_def
  OMAP2_MCSPI_CHCONF_EPOL_def OMAP2_MCSPI_CHCONF_WL_MASK_def OMAP2_MCSPI_CHCONF_DPE0_def OMAP2_MCSPI_CHCONF_DPE1_def
  OMAP2_MCSPI_CHCONF_IS_def OMAP2_MCSPI_CHCONF_FORCE_def OMAP2_MCSPI_CHSTAT_RXS_def OMAP2_MCSPI_CHSTAT_TXS_def OMAP2_MCSPI_CHCTRL_EN_def

text \<open>\<open>pin_dir\<close> is one bit, 0 being \<open>MCSPI_PINDIR_D0_IN_D1_OUT\<close>.\<close>

record 'h mcspi =
  modulctrl :: u32
  word_len :: nat
  chconf0 :: u32
  pin_dir :: bool
  regs :: 'h

definition mcspi_write_reg :: "'h spi_chip \<Rightarrow> nat \<Rightarrow> u32 \<Rightarrow> 'h mcspi \<Rightarrow> 'h mcspi" where
  "mcspi_write_reg c idx v s = s\<lparr>regs := writel c idx v (regs s)\<rparr>"

definition mcspi_read_reg :: "'h spi_chip \<Rightarrow> nat \<Rightarrow> 'h mcspi \<Rightarrow> u32 \<times> 'h mcspi" where
  "mcspi_read_reg c idx s = (let (v, h) = readl c idx (regs s) in (v, s\<lparr>regs := h\<rparr>))"

definition mcspi_write_chconf0 :: "'h spi_chip \<Rightarrow> u32 \<Rightarrow> 'h mcspi \<Rightarrow> 'h mcspi" where
  "mcspi_write_chconf0 c v s =
     snd (mcspi_read_reg c OMAP2_MCSPI_CHCONF0 (mcspi_write_reg c OMAP2_MCSPI_CHCONF0 v (s\<lparr>chconf0 := v\<rparr>)))"

definition mcspi_bytes_per_word :: "int \<Rightarrow> int" where
  "mcspi_bytes_per_word wl = (if wl \<le> 8 then 1 else if wl \<le> 16 then 2 else 4)"

definition omap2_mcspi_set_enable :: "'h spi_chip \<Rightarrow> bool \<Rightarrow> 'h mcspi \<Rightarrow> 'h mcspi" where
  "omap2_mcspi_set_enable c enable s =
     snd (mcspi_read_reg c OMAP2_MCSPI_CHCTRL0
       (mcspi_write_reg c OMAP2_MCSPI_CHCTRL0 (if enable then OMAP2_MCSPI_CHCTRL_EN else 0) s))"

definition omap2_mcspi_force_cs :: "'h spi_chip \<Rightarrow> bool \<Rightarrow> 'h mcspi \<Rightarrow> 'h mcspi" where
  "omap2_mcspi_force_cs c cs_active s =
     mcspi_write_chconf0 c (if cs_active then chconf0 s OR OMAP2_MCSPI_CHCONF_FORCE
                            else chconf0 s AND NOT OMAP2_MCSPI_CHCONF_FORCE) s"

definition omap2_mcspi_set_master_mode :: "'h spi_chip \<Rightarrow> 'h mcspi \<Rightarrow> 'h mcspi" where
  "omap2_mcspi_set_master_mode c s =
     (let (l, s) = mcspi_read_reg c OMAP2_MCSPI_MODULCTRL s;
          l = (l AND NOT (OMAP2_MCSPI_MODULCTRL_STEST OR OMAP2_MCSPI_MODULCTRL_MS)) OR OMAP2_MCSPI_MODULCTRL_SINGLE
      in (mcspi_write_reg c OMAP2_MCSPI_MODULCTRL l s)\<lparr>modulctrl := l\<rparr>)"

section \<open>Transfers\<close>

definition mcspi_wait_for_reg_bit :: "'h spi_chip \<Rightarrow> nat \<Rightarrow> u32 \<Rightarrow> 'h mcspi \<Rightarrow> (int \<times> 'h mcspi) option" where
  "mcspi_wait_for_reg_bit c reg bits s = do {
     (seen, _, h) \<leftarrow> poll (jiffies c) (readl c reg) (\<lambda>v. v AND bits = 0) (\<lambda>h. h) (cpu_relax c)
       (jiffies c (regs s) + second c) (regs s);
     if seen then Some (0, s\<lparr>regs := h\<rparr>)
     else do {
       let (v, h) = readl c reg h;
       Some (if v AND bits = 0 then - ETIMEDOUT else 0, s\<lparr>regs := h\<rparr>)
     }
   }"

record spi_transfer =
  tx_buf :: "u8 list option"
  rx_buf :: "u8 list option"
  len :: u32

text \<open>The two halves of a round for byte \<open>i\<close>; the flag is whether the wait succeeded.\<close>

definition pio_tx :: "'h spi_chip \<Rightarrow> u8 list option \<Rightarrow> nat \<Rightarrow> 'h mcspi \<Rightarrow> (bool \<times> 'h mcspi) option" where
  "pio_tx c tx i s =
     (case tx of
        None \<Rightarrow> Some (True, s)
      | Some t \<Rightarrow> do {
          (r, s) \<leftarrow> mcspi_wait_for_reg_bit c OMAP2_MCSPI_CHSTAT0 OMAP2_MCSPI_CHSTAT_TXS s;
          if r < 0 then Some (False, s)
          else do {
            x \<leftarrow> arr_get t i;
            Some (True, mcspi_write_reg c OMAP2_MCSPI_TX0 (ucast x) s)
          }
        })"

definition pio_rx :: "'h spi_chip \<Rightarrow> u8 list option \<Rightarrow> nat \<Rightarrow> 'h mcspi \<Rightarrow> (bool \<times> u8 list option \<times> 'h mcspi) option" where
  "pio_rx c rx i s =
     (case rx of
        None \<Rightarrow> Some (True, rx, s)
      | Some b \<Rightarrow> do {
          (r, s) \<leftarrow> mcspi_wait_for_reg_bit c OMAP2_MCSPI_CHSTAT0 OMAP2_MCSPI_CHSTAT_RXS s;
          if r < 0 then Some (False, rx, s)
          else do {
            let (v, s) = mcspi_read_reg c OMAP2_MCSPI_RX0 s;
            b \<leftarrow> arr_set b i (ucast v);
            Some (True, Some b, s)
          }
        })"

text \<open>\<open>do { c -= 1; \<dots> } while (c);\<close>\<close>

partial_function (option) pio_loop ::
    "'h spi_chip \<Rightarrow> u8 list option \<Rightarrow> u8 list option \<Rightarrow> nat \<Rightarrow> u32 \<Rightarrow> 'h mcspi \<Rightarrow> (u32 \<times> u8 list option \<times> 'h mcspi) option" where
  "pio_loop c tx rx i n s =
     Option.bind (pio_tx c tx i s) (\<lambda>(good, s).
       if \<not> good then Some (n - 1, rx, s)
       else Option.bind (pio_rx c rx i s) (\<lambda>(good, rx, s).
         if \<not> good \<or> n - 1 = 0 then Some (n - 1, rx, s)
         else pio_loop c tx rx (i + 1) (n - 1) s))"

definition omap2_mcspi_txrx_pio :: "'h spi_chip \<Rightarrow> spi_transfer \<Rightarrow> 'h mcspi \<Rightarrow> (u32 \<times> spi_transfer \<times> 'h mcspi) option" where
  "omap2_mcspi_txrx_pio c xfer s =
     (if unat (len xfer) < word_len s div 8 then Some (0, xfer, s)
      else do {
        (n, rx, s) \<leftarrow> pio_loop c (tx_buf xfer) (rx_buf xfer) 0 (len xfer) s;
        Some (len xfer - n, xfer\<lparr>rx_buf := rx\<rparr>, omap2_mcspi_set_enable c True s)
      })"

definition omap2_mcspi_calc_divisor :: "u32 \<Rightarrow> nat" where
  "omap2_mcspi_calc_divisor speed_hz =
     (case find (\<lambda>n. speed_hz \<ge> drop_bit n OMAP2_MCSPI_MAX_FREQ) [0..<15] of Some n \<Rightarrow> n | None \<Rightarrow> 15)"

text \<open>The channel configuration for a word length of 8 bits and 500 kHz.\<close>

definition channel_config :: "bool \<Rightarrow> u32 \<Rightarrow> u32" where
  "channel_config dir l =
     (let dv = omap2_mcspi_calc_divisor (min 500000 OMAP2_MCSPI_MAX_FREQ);
          l = (if \<not> dir then (l AND NOT OMAP2_MCSPI_CHCONF_IS AND NOT OMAP2_MCSPI_CHCONF_DPE1) OR OMAP2_MCSPI_CHCONF_DPE0
               else (l OR OMAP2_MCSPI_CHCONF_IS OR OMAP2_MCSPI_CHCONF_DPE1) AND NOT OMAP2_MCSPI_CHCONF_DPE0);
          l = (l AND NOT OMAP2_MCSPI_CHCONF_WL_MASK) OR push_bit 7 (8 - 1);
          l = l AND NOT OMAP2_MCSPI_CHCONF_EPOL;
          l = (l AND NOT OMAP2_MCSPI_CHCONF_CLKD_MASK) OR push_bit 2 (of_nat dv)
      in l AND NOT OMAP2_MCSPI_CHCONF_PHA AND NOT OMAP2_MCSPI_CHCONF_POL)"

definition omap2_mcspi_setup_transfer :: "'h spi_chip \<Rightarrow> 'h mcspi \<Rightarrow> int \<times> 'h mcspi" where
  "omap2_mcspi_setup_transfer c s =
     (0, omap2_mcspi_force_cs c True (mcspi_write_chconf0 c (channel_config (pin_dir s) (chconf0 s)) s))"

text \<open>A null transfer is \<open>None\<close>; its error number is returned with the wrong sign.\<close>

definition omap2_mcspi_transfer_one_message ::
    "'h spi_chip \<Rightarrow> spi_transfer option \<Rightarrow> 'h mcspi \<Rightarrow> (int \<times> spi_transfer option \<times> 'h mcspi) option" where
  "omap2_mcspi_transfer_one_message c t s =
     (case t of
        None \<Rightarrow> Some (EINVAL, None, s)
      | Some t \<Rightarrow>
          if len t \<noteq> 0
          then do {
            let s = omap2_mcspi_set_enable c True s;
            let s = (if tx_buf t = None then mcspi_write_reg c OMAP2_MCSPI_TX0 0 s else s);
            (count, t', s) \<leftarrow> omap2_mcspi_txrx_pio c t s;
            Some (if count \<noteq> len t then - EIO else 0, Some t', s)
          }
          else Some (0, Some t, s))"

section \<open>The character device\<close>

definition my_open :: "'h spi_chip \<Rightarrow> 'h mcspi \<Rightarrow> int \<times> 'h mcspi" where
  "my_open c s = omap2_mcspi_setup_transfer c s"

text \<open>The fixed request for a conversion; its answer is printed, and the result is 0.\<close>

definition my_read :: "'h spi_chip \<Rightarrow> 'h mcspi \<Rightarrow> (int \<times> u8 list option \<times> 'h mcspi) option" where
  "my_read c s = do {
     (_, t, s) \<leftarrow> omap2_mcspi_transfer_one_message c
       (Some \<lparr>tx_buf = Some [0x01, 0x80, 0x00, 0x01, 0x80], rx_buf = Some [0, 0, 0, 0, 0], len = 5\<rparr>) s;
     Some (0, Option.bind t rx_buf, s)
   }"

text \<open>Nothing is sent by a write; the result and the new position.\<close>

definition my_write :: "nat \<Rightarrow> int \<times> nat" where
  "my_write count = (int count, 0)"

section \<open>Binding to the platform device\<close>

text \<open>
  \<open>mem\<close>: whether the structure was allocated, which is not checked; \<open>resource\<close>: whether the memory
  resource exists; \<open>mapped\<close>: 0 or the error of \<open>devm_ioremap_resource\<close>; \<open>pdata\<close>: whether platform
  data was found; \<open>calls\<close>: the results for \<open>fcd_init\<close>.
\<close>

definition omap2_mcspi_probe ::
    "'h spi_chip \<Rightarrow> bool \<Rightarrow> bool \<Rightarrow> bool \<Rightarrow> int \<Rightarrow> int \<times> int \<times> int \<times> int \<Rightarrow> 'h \<Rightarrow> fcd \<Rightarrow> (int \<times> 'h mcspi option \<times> fcd) option" where
  "omap2_mcspi_probe c mem pdata resource mapped calls h f =
     (if \<not> pdata then None
      else if \<not> resource then Some (- ENODEV, None, f)
      else if \<not> mem then None
      else if mapped < 0 then Some (mapped, None, f)
      else let (r1, r2, r3, r4) = calls;
               s = \<lparr>modulctrl = 0, word_len = 0, chconf0 = 0, pin_dir = False, regs = h\<rparr>
        in Some (0, Some (omap2_mcspi_set_master_mode c s), snd (fcd_init r1 r2 r3 r4 f)))"

definition fcd_exit :: "fcd \<Rightarrow> fcd" where
  "fcd_exit = fcd_release"

end
