(* ===== verification/Spi_Props.thy ===== *)
theory Spi_Props
  imports Spi
begin

text \<open>
  Properties of the SPI driver: the bytes of a transfer, the end of every wait, and the
  configuration of the channel.
\<close>

section \<open>Waiting\<close>

text \<open>
  The clock goes on while the driver waits, and is not turned back by a register access. That it
  goes on in each single \<open>cpu_relax\<close> is an idealisation, which matters only for the number of rounds.
\<close>

definition clock_runs :: "'h spi_chip \<Rightarrow> bool" where
  "clock_runs c \<longleftrightarrow> (\<forall>r h v h'. readl c r h = (v, h') \<longrightarrow> jiffies c h \<le> jiffies c h') \<and>
     (\<forall>h. jiffies c h < jiffies c (cpu_relax c h))"

lemma wait_returns:
  assumes "clock_runs c"
  obtains r h where "mcspi_wait_for_reg_bit c reg bits s = Some (r, s\<lparr>regs := h\<rparr>)" "r = 0 \<or> r = - 110"
    "(\<forall>h. fst (readl c reg h) AND bits = 0) \<longrightarrow> r = - 110"
proof -
  let ?limit = "jiffies c (regs s) + second c"
  have k: "\<And>h. jiffies c h \<le> jiffies c (snd (readl c reg h))" "\<And>h. jiffies c h < jiffies c (cpu_relax c h)"
    using assms unfolding clock_runs_def by (metis prod.collapse)+
  obtain seen v h where p: "poll (jiffies c) (readl c reg) (\<lambda>v. v AND bits = 0) (\<lambda>h. h) (cpu_relax c) ?limit (regs s) =
      Some (seen, v, h)" "seen \<longleftrightarrow> v AND bits \<noteq> 0"
    by (rule poll_returns [of "jiffies c" "readl c reg" "\<lambda>h. h" "cpu_relax c" "\<lambda>v. v AND bits = 0" ?limit "regs s"]) (use k in auto)
  have "(\<forall>h. fst (readl c reg h) AND bits = 0) \<longrightarrow> \<not> seen"
    using poll_induct [OF p(1), of "\<lambda>_. True" "\<lambda>v. v \<in> range (\<lambda>h. fst (readl c reg h))"] p(2) by (auto simp: image_iff) (metis fst_conv)
  moreover obtain v2 h2 where "readl c reg h = (v2, h2)" by (cases "readl c reg h")
  ultimately show thesis using p(1)
    by (intro that [of "if seen \<or> v2 AND bits \<noteq> 0 then 0 else - 110" "if seen then h else h2"])
      (auto simp: mcspi_wait_for_reg_bit_def intro!: exI [of _ h])
qed

text \<open>No wait when the bit is already set.\<close>

lemma wait_ready:
  assumes "readl c reg (regs s) = (v, h)" "v AND bits \<noteq> 0"
  shows "mcspi_wait_for_reg_bit c reg bits s = Some (0, s\<lparr>regs := h\<rparr>)"
  using assms by (simp add: mcspi_wait_for_reg_bit_def poll_now)

section \<open>The transfer returns\<close>

text \<open>A buffer that is absent or has room for \<open>n\<close> bytes.\<close>

definition covers :: "'a list option \<Rightarrow> nat \<Rightarrow> bool" where
  "covers b n \<longleftrightarrow> (case b of None \<Rightarrow> True | Some xs \<Rightarrow> n \<le> length xs)"

lemma covers_mono: "covers b n \<Longrightarrow> k \<le> n \<Longrightarrow> covers b k"
  by (auto simp: covers_def split: option.splits)

lemma pio_tx_returns:
  assumes "clock_runs c" "covers tx (Suc i)"
  obtains good h where "pio_tx c tx i s = Some (good, s\<lparr>regs := h\<rparr>)"
proof (cases tx)
  case None
  then show thesis by (intro that [of True "regs s"]) (simp add: pio_tx_def)
next
  case (Some t)
  obtain r h where "mcspi_wait_for_reg_bit c OMAP2_MCSPI_CHSTAT0 OMAP2_MCSPI_CHSTAT_TXS s = Some (r, s\<lparr>regs := h\<rparr>)"
    using wait_returns [OF assms(1)] by blast
  then show thesis using Some assms(2)
    by (intro that [of "\<not> r < 0" "if r < 0 then h else writel c OMAP2_MCSPI_TX0 (ucast (t ! i)) h"])
      (simp add: pio_tx_def covers_def mem_simps mcspi_write_reg_def)
qed

lemma pio_rx_returns:
  assumes "clock_runs c" "covers rx n" "i < n"
  obtains good rx' h where "pio_rx c rx i s = Some (good, rx', s\<lparr>regs := h\<rparr>)" "covers rx' n"
proof (cases rx)
  case None
  then show thesis by (intro that [of True None "regs s"]) (simp_all add: pio_rx_def covers_def)
next
  case (Some b)
  obtain r h where w: "mcspi_wait_for_reg_bit c OMAP2_MCSPI_CHSTAT0 OMAP2_MCSPI_CHSTAT_RXS s = Some (r, s\<lparr>regs := h\<rparr>)"
    using wait_returns [OF assms(1)] by blast
  obtain v h2 where v: "readl c OMAP2_MCSPI_RX0 h = (v, h2)" by (cases "readl c OMAP2_MCSPI_RX0 h")
  show thesis using Some assms(2,3) w v
    by (intro that [of "\<not> r < 0" "if r < 0 then rx else Some (b[i := ucast v])" "if r < 0 then h else h2"])
      (simp_all add: pio_rx_def covers_def mem_simps mcspi_read_reg_def)
qed

lemma pred_u32: "unat (n :: u32) = Suc k \<Longrightarrow> unat (n - 1) = k"
  by (simp add: unat_sub word_le_nat_alt)

lemma pio_loop_returns:
  assumes c: "clock_runs c"
  shows "unat n = Suc k \<Longrightarrow> covers tx (i + Suc k) \<Longrightarrow> covers rx (i + Suc k) \<Longrightarrow>
    \<exists>m rx' h. pio_loop c tx rx i n s = Some (m, rx', s\<lparr>regs := h\<rparr>) \<and> unat m \<le> k"
proof (induction k arbitrary: i n rx s)
  case (Suc k)
  have n: "unat (n - 1) = Suc k" using Suc.prems(1) by (rule pred_u32)
  then have "n - 1 \<noteq> 0" by auto
  obtain g h where t: "pio_tx c tx i s = Some (g, s\<lparr>regs := h\<rparr>)"
    by (rule pio_tx_returns [OF c, of tx i s]) (use Suc.prems(2) in \<open>auto intro: covers_mono\<close>)
  obtain g2 rx2 h2 where r: "pio_rx c rx i (s\<lparr>regs := h\<rparr>) = Some (g2, rx2, s\<lparr>regs := h\<rparr>\<lparr>regs := h2\<rparr>)" "covers rx2 (i + Suc (Suc k))"
    by (rule pio_rx_returns [OF c Suc.prems(3), of i "s\<lparr>regs := h\<rparr>"]) auto
  obtain m rx' h3 where "pio_loop c tx rx2 (i + 1) (n - 1) (s\<lparr>regs := h2\<rparr>) = Some (m, rx', s\<lparr>regs := h2\<rparr>\<lparr>regs := h3\<rparr>)" "unat m \<le> k"
    using Suc.IH [OF n, of "i + 1" rx2 "s\<lparr>regs := h2\<rparr>"] Suc.prems(2) r(2) by auto
  then show ?case using t r n \<open>n - 1 \<noteq> 0\<close> by (subst pio_loop.simps) auto
next
  case 0
  have n: "unat (n - 1) = 0" using 0(1) by (rule pred_u32)
  then have z: "n - 1 = 0" by (simp add: unat_eq_zero)
  obtain g h where t: "pio_tx c tx i s = Some (g, s\<lparr>regs := h\<rparr>)"
    by (rule pio_tx_returns [OF c, of tx i s]) (use 0 in auto)
  obtain g2 rx2 h2 where r: "pio_rx c rx i (s\<lparr>regs := h\<rparr>) = Some (g2, rx2, s\<lparr>regs := h\<rparr>\<lparr>regs := h2\<rparr>)"
    by (rule pio_rx_returns [OF c 0(3), of i "s\<lparr>regs := h\<rparr>"]) auto
  then show ?case using t z by (subst pio_loop.simps) auto
qed

section \<open>A channel that answers\<close>

text \<open>
  The registers of a channel as the driver uses them: \<open>sent h\<close> are the words written to the
  transmit register so far and \<open>queue h\<close> those received and not read yet. A word sent brings one
  word back, \<open>answer\<close> of all that was sent; the status shows room to send, and a word to read
  when there is one. Enabling the channel changes neither.
\<close>

definition channel :: "'h spi_chip \<Rightarrow> ('h \<Rightarrow> u32 list) \<Rightarrow> ('h \<Rightarrow> u32 list) \<Rightarrow> (u32 list \<Rightarrow> u32) \<Rightarrow> bool" where
  "channel c sent queue answer \<longleftrightarrow>
     (\<forall>h v h'. readl c 0x30 h = (v, h') \<longrightarrow> v AND 2 \<noteq> 0 \<and> (queue h \<noteq> [] \<longrightarrow> v AND 1 \<noteq> 0) \<and> sent h' = sent h \<and> queue h' = queue h) \<and>
     (\<forall>h v h'. readl c 0x3c h = (v, h') \<longrightarrow> sent h' = sent h \<and> (\<forall>w ws. queue h = w # ws \<longrightarrow> v = w \<and> queue h' = ws)) \<and>
     (\<forall>h v h'. readl c 0x34 h = (v, h') \<longrightarrow> sent h' = sent h \<and> queue h' = queue h) \<and>
     (\<forall>h v. sent (writel c 0x34 v h) = sent h \<and> queue (writel c 0x34 v h) = queue h) \<and>
     (\<forall>h v. sent (writel c 0x38 v h) = sent h @ [v] \<and> queue (writel c 0x38 v h) = queue h @ [answer (sent h @ [v])])"

text \<open>The bytes that come back for \<open>xs\<close>, sent after \<open>before\<close>.\<close>

fun replies :: "(u32 list \<Rightarrow> u32) \<Rightarrow> u32 list \<Rightarrow> u8 list \<Rightarrow> u8 list" where
  "replies answer before [] = []"
| "replies answer before (x # xs) = ucast (answer (before @ [ucast x])) # replies answer (before @ [ucast x]) xs"

lemma length_replies [simp]: "length (replies answer before xs) = length xs"
  by (induction xs arbitrary: before) simp_all

lemma pio_round:
  assumes c: "channel c sent queue answer" and q: "queue (regs s) = []" and i: "i < length t" "i < length b"
  obtains h1 h2 where "pio_tx c (Some t) i s = Some (True, s\<lparr>regs := h1\<rparr>)"
    "pio_rx c (Some b) i (s\<lparr>regs := h1\<rparr>) =
       Some (True, Some (b[i := ucast (answer (sent (regs s) @ [ucast (t ! i)]))]), s\<lparr>regs := h2\<rparr>)"
    "sent h2 = sent (regs s) @ [ucast (t ! i)]" "queue h2 = []"
proof -
  obtain v h where r: "readl c 0x30 (regs s) = (v, h)" by (cases "readl c 0x30 (regs s)")
  then have v: "v AND 2 \<noteq> 0" "sent h = sent (regs s)" "queue h = []" using c q unfolding channel_def by metis+
  let ?h = "writel c 0x38 (ucast (t ! i)) h"
  have w: "sent ?h = sent (regs s) @ [ucast (t ! i)]" "queue ?h = [answer (sent (regs s) @ [ucast (t ! i)])]"
    using c v unfolding channel_def by auto
  obtain v2 h2 where r2: "readl c 0x30 ?h = (v2, h2)" by (cases "readl c 0x30 ?h")
  then have v2: "v2 AND 1 \<noteq> 0" "sent h2 = sent ?h" "queue h2 = queue ?h" using c w(2) unfolding channel_def by (metis list.discI)+
  obtain v3 h3 where r3: "readl c 0x3c h2 = (v3, h3)" by (cases "readl c 0x3c h2")
  then have v3: "sent h3 = sent h2" "v3 = answer (sent (regs s) @ [ucast (t ! i)])" "queue h3 = []"
    using c v2(3) w(2) unfolding channel_def by metis+
  show thesis
  proof (rule that [of ?h h3])
    show "pio_tx c (Some t) i s = Some (True, s\<lparr>regs := ?h\<rparr>)"
      using wait_ready [OF r v(1)] i by (simp add: pio_tx_def mcspi_consts mem_simps mcspi_write_reg_def)
    show "pio_rx c (Some b) i (s\<lparr>regs := ?h\<rparr>) =
        Some (True, Some (b[i := ucast (answer (sent (regs s) @ [ucast (t ! i)]))]), s\<lparr>regs := h3\<rparr>)"
      using wait_ready [of c "0x30" "s\<lparr>regs := ?h\<rparr>", OF _ v2(1)] r2 r3 v3(2) i
      by (simp add: pio_rx_def mcspi_consts mem_simps mcspi_read_reg_def)
  qed (use v2 w v3 in simp_all)
qed

lemma pio_loop_exchanges:
  assumes c: "channel c sent queue answer"
  shows "unat n = Suc k \<Longrightarrow> queue (regs s) = [] \<Longrightarrow> i + Suc k = length t \<Longrightarrow> length b = length t \<Longrightarrow>
    \<exists>h. pio_loop c (Some t) (Some b) i n s =
          Some (0, Some (take i b @ replies answer (sent (regs s)) (drop i t)), s\<lparr>regs := h\<rparr>) \<and>
        sent h = sent (regs s) @ map ucast (drop i t) \<and> queue h = []"
proof (induction k arbitrary: i n b s)
  case (Suc k)
  have n: "unat (n - 1) = Suc k" using Suc.prems(1) by (rule pred_u32)
  then have nz: "n - 1 \<noteq> 0" by auto
  have i: "i < length t" "i < length b" using Suc.prems by linarith+
  let ?w = "answer (sent (regs s) @ [ucast (t ! i)])"
  obtain h1 h2 where r: "pio_tx c (Some t) i s = Some (True, s\<lparr>regs := h1\<rparr>)"
    "pio_rx c (Some b) i (s\<lparr>regs := h1\<rparr>) = Some (True, Some (b[i := ucast ?w]), s\<lparr>regs := h2\<rparr>)"
    "sent h2 = sent (regs s) @ [ucast (t ! i)]" "queue h2 = []" by (rule pio_round [OF c Suc.prems(2) i])
  obtain h where h: "pio_loop c (Some t) (Some (b[i := ucast ?w])) (i + 1) (n - 1) (s\<lparr>regs := h2\<rparr>) =
      Some (0, Some (take (i + 1) (b[i := ucast ?w]) @ replies answer (sent h2) (drop (i + 1) t)), s\<lparr>regs := h\<rparr>)"
      "sent h = sent h2 @ map ucast (drop (i + 1) t)" "queue h = []"
    using Suc.IH [OF n, of "s\<lparr>regs := h2\<rparr>" "i + 1" "b[i := ucast ?w]"] Suc.prems(3,4) r(4) by auto
  have d: "drop i t = t ! i # drop (i + 1) t" using i(1) by (simp add: Cons_nth_drop_Suc)
  have u: "take (i + 1) (b[i := ucast ?w]) = take i b @ [ucast ?w]" using i(2) by (simp add: take_Suc_conv_app_nth)
  show ?case using h r nz unfolding d u by (intro exI [of _ h]) (subst pio_loop.simps, simp)
next
  case 0
  have "unat (n - 1) = 0" using 0(1) by (rule pred_u32)
  then have z: "n - 1 = 0" by (simp add: unat_eq_zero)
  have i: "i < length t" "i < length b" using 0 by linarith+
  let ?w = "answer (sent (regs s) @ [ucast (t ! i)])"
  obtain h1 h2 where r: "pio_tx c (Some t) i s = Some (True, s\<lparr>regs := h1\<rparr>)"
    "pio_rx c (Some b) i (s\<lparr>regs := h1\<rparr>) = Some (True, Some (b[i := ucast ?w]), s\<lparr>regs := h2\<rparr>)"
    "sent h2 = sent (regs s) @ [ucast (t ! i)]" "queue h2 = []" by (rule pio_round [OF c 0(2) i])
  have d: "drop i t = [t ! i]" using 0(3) i(1) by (simp add: Cons_nth_drop_Suc [symmetric])
  have u: "b[i := ucast ?w] = take i b @ [ucast ?w]" using 0(3,4) i(2) by (simp add: upd_conv_take_nth_drop)
  show ?case using r z unfolding d by (intro exI [of _ h2]) (subst pio_loop.simps, simp add: u [symmetric])
qed

lemma set_enable_channel:
  assumes "channel c sent queue answer"
  obtains h where "omap2_mcspi_set_enable c e s = s\<lparr>regs := h\<rparr>" "sent h = sent (regs s)" "queue h = queue (regs s)"
proof -
  let ?h = "writel c 0x34 (if e then 1 else 0) (regs s)"
  obtain v h where "readl c 0x34 ?h = (v, h)" by (cases "readl c 0x34 ?h")
  moreover from this have "sent h = sent (regs s)" "queue h = queue (regs s)" using assms unfolding channel_def by metis+
  ultimately show thesis
    by (intro that [of h]) (cases e, simp_all add: omap2_mcspi_set_enable_def mcspi_consts mcspi_write_reg_def mcspi_read_reg_def)
qed

section \<open>A sample channel\<close>

text \<open>Its state: the clock, what was sent, and what is to be read; a byte comes back with one added.\<close>

definition sample_channel :: "(nat \<times> u32 list \<times> u32 list) spi_chip" where
  "sample_channel =
     \<lparr>readl = (\<lambda>r (j, t, q). if r = 0x30 then (if q = [] then 2 else 3, (j, t, q)) else if r = 0x3c then (if q = [] then 0 else hd q, (j, t, tl q)) else (0, (j, t, q))),
      writel = (\<lambda>r v (j, t, q). if r = 0x38 then (j, t @ [v], q @ [v + 1]) else (j, t, q)),
      jiffies = fst, cpu_relax = (\<lambda>(j, t, q). (Suc j, t, q)), second = 100\<rparr>"

lemma sample_channel:
  "channel sample_channel (fst \<circ> snd) (snd \<circ> snd) (\<lambda>ws. last ws + 1)" "clock_runs sample_channel"
  by (auto simp: channel_def clock_runs_def sample_channel_def split: if_splits)

definition sample_spi :: "(nat \<times> u32 list \<times> u32 list) mcspi" where
  "sample_spi = \<lparr>modulctrl = 1, word_len = 0, chconf0 = 0, pin_dir = False, regs = (0, [], [])\<rparr>"

section \<open>Transfers\<close>

text \<open>
  C30: on a channel that answers, a transfer with both buffers sends the bytes of the transmit
  buffer in order, stores the answer to each at its place in the receive buffer, leaves no
  received word behind, and reports success.
\<close>

theorem spi_transfer_exchanges:
  assumes c: "channel c sent queue answer" and q: "queue (regs s) = []" and w: "word_len s < 16"
    and t: "t \<noteq> []" "length t = unat (len x)" "tx_buf x = Some t" "rx_buf x = Some b" "length b = length t"
  shows "\<exists>h. omap2_mcspi_transfer_one_message c (Some x) s =
      Some (0, Some (x\<lparr>rx_buf := Some (replies answer (sent (regs s)) t)\<rparr>), s\<lparr>regs := h\<rparr>) \<and>
    sent h = sent (regs s) @ map ucast t \<and> queue h = []"
proof -
  have n: "unat (len x) = Suc (length t - 1)" using t(1,2) by (cases t) simp_all
  then have nz: "len x \<noteq> 0" by auto
  obtain h where e: "omap2_mcspi_set_enable c True s = s\<lparr>regs := h\<rparr>" "sent h = sent (regs s)" "queue h = []"
    using set_enable_channel [OF c] q by metis
  obtain h2 where l: "pio_loop c (Some t) (Some b) 0 (len x) (s\<lparr>regs := h\<rparr>) =
      Some (0, Some (replies answer (sent h) t), s\<lparr>regs := h2\<rparr>)" "sent h2 = sent h @ map ucast t" "queue h2 = []"
    using pio_loop_exchanges [OF c n, of "s\<lparr>regs := h\<rparr>" 0 t b] e(3) t(1,5) by (auto simp: Suc_leI)
  obtain h3 where f: "omap2_mcspi_set_enable c True (s\<lparr>regs := h2\<rparr>) = s\<lparr>regs := h3\<rparr>" "sent h3 = sent h2" "queue h3 = []"
    using set_enable_channel [OF c, of True "s\<lparr>regs := h2\<rparr>"] l(3) by auto
  have g: "\<not> unat (len x) < word_len s div 8" using w n by linarith
  show ?thesis using nz e l f g t
    by (intro exI [of _ h3]) (simp add: omap2_mcspi_transfer_one_message_def omap2_mcspi_txrx_pio_def)
qed

theorem spi_transfer_exchanges_witness:
  "\<exists>h. omap2_mcspi_transfer_one_message sample_channel (Some \<lparr>tx_buf = Some [1, 7], rx_buf = Some [0, 0], len = 2\<rparr>) sample_spi =
      Some (0, Some \<lparr>tx_buf = Some [1, 7], rx_buf = Some [2, 8], len = 2\<rparr>, sample_spi\<lparr>regs := h\<rparr>) \<and> (fst \<circ> snd) h = [1, 7]"
  using spi_transfer_exchanges [OF sample_channel(1), of sample_spi "[1, 7]" "\<lparr>tx_buf = Some [1, 7], rx_buf = Some [0, 0], len = 2\<rparr>" "[0, 0]"]
  by (auto simp: sample_spi_def)

text \<open>
  C31: as long as the clock runs, a transfer comes back whatever the controller answers, with
  success or \<open>-EIO\<close>, provided the buffers hold \<open>len\<close> bytes; no access is outside them.
\<close>

theorem spi_transfer_returns:
  assumes c: "clock_runs c" and b: "covers (tx_buf x) (unat (len x))" "covers (rx_buf x) (unat (len x))"
  shows "\<exists>r x' s'. omap2_mcspi_transfer_one_message c (Some x) s = Some (r, Some x', s') \<and> (r = 0 \<or> r = - 5) \<and>
    tx_buf x' = tx_buf x \<and> len x' = len x"
proof (cases "len x = 0")
  case True
  then show ?thesis by (simp add: omap2_mcspi_transfer_one_message_def)
next
  case False
  then obtain k where k: "unat (len x) = Suc k" by (metis not0_implies_Suc unat_eq_zero)
  let ?s = "omap2_mcspi_set_enable c True s"
  let ?s = "if tx_buf x = None then mcspi_write_reg c OMAP2_MCSPI_TX0 0 ?s else ?s"
  obtain m rx' h where "pio_loop c (tx_buf x) (rx_buf x) 0 (len x) ?s = Some (m, rx', ?s\<lparr>regs := h\<rparr>)"
    using pio_loop_returns [OF c k, of "tx_buf x" 0 "rx_buf x" ?s] b k by auto
  then show ?thesis using False
    by (cases "unat (len x) < word_len ?s div 8") (simp_all add: omap2_mcspi_transfer_one_message_def omap2_mcspi_txrx_pio_def Let_def)
qed

theorem spi_transfer_returns_witness:
  "\<exists>r x' s'. omap2_mcspi_transfer_one_message (sample_channel\<lparr>readl := \<lambda>r h. (0, h)\<rparr>)
      (Some \<lparr>tx_buf = Some [1, 255], rx_buf = None, len = 2\<rparr>) sample_spi = Some (r, Some x', s') \<and> (r = 0 \<or> r = - 5)"
proof -
  have "clock_runs (sample_channel\<lparr>readl := \<lambda>r h. (0, h)\<rparr>)" by (auto simp: clock_runs_def sample_channel_def)
  from spi_transfer_returns [OF this, of "\<lparr>tx_buf = Some [1, 255], rx_buf = None, len = 2\<rparr>" sample_spi]
  show ?thesis by (auto simp: covers_def)
qed

section \<open>The channel configuration\<close>

lemma find_upt_first:
  "(case find P [k..<k + n] of Some d \<Rightarrow> k \<le> d \<and> d < k + n \<and> P d \<and> (\<forall>j. k \<le> j \<longrightarrow> j < d \<longrightarrow> \<not> P j)
    | None \<Rightarrow> \<forall>j. k \<le> j \<longrightarrow> j < k + n \<longrightarrow> \<not> P j)"
proof (induction n arbitrary: k)
  case (Suc n)
  have u: "[k..<k + Suc n] = k # [Suc k..<Suc k + n]" by (simp add: upt_conv_Cons)
  have s: "k \<le> j \<Longrightarrow> \<not> P k \<Longrightarrow> P j \<Longrightarrow> Suc k \<le> j" for j by (metis Suc_leI le_neq_implies_less)
  show ?case
  proof (cases "find P [Suc k..<Suc k + n]")
    case None
    then show ?thesis using Suc.IH [of "Suc k"] s unfolding u by (auto simp del: upt_Suc)
  next
    case (Some d)
    then show ?thesis using Suc.IH [of "Suc k"] s unfolding u by (auto simp del: upt_Suc)
  qed
qed simp

lemma calc_divisor_first:
  "omap2_mcspi_calc_divisor f \<le> 15 \<and>
   (omap2_mcspi_calc_divisor f < 15 \<longrightarrow> drop_bit (omap2_mcspi_calc_divisor f) 48000000 \<le> f) \<and>
   (\<forall>j < omap2_mcspi_calc_divisor f. f < drop_bit j 48000000)"
  using find_upt_first [where P = "\<lambda>n. drop_bit n 48000000 \<le> f" and k = 0 and n = 15]
  by (cases "find (\<lambda>n. drop_bit n 48000000 \<le> f) [0..<15]")
    (simp_all add: omap2_mcspi_calc_divisor_def mcspi_consts not_le del: upt_rec_numeral)

text \<open>The fields of the configuration: word length 8, divisor 7, and the directions of the pins.\<close>

lemma channel_config_value:
  "channel_config dir l = (if dir then l AND NOT 0x10FFF OR 0x6039C else l AND NOT 0x60FFF OR 0x1039C)"
proof -
  have d: "omap2_mcspi_calc_divisor (min 500000 OMAP2_MCSPI_MAX_FREQ) = 7" by code_simp
  show ?thesis unfolding channel_config_def d
    unfolding Let_def mcspi_consts
    by (simp add: push_bit_eq_mult and.assoc or.assoc bit.conj_disj_distrib2)
qed

text \<open>
  The divisor is the smallest, so the clock the fastest, that does not exceed the speed
  asked for; a speed below every clock gets the largest divisor, 15.
\<close>

theorem spi_divisor_fastest:
  "omap2_mcspi_calc_divisor f = (LEAST n. n = 15 \<or> drop_bit n 48000000 \<le> f)"
proof (rule sym, rule Least_equality)
  show "omap2_mcspi_calc_divisor f = 15 \<or> drop_bit (omap2_mcspi_calc_divisor f) 48000000 \<le> f"
    using calc_divisor_first [of f] by linarith
  show "omap2_mcspi_calc_divisor f \<le> y" if "y = 15 \<or> drop_bit y 48000000 \<le> f" for y
    using that calc_divisor_first [of f] by (meson not_le)
qed

text \<open>
  Opening the device succeeds, configures the channel for words of 8 bits in mode 0 at
  375 kHz with the chip selected and one data line driven, keeps every other bit of the
  configuration, and leaves this value in the controller's register.
\<close>

theorem spi_open_configures:
  "\<exists>s' h. my_open c s = (0, s') \<and> chconf0 s' AND 0xFFF = 0x39C \<and> bit (chconf0 s') 20 \<and>
     (chconf0 s' AND 0x70000 = (if pin_dir s then 0x60000 else 0x10000)) \<and>
     chconf0 s' AND NOT 0x170FFF = chconf0 s AND NOT 0x170FFF \<and>
     regs s' = snd (readl c 0x2c (writel c 0x2c (chconf0 s') h))"
proof -
  let ?l = "channel_config (pin_dir s) (chconf0 s)"
  let ?v = "?l OR 0x100000"
  define h where "h = snd (readl c 0x2c (writel c 0x2c ?l (regs s)))"
  let ?s = "s\<lparr>chconf0 := ?v, regs := snd (readl c 0x2c (writel c 0x2c ?v h))\<rparr>"
  have e: "my_open c s = (0, ?s)"
    by (simp add: my_open_def omap2_mcspi_setup_transfer_def omap2_mcspi_force_cs_def mcspi_write_chconf0_def
      mcspi_write_reg_def mcspi_read_reg_def mcspi_consts h_def case_prod_unfold Let_def)
  have "?v AND 0xFFF = 0x39C" "?v AND 0x70000 = (if pin_dir s then 0x60000 else 0x10000)"
    "?v AND NOT 0x170FFF = chconf0 s AND NOT 0x170FFF" "bit ?v 20"
    by (simp_all add: channel_config_value and.assoc or.assoc bit.conj_disj_distrib2 bit_simps)
  with e show ?thesis by (intro exI [of _ ?s] exI [of _ h]) simp
qed

section \<open>A time out on the last byte\<close>

text \<open>
  The counter is lowered before the wait, so a time out counts the byte it failed on: on a
  controller that never has room to send, a transfer of one byte reports success though nothing
  was sent, and only longer ones report \<open>-EIO\<close>.
\<close>

lemma spi_last_timeout_unreported:
  assumes c: "clock_runs c" and z: "\<And>h. fst (readl c 0x30 h) AND 2 = 0" and t: "tx_buf x = Some t" "len x \<noteq> 0"
    and w: "word_len s < 16"
  shows "\<exists>s'. omap2_mcspi_transfer_one_message c (Some x) s = Some (if len x = 1 then 0 else - 5, Some x, s')"
proof -
  let ?s = "omap2_mcspi_set_enable c True s"
  obtain h where "mcspi_wait_for_reg_bit c 0x30 2 ?s = Some (- 110, ?s\<lparr>regs := h\<rparr>)"
    using wait_returns [OF c, of "0x30" 2 ?s] z by metis
  then have l: "pio_loop c (tx_buf x) (rx_buf x) 0 (len x) ?s = Some (len x - 1, rx_buf x, ?s\<lparr>regs := h\<rparr>)"
    using t by (subst pio_loop.simps) (simp add: pio_tx_def mcspi_consts)
  have "word_len ?s = word_len s" by (simp add: omap2_mcspi_set_enable_def mcspi_write_reg_def mcspi_read_reg_def case_prod_unfold Let_def)
  moreover have "unat (len x) \<noteq> 0" using t(2) by (simp add: unat_eq_zero)
  ultimately have g: "\<not> unat (len x) < word_len ?s div 8" using w by linarith
  have n: "len x - (len x - 1) = 1" by simp
  have x: "x\<lparr>rx_buf := rx_buf x\<rparr> = x" by (cases x) simp
  have p: "omap2_mcspi_txrx_pio c x ?s = Some (1, x, omap2_mcspi_set_enable c True (?s\<lparr>regs := h\<rparr>))"
    using g l n x by (simp add: omap2_mcspi_txrx_pio_def)
  show ?thesis using t p by (auto simp: omap2_mcspi_transfer_one_message_def Let_def)
qed

end
