(* ===== verification/I2c.thy ===== *)
theory I2c
  imports Char_Device Polling
begin

text \<open>
  The I2C driver \<^verbatim>\<open>src/I2C/Code/Driver/i2c-omap.c\<close> with its user interface
  \<^verbatim>\<open>src/I2C/Code/Driver/final_char_driver.c\<close>: messages to and from one device on the bus, by
  polling the status register.

  The controller is a parameter: \<open>'h i2c_chip\<close> reads and writes 16-bit registers, and has the
  kernel's clock with its two ways to pause. \<open>i2c_dev\<close> is \<open>struct omap_i2c_dev\<close> with the state of
  the controller; the pointer \<open>buf\<close> is the object \<open>buf_mem\<close> it points into and the position
  \<open>buf_pos\<close>. Of the board's \<open>flags\<close> there are the three the driver tests. \<open>size_t\<close> and
  \<open>unsigned long\<close> have 32 bits, as on the ARM boards the driver is for. An access outside a
  buffer, a division by zero and a wait without end have no result.
\<close>

section \<open>Registers\<close>

record 'h i2c_chip =
  readw :: "nat \<Rightarrow> 'h \<Rightarrow> u16 \<times> 'h"
  writew :: "nat \<Rightarrow> u16 \<Rightarrow> 'h \<Rightarrow> 'h"
  jiffies :: "'h \<Rightarrow> nat"
  msleep :: "'h \<Rightarrow> 'h"
  mdelay :: "'h \<Rightarrow> 'h"
  second :: nat

record 'h i2c_dev =
  speed :: u32
  flag_no_fifo :: bool
  flag_16bit_data :: bool
  flag_force_19200 :: bool
  buf_mem :: "u8 list"
  buf_pos :: nat
  buf_len :: u32
  threshold :: u8
  fifo_size :: u8
  iestate :: u16
  pscstate :: u16
  scllstate :: u16
  sclhstate :: u16
  westate :: u16
  base :: 'h

text \<open>The numbers of the registers, in the order of the enumeration, and their offsets.\<close>

definition OMAP_I2C_IE_REG :: nat where "OMAP_I2C_IE_REG = 1"
definition OMAP_I2C_STAT_REG :: nat where "OMAP_I2C_STAT_REG = 2"
definition OMAP_I2C_WE_REG :: nat where "OMAP_I2C_WE_REG = 4"
definition OMAP_I2C_BUF_REG :: nat where "OMAP_I2C_BUF_REG = 6"
definition OMAP_I2C_CNT_REG :: nat where "OMAP_I2C_CNT_REG = 7"
definition OMAP_I2C_DATA_REG :: nat where "OMAP_I2C_DATA_REG = 8"
definition OMAP_I2C_CON_REG :: nat where "OMAP_I2C_CON_REG = 10"
definition OMAP_I2C_SA_REG :: nat where "OMAP_I2C_SA_REG = 12"
definition OMAP_I2C_PSC_REG :: nat where "OMAP_I2C_PSC_REG = 13"
definition OMAP_I2C_SCLL_REG :: nat where "OMAP_I2C_SCLL_REG = 14"
definition OMAP_I2C_SCLH_REG :: nat where "OMAP_I2C_SCLH_REG = 15"
definition OMAP_I2C_BUFSTAT_REG :: nat where "OMAP_I2C_BUFSTAT_REG = 17"

definition reg_map_ip_v2 :: "nat list" where
  "reg_map_ip_v2 = [0x04, 0x2c, 0x28, 0x34, 0x34, 0x90, 0x94, 0x98, 0x9c, 0x10, 0xa4, 0xa8, 0xac, 0xb0, 0xb4, 0xb8,
     0xbc, 0xc0, 0x00, 0x04, 0x24, 0x2c, 0x30]"

definition OMAP_I2C_STAT_XDR :: u16 where "OMAP_I2C_STAT_XDR = 0x4000"
definition OMAP_I2C_STAT_RDR :: u16 where "OMAP_I2C_STAT_RDR = 0x2000"
definition OMAP_I2C_STAT_BB :: u16 where "OMAP_I2C_STAT_BB = 0x1000"
definition OMAP_I2C_STAT_ROVR :: u16 where "OMAP_I2C_STAT_ROVR = 0x800"
definition OMAP_I2C_STAT_XUDF :: u16 where "OMAP_I2C_STAT_XUDF = 0x400"
definition OMAP_I2C_STAT_XRDY :: u16 where "OMAP_I2C_STAT_XRDY = 0x10"
definition OMAP_I2C_STAT_RRDY :: u16 where "OMAP_I2C_STAT_RRDY = 0x8"
definition OMAP_I2C_STAT_ARDY :: u16 where "OMAP_I2C_STAT_ARDY = 0x4"
definition OMAP_I2C_STAT_NACK :: u16 where "OMAP_I2C_STAT_NACK = 0x2"
definition OMAP_I2C_STAT_AL :: u16 where "OMAP_I2C_STAT_AL = 0x1"
definition OMAP_I2C_BUF_RXFIF_CLR :: u16 where "OMAP_I2C_BUF_RXFIF_CLR = 0x4000"
definition OMAP_I2C_BUF_TXFIF_CLR :: u16 where "OMAP_I2C_BUF_TXFIF_CLR = 0x40"
definition OMAP_I2C_CON_EN :: u16 where "OMAP_I2C_CON_EN = 0x8000"
definition OMAP_I2C_CON_OPMODE_HS :: u16 where "OMAP_I2C_CON_OPMODE_HS = 0x1000"
definition OMAP_I2C_CON_MST :: u16 where "OMAP_I2C_CON_MST = 0x400"
definition OMAP_I2C_CON_TRX :: u16 where "OMAP_I2C_CON_TRX = 0x200"
definition OMAP_I2C_CON_STP :: u16 where "OMAP_I2C_CON_STP = 0x2"
definition OMAP_I2C_CON_STT :: u16 where "OMAP_I2C_CON_STT = 0x1"

lemmas i2c_regs = OMAP_I2C_IE_REG_def OMAP_I2C_STAT_REG_def OMAP_I2C_WE_REG_def OMAP_I2C_BUF_REG_def OMAP_I2C_CNT_REG_def
  OMAP_I2C_DATA_REG_def OMAP_I2C_CON_REG_def OMAP_I2C_SA_REG_def OMAP_I2C_PSC_REG_def OMAP_I2C_SCLL_REG_def
  OMAP_I2C_SCLH_REG_def OMAP_I2C_BUFSTAT_REG_def reg_map_ip_v2_def

lemmas i2c_bits = OMAP_I2C_STAT_XDR_def OMAP_I2C_STAT_RDR_def OMAP_I2C_STAT_BB_def OMAP_I2C_STAT_ROVR_def OMAP_I2C_STAT_XUDF_def
  OMAP_I2C_STAT_XRDY_def OMAP_I2C_STAT_RRDY_def OMAP_I2C_STAT_ARDY_def OMAP_I2C_STAT_NACK_def OMAP_I2C_STAT_AL_def
  OMAP_I2C_BUF_RXFIF_CLR_def OMAP_I2C_BUF_TXFIF_CLR_def OMAP_I2C_CON_EN_def OMAP_I2C_CON_OPMODE_HS_def OMAP_I2C_CON_MST_def
  OMAP_I2C_CON_TRX_def OMAP_I2C_CON_STP_def OMAP_I2C_CON_STT_def

definition omap_i2c_write_reg :: "'h i2c_chip \<Rightarrow> nat \<Rightarrow> u16 \<Rightarrow> 'h i2c_dev \<Rightarrow> 'h i2c_dev" where
  "omap_i2c_write_reg c reg v d = d\<lparr>base := writew c (reg_map_ip_v2 ! reg) v (base d)\<rparr>"

definition omap_i2c_read_reg :: "'h i2c_chip \<Rightarrow> nat \<Rightarrow> 'h i2c_dev \<Rightarrow> u16 \<times> 'h i2c_dev" where
  "omap_i2c_read_reg c reg d = (let (v, h) = readw c (reg_map_ip_v2 ! reg) (base d) in (v, d\<lparr>base := h\<rparr>))"

definition omap_i2c_ack_stat :: "'h i2c_chip \<Rightarrow> u16 \<Rightarrow> 'h i2c_dev \<Rightarrow> 'h i2c_dev" where
  "omap_i2c_ack_stat c stat d = omap_i2c_write_reg c OMAP_I2C_STAT_REG stat d"

section \<open>Waiting\<close>

definition poll_dev ::
    "'h i2c_chip \<Rightarrow> (u16 \<Rightarrow> bool) \<Rightarrow> ('h i2c_dev \<Rightarrow> 'h i2c_dev) \<Rightarrow> ('h \<Rightarrow> 'h) \<Rightarrow> 'h i2c_dev \<Rightarrow> (bool \<times> u16 \<times> 'h i2c_dev) option" where
  "poll_dev c again work pause d =
     poll (\<lambda>d. jiffies c (base d)) (omap_i2c_read_reg c OMAP_I2C_STAT_REG) again work (\<lambda>d. d\<lparr>base := pause (base d)\<rparr>)
       (jiffies c (base d) + second c) d"

definition omap_i2c_wait_for_bb :: "'h i2c_chip \<Rightarrow> 'h i2c_dev \<Rightarrow> (int \<times> 'h i2c_dev) option" where
  "omap_i2c_wait_for_bb c d = do {
     (free, _, d) \<leftarrow> poll_dev c (\<lambda>v. v AND OMAP_I2C_STAT_BB \<noteq> 0) (\<lambda>d. d) (msleep c) d;
     Some (if free then 0 else - ETIMEDOUT, d)
   }"

definition flush_fifo :: "'h i2c_chip \<Rightarrow> 'h i2c_dev \<Rightarrow> 'h i2c_dev option" where
  "flush_fifo c d = do {
     (_, _, d) \<leftarrow> poll_dev c (\<lambda>v. v AND OMAP_I2C_STAT_RRDY \<noteq> 0)
       (\<lambda>d. omap_i2c_ack_stat c OMAP_I2C_STAT_RRDY (snd (omap_i2c_read_reg c OMAP_I2C_DATA_REG d))) (msleep c) d;
     Some d
   }"

definition event_bits :: u16 where
  "event_bits = OMAP_I2C_STAT_ROVR OR OMAP_I2C_STAT_XUDF OR OMAP_I2C_STAT_XRDY OR OMAP_I2C_STAT_RRDY OR
     OMAP_I2C_STAT_ARDY OR OMAP_I2C_STAT_NACK OR OMAP_I2C_STAT_AL"

definition wait_for_event :: "'h i2c_chip \<Rightarrow> 'h i2c_dev \<Rightarrow> (u16 \<times> 'h i2c_dev) option" where
  "wait_for_event c d = do {
     (seen, status, d) \<leftarrow> poll_dev c (\<lambda>v. v AND event_bits = 0) (\<lambda>d. d) (mdelay c) d;
     Some (if seen then (status, d) else (0, omap_i2c_write_reg c OMAP_I2C_STAT_REG 0xFFFF d))
   }"

section \<open>Initialisation\<close>

definition omap_i2c_start :: "'h i2c_chip \<Rightarrow> 'h i2c_dev \<Rightarrow> 'h i2c_dev option" where
  "omap_i2c_start c d = do {
     let d = omap_i2c_write_reg c OMAP_I2C_CON_REG 0 d;
     let d = omap_i2c_write_reg c OMAP_I2C_PSC_REG (pscstate d) d;
     let d = omap_i2c_write_reg c OMAP_I2C_SCLL_REG (scllstate d) d;
     let d = omap_i2c_write_reg c OMAP_I2C_SCLH_REG (sclhstate d) d;
     let d = omap_i2c_write_reg c OMAP_I2C_WE_REG (westate d) d;
     let d = omap_i2c_write_reg c OMAP_I2C_CON_REG OMAP_I2C_CON_EN d;
     let d = (if iestate d \<noteq> 0 then omap_i2c_write_reg c OMAP_I2C_IE_REG (iestate d) d else d);
     d \<leftarrow> flush_fifo c d;
     let d = omap_i2c_write_reg c OMAP_I2C_STAT_REG 0xFFFF d;
     (_, d) \<leftarrow> omap_i2c_wait_for_bb c d;
     Some d
   }"

text \<open>The clock settings for the rate of the functional clock in kHz: prescaler and the two SCL times.\<close>

definition internal_clk :: "u32 \<Rightarrow> bool \<Rightarrow> u32" where
  "internal_clk spd force = (if spd > 400 \<or> force then 19200 else if spd > 100 then 9600 else 4000)"

definition scl_times :: "u32 \<Rightarrow> u16 \<times> u16" where
  "scl_times scl = (ucast (scl - scl div 3 - 7), ucast (scl div 3 - 5))"

definition clock_settings :: "u32 \<Rightarrow> bool \<Rightarrow> u32 \<Rightarrow> (u16 \<times> u16 \<times> u16) option" where
  "clock_settings spd force fclk_rate =
     (let clk = internal_clk spd force;
          psc = ucast (fclk_rate div clk) - 1
      in if spd > 400
         then let (fsscll, fssclh) = scl_times (clk div 400); (hsscll, hssclh) = scl_times (fclk_rate div spd)
              in Some (psc, push_bit 8 hsscll OR fsscll, push_bit 8 hssclh OR fssclh)
         else if spd > 100
         then let (fsscll, fssclh) = scl_times (clk div spd) in Some (psc, fsscll, fssclh)
         else if spd * 2 = 0 then None
         else Some (psc, ucast (clk div (spd * 2) - 7), ucast (clk div (spd * 2) - 5)))"

definition omap_i2c_set_speed :: "u32 \<Rightarrow> 'h i2c_dev \<Rightarrow> 'h i2c_dev option" where
  "omap_i2c_set_speed clk_rate d = do {
     (psc, scll, sclh) \<leftarrow> clock_settings (speed d) (flag_force_19200 d) (clk_rate div 1000);
     Some (d\<lparr>pscstate := psc, scllstate := scll, sclhstate := sclh\<rparr>)
   }"

definition omap_i2c_init :: "'h i2c_chip \<Rightarrow> u32 \<Rightarrow> 'h i2c_dev \<Rightarrow> 'h i2c_dev option" where
  "omap_i2c_init c clk_rate d = do {
     d \<leftarrow> omap_i2c_set_speed clk_rate d;
     omap_i2c_start c (d\<lparr>iestate := 0x1F OR (if fifo_size d \<noteq> 0 then 0x6000 else 0)\<rparr>)
   }"

section \<open>Moving data\<close>

definition omap_i2c_resize_fifo :: "'h i2c_chip \<Rightarrow> u8 \<Rightarrow> bool \<Rightarrow> 'h i2c_dev \<Rightarrow> 'h i2c_dev" where
  "omap_i2c_resize_fifo c sz is_rx d =
     (if flag_no_fifo d then d
      else let d = d\<lparr>threshold := min (max sz 1) (fifo_size d)\<rparr>;
               (b, d) = omap_i2c_read_reg c OMAP_I2C_BUF_REG d;
               b = (if is_rx then (b AND NOT (push_bit 8 0x3f)) OR push_bit 8 (ucast (threshold d) - 1) OR OMAP_I2C_BUF_RXFIF_CLR
                    else (b AND NOT 0x3f) OR (ucast (threshold d) - 1) OR OMAP_I2C_BUF_TXFIF_CLR)
           in omap_i2c_write_reg c OMAP_I2C_BUF_REG b d)"

text \<open>The next byte of the buffer is read or written, and the pointer moves on.\<close>

definition take_byte :: "'h i2c_dev \<Rightarrow> (u8 \<times> 'h i2c_dev) option" where
  "take_byte d = do {
     x \<leftarrow> arr_get (buf_mem d) (buf_pos d);
     Some (x, d\<lparr>buf_pos := buf_pos d + 1, buf_len := buf_len d - 1\<rparr>)
   }"

definition put_byte :: "u8 \<Rightarrow> 'h i2c_dev \<Rightarrow> 'h i2c_dev option" where
  "put_byte x d = do {
     m \<leftarrow> arr_set (buf_mem d) (buf_pos d) x;
     Some (d\<lparr>buf_mem := m, buf_pos := buf_pos d + 1, buf_len := buf_len d - 1\<rparr>)
   }"

primrec omap_i2c_transmit_data :: "'h i2c_chip \<Rightarrow> nat \<Rightarrow> 'h i2c_dev \<Rightarrow> 'h i2c_dev option" where
  "omap_i2c_transmit_data c 0 d = Some d"
| "omap_i2c_transmit_data c (Suc num_bytes) d = do {
     (x, d) \<leftarrow> take_byte d;
     (w, d) \<leftarrow> (if flag_16bit_data d
                then do { (y, d) \<leftarrow> take_byte d; Some (ucast x OR push_bit 8 (ucast y), d) }
                else Some (ucast x, d));
     omap_i2c_transmit_data c num_bytes (omap_i2c_write_reg c OMAP_I2C_DATA_REG w d)
   }"

primrec omap_i2c_receive_data :: "'h i2c_chip \<Rightarrow> nat \<Rightarrow> 'h i2c_dev \<Rightarrow> 'h i2c_dev option" where
  "omap_i2c_receive_data c 0 d = Some d"
| "omap_i2c_receive_data c (Suc num_bytes) d = do {
     let (w, d) = omap_i2c_read_reg c OMAP_I2C_DATA_REG d;
     d \<leftarrow> put_byte (ucast w) d;
     d \<leftarrow> (if flag_16bit_data d then put_byte (ucast (drop_bit 8 w)) d else Some d);
     omap_i2c_receive_data c num_bytes d
   }"

section \<open>Messages\<close>

record i2c_msg =
  addr :: u16
  len :: u16
  buf :: "u8 list"

text \<open>
  The loop \<open>while (k--)\<close> that sends; the result is \<open>k\<close> when it ends, which is -1 when the rounds are
  used up. \<open>omap_i2c_transmit_data\<close> returns 0, so the checks of its result are not taken.
\<close>

primrec write_rounds :: "'h i2c_chip \<Rightarrow> nat \<Rightarrow> 'h i2c_dev \<Rightarrow> (int \<times> 'h i2c_dev) option" where
  "write_rounds c 0 d = Some (- 1, d)"
| "write_rounds c (Suc k) d = do {
     (status, d) \<leftarrow> wait_for_event c d;
     if status AND OMAP_I2C_STAT_XDR \<noteq> 0
     then do {
       d \<leftarrow> omap_i2c_transmit_data c (if fifo_size d \<noteq> 0 then unat (ucast (buf_len d) :: u8) else 1) d;
       Some (int k, omap_i2c_ack_stat c OMAP_I2C_STAT_XDR d)
     }
     else if status AND OMAP_I2C_STAT_XRDY \<noteq> 0
     then do {
       d \<leftarrow> omap_i2c_transmit_data c (if threshold d \<noteq> 0 then unat (threshold d) else 1) d;
       write_rounds c k (omap_i2c_ack_stat c OMAP_I2C_STAT_XRDY d)
     }
     else if status AND OMAP_I2C_STAT_ARDY \<noteq> 0 then Some (int k, omap_i2c_ack_stat c OMAP_I2C_STAT_ARDY d)
     else write_rounds c k d
   }"

text \<open>The controller's side of a message: slave address, byte count, empty buffers, and the start.\<close>

definition start_write :: "'h i2c_chip \<Rightarrow> u16 \<Rightarrow> u16 \<Rightarrow> u16 \<Rightarrow> u8 list \<Rightarrow> u32 \<Rightarrow> 'h i2c_dev \<Rightarrow> 'h i2c_dev" where
  "start_write c a cnt con m n d =
     (let d = omap_i2c_write_reg c OMAP_I2C_SA_REG a d;
          d = d\<lparr>buf_mem := m, buf_pos := 0, buf_len := n\<rparr>;
          d = omap_i2c_write_reg c OMAP_I2C_CNT_REG cnt d;
          (w, d) = omap_i2c_read_reg c OMAP_I2C_BUF_REG d;
          d = omap_i2c_write_reg c OMAP_I2C_BUF_REG (w OR OMAP_I2C_BUF_RXFIF_CLR OR OMAP_I2C_BUF_TXFIF_CLR) d
      in omap_i2c_write_reg c OMAP_I2C_CON_REG con d)"

text \<open>The common exit.\<close>

definition msg_exit :: "'h i2c_chip \<Rightarrow> 'h i2c_dev \<Rightarrow> 'h i2c_dev option" where
  "msg_exit c d = do { d \<leftarrow> flush_fifo c d; Some (omap_i2c_write_reg c OMAP_I2C_STAT_REG 0xFFFF d) }"

definition omap_i2c_write_msg :: "'h i2c_chip \<Rightarrow> i2c_msg \<Rightarrow> 'h i2c_dev \<Rightarrow> (int \<times> 'h i2c_dev) option" where
  "omap_i2c_write_msg c msg d =
     (if len msg = 0 then Some (- EINVAL, d)
      else do {
        let d = omap_i2c_resize_fifo c (ucast (len msg)) False d;
        let d = start_write c (addr msg) (len msg)
          (OMAP_I2C_CON_EN OR OMAP_I2C_CON_MST OR OMAP_I2C_CON_STT OR OMAP_I2C_CON_TRX OR OMAP_I2C_CON_STP) (buf msg) (ucast (len msg)) d;
        (k, d) \<leftarrow> write_rounds c 10 d;
        d \<leftarrow> msg_exit c d;
        Some (if k \<le> 0 then - ETIMEDOUT else 0, d)
      })"

text \<open>The loop that receives: an error of the bus, or \<open>k\<close> when it ends.\<close>

primrec read_rounds :: "'h i2c_chip \<Rightarrow> nat \<Rightarrow> 'h i2c_dev \<Rightarrow> ((int + int) \<times> 'h i2c_dev) option" where
  "read_rounds c 0 d = Some (Inr (- 1), d)"
| "read_rounds c (Suc k) d = do {
     (status, d) \<leftarrow> wait_for_event c d;
     if status = OMAP_I2C_STAT_XRDY then Some (Inl 2, d)
     else if status = 0 \<or> status AND OMAP_I2C_STAT_NACK \<noteq> 0 then Some (Inl 1, d)
     else if status AND OMAP_I2C_STAT_ARDY \<noteq> 0 then Some (Inr (int k), omap_i2c_ack_stat c OMAP_I2C_STAT_ARDY d)
     else if status AND OMAP_I2C_STAT_RDR \<noteq> 0
     then do {
       d \<leftarrow> omap_i2c_receive_data c (if fifo_size d \<noteq> 0 then unat (ucast (buf_len d) :: u8) else 1) d;
       read_rounds c k (omap_i2c_ack_stat c OMAP_I2C_STAT_RDR d)
     }
     else if status AND OMAP_I2C_STAT_RRDY \<noteq> 0
     then do {
       d \<leftarrow> omap_i2c_receive_data c (if threshold d \<noteq> 0 then unat (threshold d) else 1) d;
       read_rounds c k (omap_i2c_ack_stat c OMAP_I2C_STAT_RRDY d)
     }
     else read_rounds c k d
   }"

text \<open>
  First the position 0x5000 is sent, as the two bytes of a little-endian integer, then the data
  is received. The result has the message's buffer.
\<close>

definition omap_i2c_read_msg :: "'h i2c_chip \<Rightarrow> i2c_msg \<Rightarrow> 'h i2c_dev \<Rightarrow> (int \<times> u8 list \<times> 'h i2c_dev) option" where
  "omap_i2c_read_msg c msg d =
     (if len msg = 0 then Some (- EINVAL, buf msg, d)
      else do {
        let d = omap_i2c_resize_fifo c 2 False d;
        let w = OMAP_I2C_CON_EN OR OMAP_I2C_CON_MST OR OMAP_I2C_CON_STT;
        let w = (if speed d > 400 then w OR OMAP_I2C_CON_OPMODE_HS else w);
        let d = start_write c (addr msg) 2 (w OR OMAP_I2C_CON_TRX OR OMAP_I2C_CON_STP) [0x00, 0x50] 2 d;
        (k, d) \<leftarrow> write_rounds c 10 d;
        if k \<le> 0 then do { d \<leftarrow> msg_exit c d; Some (- ETIMEDOUT, buf msg, d) }
        else do {
          let d = d\<lparr>buf_mem := buf msg, buf_pos := 0, buf_len := ucast (len msg)\<rparr>;
          let d = omap_i2c_resize_fifo c 32 True d;
          let d = omap_i2c_write_reg c OMAP_I2C_SA_REG (addr msg) d;
          let d = omap_i2c_write_reg c OMAP_I2C_CNT_REG (ucast (buf_len d)) d;
          let d = omap_i2c_write_reg c OMAP_I2C_CON_REG (OMAP_I2C_CON_EN OR OMAP_I2C_CON_MST OR OMAP_I2C_CON_STT OR OMAP_I2C_CON_STP) d;
          (r, d) \<leftarrow> read_rounds c 10 d;
          let m = buf_mem d;
          d \<leftarrow> msg_exit c d;
          Some (case r of Inl e \<Rightarrow> e | Inr k \<Rightarrow> if k \<le> 0 then - ETIMEDOUT else 0, m, d)
        }
      })"

section \<open>The character device\<close>

text \<open>
  \<open>tmp\<close>: the memory \<open>kmalloc\<close> gives for a size, with whatever it contains; \<open>room\<close>: the bytes that
  can be stored at the user's address. The second result tells that the memory was not released.
\<close>

definition my_read ::
    "'h i2c_chip \<Rightarrow> (nat \<Rightarrow> u8 list option) \<Rightarrow> nat \<Rightarrow> nat \<Rightarrow> 'h i2c_dev \<Rightarrow> ((int + u8 list) \<times> bool \<times> 'h i2c_dev) option" where
  "my_read c tmp room count d = do {
     let count = (if count > 8192 then 8192 else count);
     case tmp count of
       None \<Rightarrow> Some (Inl (- ENOMEM), False, d)
     | Some m \<Rightarrow> do {
         (ret, d) \<leftarrow> omap_i2c_wait_for_bb c d;
         if ret < 0 then Some (Inl ret, True, d)
         else do {
           (ret, m, d) \<leftarrow> omap_i2c_read_msg c \<lparr>addr = 0x50, len = of_nat count, buf = m\<rparr> d;
           (_, d) \<leftarrow> omap_i2c_wait_for_bb c d;
           if ret \<ge> 0
           then if room < count then Some (Inl (- EFAULT), False, d)
                else do { bs \<leftarrow> mem_read m 0 count; Some (Inr bs, False, d) }
           else Some (Inl ret, False, d)
         }
       }
   }"

text \<open>\<open>ubuf\<close>: the bytes that can be read at the user's address; \<open>mem\<close>: whether there is memory for the copy.\<close>

definition my_write :: "'h i2c_chip \<Rightarrow> bool \<Rightarrow> u8 list \<Rightarrow> nat \<Rightarrow> 'h i2c_dev \<Rightarrow> (int \<times> 'h i2c_dev) option" where
  "my_write c mem ubuf count d =
     (if \<not> mem then Some (- ENOMEM, d)
      else case mem_read ubuf 0 count of
        None \<Rightarrow> Some (- EFAULT, d)
      | Some m \<Rightarrow> do {
          (ret, d) \<leftarrow> omap_i2c_write_msg c \<lparr>addr = 0x50, len = of_nat count, buf = m\<rparr> d;
          Some (if ret = 0 then int count else ret, d)
        })"

text \<open>
  Registration: the results of \<open>alloc_chrdev_region\<close> and \<open>cdev_add\<close>, and whether \<open>device_create\<close>
  returned a pointer, which it also does for an error. When \<open>cdev_add\<close> gives -1 the node stays:
  it is to be destroyed through the field \<open>class\<close>, which is never set.
\<close>

definition fcd_init :: "int \<Rightarrow> bool \<Rightarrow> int \<Rightarrow> fcd \<Rightarrow> int \<times> fcd" where
  "fcd_init alloc_chrdev_region device_create cdev_add s =
     (if alloc_chrdev_region < 0 then (- 1, s)
      else if \<not> device_create then (- 1, s\<lparr>region := False\<rparr>)
      else if cdev_add = - 1 then (- 1, s\<lparr>region := False, node := True\<rparr>)
      else (0, s\<lparr>region := True, node := True, c_dev := True\<rparr>))"

definition fcd_exit :: "fcd \<Rightarrow> fcd" where
  "fcd_exit s = s\<lparr>node := False, c_dev := False, region := False\<rparr>"

section \<open>Binding to the platform device\<close>

text \<open>The flags and the speed in kHz that the platform gives.\<close>

record i2c_platform =
  no_fifo :: bool
  data_16bit :: bool
  force_19200 :: bool
  clkrate :: u32

text \<open>
  \<open>mem\<close>: whether the structure was allocated; \<open>mapped\<close>: 0 or the error of \<open>devm_ioremap_resource\<close>;
  \<open>match\<close>: the entry of the device tree and its \<open>clock-frequency\<close>, if given; \<open>pdata\<close>: the
  platform data without a device tree; \<open>calls\<close>: the results for \<open>fcd_init\<close>, whose result is
  ignored.
\<close>

definition omap_i2c_probe ::
    "'h i2c_chip \<Rightarrow> bool \<Rightarrow> int \<Rightarrow> (i2c_platform \<times> u32 option) option \<Rightarrow> i2c_platform option \<Rightarrow> u32 \<Rightarrow> int \<times> bool \<times> int \<Rightarrow>
     'h \<Rightarrow> fcd \<Rightarrow> (int \<times> 'h i2c_dev option \<times> fcd) option" where
  "omap_i2c_probe c mem mapped match pdata clk_rate calls h f =
     (if \<not> mem then Some (- ENOMEM, None, f)
      else if mapped < 0 then Some (mapped, None, f)
      else do {
        let (p, spd) = (case match of
            Some (p, freq) \<Rightarrow> (p, (case freq of Some x \<Rightarrow> x | None \<Rightarrow> 100000) div 1000)
          | None \<Rightarrow> (case pdata of Some p \<Rightarrow> (p, clkrate p)
                                  | None \<Rightarrow> (\<lparr>no_fifo = False, data_16bit = False, force_19200 = False, clkrate = 0\<rparr>, 0)));
        let d = \<lparr>speed = spd, flag_no_fifo = no_fifo p, flag_16bit_data = data_16bit p, flag_force_19200 = force_19200 p,
                 buf_mem = [], buf_pos = 0, buf_len = 0, threshold = 0, fifo_size = 0, iestate = 0, pscstate = 0, scllstate = 0,
                 sclhstate = 0, westate = 0, base = h\<rparr>;
        let (s, d) = omap_i2c_read_reg c OMAP_I2C_BUFSTAT_REG d;
        let d = d\<lparr>fifo_size := push_bit (unat (drop_bit 14 s AND 0x3)) 0x8 div 2\<rparr>;
        d \<leftarrow> omap_i2c_init c clk_rate d;
        let (r1, r2, r3) = calls;
        Some (0, Some d, snd (fcd_init r1 r2 r3 f))
      })"

definition omap_i2c_remove :: "'h i2c_chip \<Rightarrow> 'h i2c_dev \<Rightarrow> fcd \<Rightarrow> 'h i2c_dev \<times> fcd" where
  "omap_i2c_remove c d f = (omap_i2c_write_reg c OMAP_I2C_CON_REG 0 d, fcd_exit f)"

end
