(* ===== verification/I2c_Irq.thy ===== *)
theory I2c_Irq
  imports I2c
begin

text \<open>
  The I2C driver \<^verbatim>\<open>src/I2C/Code/Driver/omap_i2c.c\<close>: the controller of \<open>I2c\<close>, driven by interrupts.
  The register accesses, the wait for a free bus, the clock settings and the copy loops are, line
  by line, those of \<^verbatim>\<open>i2c-omap.c\<close> and are taken from there.

  \<open>omap_dev\<close> is \<open>struct omap_i2c_dev\<close>: \<open>core\<close> has the fields the two drivers share, and the
  completion is the number of times it was completed.

  The controller's interrupts are a parameter of a message: one function for each, what the
  controller does by itself before it raises the interrupt. They are two lists. The interrupts
  \<open>irqs\<close> come from the start of the message to the time the waiting process runs again, and all
  of them are handled, those after the first completion too; if none of them completes the
  command, the second has passed. The interrupts \<open>late\<close> come after the process has looked at the
  completion and the error; they may still move data, and are handled before the buffer of the
  message is looked at and before the controller is reset. Interrupts in the
  middle of that reset, or after the system call has released the buffer, are not modelled.
\<close>

section \<open>State and registers\<close>

record 'h omap_dev =
  core :: "'h i2c_dev"
  cmd_err :: u16
  receiver :: bool
  cmd_complete :: nat

record i2c_flag_msg = i2c_msg +
  flags :: u16

definition OMAP_I2C_SYSS_REG :: nat where "OMAP_I2C_SYSS_REG = 5"
definition OMAP_I2C_SYSC_REG :: nat where "OMAP_I2C_SYSC_REG = 9"
definition OMAP_I2C_IP_V2_REVNB_LO :: nat where "OMAP_I2C_IP_V2_REVNB_LO = 18"
definition SYSS_RESETDONE_MASK :: u16 where "SYSS_RESETDONE_MASK = 0x1"
definition SYSC_SOFTRESET_MASK :: u16 where "SYSC_SOFTRESET_MASK = 0x2"
definition OMAP_I2C_WE_ALL :: u16 where
  "OMAP_I2C_WE_ALL = 0x4000 OR 0x2000 OR 0x200 OR 0x100 OR 0x40 OR 0x20 OR 0x8 OR 0x4 OR 0x2 OR 0x1"

lemmas irq_consts = OMAP_I2C_SYSS_REG_def OMAP_I2C_SYSC_REG_def OMAP_I2C_IP_V2_REVNB_LO_def SYSS_RESETDONE_MASK_def
  SYSC_SOFTRESET_MASK_def

text \<open>The flags of a message, from the kernel's \<^verbatim>\<open>linux/i2c.h\<close>.\<close>

abbreviation (input) I2C_M_RD :: u16 where "I2C_M_RD \<equiv> 0x0001"
abbreviation (input) I2C_M_IGNORE_NAK :: u16 where "I2C_M_IGNORE_NAK \<equiv> 0x1000"
abbreviation (input) EREMOTEIO :: int where "EREMOTEIO \<equiv> 121"

section \<open>Initialisation and reset\<close>

definition omap_i2c_hw_init :: "'h i2c_chip \<Rightarrow> 'h i2c_dev \<Rightarrow> 'h i2c_dev" where
  "omap_i2c_hw_init c d =
     (let d = omap_i2c_write_reg c OMAP_I2C_CON_REG 0 d;
          d = omap_i2c_write_reg c OMAP_I2C_PSC_REG (pscstate d) d;
          d = omap_i2c_write_reg c OMAP_I2C_SCLL_REG (scllstate d) d;
          d = omap_i2c_write_reg c OMAP_I2C_SCLH_REG (sclhstate d) d;
          d = omap_i2c_write_reg c OMAP_I2C_WE_REG (westate d) d;
          d = omap_i2c_write_reg c OMAP_I2C_CON_REG OMAP_I2C_CON_EN d
      in if iestate d \<noteq> 0 then omap_i2c_write_reg c OMAP_I2C_IE_REG (iestate d) d else d)"

definition omap_i2c_reset :: "'h i2c_chip \<Rightarrow> 'h i2c_dev \<Rightarrow> (int \<times> 'h i2c_dev) option" where
  "omap_i2c_reset c d = do {
     let (sysc, d) = omap_i2c_read_reg c OMAP_I2C_SYSC_REG d;
     let (con, d) = omap_i2c_read_reg c OMAP_I2C_CON_REG d;
     let d = omap_i2c_write_reg c OMAP_I2C_CON_REG (con AND NOT OMAP_I2C_CON_EN) d;
     let d = omap_i2c_write_reg c OMAP_I2C_SYSC_REG SYSC_SOFTRESET_MASK d;
     let timeout = jiffies c (base d) + second c;
     let d = omap_i2c_write_reg c OMAP_I2C_CON_REG OMAP_I2C_CON_EN d;
     (done, _, d) \<leftarrow> poll (\<lambda>d. jiffies c (base d)) (omap_i2c_read_reg c OMAP_I2C_SYSS_REG)
       (\<lambda>v. v AND SYSS_RESETDONE_MASK = 0) (\<lambda>d. d) (\<lambda>d. d\<lparr>base := msleep c (base d)\<rparr>) timeout d;
     Some (if done then (0, omap_i2c_write_reg c OMAP_I2C_SYSC_REG sysc d) else (- ETIMEDOUT, d))
   }"

definition omap_i2c_init :: "'h i2c_chip \<Rightarrow> u32 \<Rightarrow> 'h i2c_dev \<Rightarrow> 'h i2c_dev option" where
  "omap_i2c_init c clk_rate d = do {
     d \<leftarrow> omap_i2c_set_speed clk_rate (d\<lparr>westate := OMAP_I2C_WE_ALL\<rparr>);
     Some (omap_i2c_hw_init c (d\<lparr>iestate := 0x1F OR (if fifo_size d \<noteq> 0 then 0x6000 else 0)\<rparr>))
   }"

section \<open>Interrupts\<close>

definition omap_i2c_complete_cmd :: "u16 \<Rightarrow> 'h omap_dev \<Rightarrow> 'h omap_dev" where
  "omap_i2c_complete_cmd err s = s\<lparr>cmd_err := cmd_err s OR err, cmd_complete := cmd_complete s + 1\<rparr>"

text \<open>Whether the thread is to run.\<close>

definition omap_i2c_isr :: "'h i2c_chip \<Rightarrow> 'h omap_dev \<Rightarrow> bool \<times> 'h omap_dev" where
  "omap_i2c_isr c s =
     (let (mask, d) = omap_i2c_read_reg c OMAP_I2C_IE_REG (core s);
          (stat, d) = omap_i2c_read_reg c OMAP_I2C_STAT_REG d
      in (stat AND mask \<noteq> 0, s\<lparr>core := d\<rparr>))"

text \<open>The events of a round: those enabled, less those of the other direction.\<close>

definition isr_status :: "'h i2c_chip \<Rightarrow> bool \<Rightarrow> 'h i2c_dev \<Rightarrow> u16 \<times> 'h i2c_dev" where
  "isr_status c rx d =
     (let (bits, d) = omap_i2c_read_reg c OMAP_I2C_IE_REG d;
          (stat, d) = omap_i2c_read_reg c OMAP_I2C_STAT_REG d;
          stat = stat AND bits
      in (if rx then stat AND NOT (OMAP_I2C_STAT_XDR OR OMAP_I2C_STAT_XRDY)
          else stat AND NOT (OMAP_I2C_STAT_RDR OR OMAP_I2C_STAT_RRDY), d))"

text \<open>
  The rounds of the thread, \<open>n\<close> of them left. The result is \<open>None\<close> when there was no event, else
  the error to complete the command with; too many rounds end it without an error.
\<close>

primrec isr_rounds :: "'h i2c_chip \<Rightarrow> bool \<Rightarrow> nat \<Rightarrow> 'h i2c_dev \<Rightarrow> (u16 option \<times> 'h i2c_dev) option" where
  "isr_rounds c rx 0 d = (let (stat, d) = isr_status c rx d in Some (if stat = 0 then None else Some 0, d))"
| "isr_rounds c rx (Suc n) d =
     (let (stat, d) = isr_status c rx d in
      if stat = 0 then Some (None, d)
      else if stat AND OMAP_I2C_STAT_NACK \<noteq> 0 then Some (Some OMAP_I2C_STAT_NACK, omap_i2c_ack_stat c OMAP_I2C_STAT_NACK d)
      else if stat AND OMAP_I2C_STAT_AL \<noteq> 0 then Some (Some OMAP_I2C_STAT_AL, omap_i2c_ack_stat c OMAP_I2C_STAT_AL d)
      else if stat AND OMAP_I2C_STAT_ARDY \<noteq> 0
      then Some (Some 0, omap_i2c_ack_stat c (OMAP_I2C_STAT_RRDY OR OMAP_I2C_STAT_RDR OR OMAP_I2C_STAT_XRDY OR OMAP_I2C_STAT_XDR OR
             OMAP_I2C_STAT_ARDY) (omap_i2c_ack_stat c OMAP_I2C_STAT_ARDY d))
      else if stat AND OMAP_I2C_STAT_RDR \<noteq> 0
      then do {
        d \<leftarrow> omap_i2c_receive_data c (if fifo_size d \<noteq> 0 then unat (ucast (buf_len d) :: u8) else 1) d;
        isr_rounds c rx n (omap_i2c_ack_stat c OMAP_I2C_STAT_RDR d)
      }
      else if stat AND OMAP_I2C_STAT_RRDY \<noteq> 0
      then do {
        d \<leftarrow> omap_i2c_receive_data c (if threshold d \<noteq> 0 then unat (threshold d) else 1) d;
        isr_rounds c rx n (omap_i2c_ack_stat c OMAP_I2C_STAT_RRDY d)
      }
      else if stat AND OMAP_I2C_STAT_XDR \<noteq> 0
      then do {
        d \<leftarrow> omap_i2c_transmit_data c (if fifo_size d \<noteq> 0 then unat (ucast (buf_len d) :: u8) else 1) d;
        isr_rounds c rx n (omap_i2c_ack_stat c OMAP_I2C_STAT_XDR d)
      }
      else if stat AND OMAP_I2C_STAT_XRDY \<noteq> 0
      then do {
        d \<leftarrow> omap_i2c_transmit_data c (if threshold d \<noteq> 0 then unat (threshold d) else 1) d;
        isr_rounds c rx n (omap_i2c_ack_stat c OMAP_I2C_STAT_XRDY d)
      }
      else if stat AND OMAP_I2C_STAT_ROVR \<noteq> 0 then Some (Some OMAP_I2C_STAT_ROVR, omap_i2c_ack_stat c OMAP_I2C_STAT_ROVR d)
      else if stat AND OMAP_I2C_STAT_XUDF \<noteq> 0 then Some (Some OMAP_I2C_STAT_XUDF, omap_i2c_ack_stat c OMAP_I2C_STAT_XUDF d)
      else isr_rounds c rx n d)"

definition omap_i2c_isr_thread :: "'h i2c_chip \<Rightarrow> 'h omap_dev \<Rightarrow> 'h omap_dev option" where
  "omap_i2c_isr_thread c s = do {
     (e, d) \<leftarrow> isr_rounds c (receiver s) 100 (core s);
     let s = s\<lparr>core := d\<rparr>;
     Some (case e of None \<Rightarrow> s | Some err \<Rightarrow> omap_i2c_complete_cmd err s)
   }"

section \<open>Messages\<close>

text \<open>An interrupt, and interrupts one after the other: the handler and, if it says so, the thread.\<close>

definition interrupt :: "'h i2c_chip \<Rightarrow> ('h \<Rightarrow> 'h) \<Rightarrow> 'h omap_dev \<Rightarrow> 'h omap_dev option" where
  "interrupt c e s =
     (let (wake, s) = omap_i2c_isr c (s\<lparr>core := (core s)\<lparr>base := e (base (core s))\<rparr>\<rparr>)
      in if wake then omap_i2c_isr_thread c s else Some s)"

primrec interrupts :: "'h i2c_chip \<Rightarrow> ('h \<Rightarrow> 'h) list \<Rightarrow> 'h omap_dev \<Rightarrow> 'h omap_dev option" where
  "interrupts c [] s = Some s"
| "interrupts c (e # es) s = do { s \<leftarrow> interrupt c e s; interrupts c es s }"

text \<open>The wait for the completion, with the interrupts that come until the process runs again.\<close>

definition wait_for_completion :: "'h i2c_chip \<Rightarrow> ('h \<Rightarrow> 'h) list \<Rightarrow> 'h omap_dev \<Rightarrow> (bool \<times> 'h omap_dev) option" where
  "wait_for_completion c irqs s = do {
     s \<leftarrow> interrupts c irqs s;
     Some (cmd_complete s \<noteq> 0, s\<lparr>cmd_complete := cmd_complete s - 1\<rparr>)
   }"

text \<open>The controller's side of a message, up to the start of the transfer.\<close>

definition start_msg :: "'h i2c_chip \<Rightarrow> i2c_flag_msg \<Rightarrow> 'h omap_dev \<Rightarrow> 'h omap_dev" where
  "start_msg c msg s =
     (let rx = (flags msg AND I2C_M_RD \<noteq> 0);
          d = omap_i2c_resize_fifo c (ucast (len msg)) rx (core s);
          d = omap_i2c_write_reg c OMAP_I2C_SA_REG (addr msg) d;
          d = d\<lparr>buf_mem := buf msg, buf_pos := 0, buf_len := ucast (len msg)\<rparr>;
          d = omap_i2c_write_reg c OMAP_I2C_CNT_REG (ucast (buf_len d)) d;
          (w, d) = omap_i2c_read_reg c OMAP_I2C_BUF_REG d;
          d = omap_i2c_write_reg c OMAP_I2C_BUF_REG (w OR OMAP_I2C_BUF_RXFIF_CLR OR OMAP_I2C_BUF_TXFIF_CLR) d;
          (_, d) = omap_i2c_read_reg c OMAP_I2C_STAT_REG d;
          w = OMAP_I2C_CON_EN OR OMAP_I2C_CON_MST OR OMAP_I2C_CON_STT;
          w = (if speed d > 400 then w OR OMAP_I2C_CON_OPMODE_HS else w);
          w = (if rx then w else w OR OMAP_I2C_CON_TRX);
          d = omap_i2c_write_reg c OMAP_I2C_CON_REG (w OR OMAP_I2C_CON_STP) d
      in s\<lparr>core := d, receiver := rx, cmd_complete := 0, cmd_err := 0\<rparr>)"

text \<open>The reset after an error, whose own result is ignored.\<close>

definition recover :: "'h i2c_chip \<Rightarrow> 'h omap_dev \<Rightarrow> 'h omap_dev option" where
  "recover c s = do { (_, d) \<leftarrow> omap_i2c_reset c (core s); Some (s\<lparr>core := omap_i2c_hw_init c d\<rparr>) }"

text \<open>The end of a message, from whether the command was completed and with which error.\<close>

definition end_msg :: "'h i2c_chip \<Rightarrow> i2c_flag_msg \<Rightarrow> bool \<Rightarrow> u16 \<Rightarrow> 'h omap_dev \<Rightarrow> (int \<times> 'h omap_dev) option" where
  "end_msg c msg completed err s =
     (if \<not> completed then do { s \<leftarrow> recover c s; Some (- ETIMEDOUT, s) }
      else if err = 0 then Some (0, s)
      else if err AND (OMAP_I2C_STAT_AL OR OMAP_I2C_STAT_ROVR OR OMAP_I2C_STAT_XUDF) \<noteq> 0
      then do { s \<leftarrow> recover c s; Some (- EIO, s) }
      else if err AND OMAP_I2C_STAT_NACK \<noteq> 0
      then if flags msg AND I2C_M_IGNORE_NAK \<noteq> 0 then Some (0, s)
           else let (w, d) = omap_i2c_read_reg c OMAP_I2C_CON_REG (core s)
                in Some (- EREMOTEIO, s\<lparr>core := omap_i2c_write_reg c OMAP_I2C_CON_REG (w OR OMAP_I2C_CON_STP) d\<rparr>)
      else Some (- EIO, s))"

text \<open>The result of a message: its value and what its buffer contains then.\<close>

definition omap_i2c_xfer_msg ::
    "'h i2c_chip \<Rightarrow> ('h \<Rightarrow> 'h) list \<Rightarrow> ('h \<Rightarrow> 'h) list \<Rightarrow> i2c_flag_msg \<Rightarrow> 'h omap_dev \<Rightarrow> (int \<times> u8 list \<times> 'h omap_dev) option" where
  "omap_i2c_xfer_msg c irqs late msg s =
     (if len msg = 0 then Some (- EINVAL, buf msg, s)
      else do {
        (completed, s) \<leftarrow> wait_for_completion c irqs (start_msg c msg s);
        let err = cmd_err s;
        s \<leftarrow> interrupts c late s;
        (r, s') \<leftarrow> end_msg c msg completed err s;
        Some (r, buf_mem (core s), s')
      })"

text \<open>
  The messages, each with its interrupts, in turn up to the first that fails; the result has their buffers.
\<close>

type_synonym 'h irq_msg = "i2c_flag_msg \<times> ('h \<Rightarrow> 'h) list \<times> ('h \<Rightarrow> 'h) list"

primrec xfer_loop :: "'h i2c_chip \<Rightarrow> 'h irq_msg list \<Rightarrow> 'h omap_dev \<Rightarrow> (int \<times> u8 list list \<times> 'h omap_dev) option" where
  "xfer_loop c [] s = Some (0, [], s)"
| "xfer_loop c (m # ms) s = do {
     (r, b, s) \<leftarrow> omap_i2c_xfer_msg c (fst (snd m)) (snd (snd m)) (fst m) s;
     if r \<noteq> 0 then Some (r, b # map (buf \<circ> fst) ms, s)
     else do { (r, bs, s) \<leftarrow> xfer_loop c ms s; Some (r, b # bs, s) }
   }"

definition omap_i2c_xfer ::
    "'h i2c_chip \<Rightarrow> 'h irq_msg list \<Rightarrow> 'h omap_dev \<Rightarrow> (int \<times> u8 list list \<times> 'h omap_dev) option" where
  "omap_i2c_xfer c ms s = do {
     (r, d) \<leftarrow> omap_i2c_wait_for_bb c (core s);
     let s = s\<lparr>core := d\<rparr>;
     if r < 0 then Some (r, map (buf \<circ> fst) ms, s)
     else do {
       (r, bs, s) \<leftarrow> xfer_loop c ms s;
       (_, d) \<leftarrow> omap_i2c_wait_for_bb c (core s);
       Some (if r = 0 then int (length ms) else r, bs, s\<lparr>core := d\<rparr>)
     }
   }"

section \<open>The character device\<close>

text \<open>
  \<open>tmp\<close>: the memory \<open>kmalloc\<close> gives for a size, with whatever it contains; \<open>room\<close>: the bytes that
  can be stored at the user's address. The results are the value of the system call and what is
  stored there.
\<close>

definition my_read ::
    "'h i2c_chip \<Rightarrow> ('h \<Rightarrow> 'h) list \<Rightarrow> ('h \<Rightarrow> 'h) list \<Rightarrow> (nat \<Rightarrow> u8 list option) \<Rightarrow> nat \<Rightarrow> nat \<Rightarrow> 'h omap_dev \<Rightarrow>
      (int \<times> u8 list \<times> 'h omap_dev) option" where
  "my_read c irqs late tmp room count s = do {
     let count = (if count > 8192 then 8192 else count);
     case tmp count of
       None \<Rightarrow> Some (- ENOMEM, [], s)
     | Some m \<Rightarrow> do {
         (ret, bs, s) \<leftarrow> omap_i2c_xfer c [(\<lparr>addr = 0x50, len = of_nat count, buf = m, flags = I2C_M_RD\<rparr>, irqs, late)] s;
         if ret \<ge> 0
         then if room < count then Some (- EFAULT, [], s)
              else do { b \<leftarrow> mem_read (hd bs) 0 count; Some (ret, b, s) }
         else Some (ret, [], s)
       }
   }"

text \<open>\<open>ubuf\<close>: the bytes that can be read at the user's address; \<open>mem\<close>: whether there is memory for the copy.\<close>

definition my_write ::
    "'h i2c_chip \<Rightarrow> ('h \<Rightarrow> 'h) list \<Rightarrow> ('h \<Rightarrow> 'h) list \<Rightarrow> bool \<Rightarrow> u8 list \<Rightarrow> nat \<Rightarrow> 'h omap_dev \<Rightarrow> (int \<times> 'h omap_dev) option" where
  "my_write c irqs late mem ubuf count s =
     (if \<not> mem then Some (- ENOMEM, s)
      else case mem_read ubuf 0 count of
        None \<Rightarrow> Some (- EFAULT, s)
      | Some m \<Rightarrow> do {
          (ret, _, s) \<leftarrow> omap_i2c_xfer c [(\<lparr>addr = 0x50, len = of_nat count, buf = m, flags = 0\<rparr>, irqs, late)] s;
          Some (if ret = 1 then int count else ret, s)
        })"

section \<open>Binding to the platform device\<close>

text \<open>
  The results of the calls: the interrupt number or an error, the memory, the mapping, the
  device-tree entry with its \<open>clock-frequency\<close>, the platform data, the rate of the clock, the
  requests of the interrupt, the adapter and the device numbers, whether \<open>device_create\<close> returned
  a pointer, and \<open>cdev_add\<close>.
\<close>

record irq_calls =
  platform_get_irq :: int
  devm_kzalloc :: bool
  devm_ioremap :: int
  of_match :: "(i2c_platform \<times> u32 option) option"
  platdata :: "i2c_platform option"
  clk_get_rate :: u32
  request_threaded_irq :: int
  add_adapter :: int
  alloc_chrdev :: int
  device_create :: bool
  cdev_add :: int

definition new_dev :: "irq_calls \<Rightarrow> 'h \<Rightarrow> 'h i2c_dev" where
  "new_dev p h =
     (let (q, spd) = (case of_match p of
            Some (q, freq) \<Rightarrow> (q, (case freq of Some x \<Rightarrow> x | None \<Rightarrow> 100000) div 1000)
          | None \<Rightarrow> (case platdata p of Some q \<Rightarrow> (q, clkrate q)
                                        | None \<Rightarrow> (\<lparr>no_fifo = False, data_16bit = False, force_19200 = False, clkrate = 0\<rparr>, 0)))
      in \<lparr>speed = spd, flag_no_fifo = no_fifo q, flag_16bit_data = data_16bit q, flag_force_19200 = force_19200 q,
          buf_mem = [], buf_pos = 0, buf_len = 0, threshold = 0, fifo_size = 0, iestate = 0, pscstate = 0, scllstate = 0,
          sclhstate = 0, westate = 0, base = h\<rparr>)"

text \<open>
  The structure, whether the adapter is registered, and what is held of the character device.
  The interrupt is released with the device.
\<close>

definition omap_i2c_probe :: "'h i2c_chip \<Rightarrow> irq_calls \<Rightarrow> 'h \<Rightarrow> fcd \<Rightarrow> (int \<times> 'h omap_dev option \<times> bool \<times> fcd) option" where
  "omap_i2c_probe c p h f =
     (if platform_get_irq p < 0 then Some (platform_get_irq p, None, False, f)
      else if \<not> devm_kzalloc p then Some (- ENOMEM, None, False, f)
      else if devm_ioremap p < 0 then Some (devm_ioremap p, None, False, f)
      else do {
        let d = new_dev p (snd (readw c 0x04 h));
        let (_, d) = omap_i2c_read_reg c OMAP_I2C_IP_V2_REVNB_LO d;
        let (s, d) = omap_i2c_read_reg c OMAP_I2C_BUFSTAT_REG d;
        d \<leftarrow> omap_i2c_init c (clk_get_rate p) (d\<lparr>fifo_size := push_bit (unat (drop_bit 14 s AND 0x3)) 0x8 div 2\<rparr>);
        let t = \<lparr>core = d, cmd_err = 0, receiver = False, cmd_complete = 0\<rparr>;
        let off = t\<lparr>core := omap_i2c_write_reg c OMAP_I2C_CON_REG 0 d\<rparr>;
        Some (if request_threaded_irq p \<noteq> 0 then (request_threaded_irq p, Some off, False, f)
              else if add_adapter p \<noteq> 0 then (add_adapter p, Some off, False, f)
              else if alloc_chrdev p < 0 then (- ENODEV, Some off, True, f)
              else if \<not> device_create p then (- 1, Some t, True, f\<lparr>region := False\<rparr>)
              else if cdev_add p = - 1 then (- 1, Some t, True, f\<lparr>region := False, node := True\<rparr>)
              else (0, Some t, True, f\<lparr>region := True, node := True, c_dev := True\<rparr>))
      })"

definition omap_i2c_remove :: "'h i2c_chip \<Rightarrow> 'h omap_dev \<Rightarrow> fcd \<Rightarrow> 'h omap_dev \<times> bool \<times> fcd" where
  "omap_i2c_remove c s f =
     (s\<lparr>core := omap_i2c_write_reg c OMAP_I2C_CON_REG 0 (core s)\<rparr>, False, f\<lparr>c_dev := False, node := False, region := False\<rparr>)"

end
