(* ===== verification/I2c_Props.thy ===== *)
theory I2c_Props
  imports I2c
begin

text \<open>
  Properties of the I2C driver: the bytes of a message in both directions, the end of a message
  on a bus that does not answer, and the clock settings.
\<close>

section \<open>What the driver relies on\<close>

text \<open>
  The accesses: \<open>con h\<close> is the last value written to the configuration register (offset 0xa4),
  \<open>out h\<close> the words written to the data register (0x9c) and \<open>inp h\<close> the words that reading it
  will give.
\<close>

definition bus :: "'h i2c_chip \<Rightarrow> ('h \<Rightarrow> u16) \<Rightarrow> ('h \<Rightarrow> u16 list) \<Rightarrow> ('h \<Rightarrow> u16 list) \<Rightarrow> bool" where
  "bus c con out inp \<longleftrightarrow>
     (\<forall>r h v h'. readw c r h = (v, h') \<longrightarrow> con h' = con h \<and> out h' = out h \<and> (r \<noteq> 0x9c \<longrightarrow> inp h' = inp h)) \<and>
     (\<forall>h v h' w ws. readw c 0x9c h = (v, h') \<longrightarrow> inp h = w # ws \<longrightarrow> v = w \<and> inp h' = ws) \<and>
     (\<forall>r v h. con (writew c r v h) = (if r = 0xa4 then v else con h) \<and>
        out (writew c r v h) = (if r = 0x9c then out h @ [v] else out h) \<and> inp (writew c r v h) = inp h) \<and>
     (\<forall>h. out (msleep c h) = out h \<and> out (mdelay c h) = out h)"

text \<open>The status (0x28) while sending: ready for data until \<open>goal\<close> words were sent, then access ready.\<close>

definition takes :: "'h i2c_chip \<Rightarrow> ('h \<Rightarrow> u16) \<Rightarrow> ('h \<Rightarrow> u16 list) \<Rightarrow> nat \<Rightarrow> bool" where
  "takes c con out goal \<longleftrightarrow> (\<forall>h v h'. readw c 0x28 h = (v, h') \<longrightarrow> con h AND 0x200 \<noteq> 0 \<longrightarrow>
     v AND 0x401C = (if length (out h) < goal then 0x10 else 0x4))"

text \<open>The status while receiving: data ready as long as there is some, then access ready.\<close>

definition gives :: "'h i2c_chip \<Rightarrow> ('h \<Rightarrow> u16) \<Rightarrow> ('h \<Rightarrow> u16 list) \<Rightarrow> bool" where
  "gives c con inp \<longleftrightarrow> (\<forall>h v h'. readw c 0x28 h = (v, h') \<longrightarrow> con h AND 0x200 = 0 \<longrightarrow>
     v AND 0x200E = (if inp h = [] then 0x4 else 0x8))"

text \<open>The bus is not busy.\<close>

definition free_bus :: "'h i2c_chip \<Rightarrow> bool" where
  "free_bus c \<longleftrightarrow> (\<forall>h v h'. readw c 0x28 h = (v, h') \<longrightarrow> v AND 0x1000 = 0)"

text \<open>The status of a bus on which no one answers.\<close>

definition silent :: "'h i2c_chip \<Rightarrow> bool" where
  "silent c \<longleftrightarrow> (\<forall>h v h'. readw c 0x28 h = (v, h') \<longrightarrow> v AND 0xC1F = 0)"

text \<open>
  The clock goes on in every pause of the driver, and is not turned back by a register access. The
  kernel's clock need not tick in each single pause of \<open>mdelay\<close>, only in enough of them; that it
  ticks in each is an idealisation, which matters only for the number of rounds of a wait.
\<close>

definition clock_runs :: "'h i2c_chip \<Rightarrow> bool" where
  "clock_runs c \<longleftrightarrow> (\<forall>r h v h'. readw c r h = (v, h') \<longrightarrow> jiffies c h \<le> jiffies c h') \<and>
     (\<forall>h. jiffies c h < jiffies c (msleep c h) \<and> jiffies c h < jiffies c (mdelay c h))"

lemma busD:
  assumes "bus c con out inp"
  shows "readw c r h = (v, h') \<Longrightarrow> con h' = con h" "readw c r h = (v, h') \<Longrightarrow> out h' = out h"
    "readw c r h = (v, h') \<Longrightarrow> r \<noteq> 0x9c \<Longrightarrow> inp h' = inp h"
    "readw c 0x9c h = (v, h') \<Longrightarrow> inp h = w # ws \<Longrightarrow> v = w \<and> inp h' = ws"
    "con (writew c r v h) = (if r = 0xa4 then v else con h)" "out (writew c r v h) = (if r = 0x9c then out h @ [v] else out h)"
    "inp (writew c r v h) = inp h" "out (msleep c h) = out h" "out (mdelay c h) = out h"
  using assms unfolding bus_def by blast+

section \<open>Waiting\<close>

lemma read_reg_eq: "readw c (reg_map_ip_v2 ! reg) (base d) = (v, h) \<Longrightarrow> omap_i2c_read_reg c reg d = (v, d\<lparr>base := h\<rparr>)"
  by (simp add: omap_i2c_read_reg_def)

lemma event_bits: "event_bits = 0xC1F"
  by (simp add: event_bits_def i2c_bits)

lemma wait_for_event_now:
  assumes "readw c 0x28 (base d) = (v, h)" "v AND 0xC1F \<noteq> 0"
  shows "wait_for_event c d = Some (v, d\<lparr>base := h\<rparr>)"
  using assms by (simp add: wait_for_event_def poll_dev_def event_bits poll_now read_reg_eq i2c_regs)

lemma flush_fifo_empty:
  assumes "readw c 0x28 (base d) = (v, h)" "v AND 0x8 = 0"
  shows "flush_fifo c d = Some (d\<lparr>base := h\<rparr>)"
  using assms by (simp add: flush_fifo_def poll_dev_def poll_now read_reg_eq i2c_regs i2c_bits)

lemma wait_for_bb_free:
  assumes "readw c 0x28 (base d) = (v, h)" "v AND 0x1000 = 0"
  shows "omap_i2c_wait_for_bb c d = Some (0, d\<lparr>base := h\<rparr>)"
  using assms by (simp add: omap_i2c_wait_for_bb_def poll_dev_def poll_now read_reg_eq i2c_regs i2c_bits)

section \<open>Sending\<close>

lemma transmit_sends:
  assumes b: "bus c con out inp"
  shows "\<not> flag_16bit_data d \<Longrightarrow> buf_pos d + n \<le> length (buf_mem d) \<Longrightarrow>
    \<exists>h. omap_i2c_transmit_data c n d = Some (d\<lparr>buf_pos := buf_pos d + n, buf_len := buf_len d - of_nat n, base := h\<rparr>) \<and>
      out h = out (base d) @ map ucast (take n (drop (buf_pos d) (buf_mem d))) \<and> con h = con (base d) \<and> inp h = inp (base d)"
proof (induction n arbitrary: d)
  case 0
  then show ?case by (intro exI [of _ "base d"]) simp
next
  case (Suc n)
  let ?x = "buf_mem d ! buf_pos d"
  let ?d = "d\<lparr>buf_pos := buf_pos d + 1, buf_len := buf_len d - 1, base := writew c 0x9c (ucast ?x) (base d)\<rparr>"
  have i: "buf_pos d < length (buf_mem d)" using Suc.prems by simp
  obtain h where h: "omap_i2c_transmit_data c n ?d = Some (?d\<lparr>buf_pos := buf_pos ?d + n, buf_len := buf_len ?d - of_nat n, base := h\<rparr>)"
      "out h = out (base ?d) @ map ucast (take n (drop (buf_pos ?d) (buf_mem ?d)))" "con h = con (base ?d)" "inp h = inp (base ?d)"
    using Suc.IH [of ?d] Suc.prems by auto
  have s: "omap_i2c_transmit_data c (Suc n) d = omap_i2c_transmit_data c n ?d"
    using Suc.prems(1) i by (simp add: take_byte_def mem_simps omap_i2c_write_reg_def i2c_regs)
  have t: "take (Suc n) (drop (buf_pos d) (buf_mem d)) = ?x # take n (drop (Suc (buf_pos d)) (buf_mem d))"
    using i by (simp add: Cons_nth_drop_Suc [symmetric])
  have "out h = out (base d) @ map ucast (take (Suc n) (drop (buf_pos d) (buf_mem d)))" unfolding t using h(2) busD(6) [OF b] by simp
  moreover have "con h = con (base d)" "inp h = inp (base d)" using h(3,4) busD(5,7) [OF b] by simp_all
  ultimately show ?case using s h(1) by (intro exI [of _ h]) (simp add: algebra_simps)
qed

lemma write_round_ready:
  assumes "wait_for_event c d = Some (v, d1)" "v AND 0x4000 = 0" "v AND 0x10 \<noteq> 0" "threshold d1 \<noteq> 0"
    and "omap_i2c_transmit_data c (unat (threshold d1)) d1 = Some d2"
  shows "write_rounds c (Suc k) d = write_rounds c k (d2\<lparr>base := writew c 0x28 0x10 (base d2)\<rparr>)"
  using assms by (simp add: i2c_bits i2c_regs omap_i2c_ack_stat_def omap_i2c_write_reg_def)

lemma write_rounds_sends:
  assumes b: "bus c con out inp" and g: "takes c con out goal"
  shows "\<not> flag_16bit_data d \<Longrightarrow> 0 < t \<Longrightarrow> unat (threshold d) = t \<Longrightarrow> buf_pos d + t * m = length (buf_mem d) \<Longrightarrow>
    length (out (base d)) + t * m = goal \<Longrightarrow> con (base d) AND 0x200 \<noteq> 0 \<Longrightarrow>
    \<exists>p n h. write_rounds c (Suc (m + k)) d = Some (int k, d\<lparr>buf_pos := p, buf_len := n, base := h\<rparr>) \<and>
      out h = out (base d) @ map ucast (drop (buf_pos d) (buf_mem d)) \<and> con h = con (base d) \<and> inp h = inp (base d)"
proof (induction m arbitrary: d)
  case 0
  obtain v h where r: "readw c 0x28 (base d) = (v, h)" by (cases "readw c 0x28 (base d)")
  have v: "v AND 0x401C = 0x4" using g r 0(5,6) unfolding takes_def by fastforce
  have w: "v AND 0x4000 = 0" "v AND 0x10 = 0" "v AND 0x4 = 0x4"
    using mask_bit [OF v, of "0x4000"] mask_bit [OF v, of "0x10"] mask_bit [OF v, of "0x4"] by simp_all
  have "v AND 0xC1F \<noteq> 0" by (rule mask_nonzero [of v "0x4"]) (simp_all add: w)
  then have e: "wait_for_event c d = Some (v, d\<lparr>base := h\<rparr>)" by (rule wait_for_event_now [OF r])
  have "write_rounds c (Suc (0 + k)) d = Some (int k, d\<lparr>base := writew c 0x28 0x4 h\<rparr>)"
    using e w by (simp add: i2c_bits i2c_regs omap_i2c_ack_stat_def omap_i2c_write_reg_def)
  then show ?case using 0(4) busD(1,2,3) [OF b r] busD(5-7) [OF b]
    by (intro exI [of _ "buf_pos d"] exI [of _ "buf_len d"] exI [of _ "writew c 0x28 0x4 h"]) simp
next
  case (Suc m)
  obtain v h where r: "readw c 0x28 (base d) = (v, h)" by (cases "readw c 0x28 (base d)")
  have "length (out (base d)) < goal" using Suc.prems(2,5) by simp
  then have v: "v AND 0x401C = 0x10" using g r Suc.prems(6) unfolding takes_def by fastforce
  have w: "v AND 0x4000 = 0" "v AND 0x10 = 0x10" using mask_bit [OF v, of "0x4000"] mask_bit [OF v, of "0x10"] by simp_all
  have "v AND 0xC1F \<noteq> 0" by (rule mask_nonzero [of v "0x10"]) (simp_all add: w)
  then have e: "wait_for_event c d = Some (v, d\<lparr>base := h\<rparr>)" by (rule wait_for_event_now [OF r])
  have l: "buf_pos d + t \<le> length (buf_mem d)" using Suc.prems(4) by (simp add: algebra_simps)
  obtain h2 where t: "omap_i2c_transmit_data c t (d\<lparr>base := h\<rparr>) = Some (d\<lparr>buf_pos := buf_pos d + t, buf_len := buf_len d - of_nat t, base := h2\<rparr>)"
      "out h2 = out (base d) @ map ucast (take t (drop (buf_pos d) (buf_mem d)))" "con h2 = con (base d)" "inp h2 = inp (base d)"
    using transmit_sends [OF b, of "d\<lparr>base := h\<rparr>" t] Suc.prems(1) l busD(1,2,3) [OF b r] by auto
  let ?d = "d\<lparr>buf_pos := buf_pos d + t, buf_len := buf_len d - of_nat t, base := writew c 0x28 0x10 h2\<rparr>"
  have "threshold d \<noteq> 0" using Suc.prems(2,3) by auto
  then have s: "write_rounds c (Suc (Suc m + k)) d = write_rounds c (Suc (m + k)) ?d"
    using write_round_ready [OF e w(1)] w(2) t(1) Suc.prems(3) by simp
  have o: "out (base ?d) = out (base d) @ map ucast (take t (drop (buf_pos d) (buf_mem d)))" "con (base ?d) = con (base d)" "inp (base ?d) = inp (base d)"
    using t busD(5-7) [OF b] by simp_all
  have "buf_pos ?d + t * m = length (buf_mem ?d)" using Suc.prems(4) by (simp add: algebra_simps)
  moreover have "length (out (base ?d)) + t * m = goal" using Suc.prems(5) l unfolding o(1) by (simp add: algebra_simps)
  moreover have "con (base ?d) AND 0x200 \<noteq> 0" using Suc.prems(6) o(2) by simp
  ultimately obtain p n h' where i: "write_rounds c (Suc (m + k)) ?d = Some (int k, ?d\<lparr>buf_pos := p, buf_len := n, base := h'\<rparr>)"
      "out h' = out (base ?d) @ map ucast (drop (buf_pos ?d) (buf_mem ?d))" "con h' = con (base ?d)" "inp h' = inp (base ?d)"
    using Suc.IH [of ?d] Suc.prems(1-3) by auto
  have "drop (buf_pos d) (buf_mem d) = take t (drop (buf_pos d) (buf_mem d)) @ drop (buf_pos d + t) (buf_mem d)"
    by (metis append_take_drop_id drop_drop add.commute)
  from arg_cong [OF this, of "map (ucast :: u8 \<Rightarrow> u16)"]
  have "out h' = out (base d) @ map ucast (drop (buf_pos d) (buf_mem d))" using i(2) o(1) by simp
  then show ?case using s i o by (intro exI [of _ p] exI [of _ n] exI [of _ h']) simp
qed

section \<open>Around the data\<close>

text \<open>The ghost values \<open>out\<close> and \<open>inp\<close> are the same in two states.\<close>

definition same_data :: "('h \<Rightarrow> u16 list) \<Rightarrow> ('h \<Rightarrow> u16 list) \<Rightarrow> 'h \<Rightarrow> 'h \<Rightarrow> bool" where
  "same_data out inp h h' \<longleftrightarrow> out h' = out h \<and> inp h' = inp h"

lemma resize_fifo_keeps:
  assumes b: "bus c con out inp" and "\<not> flag_no_fifo d"
  obtains h where "omap_i2c_resize_fifo c sz rx d = d\<lparr>threshold := min (max sz 1) (fifo_size d), base := h\<rparr>"
    "same_data out inp (base d) h" "con h = con (base d)"
proof -
  obtain v h where r: "readw c 0x94 (base d) = (v, h)" by (cases "readw c 0x94 (base d)")
  have "\<exists>x. omap_i2c_resize_fifo c sz rx d = d\<lparr>threshold := min (max sz 1) (fifo_size d), base := writew c 0x94 x h\<rparr>"
    using assms(2) r by (auto simp: omap_i2c_resize_fifo_def omap_i2c_read_reg_def omap_i2c_write_reg_def i2c_regs Let_def)
  then obtain x where "omap_i2c_resize_fifo c sz rx d = d\<lparr>threshold := min (max sz 1) (fifo_size d), base := writew c 0x94 x h\<rparr>" ..
  then show thesis using busD(1-3) [OF b r] busD(5-7) [OF b] by (intro that) (assumption, simp_all add: same_data_def)
qed

lemma resize_fifo_speed [simp]: "speed (omap_i2c_resize_fifo c sz rx d) = speed d"
  by (simp add: omap_i2c_resize_fifo_def omap_i2c_read_reg_def omap_i2c_write_reg_def Let_def split: prod.splits)

lemma start_write_keeps:
  assumes b: "bus c con out inp"
  obtains h where "start_write c a cnt con' m n d = d\<lparr>buf_mem := m, buf_pos := 0, buf_len := n, base := h\<rparr>"
    "same_data out inp (base d) h" "con h = con'"
proof -
  let ?h = "writew c 0x98 cnt (writew c 0xac a (base d))"
  obtain v h where r: "readw c 0x94 ?h = (v, h)" by (cases "readw c 0x94 ?h")
  have "start_write c a cnt con' m n d =
      d\<lparr>buf_mem := m, buf_pos := 0, buf_len := n, base := writew c 0xa4 con' (writew c 0x94 (v OR 0x4000 OR 0x40) h)\<rparr>"
    using r by (simp add: start_write_def omap_i2c_read_reg_def omap_i2c_write_reg_def i2c_regs i2c_bits)
  then show thesis using busD(1-3) [OF b r] busD(5-7) [OF b] by (intro that) (assumption, simp_all add: same_data_def)
qed

lemma msg_exit_keeps:
  assumes b: "bus c con out inp" and r: "readw c 0x28 (base d) = (v, h)" and "v AND 0x8 = 0"
  obtains h' where "msg_exit c d = Some (d\<lparr>base := h'\<rparr>)" "same_data out inp (base d) h'" "con h' = con (base d)"
proof -
  have "msg_exit c d = Some (d\<lparr>base := writew c 0x28 0xFFFF h\<rparr>)"
    using flush_fifo_empty [OF r assms(3)] by (simp add: msg_exit_def omap_i2c_write_reg_def i2c_regs)
  then show thesis using busD(1-3) [OF b r] busD(5-7) [OF b] by (intro that) (assumption, simp_all add: same_data_def)
qed

lemma exit_after_write:
  assumes b: "bus c con out inp" and g: "takes c con out goal" and "con (base d) AND 0x200 \<noteq> 0"
  obtains h' where "msg_exit c d = Some (d\<lparr>base := h'\<rparr>)" "same_data out inp (base d) h'" "con h' = con (base d)"
proof -
  obtain v h where r: "readw c 0x28 (base d) = (v, h)" by (cases "readw c 0x28 (base d)")
  then have v: "v AND 0x401C = (if length (out (base d)) < goal then 0x10 else 0x4)"
    using g assms(3) unfolding takes_def by blast
  have "v AND 0x8 = 0" using mask_bit [OF v, of "0x8"] by (simp split: if_splits)
  from msg_exit_keeps [OF b r this] that show thesis by blast
qed

section \<open>A sample device\<close>

text \<open>
  Its state: the clock, the configuration, what was sent to it and what it will send; it takes
  \<open>goal\<close> words.
\<close>

definition sample_device :: "nat \<Rightarrow> (nat \<times> u16 \<times> u16 list \<times> u16 list) i2c_chip" where
  "sample_device goal =
     \<lparr>readw = (\<lambda>r (j, con, out, inp).
        if r = 0x28
        then (if con AND 0x200 \<noteq> 0 then if length out < goal then 0x10 else 0x4 else if inp = [] then 0x4 else 0x8, (j, con, out, inp))
        else if r = 0x9c then (if inp = [] then 0 else hd inp, (j, con, out, tl inp)) else (0, (j, con, out, inp))),
      writew = (\<lambda>r v (j, con, out, inp). (j, if r = 0xa4 then v else con, if r = 0x9c then out @ [v] else out, inp)),
      jiffies = fst, msleep = (\<lambda>(j, s). (Suc j, s)), mdelay = (\<lambda>(j, s). (Suc j, s)), second = 100\<rparr>"

definition s_con :: "nat \<times> u16 \<times> u16 list \<times> u16 list \<Rightarrow> u16" where "s_con = fst \<circ> snd"
definition s_out :: "nat \<times> u16 \<times> u16 list \<times> u16 list \<Rightarrow> u16 list" where "s_out = fst \<circ> snd \<circ> snd"
definition s_inp :: "nat \<times> u16 \<times> u16 list \<times> u16 list \<Rightarrow> u16 list" where "s_inp = snd \<circ> snd \<circ> snd"

lemma sample_device:
  "bus (sample_device goal) s_con s_out s_inp" "takes (sample_device goal) s_con s_out goal"
  "gives (sample_device goal) s_con s_inp" "free_bus (sample_device goal)" "clock_runs (sample_device goal)"
  by (auto simp: bus_def takes_def gives_def free_bus_def clock_runs_def sample_device_def s_con_def s_out_def s_inp_def split: if_splits)

definition sample_i2c :: "u16 list \<Rightarrow> (nat \<times> u16 \<times> u16 list \<times> u16 list) i2c_dev" where
  "sample_i2c inp =
     \<lparr>speed = 100, flag_no_fifo = False, flag_16bit_data = False, flag_force_19200 = False, buf_mem = [], buf_pos = 0, buf_len = 0,
      threshold = 0, fifo_size = 4, iestate = 0, pscstate = 0, scllstate = 0, sclhstate = 0, westate = 0, base = (0, 0, [], inp)\<rparr>"

section \<open>Messages to the device\<close>

text \<open>
  C32: a message whose length is a multiple of the FIFO threshold, up to nine of them, is sent
  completely and in order to a device that takes it. The write reports success when there are at
  most eight; with nine the last of the ten rounds is used for the end of the message, and the
  driver reports a time out though all was sent.
\<close>

theorem i2c_write_sends:
  assumes b: "bus c con out inp" and g: "takes c con out (length (out (base d)) + length (buf msg))"
    and d: "\<not> flag_16bit_data d" "\<not> flag_no_fifo d" "fifo_size d \<noteq> 0"
    and l: "buf msg \<noteq> []" "length (buf msg) = unat (len msg)"
    and t: "unat (len msg) = unat (min (max (ucast (len msg)) 1) (fifo_size d)) * m" "m \<le> 9"
  shows "\<exists>d'. omap_i2c_write_msg c msg d = Some (if m = 9 then - 110 else 0, d') \<and>
    out (base d') = out (base d) @ map ucast (buf msg) \<and> inp (base d') = inp (base d)"
proof -
  let ?t = "min (max (ucast (len msg)) 1) (fifo_size d)"
  have tp: "0 < unat ?t" using t(1) l by (intro gr0I) auto
  have ln: "len msg \<noteq> 0" using l by auto
  obtain h1 where r: "omap_i2c_resize_fifo c (ucast (len msg)) False d = d\<lparr>threshold := ?t, base := h1\<rparr>"
      "same_data out inp (base d) h1" by (rule resize_fifo_keeps [OF b d(2)])
  obtain h2 where s: "start_write c (addr msg) (len msg) 0x8603 (buf msg) (ucast (len msg)) (d\<lparr>threshold := ?t, base := h1\<rparr>) =
      d\<lparr>threshold := ?t, buf_mem := buf msg, buf_pos := 0, buf_len := ucast (len msg), base := h2\<rparr>"
      "same_data out inp h1 h2" "con h2 = 0x8603"
    by (rule start_write_keeps [OF b, of "addr msg" "len msg" "0x8603" "buf msg" "ucast (len msg)" "d\<lparr>threshold := ?t, base := h1\<rparr>"]) simp
  let ?d = "d\<lparr>threshold := ?t, buf_mem := buf msg, buf_pos := 0, buf_len := ucast (len msg), base := h2\<rparr>"
  have o: "out h2 = out (base d)" "inp h2 = inp (base d)" using r(2) s(2) by (simp_all add: same_data_def)
  have k: "Suc (m + (9 - m)) = 10" using t(2) by simp
  have "\<exists>p n h. write_rounds c (Suc (m + (9 - m))) ?d = Some (int (9 - m), ?d\<lparr>buf_pos := p, buf_len := n, base := h\<rparr>) \<and>
      out h = out (base ?d) @ map ucast (drop (buf_pos ?d) (buf_mem ?d)) \<and> con h = con (base ?d) \<and> inp h = inp (base ?d)"
    by (rule write_rounds_sends [OF b g, of ?d "unat ?t" m]) (use d tp t l o s(3) in simp_all)
  then obtain p n h where w: "write_rounds c 10 ?d = Some (int (9 - m), ?d\<lparr>buf_pos := p, buf_len := n, base := h\<rparr>)"
      "out h = out (base d) @ map ucast (buf msg)" "con h = 0x8603" "inp h = inp (base d)"
    unfolding k using o s(3) by auto
  obtain h' where e: "msg_exit c (?d\<lparr>buf_pos := p, buf_len := n, base := h\<rparr>) = Some (?d\<lparr>buf_pos := p, buf_len := n, base := h\<rparr>\<lparr>base := h'\<rparr>)"
      "same_data out inp h h'"
    by (rule exit_after_write [OF b g, of "?d\<lparr>buf_pos := p, buf_len := n, base := h\<rparr>"]) (use w(3) in simp_all)
  have "omap_i2c_write_msg c msg d = Some (if m = 9 then - 110 else 0, ?d\<lparr>buf_pos := p, buf_len := n, base := h\<rparr>\<lparr>base := h'\<rparr>)"
    using ln r(1) s(1) w(1) e(1) t(2) by (auto simp: omap_i2c_write_msg_def i2c_bits)
  then show ?thesis using w e(2) by (auto simp: same_data_def)
qed

theorem i2c_write_sends_witness:
  "\<exists>d'. omap_i2c_write_msg (sample_device 8) \<lparr>addr = 0x50, len = 8, buf = [1, 2, 3, 4, 5, 6, 7, 8]\<rparr> (sample_i2c []) = Some (0, d') \<and>
    s_out (base d') = [1, 2, 3, 4, 5, 6, 7, 8]"
proof -
  let ?msg = "\<lparr>addr = 0x50, len = 8, buf = [1, 2, 3, 4, 5, 6, 7, 8]\<rparr>"
  have t: "min (max (ucast (8 :: u16)) 1) 4 = (4 :: u8)" by code_simp
  have "takes (sample_device 8) s_con s_out (length (s_out (base (sample_i2c []))) + length (buf ?msg))"
    using sample_device(2) [of 8] by (simp add: sample_i2c_def s_out_def eval_nat_numeral)
  from i2c_write_sends [OF sample_device(1) this, of 2] show ?thesis using t by (auto simp: sample_i2c_def s_out_def)
qed

section \<open>Receiving\<close>

lemma receive_stores:
  assumes b: "bus c con out inp"
  shows "\<not> flag_16bit_data d \<Longrightarrow> n \<le> length (inp (base d)) \<Longrightarrow> buf_pos d + n \<le> length (buf_mem d) \<Longrightarrow>
    \<exists>h. omap_i2c_receive_data c n d = Some (d\<lparr>buf_mem := take (buf_pos d) (buf_mem d) @ map ucast (take n (inp (base d))) @ drop (buf_pos d + n) (buf_mem d),
        buf_pos := buf_pos d + n, buf_len := buf_len d - of_nat n, base := h\<rparr>) \<and>
      inp h = drop n (inp (base d)) \<and> out h = out (base d) \<and> con h = con (base d)"
proof (induction n arbitrary: d)
  case 0
  then show ?case by (intro exI [of _ "base d"]) simp
next
  case (Suc n)
  let ?p = "buf_pos d" and ?m = "buf_mem d"
  obtain w ws where i: "inp (base d) = w # ws" using Suc.prems(2) by (cases "inp (base d)") simp_all
  obtain v h1 where r: "readw c 0x9c (base d) = (v, h1)" by (cases "readw c 0x9c (base d)")
  have v: "v = w" "inp h1 = ws" "out h1 = out (base d)" "con h1 = con (base d)" using busD(4) [OF b r i] busD(1,2) [OF b r] by simp_all
  let ?d = "d\<lparr>buf_mem := ?m[?p := ucast w], buf_pos := ?p + 1, buf_len := buf_len d - 1, base := h1\<rparr>"
  have pm: "?p < length ?m" using Suc.prems(3) by simp
  have s: "omap_i2c_receive_data c (Suc n) d = omap_i2c_receive_data c n ?d"
    using Suc.prems(1) pm r v(1) by (cases d) (simp add: put_byte_def mem_simps omap_i2c_read_reg_def i2c_regs)
  obtain h where h: "omap_i2c_receive_data c n ?d = Some (?d\<lparr>buf_mem := take (buf_pos ?d) (buf_mem ?d) @ map ucast (take n (inp (base ?d))) @ drop (buf_pos ?d + n) (buf_mem ?d),
        buf_pos := buf_pos ?d + n, buf_len := buf_len ?d - of_nat n, base := h\<rparr>)"
      "inp h = drop n (inp (base ?d))" "out h = out (base ?d)" "con h = con (base ?d)"
    using Suc.IH [of ?d] Suc.prems i v(2) by auto
  have t: "take (Suc ?p) (?m[?p := ucast w]) = take ?p ?m @ [ucast w]" using pm by (simp add: take_Suc_conv_app_nth)
  show ?case using s h v i t by (intro exI [of _ h]) (simp add: algebra_simps)
qed

lemma read_round_ready:
  assumes "wait_for_event c d = Some (v, d1)" "v AND 0x2 = 0" "v AND 0x4 = 0" "v AND 0x2000 = 0" "v AND 0x8 \<noteq> 0" "threshold d1 \<noteq> 0"
    and "omap_i2c_receive_data c (unat (threshold d1)) d1 = Some d2"
  shows "read_rounds c (Suc k) d = read_rounds c k (d2\<lparr>base := writew c 0x28 0x8 (base d2)\<rparr>)"
proof -
  have "v \<noteq> 0x10" "v \<noteq> 0" using assms(5) by auto
  then show ?thesis using assms by (simp add: i2c_bits i2c_regs omap_i2c_ack_stat_def omap_i2c_write_reg_def)
qed

lemma read_rounds_stores:
  assumes b: "bus c con out inp" and g: "gives c con inp"
  shows "\<not> flag_16bit_data d \<Longrightarrow> 0 < t \<Longrightarrow> unat (threshold d) = t \<Longrightarrow> buf_pos d + t * m = length (buf_mem d) \<Longrightarrow>
    length (inp (base d)) = t * m \<Longrightarrow> con (base d) AND 0x200 = 0 \<Longrightarrow>
    \<exists>p n h. read_rounds c (Suc (m + k)) d =
        Some (Inr (int k), d\<lparr>buf_mem := take (buf_pos d) (buf_mem d) @ map ucast (inp (base d)), buf_pos := p, buf_len := n, base := h\<rparr>) \<and>
      inp h = [] \<and> out h = out (base d) \<and> con h = con (base d)"
proof (induction m arbitrary: d)
  case 0
  obtain v h where r: "readw c 0x28 (base d) = (v, h)" by (cases "readw c 0x28 (base d)")
  have i: "inp (base d) = []" using 0(5) by simp
  have v: "v AND 0x200E = 0x4" using g r i 0(6) unfolding gives_def by fastforce
  have w: "v AND 0x2 = 0" "v AND 0x4 = 0x4" using mask_bit [OF v, of "0x2"] mask_bit [OF v, of "0x4"] by simp_all
  have z: "v \<noteq> 0x10" "v \<noteq> 0" using w(2) by auto
  have "v AND 0xC1F \<noteq> 0" by (rule mask_nonzero [of v "0x4"]) (simp_all add: w)
  then have e: "wait_for_event c d = Some (v, d\<lparr>base := h\<rparr>)" by (rule wait_for_event_now [OF r])
  have "read_rounds c (Suc (0 + k)) d = Some (Inr (int k), d\<lparr>base := writew c 0x28 0x4 h\<rparr>)"
    using e w z by (simp add: i2c_bits i2c_regs omap_i2c_ack_stat_def omap_i2c_write_reg_def)
  then show ?case using 0(4) i busD(1,2,3) [OF b r] busD(5-7) [OF b]
    by (intro exI [of _ "buf_pos d"] exI [of _ "buf_len d"] exI [of _ "writew c 0x28 0x4 h"]) simp
next
  case (Suc m)
  obtain v h where r: "readw c 0x28 (base d) = (v, h)" by (cases "readw c 0x28 (base d)")
  have "inp (base d) \<noteq> []" using Suc.prems(2,5) by auto
  then have v: "v AND 0x200E = 0x8" using g r Suc.prems(6) unfolding gives_def by fastforce
  have w: "v AND 0x2 = 0" "v AND 0x4 = 0" "v AND 0x2000 = 0" "v AND 0x8 = 0x8"
    using mask_bit [OF v, of "0x2"] mask_bit [OF v, of "0x4"] mask_bit [OF v, of "0x2000"] mask_bit [OF v, of "0x8"] by simp_all
  have "v AND 0xC1F \<noteq> 0" by (rule mask_nonzero [of v "0x8"]) (simp_all add: w)
  then have e: "wait_for_event c d = Some (v, d\<lparr>base := h\<rparr>)" by (rule wait_for_event_now [OF r])
  let ?p = "buf_pos d" and ?b = "buf_mem d" and ?i = "inp (base d)"
  let ?b' = "take ?p ?b @ map ucast (take t ?i) @ drop (?p + t) ?b"
  have l: "?p + t \<le> length ?b" "t \<le> length ?i" using Suc.prems(4,5) by (simp_all add: algebra_simps)
  obtain h2 where t: "omap_i2c_receive_data c t (d\<lparr>base := h\<rparr>) = Some (d\<lparr>buf_mem := ?b', buf_pos := ?p + t, buf_len := buf_len d - of_nat t, base := h2\<rparr>)"
      "inp h2 = drop t ?i" "out h2 = out (base d)" "con h2 = con (base d)"
    using receive_stores [OF b, of "d\<lparr>base := h\<rparr>" t] Suc.prems(1) l busD(1-3) [OF b r] by auto
  let ?d = "d\<lparr>buf_mem := ?b', buf_pos := ?p + t, buf_len := buf_len d - of_nat t, base := writew c 0x28 0x8 h2\<rparr>"
  have "threshold d \<noteq> 0" using Suc.prems(2,3) by auto
  then have s: "read_rounds c (Suc (Suc m + k)) d = read_rounds c (Suc (m + k)) ?d"
    using read_round_ready [OF e w(1-3)] w(4) t(1) Suc.prems(3) by simp
  have o: "inp (base ?d) = drop t ?i" "out (base ?d) = out (base d)" "con (base ?d) = con (base d)"
    using t busD(5-7) [OF b] by simp_all
  have q: "length ?b' = length ?b" "take (?p + t) ?b' = take ?p ?b @ map ucast (take t ?i)" using l by simp_all
  have "buf_pos ?d + t * m = length (buf_mem ?d)" using Suc.prems(4) q(1) by (simp add: algebra_simps)
  moreover have "length (inp (base ?d)) = t * m" using Suc.prems(5) unfolding o(1) by simp
  moreover have "con (base ?d) AND 0x200 = 0" using Suc.prems(6) o(3) by simp
  ultimately obtain p n h' where i: "read_rounds c (Suc (m + k)) ?d =
      Some (Inr (int k), ?d\<lparr>buf_mem := take (buf_pos ?d) (buf_mem ?d) @ map ucast (inp (base ?d)), buf_pos := p, buf_len := n, base := h'\<rparr>)"
      "inp h' = []" "out h' = out (base ?d)" "con h' = con (base ?d)"
    using Suc.IH [of ?d] Suc.prems(1-3) by auto
  have "map ucast ?i = (map ucast (take t ?i) @ map ucast (drop t ?i) :: u8 list)" by (metis append_take_drop_id map_append)
  then have "take (buf_pos ?d) (buf_mem ?d) @ map ucast (inp (base ?d)) = take ?p ?b @ map ucast ?i" using q(2) o(1) by simp
  then show ?case using s i o by (intro exI [of _ p] exI [of _ n] exI [of _ h']) simp
qed

text \<open>The first half of reading: the position is sent.\<close>

lemma send_position:
  assumes b: "bus c con out inp" and g: "takes c con out (length (out (base d)) + 2)"
    and d: "\<not> flag_16bit_data d" "\<not> flag_no_fifo d" "2 \<le> fifo_size d" and w: "con' AND 0x200 \<noteq> 0"
  obtains p n h where "write_rounds c 10 (start_write c a 2 con' [0x00, 0x50] 2 (omap_i2c_resize_fifo c 2 False d)) =
      Some (8, d\<lparr>threshold := 2, buf_mem := [0x00, 0x50], buf_pos := p, buf_len := n, base := h\<rparr>)"
    "out h = out (base d) @ [0x00, 0x50]" "inp h = inp (base d)" "con h AND 0x200 \<noteq> 0"
proof -
  have "max (2 :: u8) 1 = 2" by code_simp
  then have t: "min (max 2 1) (fifo_size d) = 2" using d(3) by (simp add: min_def)
  obtain h1 where r: "omap_i2c_resize_fifo c 2 False d = d\<lparr>threshold := 2, base := h1\<rparr>" "same_data out inp (base d) h1"
    using resize_fifo_keeps [OF b d(2), of 2 False] unfolding t by blast
  obtain h2 where s: "start_write c a 2 con' [0x00, 0x50] 2 (d\<lparr>threshold := 2, base := h1\<rparr>) =
      d\<lparr>threshold := 2, buf_mem := [0x00, 0x50], buf_pos := 0, buf_len := 2, base := h2\<rparr>" "same_data out inp h1 h2" "con h2 = con'"
    by (rule start_write_keeps [OF b, of a 2 con' "[0x00, 0x50]" 2 "d\<lparr>threshold := 2, base := h1\<rparr>"]) simp
  let ?d = "d\<lparr>threshold := 2, buf_mem := [0x00, 0x50], buf_pos := 0, buf_len := 2, base := h2\<rparr>"
  have o: "out h2 = out (base d)" "inp h2 = inp (base d)" using r(2) s(2) by (simp_all add: same_data_def)
  have "\<exists>p n h. write_rounds c (Suc (1 + 8)) ?d = Some (int 8, ?d\<lparr>buf_pos := p, buf_len := n, base := h\<rparr>) \<and>
      out h = out (base ?d) @ map ucast (drop (buf_pos ?d) (buf_mem ?d)) \<and> con h = con (base ?d) \<and> inp h = inp (base ?d)"
    by (rule write_rounds_sends [OF b g, of ?d 2 1]) (use d o s(3) w in simp_all)
  moreover have "Suc (1 + 8) = (10 :: nat)" by simp
  ultimately obtain p n h where "write_rounds c 10 ?d = Some (int 8, ?d\<lparr>buf_pos := p, buf_len := n, base := h\<rparr>)"
      "out h = out (base ?d) @ map ucast (drop (buf_pos ?d) (buf_mem ?d))" "con h = con (base ?d)" "inp h = inp (base ?d)" by metis
  then show thesis using r(1) s(1,3) o w by (intro that [where p = p and n = n and h = h]) simp_all
qed

text \<open>The second half, reduced to the rounds that receive.\<close>

definition data_phase :: "'h i2c_chip \<Rightarrow> 'h i2c_dev \<Rightarrow> (int \<times> u8 list \<times> 'h i2c_dev) option" where
  "data_phase c d = do {
     (r, d) \<leftarrow> read_rounds c 10 d;
     let m = buf_mem d;
     d \<leftarrow> msg_exit c d;
     Some (case r of Inl e \<Rightarrow> e | Inr k \<Rightarrow> if k \<le> 0 then - 110 else 0, m, d)
   }"

lemma read_msg_data_phase:
  assumes b: "bus c con out inp" and g: "takes c con out (length (out (base d)) + 2)"
    and d: "\<not> flag_16bit_data d" "\<not> flag_no_fifo d" "2 \<le> fifo_size d" and l: "len msg \<noteq> 0"
  obtains h where "omap_i2c_read_msg c msg d = data_phase c (d\<lparr>buf_mem := buf msg, buf_pos := 0, buf_len := ucast (len msg),
      threshold := min 32 (fifo_size d), base := h\<rparr>)"
    "out h = out (base d) @ [0x00, 0x50]" "inp h = inp (base d)" "con h = 0x8403"
proof -
  let ?t = "min 32 (fifo_size d)"
  let ?w = "if speed d > 400 then 0x9401 else 0x8401 :: u16"
  have "max (32 :: u8) 1 = 32" by code_simp
  then have mt: "min (max 32 1) (fifo_size d) = ?t" by simp
  obtain p n h where a: "write_rounds c 10 (start_write c (addr msg) 2 (?w OR 0x200 OR 0x2) [0x00, 0x50] 2 (omap_i2c_resize_fifo c 2 False d)) =
      Some (8, d\<lparr>threshold := 2, buf_mem := [0x00, 0x50], buf_pos := p, buf_len := n, base := h\<rparr>)"
      "out h = out (base d) @ [0x00, 0x50]" "inp h = inp (base d)"
    by (rule send_position [OF b g d, of "?w OR 0x200 OR 0x2" "addr msg"]) (simp split: if_splits)
  let ?d = "d\<lparr>threshold := 2, base := h, buf_mem := buf msg, buf_pos := 0, buf_len := ucast (len msg)\<rparr>"
  obtain h1 where r: "omap_i2c_resize_fifo c 32 True ?d = ?d\<lparr>threshold := ?t, base := h1\<rparr>" "same_data out inp h h1"
    using resize_fifo_keeps [OF b, of ?d 32 True] d(2) mt by auto
  let ?h = "writew c 0xa4 0x8403 (writew c 0x98 (ucast (ucast (len msg) :: u32)) (writew c 0xac (addr msg) h1))"
  have "omap_i2c_read_msg c msg d = data_phase c (?d\<lparr>threshold := ?t, base := ?h\<rparr>)"
    using l a(1) r(1)
    by (simp add: omap_i2c_read_msg_def data_phase_def i2c_bits i2c_regs omap_i2c_write_reg_def Let_def cong: if_cong)
  then show thesis using a(2,3) r(2) busD(5-7) [OF b] by (intro that [of ?h]) (simp_all add: same_data_def)
qed

lemma read_msg_gets:
  assumes b: "bus c con out inp" and g: "takes c con out (length (out (base d)) + 2)" "gives c con inp"
    and d: "\<not> flag_16bit_data d" "\<not> flag_no_fifo d" "2 \<le> fifo_size d"
    and l: "len msg \<noteq> 0" "length (buf msg) = unat (len msg)" "length (inp (base d)) = unat (len msg)"
    and t: "unat (len msg) = unat (min 32 (fifo_size d)) * m" "m \<le> 9"
  obtains d' where "omap_i2c_read_msg c msg d = Some (if m = 9 then - 110 else 0, map ucast (inp (base d)), d')"
    "out (base d') = out (base d) @ [0x00, 0x50]" "inp (base d') = []"
proof -
  let ?t = "min 32 (fifo_size d)"
  have tp: "0 < unat ?t" using t(1) l(1) by (intro gr0I) (auto simp: unat_eq_zero)
  obtain h where o: "omap_i2c_read_msg c msg d =
      data_phase c (d\<lparr>buf_mem := buf msg, buf_pos := 0, buf_len := ucast (len msg), threshold := ?t, base := h\<rparr>)"
      "out h = out (base d) @ [0x00, 0x50]" "inp h = inp (base d)" "con h = 0x8403"
    by (rule read_msg_data_phase [OF b g(1) d l(1)])
  let ?e = "d\<lparr>buf_mem := buf msg, buf_pos := 0, buf_len := ucast (len msg), threshold := ?t, base := h\<rparr>"
  have k: "Suc (m + (9 - m)) = 10" using t(2) by simp
  have "\<exists>p n h. read_rounds c (Suc (m + (9 - m))) ?e =
        Some (Inr (int (9 - m)), ?e\<lparr>buf_mem := take (buf_pos ?e) (buf_mem ?e) @ map ucast (inp (base ?e)), buf_pos := p, buf_len := n, base := h\<rparr>) \<and>
      inp h = [] \<and> out h = out (base ?e) \<and> con h = con (base ?e)"
    by (rule read_rounds_stores [OF b g(2), of ?e "unat ?t" m]) (use d tp t l o in simp_all)
  then obtain p n h2 where w: "read_rounds c 10 ?e = Some (Inr (int (9 - m)), ?e\<lparr>buf_mem := map ucast (inp (base d)), buf_pos := p, buf_len := n, base := h2\<rparr>)"
      "inp h2 = []" "out h2 = out (base d) @ [0x00, 0x50]" "con h2 = 0x8403"
    unfolding k using o by auto
  let ?f = "?e\<lparr>buf_mem := map ucast (inp (base d)), buf_pos := p, buf_len := n, base := h2\<rparr>"
  obtain v h3 where x: "readw c 0x28 (base ?f) = (v, h3)" by (cases "readw c 0x28 (base ?f)")
  have "v AND 0x200E = 0x4" using g(2) x w(2,4) unfolding gives_def by fastforce
  from mask_bit [OF this, of "0x8"] have "v AND 0x8 = 0" by simp
  then obtain h4 where e: "msg_exit c ?f = Some (?f\<lparr>base := h4\<rparr>)" "same_data out inp h2 h4"
    using msg_exit_keeps [OF b x] by auto
  have "omap_i2c_read_msg c msg d = Some (if m = 9 then - 110 else 0, map ucast (inp (base d)), ?f\<lparr>base := h4\<rparr>)"
    using o(1) w(1) e(1) t(2) by (simp add: data_phase_def)
  then show thesis using w e(2) by (intro that) (assumption, simp_all add: same_data_def)
qed

section \<open>A silent bus\<close>

lemma wait_for_event_silent:
  assumes b: "bus c con out inp" and q: "silent c" "clock_runs c"
  obtains h where "wait_for_event c d = Some (0, d\<lparr>base := h\<rparr>)" "out h = out (base d)"
proof -
  let ?rd = "omap_i2c_read_reg c OMAP_I2C_STAT_REG"
  let ?pause = "\<lambda>d. d\<lparr>base := mdelay c (base d)\<rparr>"
  have rd: "?rd e = (fst (readw c 0x28 (base e)), e\<lparr>base := snd (readw c 0x28 (base e))\<rparr>)" for e
    by (simp add: omap_i2c_read_reg_def i2c_regs case_prod_unfold Let_def)
  have k: "jiffies c h \<le> jiffies c (snd (readw c 0x28 h))" "jiffies c h < jiffies c (mdelay c h)" for h
    using q(2) unfolding clock_runs_def by (metis prod.collapse)+
  obtain seen v d' where p: "poll (\<lambda>d. jiffies c (base d)) ?rd (\<lambda>v. v AND event_bits = 0) (\<lambda>d. d) ?pause (jiffies c (base d) + second c) d =
      Some (seen, v, d')" "seen \<longleftrightarrow> \<not> v AND event_bits = 0"
    by (rule poll_returns [of "\<lambda>d. jiffies c (base d)" ?rd "\<lambda>d. d" ?pause "\<lambda>v. v AND event_bits = 0" "jiffies c (base d) + second c" d])
      (use k in \<open>auto simp: rd\<close>)
  define P where "P e \<longleftrightarrow> (\<exists>h. e = d\<lparr>base := h\<rparr> \<and> out h = out (base d))" for e
  have "P d" unfolding P_def by (intro exI [of _ "base d"]) simp
  moreover have "P e' \<and> v AND event_bits = 0" if "?rd e = (v, e')" "P e" for e v e'
  proof -
    obtain w h1 where r0: "readw c 0x28 (base e) = (w, h1)" by (cases "readw c 0x28 (base e)")
    then have r: "readw c 0x28 (base e) = (v, h1)" "e' = e\<lparr>base := h1\<rparr>" using that(1) by (simp_all add: rd)
    then have "v AND event_bits = 0" "out h1 = out (base e)" using q(1) busD(2) [OF b r(1)] unfolding silent_def event_bits by blast+
    then show ?thesis using that(2) r(2) by (auto simp: P_def)
  qed
  moreover have "P (?pause e)" if "P e" for e using that busD(9) [OF b] by (auto simp: P_def)
  ultimately have "P d' \<and> v AND event_bits = 0" using poll_induct [OF p(1), of P "\<lambda>v. v AND event_bits = 0"] by blast
  then obtain h where h: "d' = d\<lparr>base := h\<rparr>" "out h = out (base d)" "\<not> seen" using p(2) by (auto simp: P_def)
  then have "wait_for_event c d = Some (0, d\<lparr>base := writew c 0x28 0xFFFF h\<rparr>)"
    using p(1) by (simp add: wait_for_event_def poll_dev_def omap_i2c_write_reg_def i2c_regs)
  then show thesis using h(2) busD(6) [OF b] by (intro that) (assumption, simp)
qed

lemma write_rounds_silent:
  assumes b: "bus c con out inp" and q: "silent c" "clock_runs c"
  shows "\<exists>h. write_rounds c k d = Some (- 1, d\<lparr>base := h\<rparr>) \<and> out h = out (base d)"
proof (induction k arbitrary: d)
  case 0
  show ?case by (intro exI [of _ "base d"]) simp
next
  case (Suc k)
  obtain h where "wait_for_event c d = Some (0, d\<lparr>base := h\<rparr>)" "out h = out (base d)" by (rule wait_for_event_silent [OF b q])
  then show ?case using Suc [of "d\<lparr>base := h\<rparr>"] by auto
qed

text \<open>
  On a bus where no one answers, and as long as the clock runs, a message is given up after
  ten waits: the write returns \<open>-ETIMEDOUT\<close> and no data was sent.
\<close>

theorem i2c_silent_times_out:
  assumes b: "bus c con out inp" and q: "silent c" "clock_runs c" and l: "len msg \<noteq> 0"
  shows "\<exists>d'. omap_i2c_write_msg c msg d = Some (- 110, d') \<and> out (base d') = out (base d)"
proof -
  let ?r = "omap_i2c_resize_fifo c (ucast (len msg)) False d"
  have "out (base ?r) = out (base d)"
  proof (cases "flag_no_fifo d")
    case True
    then show ?thesis by (simp add: omap_i2c_resize_fifo_def)
  next
    case False
    obtain h where "?r = d\<lparr>threshold := min (max (ucast (len msg)) 1) (fifo_size d), base := h\<rparr>" "same_data out inp (base d) h"
      by (rule resize_fifo_keeps [OF b False])
    then show ?thesis by (simp add: same_data_def)
  qed
  moreover obtain h1 where s: "start_write c (addr msg) (len msg) 0x8603 (buf msg) (ucast (len msg)) ?r =
      ?r\<lparr>buf_mem := buf msg, buf_pos := 0, buf_len := ucast (len msg), base := h1\<rparr>" "same_data out inp (base ?r) h1"
    by (rule start_write_keeps [OF b])
  ultimately obtain h2 where w: "write_rounds c 10 (start_write c (addr msg) (len msg) 0x8603 (buf msg) (ucast (len msg)) ?r) =
      Some (- 1, ?r\<lparr>buf_mem := buf msg, buf_pos := 0, buf_len := ucast (len msg), base := h2\<rparr>)" "out h2 = out (base d)"
    using write_rounds_silent [OF b q, of 10 "?r\<lparr>buf_mem := buf msg, buf_pos := 0, buf_len := ucast (len msg), base := h1\<rparr>"]
    by (auto simp: same_data_def)
  let ?d = "?r\<lparr>buf_mem := buf msg, buf_pos := 0, buf_len := ucast (len msg), base := h2\<rparr>"
  obtain v h3 where x: "readw c 0x28 (base ?d) = (v, h3)" by (cases "readw c 0x28 (base ?d)")
  then have "v AND 0xC1F = 0" using q(1) unfolding silent_def by blast
  from mask_bit [OF this, of "0x8"] have "v AND 0x8 = 0" by simp
  then obtain h4 where e: "msg_exit c ?d = Some (?d\<lparr>base := h4\<rparr>)" "same_data out inp (base ?d) h4" using msg_exit_keeps [OF b x] by blast
  have "omap_i2c_write_msg c msg d = Some (- 110, ?d\<lparr>base := h4\<rparr>)"
    using l w(1) e(1) by (simp add: omap_i2c_write_msg_def i2c_bits)
  then show ?thesis using w(2) e(2) by (auto simp: same_data_def)
qed

theorem i2c_silent_times_out_witness:
  "\<exists>d'. omap_i2c_write_msg (sample_device 8\<lparr>readw := \<lambda>r h. (0, h)\<rparr>) \<lparr>addr = 0x50, len = 2, buf = [1, 2]\<rparr> (sample_i2c []) = Some (- 110, d') \<and>
    s_out (base d') = []"
proof -
  let ?c = "sample_device 8\<lparr>readw := \<lambda>r h. (0, h)\<rparr>"
  have "bus ?c s_con s_out (\<lambda>h. [])" "silent ?c" "clock_runs ?c"
    by (auto simp: bus_def silent_def clock_runs_def sample_device_def s_con_def s_out_def)
  from i2c_silent_times_out [OF this, of "\<lparr>addr = 0x50, len = 2, buf = [1, 2]\<rparr>" "sample_i2c []"]
  show ?thesis by (simp add: sample_i2c_def s_out_def)
qed

section \<open>Reading the device\<close>

text \<open>
  C33: on a free bus and with a device that acknowledges and sends as many bytes as are asked for,
  a read of a multiple of the FIFO threshold, at most nine of them and 8192 bytes, sends the position
  and, with at most eight, gives the user the bytes the device sends, in order; the memory for them
  is released. With nine the driver reports a time out, like for a write.
\<close>

theorem i2c_read_returns:
  assumes b: "bus c con out inp" and g: "takes c con out (length (out (base d)) + 2)" "gives c con inp" "free_bus c"
    and d: "\<not> flag_16bit_data d" "\<not> flag_no_fifo d" "2 \<le> fifo_size d"
    and l: "0 < count" "count \<le> 8192" "count \<le> room" "tmp count = Some fresh" "length fresh = count" "length (inp (base d)) = count"
    and t: "count = unat (min 32 (fifo_size d)) * m" "m \<le> 9"
  shows "\<exists>d'. my_read c tmp room count d = Some (if m = 9 then Inl (- 110) else Inr (map ucast (inp (base d))), False, d') \<and>
    out (base d') = out (base d) @ [0x00, 0x50] \<and> inp (base d') = []"
proof -
  have n: "unat (of_nat count :: u16) = count" using l(2) by (intro unat_of_nat_small) simp
  then have nz: "(of_nat count :: u16) \<noteq> 0" using l(1) by auto
  obtain v h where r: "readw c 0x28 (base d) = (v, h)" by (cases "readw c 0x28 (base d)")
  have f: "omap_i2c_wait_for_bb c d = Some (0, d\<lparr>base := h\<rparr>)"
    by (rule wait_for_bb_free [OF r]) (use g(3) r in \<open>auto simp: free_bus_def\<close>)
  have o: "out h = out (base d)" "inp h = inp (base d)" using busD(2,3) [OF b r] by simp_all
  let ?msg = "\<lparr>addr = 0x50, len = of_nat count, buf = fresh\<rparr>"
  obtain d' where m: "omap_i2c_read_msg c ?msg (d\<lparr>base := h\<rparr>) = Some (if m = 9 then - 110 else 0, map ucast (inp (base d)), d')"
      "out (base d') = out (base d) @ [0x00, 0x50]" "inp (base d') = []"
    by (rule read_msg_gets [OF b _ g(2), of "d\<lparr>base := h\<rparr>" ?msg m]) (use g(1) d l t n nz o in simp_all)
  obtain v' h' where r': "readw c 0x28 (base d') = (v', h')" by (cases "readw c 0x28 (base d')")
  have f': "omap_i2c_wait_for_bb c d' = Some (0, d'\<lparr>base := h'\<rparr>)"
    by (rule wait_for_bb_free [OF r']) (use g(3) r' in \<open>auto simp: free_bus_def\<close>)
  have "my_read c tmp room count d = Some (if m = 9 then Inl (- 110) else Inr (map ucast (inp (base d))), False, d'\<lparr>base := h'\<rparr>)"
    using f m(1) f' l by (auto simp: my_read_def mem_simps)
  then show ?thesis using m(2,3) busD(2,3) [OF b r'] by auto
qed

theorem i2c_read_returns_witness:
  "\<exists>d'. my_read (sample_device 2) (\<lambda>n. Some (replicate n 0)) 100 8 (sample_i2c [1, 2, 3, 4, 5, 6, 7, 8]) =
      Some (Inr [1, 2, 3, 4, 5, 6, 7, 8], False, d') \<and> s_out (base d') = [0x00, 0x50]"
proof -
  let ?d = "sample_i2c [1, 2, 3, 4, 5, 6, 7, 8]"
  have t: "min 32 4 = (4 :: u8)" "(2 :: u8) \<le> 4" by code_simp+
  have "takes (sample_device 2) s_con s_out (length (s_out (base ?d)) + 2)"
    using sample_device(2) [of 2] by (simp add: sample_i2c_def s_out_def eval_nat_numeral)
  then have "\<exists>d'. my_read (sample_device 2) (\<lambda>n. Some (replicate n 0)) 100 8 ?d =
        Some (if (2 :: nat) = 9 then Inl (- 110) else Inr (map ucast (s_inp (base ?d))), False, d') \<and>
      s_out (base d') = s_out (base ?d) @ [0x00, 0x50] \<and> s_inp (base d') = []"
    by (rule i2c_read_returns [OF sample_device(1) _ sample_device(3,4), where fresh = "replicate 8 0"]) (simp_all add: sample_i2c_def s_inp_def t)
  moreover have "map ucast (s_inp (base ?d)) = [1, 2, 3, 4, 5, 6, 7, 8 :: u8]" "s_out (base ?d) = []"
    by (simp_all add: sample_i2c_def s_inp_def s_out_def)
  ultimately show ?thesis by simp blast
qed

section \<open>Clock settings\<close>

lemma unat_minus: "n \<le> unat (x :: u32) \<Longrightarrow> n < 2 ^ 32 \<Longrightarrow> unat (x - of_nat n) = unat x - n"
  by (simp add: unat_sub word_le_nat_alt unat_of_nat_small)

lemma unat_ucast16: "unat (x :: u32) < 2 ^ 16 \<Longrightarrow> unat (ucast x :: u16) = unat x"
  by (simp add: unsigned_ucast_eq take_bit_nat_eq_self)

lemma scl_times_sum:
  assumes "24 \<le> unat scl" "unat scl < 65536" "scl_times scl = (l, h)"
  shows "unat l + 7 + (unat h + 5) = unat scl"
proof -
  let ?s = "unat scl"
  have d: "unat (scl div 3) = ?s div 3" by (simp add: unat_div)
  then have a: "unat (scl - scl div 3) = ?s - ?s div 3" by (simp add: unat_sub word_le_nat_alt)
  have 1: "unat (scl - scl div 3 - 7) = ?s - ?s div 3 - 7" using unat_minus [of 7 "scl - scl div 3"] a assms(1) by simp
  have 2: "unat (scl div 3 - 5) = ?s div 3 - 5" using unat_minus [of 5 "scl div 3"] d assms(1) by simp
  have "unat l = ?s - ?s div 3 - 7" "unat h = ?s div 3 - 5"
    using assms(2,3) unat_ucast16 [of "scl - scl div 3 - 7"] unat_ucast16 [of "scl div 3 - 5"] 1 2 by (auto simp: scl_times_def)
  moreover have "8 \<le> ?s div 3" "3 * (?s div 3) \<le> ?s" using assms(1) by (simp_all add: less_eq_div_iff_mult_less_eq)
  ultimately show ?thesis by linarith
qed

text \<open>
  Up to 400 kHz the two SCL times never wrap, and with the seven and five ticks the
  controller adds they make up the period of the bus: the internal clock divided by the speed,
  in standard mode as two equal halves.
\<close>

theorem i2c_clock_period:
  assumes "0 < spd" "spd \<le> 400"
  shows "\<exists>psc scll sclh. clock_settings spd force fclk_rate = Some (psc, scll, sclh) \<and>
    unat scll + 7 + (unat sclh + 5) = (let clk = unat (internal_clk spd force) in
      if spd > 100 then clk div unat spd else 2 * (clk div (2 * unat spd)))"
proof -
  let ?c = "internal_clk spd force" and ?n = "unat spd"
  have n: "0 < ?n" "?n \<le> 400" using assms by (simp_all add: word_less_nat_alt word_le_nat_alt)
  have f: "\<not> spd > 400" using assms(2) by simp
  show ?thesis
  proof (cases "spd > 100")
    case True
    then have "100 < ?n" by (simp add: word_less_nat_alt)
    have "unat ?c = 9600 \<or> unat ?c = 19200" using True f by (simp add: internal_clk_def)
    then have "9600 \<le> unat ?c" "unat ?c \<le> 19200" by auto
    moreover have d: "unat (?c div spd) = unat ?c div ?n" by (simp add: unat_div)
    moreover have "24 \<le> unat ?c div ?n" using calculation(1) n by (simp add: less_eq_div_iff_mult_less_eq)
    moreover have "unat ?c div ?n \<le> unat ?c" by simp
    ultimately have b: "24 \<le> unat (?c div spd)" "unat (?c div spd) < 65536" by linarith+
    obtain l h where lh: "scl_times (?c div spd) = (l, h)" by (cases "scl_times (?c div spd)")
    have "clock_settings spd force fclk_rate = Some (ucast (fclk_rate div ?c) - 1, l, h)"
      unfolding clock_settings_def Let_def using f True lh by simp
    then show ?thesis using True scl_times_sum [OF b lh] d unfolding Let_def by simp
  next
    case False
    then have s: "?n \<le> 100" by (simp add: word_less_nat_alt not_less word_le_nat_alt)
    have "unat ?c = 4000 \<or> unat ?c = 19200" using False f by (simp add: internal_clk_def)
    then have c: "4000 \<le> unat ?c" "unat ?c \<le> 19200" by auto
    have m: "unat (spd * 2) = 2 * ?n" using s by (simp add: unat_word_ariths)
    then have d: "unat (?c div (spd * 2)) = unat ?c div (2 * ?n)" by (simp add: unat_div)
    have "20 \<le> unat ?c div (2 * ?n)" using c(1) s n by (simp add: less_eq_div_iff_mult_less_eq)
    moreover have "unat ?c div (2 * ?n) \<le> unat ?c" by simp
    ultimately have b: "20 \<le> unat (?c div (spd * 2))" "unat (?c div (spd * 2)) \<le> 19200" using c(2) d by linarith+
    have z: "spd * 2 \<noteq> 0" using m n(1) by auto
    have 1: "unat (?c div (spd * 2) - 7) = unat (?c div (spd * 2)) - 7" "unat (?c div (spd * 2) - 5) = unat (?c div (spd * 2)) - 5"
      using unat_minus [of 7 "?c div (spd * 2)"] unat_minus [of 5 "?c div (spd * 2)"] b(1) by simp_all
    then have "unat (ucast (?c div (spd * 2) - 7) :: u16) = unat (?c div (spd * 2)) - 7"
        "unat (ucast (?c div (spd * 2) - 5) :: u16) = unat (?c div (spd * 2)) - 5"
      using unat_ucast16 [of "?c div (spd * 2) - 7"] unat_ucast16 [of "?c div (spd * 2) - 5"] b(2) by simp_all
    moreover have "clock_settings spd force fclk_rate =
        Some (ucast (fclk_rate div ?c) - 1, ucast (?c div (spd * 2) - 7), ucast (?c div (spd * 2) - 5))"
      unfolding clock_settings_def Let_def using f False z by simp
    ultimately show ?thesis using False b(1) d unfolding Let_def by simp
  qed
qed

theorem i2c_clock_period_witness:
  "\<exists>psc scll sclh. clock_settings 400 False 48000 = Some (psc, scll, sclh) \<and> unat scll + 7 + (unat sclh + 5) = 24"
  using i2c_clock_period [of 400 False 48000] by (simp add: internal_clk_def)

section \<open>A device that refuses\<close>

text \<open>
  When the device does not acknowledge the data phase, the driver's error number is positive:
  the read is taken for a success, and the user gets the memory as it was allocated.
\<close>

lemma i2c_refused_read_leaks_memory:
  assumes b: "bus c con out inp" and g: "takes c con out (length (out (base d)) + 2)" "free_bus c"
    and z: "\<And>h v h'. readw c 0x28 h = (v, h') \<Longrightarrow> con h AND 0x200 = 0 \<Longrightarrow> v AND 0xA = 0x2"
    and d: "\<not> flag_16bit_data d" "\<not> flag_no_fifo d" "2 \<le> fifo_size d"
    and l: "0 < count" "count \<le> 8192" "count \<le> room" "tmp count = Some fresh" "length fresh = count"
  shows "\<exists>d'. my_read c tmp room count d = Some (Inr fresh, False, d')"
proof -
  have nz: "(of_nat count :: u16) \<noteq> 0" using l(1,2) unat_of_nat_small [of count, where 'a = 16] by auto
  obtain v h where r: "readw c 0x28 (base d) = (v, h)" by (cases "readw c 0x28 (base d)")
  have f: "omap_i2c_wait_for_bb c d = Some (0, d\<lparr>base := h\<rparr>)"
    by (rule wait_for_bb_free [OF r]) (use g(2) r in \<open>auto simp: free_bus_def\<close>)
  have o: "out h = out (base d)" using busD(2) [OF b r] by simp
  let ?msg = "\<lparr>addr = 0x50, len = of_nat count, buf = fresh\<rparr>"
  obtain h1 where p: "omap_i2c_read_msg c ?msg (d\<lparr>base := h\<rparr>) =
      data_phase c (d\<lparr>buf_mem := fresh, buf_pos := 0, buf_len := ucast (of_nat count :: u16), threshold := min 32 (fifo_size d), base := h1\<rparr>)"
      "con h1 = 0x8403"
    using read_msg_data_phase [OF b, of "d\<lparr>base := h\<rparr>" ?msg] g(1) d nz o by auto
  let ?e = "d\<lparr>buf_mem := fresh, buf_pos := 0, buf_len := ucast (of_nat count :: u16), threshold := min 32 (fifo_size d), base := h1\<rparr>"
  obtain v1 h2 where r1: "readw c 0x28 (base ?e) = (v1, h2)" by (cases "readw c 0x28 (base ?e)")
  have v1: "v1 AND 0xA = 0x2" using z [OF r1] p(2) by simp
  from mask_bit [OF this, of "0x2"] have n: "v1 AND 0x2 = 0x2" by simp
  then have x: "v1 \<noteq> 0x10" by auto
  have "v1 AND 0xC1F \<noteq> 0" by (rule mask_nonzero [of v1 "0x2"]) (simp_all add: n)
  then have w: "wait_for_event c ?e = Some (v1, ?e\<lparr>base := h2\<rparr>)" by (rule wait_for_event_now [OF r1])
  have "read_rounds c (Suc 9) ?e = Some (Inl 1, ?e\<lparr>base := h2\<rparr>)" unfolding read_rounds.simps using w n x by (simp add: i2c_bits)
  then have rr: "read_rounds c 10 ?e = Some (Inl 1, ?e\<lparr>base := h2\<rparr>)" by (simp add: eval_nat_numeral)
  obtain v2 h3 where r2: "readw c 0x28 (base (?e\<lparr>base := h2\<rparr>)) = (v2, h3)" by (cases "readw c 0x28 (base (?e\<lparr>base := h2\<rparr>))")
  have "v2 AND 0xA = 0x2" using z [OF r2] p(2) busD(1) [OF b r1] by simp
  from mask_bit [OF this, of "0x8"] have "v2 AND 0x8 = 0" by simp
  then obtain h4 where e: "msg_exit c (?e\<lparr>base := h2\<rparr>) = Some (?e\<lparr>base := h4\<rparr>)" using msg_exit_keeps [OF b r2] by auto
  have m: "omap_i2c_read_msg c ?msg (d\<lparr>base := h\<rparr>) = Some (1, fresh, ?e\<lparr>base := h4\<rparr>)" using p(1) rr e by (simp add: data_phase_def)
  obtain v' h' where r': "readw c 0x28 h4 = (v', h')" by (cases "readw c 0x28 h4")
  have "omap_i2c_wait_for_bb c (?e\<lparr>base := h4\<rparr>) = Some (0, ?e\<lparr>base := h4\<rparr>\<lparr>base := h'\<rparr>)"
    by (rule wait_for_bb_free) (use g(2) r' in \<open>auto simp: free_bus_def\<close>)
  then show ?thesis using f m l by (auto simp: my_read_def mem_simps)
qed

end
