(* ===== verification/I2c_Irq_Props.thy ===== *)
theory I2c_Irq_Props
  imports I2c_Irq I2c_Props
begin

text \<open>
  Properties of the interrupt-driven I2C driver: what a message sends and receives, how the
  errors of the bus are reported, and what a failed probe leaves behind.
\<close>

section \<open>What the driver relies on\<close>

text \<open>Reading the interrupt enable register (0x2c) gives the events that were enabled.\<close>

definition irq_enabled :: "'h i2c_chip \<Rightarrow> bool" where
  "irq_enabled c \<longleftrightarrow> (\<forall>h v h'. readw c 0x2c h = (v, h') \<longrightarrow> v = 0x601F)"

text \<open>
  The status (0x28) while sending: ready for data while \<open>t\<close> words, the threshold, are still to
  be sent, draining for a smaller remainder, access ready when \<open>goal\<close> words were sent. When it
  may be \<open>idle\<close>, the controller can also have no event at any time.
\<close>

definition irq_takes :: "'h i2c_chip \<Rightarrow> ('h \<Rightarrow> u16) \<Rightarrow> ('h \<Rightarrow> u16 list) \<Rightarrow> nat \<Rightarrow> nat \<Rightarrow> bool \<Rightarrow> bool" where
  "irq_takes c con out goal t idle \<longleftrightarrow> (\<forall>h v h'. readw c 0x28 h = (v, h') \<longrightarrow> con h AND 0x200 \<noteq> 0 \<longrightarrow>
     v AND 0x4017 = (if length (out h) + t \<le> goal then 0x10 else if length (out h) < goal then 0x4000 else 0x4) \<or>
     idle \<and> v AND 0x4017 = 0)"

text \<open>The status while receiving.\<close>

definition irq_gives :: "'h i2c_chip \<Rightarrow> ('h \<Rightarrow> u16) \<Rightarrow> ('h \<Rightarrow> u16 list) \<Rightarrow> nat \<Rightarrow> bool \<Rightarrow> bool" where
  "irq_gives c con inp t idle \<longleftrightarrow> (\<forall>h v h'. readw c 0x28 h = (v, h') \<longrightarrow> con h AND 0x200 = 0 \<longrightarrow>
     v AND 0x200F = (if t \<le> length (inp h) then 0x8 else if inp h \<noteq> [] then 0x2000 else 0x4) \<or> idle \<and> v AND 0x200F = 0)"

text \<open>What the controller does by itself, before an interrupt or during a pause, does not change the data or the configuration.\<close>

definition quiet :: "('h \<Rightarrow> u16) \<Rightarrow> ('h \<Rightarrow> u16 list) \<Rightarrow> ('h \<Rightarrow> u16 list) \<Rightarrow> ('h \<Rightarrow> 'h) \<Rightarrow> bool" where
  "quiet con out inp e \<longleftrightarrow> (\<forall>h. con (e h) = con h \<and> out (e h) = out h \<and> inp (e h) = inp h)"

text \<open>The three observations are the same in two states.\<close>

definition same_bus :: "('h \<Rightarrow> u16) \<Rightarrow> ('h \<Rightarrow> u16 list) \<Rightarrow> ('h \<Rightarrow> u16 list) \<Rightarrow> 'h \<Rightarrow> 'h \<Rightarrow> bool" where
  "same_bus con out inp h h' \<longleftrightarrow> con h' = con h \<and> out h' = out h \<and> inp h' = inp h"

lemma same_bus_refl [simp]: "same_bus con out inp h h"
  by (simp add: same_bus_def)

lemma same_bus_trans [trans]: "same_bus con out inp h h' \<Longrightarrow> same_bus con out inp h' h'' \<Longrightarrow> same_bus con out inp h h''"
  by (simp add: same_bus_def)

lemma same_bus_read: "bus c con out inp \<Longrightarrow> readw c r h = (v, h') \<Longrightarrow> r \<noteq> 0x9c \<Longrightarrow> same_bus con out inp h h'"
  using busD(1-3) [of c con out inp r h v h'] by (simp add: same_bus_def)

lemma same_bus_write: "bus c con out inp \<Longrightarrow> r \<noteq> 0xa4 \<Longrightarrow> r \<noteq> 0x9c \<Longrightarrow> same_bus con out inp h (writew c r v h)"
  using busD(5-7) [of c con out inp] by (simp add: same_bus_def)

section \<open>A round of the thread\<close>

lemma ack_eq: "omap_i2c_ack_stat c v d = d\<lparr>base := writew c 0x28 v (base d)\<rparr>"
  by (simp add: omap_i2c_ack_stat_def omap_i2c_write_reg_def i2c_regs)

lemma isr_status_reads:
  assumes b: "bus c con out inp" and e: "irq_enabled c"
  obtains v h h' where "isr_status c rx d = (v AND (if rx then 0x200F else 0x4017), d\<lparr>base := h'\<rparr>)" "readw c 0x28 h = (v, h')"
    "same_bus con out inp (base d) h" "same_bus con out inp (base d) h'"
proof -
  obtain w h where r1: "readw c 0x2c (base d) = (w, h)" by (cases "readw c 0x2c (base d)")
  then have w: "w = 0x601F" using e unfolding irq_enabled_def by blast
  obtain v h' where r2: "readw c 0x28 h = (v, h')" by (cases "readw c 0x28 h")
  have s: "same_bus con out inp (base d) h" "same_bus con out inp h h'" using same_bus_read [OF b r1] same_bus_read [OF b r2] by simp_all
  have m: "(v AND 0x601F) AND NOT (0x4000 OR 0x10) = v AND 0x200F" "(v AND 0x601F) AND NOT (0x2000 OR 0x8) = v AND 0x4017"
    by (simp_all add: and.assoc)
  have "isr_status c rx d = (v AND (if rx then 0x200F else 0x4017), d\<lparr>base := h'\<rparr>)"
    using r1 r2 w m by (simp add: isr_status_def omap_i2c_read_reg_def i2c_regs i2c_bits)
  then show thesis by (rule that [OF _ r2 s(1) same_bus_trans [OF s]])
qed


lemma irq_givesD:
  "irq_gives c con inp t idle \<Longrightarrow> readw c 0x28 h = (v, h') \<Longrightarrow> con h AND 0x200 = 0 \<Longrightarrow>
    v AND 0x200F = (if t \<le> length (inp h) then 0x8 else if inp h \<noteq> [] then 0x2000 else 0x4) \<or> idle \<and> v AND 0x200F = 0"
  unfolding irq_gives_def by blast

text \<open>No event ends the rounds, access ready completes the command.\<close>

lemma isr_rounds_idle: "isr_status c rx d = (0, d1) \<Longrightarrow> isr_rounds c rx n d = Some (None, d1)"
  by (cases n) simp_all

lemma isr_rounds_done: "isr_status c rx d = (0x4, d1) \<Longrightarrow>
    isr_rounds c rx n d = Some (Some 0, case n of 0 \<Rightarrow> d1 | Suc _ \<Rightarrow> d1\<lparr>base := writew c 0x28 0x601C (writew c 0x28 0x4 (base d1))\<rparr>)"
  by (cases n) (simp_all add: i2c_bits ack_eq)

lemma remaining_after:
  assumes "unat (n :: u32) = l" "m \<le> l"
  shows "unat (n - of_nat m) = l - m"
proof -
  have "m < 2 ^ 32" using assms unsigned_less [of n, where 'a = nat] by simp
  then show ?thesis using unat_minus [of m n] assms by simp
qed

text \<open>The bytes a round moves: a threshold, or what is left, whose count fits a byte.\<close>

lemma remainder_fits: "unat (threshold d) = t \<Longrightarrow> unat (buf_len d) < t \<Longrightarrow> unat (ucast (buf_len d) :: u8) = unat (buf_len d)"
  using unsigned_less [of "threshold d", where 'a = nat] by (simp add: unsigned_ucast_eq take_bit_nat_eq_self)









text \<open>Bytes stored one after the other behind position \<open>p\<close>.\<close>

definition stored :: "nat \<Rightarrow> u8 list \<Rightarrow> u8 list \<Rightarrow> u8 list" where
  "stored p ys mem = take p mem @ ys @ drop (p + length ys) mem"

lemma stored_stored: "p + length ys \<le> length mem \<Longrightarrow> stored (p + length ys) zs (stored p ys mem) = stored p (ys @ zs) mem"
  by (cases ys) (auto simp: stored_def min_def ac_simps)

lemma stored_Nil [simp]: "stored p [] mem = mem"
  by (simp add: stored_def)

lemma length_stored: "p + length ys \<le> length mem \<Longrightarrow> length (stored p ys mem) = length mem"
  by (simp add: stored_def)

text \<open>A message that is being received, \<open>inp\<close> being what is left of it.\<close>

definition receiving :: "('h \<Rightarrow> u16) \<Rightarrow> ('h \<Rightarrow> u16 list) \<Rightarrow> nat \<Rightarrow> 'h i2c_dev \<Rightarrow> bool" where
  "receiving con inp t d \<longleftrightarrow> \<not> flag_16bit_data d \<and> fifo_size d \<noteq> 0 \<and> 0 < t \<and> unat (threshold d) = t \<and> buf_pos d \<le> length (buf_mem d) \<and>
     unat (buf_len d) = length (buf_mem d) - buf_pos d \<and> length (inp (base d)) = unat (buf_len d) \<and> con (base d) AND 0x200 = 0"

lemma receiving_base: "receiving con inp t d \<Longrightarrow> same_bus con out inp (base d) h \<Longrightarrow> receiving con inp t (d\<lparr>base := h\<rparr>)"
  by (auto simp: receiving_def same_bus_def)

lemma receiving_event:
  assumes g: "irq_gives c con inp t idle" and d: "receiving con inp t d" and r: "readw c 0x28 h = (v, h')"
    and s: "same_bus con out inp (base d) h"
  shows "v AND 0x200F = (if t \<le> unat (buf_len d) then 0x8 else if 0 < unat (buf_len d) then 0x2000 else 0x4) \<or> idle \<and> v AND 0x200F = 0"
proof -
  have "con (base d) AND 0x200 = 0" "length (inp (base d)) = unat (buf_len d)" using d unfolding receiving_def by blast+
  then have "con h AND 0x200 = 0" and l: "length (inp h) = unat (buf_len d)" using s by (simp_all add: same_bus_def)
  from irq_givesD [OF g r this(1)] show ?thesis unfolding l [symmetric] length_greater_0_conv .
qed

lemma receiving_status:
  assumes b: "bus c con out inp" and e: "irq_enabled c" and g: "irq_gives c con inp t idle" and d: "receiving con inp t d"
  obtains h v where "isr_status c True d = (v, d\<lparr>base := h\<rparr>)" "same_bus con out inp (base d) h"
    "v = (if t \<le> unat (buf_len d) then 0x8 else if 0 < unat (buf_len d) then 0x2000 else 0x4) \<or> idle \<and> v = 0"
proof -
  obtain v h h' where s: "isr_status c True d = (v AND 0x200F, d\<lparr>base := h'\<rparr>)" "readw c 0x28 h = (v, h')"
      "same_bus con out inp (base d) h" "same_bus con out inp (base d) h'"
    by (rule isr_status_reads [OF b e, of True d]) simp
  show thesis by (rule that [OF s(1,4) receiving_event [OF g d s(2,3)]])
qed

lemma receive_round:
  assumes b: "bus c con out inp" and d: "receiving con inp t d" and m: "m = min t (unat (buf_len d))" "0 < m"
    and s: "isr_status c True d = (if t \<le> unat (buf_len d) then 0x8 else 0x2000, d\<lparr>base := h'\<rparr>)" "same_bus con out inp (base d) h'"
  obtains d1 where "\<And>k. isr_rounds c True (Suc k) d = isr_rounds c True k d1" "receiving con inp t d1" "out (base d1) = out (base d)"
    "buf_pos d1 = buf_pos d + m" "buf_mem d1 = stored (buf_pos d) (map ucast (take m (inp (base d)))) (buf_mem d)"
    "inp (base d1) = drop m (inp (base d))"
proof -
  let ?n = "unat (buf_len d)" and ?rem = "inp (base d)"
  let ?ys = "map ucast (take m ?rem) :: u8 list"
  have lm: "buf_pos d + m \<le> length (buf_mem d)" "m \<le> ?n" "length ?ys = m" using d m by (simp_all add: receiving_def)
  obtain h2 where t: "omap_i2c_receive_data c m (d\<lparr>base := h'\<rparr>) = Some (d\<lparr>buf_mem := stored (buf_pos d) ?ys (buf_mem d),
      buf_pos := buf_pos d + m, buf_len := buf_len d - of_nat m, base := h2\<rparr>)" "inp h2 = drop m ?rem" "out h2 = out h'" "con h2 = con h'"
    using receive_stores [OF b, of "d\<lparr>base := h'\<rparr>" m] d lm s(2) by (auto simp: receiving_def same_bus_def stored_def)
  let ?a = "if t \<le> ?n then 0x8 else 0x2000 :: u16"
  let ?d = "d\<lparr>buf_mem := stored (buf_pos d) ?ys (buf_mem d), buf_pos := buf_pos d + m, buf_len := buf_len d - of_nat m,
      base := writew c 0x28 ?a h2\<rparr>"
  have f: "fifo_size d \<noteq> 0" "threshold d \<noteq> 0" "unat (threshold d) = t" using d by (auto simp: receiving_def)
  have r: "isr_rounds c True (Suc k) d = isr_rounds c True k ?d" for k
  proof (cases "t \<le> ?n")
    case True
    then show ?thesis using s(1) m t(1) f by (simp add: i2c_bits ack_eq)
  next
    case False
    then show ?thesis using s(1) m t(1) f remainder_fits [of d t] by (simp add: i2c_bits ack_eq)
  qed
  have l: "unat (buf_len ?d) = ?n - m" using remaining_after [of "buf_len d" ?n m] lm(2) by simp
  have o: "inp (base ?d) = drop m ?rem" "out (base ?d) = out (base d)" "con (base ?d) = con (base d)"
    using t s(2) busD(5,6,7) [OF b] by (auto simp: same_bus_def)
  have "length (buf_mem ?d) = length (buf_mem d)" using length_stored [of "buf_pos d" ?ys] lm by simp
  then have "receiving con inp t ?d" using d lm l o by (simp add: receiving_def)
  then show thesis by (rule that [OF r]) (use o in simp_all)
qed

text \<open>
  A message of the words \<open>xs\<close> that is being received into the memory \<open>fresh\<close>: the words up to
  \<open>buf_pos\<close> are stored. The flag is as for \<open>sent_upto\<close>.
\<close>

definition received_upto :: "('h \<Rightarrow> u16) \<Rightarrow> ('h \<Rightarrow> u16 list) \<Rightarrow> ('h \<Rightarrow> u16 list) \<Rightarrow> u16 list \<Rightarrow> u16 list \<Rightarrow> u8 list \<Rightarrow> nat \<Rightarrow> nat \<Rightarrow>
    bool \<Rightarrow> 'h i2c_dev \<Rightarrow> bool" where
  "received_upto con out inp ws xs fresh t lim g d \<longleftrightarrow> receiving con inp t d \<and> out (base d) = ws \<and> length fresh = length xs \<and>
     buf_mem d = stored 0 (map ucast (take (buf_pos d) xs)) fresh \<and> inp (base d) = drop (buf_pos d) xs \<and>
     (g \<longrightarrow> min (length xs) lim \<le> buf_pos d)"

lemma received_upto_base:
  "received_upto con out inp ws xs fresh t lim g d \<Longrightarrow> same_bus con out inp (base d) h \<Longrightarrow>
    received_upto con out inp ws xs fresh t lim g (d\<lparr>base := h\<rparr>)"
  by (simp add: received_upto_def receiving_base) (simp add: same_bus_def)

lemma isr_rounds_receive:
  fixes ws xs :: "u16 list" and fresh :: "u8 list" and lim :: nat
  assumes b: "bus c con out inp" and e: "irq_enabled c" and g: "irq_gives c con inp t idle"
  defines "P \<equiv> received_upto con out inp ws xs fresh t lim"
  shows "P f d \<Longrightarrow> min (length xs) lim \<le> buf_pos d + k * t \<Longrightarrow>
    \<exists>x d'. isr_rounds c True k d = Some (x, d') \<and> (x = None \<and> idle \<and> P f d' \<or> x = Some 0 \<and> P True d')"
proof (induction k arbitrary: d)
  case (Suc k)
  let ?n = "unat (buf_len d)"
  have u: "receiving con inp t d" "out (base d) = ws" "length fresh = length xs" "buf_mem d = stored 0 (map ucast (take (buf_pos d) xs)) fresh"
      "inp (base d) = drop (buf_pos d) xs" "f \<longrightarrow> min (length xs) lim \<le> buf_pos d"
    using Suc.prems(1) by (simp_all add: P_def received_upto_def)
  have lm: "length (buf_mem d) = length xs" unfolding u(4) by (rule trans [OF length_stored]) (simp_all add: u(3))
  have n: "?n = length xs - buf_pos d" "buf_pos d \<le> length xs" "0 < t" using u(1) lm by (simp_all add: receiving_def)
  obtain h v where s: "isr_status c True d = (v, d\<lparr>base := h\<rparr>)" "same_bus con out inp (base d) h"
      "v = (if t \<le> ?n then 0x8 else if 0 < ?n then 0x2000 else 0x4) \<or> idle \<and> v = 0"
    by (rule receiving_status [OF b e g u(1)])
  have k: "P f (d\<lparr>base := h\<rparr>)" using Suc.prems(1) unfolding P_def by (rule received_upto_base [OF _ s(2)])
  consider "v = 0" "idle" | "?n = 0" "v = 0x4" | "0 < min t ?n" "v = (if t \<le> ?n then 0x8 else 0x2000)"
    using s(3) n(3) by (cases "?n = 0") auto
  then show ?case
  proof cases
    case 1
    then show ?thesis using isr_rounds_idle [of c True d "d\<lparr>base := h\<rparr>" "Suc k"] s(1) k by auto
  next
    case 2
    let ?d = "d\<lparr>base := writew c 0x28 0x601C (writew c 0x28 0x4 h)\<rparr>"
    have "same_bus con out inp (base d) (writew c 0x28 0x601C (writew c 0x28 0x4 h))" using s(2) busD(5-7) [OF b] by (simp add: same_bus_def)
    from received_upto_base [OF Suc.prems(1) [unfolded P_def] this] have "P True ?d" using 2(1) n by (simp add: P_def received_upto_def)
    then show ?thesis using isr_rounds_done [of c True d "d\<lparr>base := h\<rparr>" "Suc k"] s(1) 2(2) by auto
  next
    case 3
    let ?m = "min t ?n"
    let ?ys = "map ucast (take ?m (inp (base d))) :: u8 list"
    obtain d1 where d1: "\<And>k. isr_rounds c True (Suc k) d = isr_rounds c True k d1" "receiving con inp t d1" "out (base d1) = out (base d)"
        "buf_pos d1 = buf_pos d + ?m" "buf_mem d1 = stored (buf_pos d) ?ys (buf_mem d)" "inp (base d1) = drop ?m (inp (base d))"
      by (rule receive_round [OF b u(1) refl 3(1)]) (use s(1) 3(2) s(2) in auto)
    have "buf_mem d1 = stored 0 (map ucast (take (buf_pos d) xs) @ ?ys) fresh"
      using stored_stored [of 0 "map ucast (take (buf_pos d) xs)" fresh ?ys] n(2) u(3) unfolding d1(5) u(4) by (simp add: min_absorb2)
    then have "buf_mem d1 = stored 0 (map ucast (take (buf_pos d1) xs)) fresh" unfolding d1(4) u(5) by (simp add: take_add)
    moreover have "inp (base d1) = drop (buf_pos d1) xs" unfolding d1(4,6) u(5) by (simp add: add.commute)
    moreover have "f \<longrightarrow> min (length xs) lim \<le> buf_pos d1" using u(6) unfolding d1(4) by (blast intro: trans_le_add1)
    ultimately have "P f d1" using d1(2,3) u(2,3) by (simp add: P_def received_upto_def)
    moreover have "min (length xs) lim \<le> buf_pos d1 + k * t" using Suc.prems(2) n unfolding d1(4) by (auto simp: min_def)
    ultimately show ?thesis using Suc.IH [of d1] unfolding d1(1) by blast
  qed
next
  case 0
  have u: "receiving con inp t d" using 0(1) by (simp add: P_def received_upto_def)
  obtain h v where s: "isr_status c True d = (v, d\<lparr>base := h\<rparr>)" "same_bus con out inp (base d) h"
      "v = (if t \<le> unat (buf_len d) then 0x8 else if 0 < unat (buf_len d) then 0x2000 else 0x4) \<or> idle \<and> v = 0"
    by (rule receiving_status [OF b e g u])
  have k: "P f (d\<lparr>base := h\<rparr>)" using 0(1) unfolding P_def by (rule received_upto_base [OF _ s(2)])
  then have "P True (d\<lparr>base := h\<rparr>)" using 0(2) by (simp add: P_def received_upto_def)
  with k show ?case using s(1,3) by (auto split: if_splits)
qed

section \<open>A message\<close>

text \<open>How a message starts.\<close>

lemma start_msg_keeps:
  assumes b: "bus c con out inp" and d: "\<not> flag_no_fifo (core s)"
  obtains h where "start_msg c msg s = s\<lparr>core := (core s)\<lparr>threshold := min (max (ucast (len msg)) 1) (fifo_size (core s)),
      buf_mem := buf msg, buf_pos := 0, buf_len := ucast (len msg), base := h\<rparr>,
      receiver := (flags msg AND 1 \<noteq> 0), cmd_complete := 0, cmd_err := 0\<rparr>"
    "same_data out inp (base (core s)) h" "con h AND 0x200 = 0 \<longleftrightarrow> flags msg AND 1 \<noteq> 0"
proof -
  let ?t = "min (max (ucast (len msg)) 1) (fifo_size (core s))" and ?rx = "flags msg AND 1 \<noteq> 0"
  obtain h1 where r: "omap_i2c_resize_fifo c (ucast (len msg)) ?rx (core s) = (core s)\<lparr>threshold := ?t, base := h1\<rparr>"
      "same_data out inp (base (core s)) h1" by (rule resize_fifo_keeps [OF b d])
  let ?h2 = "writew c 0x98 (ucast (ucast (len msg) :: u32)) (writew c 0xac (addr msg) h1)"
  obtain v h3 where r3: "readw c 0x94 ?h2 = (v, h3)" by (cases "readw c 0x94 ?h2")
  let ?h4 = "writew c 0x94 (v OR 0x4000 OR 0x40) h3"
  obtain v' h5 where r5: "readw c 0x28 ?h4 = (v', h5)" by (cases "readw c 0x28 ?h4")
  let ?w = "(if ?rx then (if speed (core s) > 400 then 0x8401 OR 0x1000 else 0x8401)
      else (if speed (core s) > 400 then 0x8401 OR 0x1000 else 0x8401) OR 0x200) OR 0x2 :: u16"
  have "start_msg c msg s = s\<lparr>core := (core s)\<lparr>threshold := ?t, buf_mem := buf msg, buf_pos := 0, buf_len := ucast (len msg),
      base := writew c 0xa4 ?w h5\<rparr>, receiver := ?rx, cmd_complete := 0, cmd_err := 0\<rparr>"
    using r(1) r3 r5 unfolding start_msg_def Let_def omap_i2c_read_reg_def omap_i2c_write_reg_def by (simp add: i2c_regs i2c_bits)
  moreover have "same_data out inp (base (core s)) (writew c 0xa4 ?w h5)"
    using r(2) same_bus_read [OF b r3] same_bus_read [OF b r5] busD(6,7) [OF b] by (simp add: same_data_def same_bus_def)
  moreover have "con (writew c 0xa4 ?w h5) AND 0x200 = 0 \<longleftrightarrow> ?rx" using busD(5) [OF b] by simp
  ultimately show thesis by (rule that)
qed

text \<open>
  What a run of the thread does to the device in a message: \<open>P\<close> is kept, with its flag set when
  the command was completed, which is with the error \<open>err\<close>. Unless the controller may be idle
  each interrupt wakes the thread and each run completes the command.
\<close>

definition thread_law ::
    "'h i2c_chip \<Rightarrow> ('h \<Rightarrow> u16) \<Rightarrow> ('h \<Rightarrow> u16 list) \<Rightarrow> ('h \<Rightarrow> u16 list) \<Rightarrow> bool \<Rightarrow> u16 \<Rightarrow> bool \<Rightarrow> (bool \<Rightarrow> 'h i2c_dev \<Rightarrow> bool) \<Rightarrow> bool" where
  "thread_law c con out inp rx err idle P \<longleftrightarrow>
     (\<forall>g d h. P g d \<longrightarrow> same_bus con out inp (base d) h \<longrightarrow> P g (d\<lparr>base := h\<rparr>)) \<and>
     (\<forall>g d. P g d \<longrightarrow> (\<exists>x d'. isr_rounds c rx 100 d = Some (x, d') \<and> (x = None \<and> idle \<and> P g d' \<or> x = Some err \<and> P True d'))) \<and>
     (\<forall>g d v h. \<not> idle \<longrightarrow> P g d \<longrightarrow> readw c 0x28 (base d) = (v, h) \<longrightarrow> v AND 0x601F \<noteq> 0)"

lemma thread_lawD:
  assumes "thread_law c con out inp rx err idle P" "P g d"
  shows "same_bus con out inp (base d) h \<Longrightarrow> P g (d\<lparr>base := h\<rparr>)"
    "\<exists>x d'. isr_rounds c rx 100 d = Some (x, d') \<and> (x = None \<and> idle \<and> P g d' \<or> x = Some err \<and> P True d')"
    "\<not> idle \<Longrightarrow> readw c 0x28 (base d) = (v, h) \<Longrightarrow> v AND 0x601F \<noteq> 0"
  using assms unfolding thread_law_def by blast+

text \<open>One interrupt during a message: the command is not completed, or once more.\<close>

lemma interrupt_law:
  assumes b: "bus c con out inp" and e: "irq_enabled c" and l: "thread_law c con out inp rx err idle P" and q: "quiet con out inp ev"
    and s: "receiver s = rx" "P g (core s)"
  obtains d where "P g d" "idle" "interrupt c ev s = Some (s\<lparr>core := d\<rparr>)"
  | d where "P True d" "interrupt c ev s = Some (omap_i2c_complete_cmd err (s\<lparr>core := d\<rparr>))"
proof -
  let ?h0 = "base (core s)"
  obtain m h1 where r1: "readw c 0x2c (ev ?h0) = (m, h1)" by (cases "readw c 0x2c (ev ?h0)")
  obtain v h2 where r2: "readw c 0x28 h1 = (v, h2)" by (cases "readw c 0x28 h1")
  have "same_bus con out inp ?h0 (ev ?h0)" using q by (simp add: quiet_def same_bus_def)
  then have s1: "same_bus con out inp ?h0 h1" by (rule same_bus_trans) (rule same_bus_read [OF b r1], simp)
  then have s2: "same_bus con out inp ?h0 h2" by (rule same_bus_trans) (rule same_bus_read [OF b r2], simp)
  have m: "m = 0x601F" using e r1 unfolding irq_enabled_def by blast
  let ?d = "(core s)\<lparr>base := h2\<rparr>"
  have i: "omap_i2c_isr c (s\<lparr>core := (core s)\<lparr>base := ev ?h0\<rparr>\<rparr>) = (v AND 0x601F \<noteq> 0, s\<lparr>core := ?d\<rparr>)"
    using r1 r2 m by (simp add: omap_i2c_isr_def omap_i2c_read_reg_def i2c_regs)
  have p: "P g ?d" by (rule thread_lawD(1) [OF l s(2) s2])
  have w: "v AND 0x601F \<noteq> 0" if "\<not> idle"
    using thread_lawD(3) [OF l thread_lawD(1) [OF l s(2) s1] that] r2 by simp
  show thesis
  proof (cases "v AND 0x601F = 0")
    case True
    then show thesis using that(1) [OF p] w i by (auto simp: interrupt_def)
  next
    case False
    obtain x d' where "isr_rounds c rx 100 ?d = Some (x, d')" "x = None \<and> idle \<and> P g d' \<or> x = Some err \<and> P True d'"
      using thread_lawD(2) [OF l p] by blast
    then show thesis using that(1) [of d'] that(2) [of d'] False i s(1) by (auto simp: interrupt_def omap_i2c_isr_thread_def)
  qed
qed

text \<open>
  Interrupts during a message. The command was completed when the flag is set, then with the error
  \<open>err\<close>; before, the error is none.
\<close>

lemma interrupts_law:
  assumes b: "bus c con out inp" and e: "irq_enabled c" and l: "thread_law c con out inp rx err idle P"
  shows "\<forall>ev\<in>set es. quiet con out inp ev \<Longrightarrow> receiver s = rx \<Longrightarrow> P g (core s) \<Longrightarrow> (g \<Longrightarrow> cmd_err s = err) \<Longrightarrow> (\<not> g \<Longrightarrow> cmd_err s = 0) \<Longrightarrow>
    \<exists>s' g'. interrupts c es s = Some s' \<and> receiver s' = rx \<and> P (g \<or> g') (core s') \<and> (g' \<longrightarrow> cmd_complete s < cmd_complete s') \<and>
      (\<not> g' \<longrightarrow> cmd_complete s' = cmd_complete s) \<and> cmd_err s' = (if g \<or> g' then err else 0) \<and> (\<not> idle \<longrightarrow> es \<noteq> [] \<longrightarrow> g')"
proof (induction es arbitrary: s g)
  case Nil
  then show ?case by (intro exI [of _ s] exI [of _ False]) simp
next
  case (Cons ev es)
  have q: "quiet con out inp ev" "\<forall>ev\<in>set es. quiet con out inp ev" using Cons.prems(1) by simp_all
  show ?case
  proof (rule interrupt_law [OF b e l q(1) Cons.prems(2,3)])
    fix d assume d: "P g d" "idle" "interrupt c ev s = Some (s\<lparr>core := d\<rparr>)"
    show ?case using Cons.IH [OF q(2), of "s\<lparr>core := d\<rparr>" g] Cons.prems d by auto
  next
    fix d assume d: "P True d" "interrupt c ev s = Some (omap_i2c_complete_cmd err (s\<lparr>core := d\<rparr>))"
    let ?s = "omap_i2c_complete_cmd err (s\<lparr>core := d\<rparr>)"
    have s: "receiver ?s = rx" "core ?s = d" "cmd_err ?s = err" "cmd_complete ?s = Suc (cmd_complete s)"
      using Cons.prems(2,4,5) by (cases g; simp add: omap_i2c_complete_cmd_def)+
    obtain s' g' where "interrupts c es ?s = Some s'" "receiver s' = rx" "P True (core s')" "g' \<longrightarrow> cmd_complete ?s < cmd_complete s'"
        "\<not> g' \<longrightarrow> cmd_complete s' = cmd_complete ?s" "cmd_err s' = err"
      using Cons.IH [OF q(2) s(1), of True] d(1) s(2,3) by auto
    then show ?case using d(2) s(4) by (intro exI [of _ s'] exI [of _ True]) (cases g'; simp)
  qed
qed

text \<open>A message: how it ends follows from what the thread does.\<close>

lemma xfer_msg_law:
  assumes b: "bus c con out inp" and e: "irq_enabled c" and l: "thread_law c con out inp (receiver s1) err idle P"
    and q: "\<forall>ev\<in>set (irqs @ late). quiet con out inp ev" and m: "len msg \<noteq> 0"
    and s1: "start_msg c msg s = s1" "P False (core s1)" "cmd_complete s1 = 0" "cmd_err s1 = 0"
  obtains g f s2 where "omap_i2c_xfer_msg c irqs late msg s =
      do { (r, s') \<leftarrow> end_msg c msg g (if g then err else 0) s2; Some (r, buf_mem (core s2), s') }"
    "P (g \<or> f) (core s2)" "\<not> idle \<Longrightarrow> irqs \<noteq> [] \<Longrightarrow> g"
proof -
  have "\<forall>ev\<in>set irqs. quiet con out inp ev" using q by simp
  from interrupts_law [OF b e l this, of s1 False] s1(2-4) obtain s2 g where
    s2: "interrupts c irqs s1 = Some s2" "receiver s2 = receiver s1" "P g (core s2)" "g \<longleftrightarrow> cmd_complete s2 \<noteq> 0"
      "cmd_err s2 = (if g then err else 0)" "\<not> idle \<longrightarrow> irqs \<noteq> [] \<longrightarrow> g" by force
  let ?s2 = "s2\<lparr>cmd_complete := cmd_complete s2 - 1\<rparr>"
  have "\<forall>ev\<in>set late. quiet con out inp ev" using q by simp
  from interrupts_law [OF b e l this, of ?s2 g] s2(2,3,5) obtain s3 f where
    s3: "interrupts c late ?s2 = Some s3" "P (g \<or> f) (core s3)" by auto
  show thesis
    by (rule that [OF _ s3(2)]) (use m s1(1) s2 s3(1) in \<open>simp_all add: omap_i2c_xfer_msg_def wait_for_completion_def\<close>)
qed

text \<open>Waiting for a free bus ends, with the bus free or not, and moves no data.\<close>

definition bb_ends :: "'h i2c_chip \<Rightarrow> ('h \<Rightarrow> u16) \<Rightarrow> ('h \<Rightarrow> u16 list) \<Rightarrow> ('h \<Rightarrow> u16 list) \<Rightarrow> bool" where
  "bb_ends c con out inp \<longleftrightarrow> (\<forall>d. \<exists>r h. omap_i2c_wait_for_bb c d = Some (r, d\<lparr>base := h\<rparr>) \<and> same_bus con out inp (base d) h \<and>
     (r = 0 \<or> r = - 110) \<and> (free_bus c \<longrightarrow> r = 0))"

lemma bb_ends_free:
  assumes b: "bus c con out inp" and f: "free_bus c"
  shows "bb_ends c con out inp"
  unfolding bb_ends_def
proof
  fix d :: "'a i2c_dev"
  obtain v h where r: "readw c 0x28 (base d) = (v, h)" by (cases "readw c 0x28 (base d)")
  have "v AND 0x1000 = 0" using f r unfolding free_bus_def by blast
  then show "\<exists>r h. omap_i2c_wait_for_bb c d = Some (r, d\<lparr>base := h\<rparr>) \<and> same_bus con out inp (base d) h \<and>
     (r = 0 \<or> r = - 110) \<and> (free_bus c \<longrightarrow> r = 0)"
    using wait_for_bb_free [OF r] same_bus_read [OF b r] by auto
qed

lemma bb_ends_clock:
  assumes b: "bus c con out inp" and j: "clock_runs c" and q: "quiet con out inp (msleep c)"
  shows "bb_ends c con out inp"
proof (cases "free_bus c")
  case True
  then show ?thesis by (rule bb_ends_free [OF b])
next
  case False
  show ?thesis unfolding bb_ends_def
  proof
    fix d :: "'a i2c_dev"
    let ?rd = "omap_i2c_read_reg c OMAP_I2C_STAT_REG"
    have k: "jiffies c (base d) \<le> jiffies c (base (snd (?rd d)))" "jiffies c (base d) < jiffies c (base (d\<lparr>base := msleep c (base d)\<rparr>))" for d
      using j by (auto simp: clock_runs_def omap_i2c_read_reg_def split: prod.splits)
    obtain g v d' where p: "poll_dev c (\<lambda>v. v AND OMAP_I2C_STAT_BB \<noteq> 0) (\<lambda>d. d) (msleep c) d = Some (g, v, d')"
      unfolding poll_dev_def by (rule poll_returns [where clk = "\<lambda>d. jiffies c (base d)", OF k(1) order.refl k(2)])
    have i: "\<exists>h. d = d\<lparr>base := h\<rparr> \<and> same_bus con out inp (base d) h" by (rule exI [of _ "base d"]) simp
    have "(\<exists>h. d' = d\<lparr>base := h\<rparr> \<and> same_bus con out inp (base d) h) \<and> True"
      by (rule poll_induct [OF p [unfolded poll_dev_def], of "\<lambda>d'. \<exists>h. d' = d\<lparr>base := h\<rparr> \<and> same_bus con out inp (base d) h" "\<lambda>_. True", OF i])
        (use same_bus_read [OF b, of "0x28"] q in \<open>fastforce simp: omap_i2c_read_reg_def i2c_regs quiet_def same_bus_def split: prod.splits\<close>)+
    then show "\<exists>r h. omap_i2c_wait_for_bb c d = Some (r, d\<lparr>base := h\<rparr>) \<and> same_bus con out inp (base d) h \<and>
       (r = 0 \<or> r = - 110) \<and> (free_bus c \<longrightarrow> r = 0)"
      using p False by (auto simp: omap_i2c_wait_for_bb_def)
  qed
qed

text \<open>A transfer of one message.\<close>

lemma xfer_single:
  assumes w: "bb_ends c con out inp"
    and x: "\<And>h. same_bus con out inp (base (core s)) h \<Longrightarrow>
      \<exists>r m s'. omap_i2c_xfer_msg c irqs late msg (s\<lparr>core := (core s)\<lparr>base := h\<rparr>\<rparr>) = Some (r, m, s') \<and> Q (if r = 0 then 1 else r) m s'"
    and q: "\<And>r m s h. Q r m s \<Longrightarrow> same_bus con out inp (base (core s)) h \<Longrightarrow> Q r m (s\<lparr>core := (core s)\<lparr>base := h\<rparr>\<rparr>)"
    and busy: "\<And>h. \<not> free_bus c \<Longrightarrow> same_bus con out inp (base (core s)) h \<Longrightarrow> Q (- 110) (buf msg) (s\<lparr>core := (core s)\<lparr>base := h\<rparr>\<rparr>)"
  shows "\<exists>r m s'. omap_i2c_xfer c [(msg, irqs, late)] s = Some (r, [m], s') \<and> Q r m s'"
proof -
  obtain r0 h where h: "omap_i2c_wait_for_bb c (core s) = Some (r0, (core s)\<lparr>base := h\<rparr>)" "same_bus con out inp (base (core s)) h"
      "r0 = 0 \<or> r0 = - 110" "free_bus c \<longrightarrow> r0 = 0"
    using w unfolding bb_ends_def by blast
  show ?thesis
  proof (cases "r0 = 0")
    case True
    obtain r m s' where s': "omap_i2c_xfer_msg c irqs late msg (s\<lparr>core := (core s)\<lparr>base := h\<rparr>\<rparr>) = Some (r, m, s')" "Q (if r = 0 then 1 else r) m s'"
      using x [OF h(2)] by blast
    obtain r1 h' where h': "omap_i2c_wait_for_bb c (core s') = Some (r1, (core s')\<lparr>base := h'\<rparr>)" "same_bus con out inp (base (core s')) h'"
      using w unfolding bb_ends_def by blast
    have "omap_i2c_xfer c [(msg, irqs, late)] s = Some (if r = 0 then 1 else r, [m], s'\<lparr>core := (core s')\<lparr>base := h'\<rparr>\<rparr>)"
      using h(1) True s'(1) h'(1) by (simp add: omap_i2c_xfer_def)
    then show ?thesis using q [OF s'(2) h'(2)] by blast
  next
    case False
    then have "omap_i2c_xfer c [(msg, irqs, late)] s = Some (- 110, [buf msg], s\<lparr>core := (core s)\<lparr>base := h\<rparr>\<rparr>)"
      using h(1,3) by (simp add: omap_i2c_xfer_def)
    then show ?thesis using busy [OF _ h(2)] False h(4) by blast
  qed
qed

lemma hw_init_enables:
  assumes b: "bus c con out inp"
  shows "\<exists>h'. omap_i2c_hw_init c d = d\<lparr>base := h'\<rparr> \<and> out h' = out (base d) \<and> con h' = 0x8000"
proof -
  let ?h = "writew c 0xa4 0x8000 (writew c 0x34 (westate d) (writew c 0xb8 (sclhstate d) (writew c 0xb4 (scllstate d)
      (writew c 0xb0 (pscstate d) (writew c 0xa4 0 (base d))))))"
  let ?h' = "if iestate d \<noteq> 0 then writew c 0x2c (iestate d) ?h else ?h"
  have "omap_i2c_hw_init c d = d\<lparr>base := ?h'\<rparr>"
    by (simp add: omap_i2c_hw_init_def omap_i2c_write_reg_def i2c_regs i2c_bits Let_def)
  moreover have "out ?h' = out (base d)" "con ?h' = 0x8000" using busD(5,6) [OF b] by simp_all
  ultimately show ?thesis by blast
qed

text \<open>After a failed transfer the controller is reset and enabled again; the data is not touched.\<close>

lemma recover_enables:
  assumes b: "bus c con out inp" and j: "clock_runs c"
  obtains h where "recover c s = Some (s\<lparr>core := (core s)\<lparr>base := h\<rparr>\<rparr>)" "out h = out (base (core s))" "con h = 0x8000"
proof -
  let ?d = "core s" and ?h0 = "base (core s)"
  obtain sysc h1 where r1: "readw c 0x10 ?h0 = (sysc, h1)" by (cases "readw c 0x10 ?h0")
  obtain w h2 where r2: "readw c 0xa4 h1 = (w, h2)" by (cases "readw c 0xa4 h1")
  let ?h3 = "writew c 0xa4 0x8000 (writew c 0x10 0x2 (writew c 0xa4 (w AND NOT 0x8000) h2))"
  let ?lim = "jiffies c (writew c 0x10 0x2 (writew c 0xa4 (w AND NOT 0x8000) h2)) + second c"
  let ?p = "poll (\<lambda>d. jiffies c (base d)) (omap_i2c_read_reg c OMAP_I2C_SYSS_REG) (\<lambda>v. v AND SYSS_RESETDONE_MASK = 0) (\<lambda>d. d)
      (\<lambda>d. d\<lparr>base := msleep c (base d)\<rparr>) ?lim (?d\<lparr>base := ?h3\<rparr>)"
  have o3: "out ?h3 = out ?h0" using busD(2) [OF b r1] busD(2) [OF b r2] busD(6) [OF b] by simp
  have k: "jiffies c (base d) \<le> jiffies c (base (snd (omap_i2c_read_reg c OMAP_I2C_SYSS_REG d)))"
      "jiffies c (base d) < jiffies c (base (d\<lparr>base := msleep c (base d)\<rparr>))" for d
    using j by (auto simp: clock_runs_def omap_i2c_read_reg_def split: prod.splits)
  obtain g v d' where p: "?p = Some (g, v, d')"
    by (rule poll_returns [where clk = "\<lambda>d. jiffies c (base d)", OF k(1) order.refl k(2)])
  have "(\<exists>h. d' = ?d\<lparr>base := h\<rparr> \<and> out h = out ?h0) \<and> True"
    by (rule poll_induct [OF p, of "\<lambda>d'. \<exists>h. d' = ?d\<lparr>base := h\<rparr> \<and> out h = out ?h0" "\<lambda>_. True"])
      (use o3 busD(2) [OF b] busD(8) [OF b] in \<open>auto simp: omap_i2c_read_reg_def split: prod.splits\<close>)
  then obtain h where h: "d' = ?d\<lparr>base := h\<rparr>" "out h = out ?h0" by blast
  let ?h4 = "if g then writew c 0x10 sysc h else h"
  have "\<exists>x. omap_i2c_reset c ?d = Some (x, ?d\<lparr>base := ?h4\<rparr>)"
    using r1 r2 p h(1) by (simp add: omap_i2c_reset_def omap_i2c_read_reg_def omap_i2c_write_reg_def i2c_regs irq_consts i2c_bits)
  then obtain x where x: "omap_i2c_reset c ?d = Some (x, ?d\<lparr>base := ?h4\<rparr>)" ..
  have "out ?h4 = out ?h0" using h(2) busD(6) [OF b] by simp
  then have "\<exists>h'. omap_i2c_hw_init c (?d\<lparr>base := ?h4\<rparr>) = ?d\<lparr>base := h'\<rparr> \<and> out h' = out ?h0 \<and> con h' = 0x8000"
    using hw_init_enables [OF b, of "?d\<lparr>base := ?h4\<rparr>"] by auto
  then show thesis using that x by (auto simp: recover_def)
qed

lemma ucast_of_nat_u8: "(ucast (of_nat n :: u16) :: u8) = of_nat n"
  by transfer (simp add: take_bit_of_nat)

lemma unat_ucast_u32: "unat (ucast x :: u32) = unat x" for x :: u16
  using unsigned_less [of x, where 'a = nat] by (simp add: unsigned_ucast_eq take_bit_nat_eq_self)

lemma threshold_positive: "n \<noteq> 0 \<Longrightarrow> 0 < unat (min (max m 1) n)" for n m :: u8
  by (auto simp: min_def max_def unat_gt_0 split: if_splits)

text \<open>How a message that ends without an error or times out is reported; neither moves data.\<close>

lemma end_msg_plain:
  assumes b: "bus c con out inp" and j: "clock_runs c"
  obtains s' where "end_msg c msg g 0 s = Some (if g then 0 else - 110, s')" "out (base (core s')) = out (base (core s))"
proof (cases g)
  case True
  then show thesis by (intro that [of s]) (simp_all add: end_msg_def)
next
  case False
  obtain h where "recover c s = Some (s\<lparr>core := (core s)\<lparr>base := h\<rparr>\<rparr>)" "out h = out (base (core s))" by (rule recover_enables [OF b j, of s])
  then show thesis using False by (intro that [of "s\<lparr>core := (core s)\<lparr>base := h\<rparr>\<rparr>"]) (simp_all add: end_msg_def)
qed




text \<open>
  A device with the same state as the one of the polling driver, that reports its events to the
  interrupt enable and status registers.
\<close>

definition sample_irq_device :: "nat \<Rightarrow> nat \<Rightarrow> (nat \<times> u16 \<times> u16 list \<times> u16 list) i2c_chip" where
  "sample_irq_device goal t = (sample_device goal)\<lparr>readw := (\<lambda>r (j, con, out, inp).
     if r = 0x28
     then (if con AND 0x200 \<noteq> 0 then if length out + t \<le> goal then 0x10 else if length out < goal then 0x4000 else 0x4
           else if t \<le> length inp then 0x8 else if inp \<noteq> [] then 0x2000 else 0x4, (j, con, out, inp))
     else if r = 0x2c then (0x601F, (j, con, out, inp))
     else if r = 0x9c then (if inp = [] then 0 else hd inp, (j, con, out, tl inp)) else (0, (j, con, out, inp)))\<rparr>"

lemma sample_irq_device:
  "bus (sample_irq_device goal t) s_con s_out s_inp" "irq_enabled (sample_irq_device goal t)" "free_bus (sample_irq_device goal t)"
  "clock_runs (sample_irq_device goal t)" "quiet s_con s_out s_inp (msleep (sample_irq_device goal t))"
  "irq_takes (sample_irq_device goal t) s_con s_out goal t False" "irq_gives (sample_irq_device goal t) s_con s_inp t False"
  "quiet s_con s_out s_inp (\<lambda>h. h)"
  by (auto simp: bus_def irq_enabled_def free_bus_def clock_runs_def irq_takes_def irq_gives_def quiet_def sample_irq_device_def
      sample_device_def s_con_def s_out_def s_inp_def split: if_splits)

definition sample_omap :: "u16 list \<Rightarrow> (nat \<times> u16 \<times> u16 list \<times> u16 list) omap_dev" where
  "sample_omap inp = \<lparr>core = sample_i2c inp, cmd_err = 0, receiver = False, cmd_complete = 0\<rparr>"


text \<open>
  The limit can cut a message short: with a threshold of one and no more than one interrupt before
  the process runs again and looks at the result, 101 bytes are reported as sent and 100 were.
\<close>

lemma irq_write_cut_short:
  "map_option (\<lambda>(r, s'). (r, length (s_out (base (core s')))))
     (I2c_Irq.my_write (sample_irq_device 101 1) [\<lambda>h. h] [] True (replicate 101 7) 101
       ((sample_omap [])\<lparr>core := (sample_i2c [])\<lparr>fifo_size := 1\<rparr>\<rparr>)) = Some (101, 100)"
  by code_simp

section \<open>Reading\<close>

lemma receiving_law:
  assumes b: "bus c con out inp" and e: "irq_enabled c" and g: "irq_gives c con inp t idle"
  shows "thread_law c con out inp True 0 idle (received_upto con out inp ws xs fresh t (100 * t))" (is "thread_law _ _ _ _ _ _ _ ?P")
  unfolding thread_law_def
proof (intro conjI allI impI)
  fix f d h assume "?P f d" "same_bus con out inp (base d) h"
  then show "?P f (d\<lparr>base := h\<rparr>)" by (rule received_upto_base)
next
  fix f d assume "?P f d"
  then show "\<exists>x d'. isr_rounds c True 100 d = Some (x, d') \<and> (x = None \<and> idle \<and> ?P f d' \<or> x = Some 0 \<and> ?P True d')"
    by (rule isr_rounds_receive [OF b e g]) simp
next
  fix f d v h assume "\<not> idle" "?P f d" and r: "readw c 0x28 (base d) = (v, h)"
  then have "v AND 0x200F \<noteq> 0" using receiving_event [OF g _ r same_bus_refl] by (simp add: received_upto_def split: if_splits)
  then show "v AND 0x601F \<noteq> 0" by (rule mask_nonzero) simp
qed

lemma xfer_msg_receives:
  assumes b: "bus c con out inp" and e: "irq_enabled c" and j: "clock_runs c" and q: "\<forall>ev\<in>set (irqs @ late). quiet con out inp ev"
    and g: "irq_gives c con inp t idle"
    and d: "\<not> flag_16bit_data (core s)" "\<not> flag_no_fifo (core s)" "fifo_size (core s) \<noteq> 0"
    and t: "t = unat (min (max (ucast (len msg)) 1) (fifo_size (core s)))"
    and l: "flags msg AND 1 \<noteq> 0" "length (buf msg) = unat (len msg)" "len msg \<noteq> 0" "length (inp (base (core s))) = unat (len msg)"
  obtains r s' k where "omap_i2c_xfer_msg c irqs late msg s = Some (r, stored 0 (map ucast (take k (inp (base (core s))))) (buf msg), s')"
    "k \<le> length (buf msg)" "out (base (core s')) = out (base (core s))"
    "r = 0 \<and> min (length (buf msg)) (100 * t) \<le> k \<or> r = - 110" "\<not> idle \<longrightarrow> irqs \<noteq> [] \<longrightarrow> r = 0"
proof -
  let ?xs = "inp (base (core s))"
  let ?P = "received_upto con out inp (out (base (core s))) ?xs (buf msg) t (100 * t)" and ?s1 = "start_msg c msg s"
  obtain h where h: "?s1 = s\<lparr>core := (core s)\<lparr>threshold := min (max (ucast (len msg)) 1) (fifo_size (core s)),
      buf_mem := buf msg, buf_pos := 0, buf_len := ucast (len msg), base := h\<rparr>, receiver := True, cmd_complete := 0, cmd_err := 0\<rparr>"
      "same_data out inp (base (core s)) h" "con h AND 0x200 = 0"
    by (rule start_msg_keeps [OF b d(2), of msg]) (use l(1) in simp)
  have p: "?P False (core ?s1)" using h d t l(2,4) threshold_positive [OF d(3), of "ucast (len msg)"]
    by (simp add: received_upto_def receiving_def same_data_def unat_ucast_u32)
  have law: "thread_law c con out inp (receiver ?s1) 0 idle ?P" using receiving_law [OF b e g] h(1) by simp
  obtain x f s2 where x: "omap_i2c_xfer_msg c irqs late msg s = do { (r, s') \<leftarrow> end_msg c msg x 0 s2; Some (r, buf_mem (core s2), s') }"
      "?P (x \<or> f) (core s2)" "\<not> idle \<Longrightarrow> irqs \<noteq> [] \<Longrightarrow> x"
    by (rule xfer_msg_law [where P = ?P, OF b e law q l(3) refl p]) (use h(1) in simp_all)
  obtain s' where s': "end_msg c msg x 0 s2 = Some (if x then 0 else - 110, s')" "out (base (core s')) = out (base (core s2))"
    by (rule end_msg_plain [OF b j, of msg x s2])
  let ?k = "buf_pos (core s2)"
  have m: "buf_mem (core s2) = stored 0 (map ucast (take ?k ?xs)) (buf msg)" "?k \<le> length (buf_mem (core s2))"
      "out (base (core s2)) = out (base (core s))" "x \<longrightarrow> min (length ?xs) (100 * t) \<le> ?k"
    using x(2) unfolding received_upto_def receiving_def by blast+
  have "?k \<le> length (buf msg)" using m(2) length_stored [of 0 "map ucast (take ?k ?xs) :: u8 list" "buf msg"] l(2,4) unfolding m(1) by simp
  then show thesis
    by (intro that [of "if x then 0 else - 110" ?k s']) (use x(1,3) s' m l(2,4) in auto)
qed

text \<open>
  C39: a read from a device that sends the bytes, at its own pace and whichever interrupts come,
  either fails with ETIMEDOUT and gives the user nothing, or returns 1, the number of messages,
  and gives the user the first \<open>k\<close> of the device's bytes in order, followed by the memory as it was
  allocated. Then \<open>k\<close> is all, or at least a hundred thresholds, hence all if that many are asked
  for at most. On a free bus, with a device that always has an event, one interrupt is enough for the
  read to succeed.
\<close>

theorem irq_read_returns:
  assumes "bus c con out inp" "irq_enabled c" "clock_runs c" "quiet con out inp (msleep c)" "\<forall>ev\<in>set (irqs @ late). quiet con out inp ev"
    and "irq_gives c con inp t idle"
    and "\<not> flag_16bit_data (core s)" "\<not> flag_no_fifo (core s)" "fifo_size (core s) \<noteq> 0"
    and "t = unat (min (max (of_nat count) 1) (fifo_size (core s)))" "0 < count" "count \<le> 8192" "count \<le> room"
    and "tmp count = Some fresh" "length fresh = count" "length (inp (base (core s))) = count"
  shows "\<exists>r bs s'. I2c_Irq.my_read c irqs late tmp room count s = Some (r, bs, s') \<and> out (base (core s')) = out (base (core s)) \<and>
    (r = - 110 \<and> bs = [] \<or>
     r = 1 \<and> (\<exists>k\<le>count. (k = count \<or> 100 * t \<le> k) \<and> bs = map ucast (take k (inp (base (core s)))) @ drop k fresh)) \<and>
    (free_bus c \<longrightarrow> \<not> idle \<longrightarrow> irqs \<noteq> [] \<longrightarrow> r = 1)"
proof -
  let ?msg = "\<lparr>addr = 0x50, len = of_nat count, buf = fresh, flags = 1\<rparr> :: i2c_flag_msg"
  let ?xs = "inp (base (core s))" and ?o = "out (base (core s))"
  let ?Q = "\<lambda>r m s'. out (base (core s')) = ?o \<and>
    (r = 1 \<and> (\<exists>k\<le>count. min count (100 * t) \<le> k \<and> m = map ucast (take k ?xs) @ drop k fresh) \<or> r = - 110) \<and>
    (free_bus c \<longrightarrow> \<not> idle \<longrightarrow> irqs \<noteq> [] \<longrightarrow> r = 1)"
  have n: "unat (of_nat count :: u16) = count" using assms(12) by (intro unat_of_nat_small) simp
  have z: "(of_nat count :: u16) \<noteq> 0" using n assms(11) by auto
  have "\<exists>r m s'. omap_i2c_xfer c [(?msg, irqs, late)] s = Some (r, [m], s') \<and> ?Q r m s'"
  proof (rule xfer_single [OF bb_ends_clock [OF assms(1,3,4)], where Q = ?Q])
    fix h assume h: "same_bus con out inp (base (core s)) h"
    let ?s = "s\<lparr>core := (core s)\<lparr>base := h\<rparr>\<rparr>"
    have hx: "inp (base (core ?s)) = ?xs" "out (base (core ?s)) = ?o" using h by (simp_all add: same_bus_def)
    obtain r s' k where r: "omap_i2c_xfer_msg c irqs late ?msg ?s = Some (r, stored 0 (map ucast (take k (inp (base (core ?s))))) (buf ?msg), s')"
        "k \<le> length (buf ?msg)" "out (base (core s')) = out (base (core ?s))"
        "r = 0 \<and> min (length (buf ?msg)) (100 * t) \<le> k \<or> r = - 110" "\<not> idle \<longrightarrow> irqs \<noteq> [] \<longrightarrow> r = 0"
      by (rule xfer_msg_receives [OF assms(1,2,3,5,6), of ?s ?msg]) (use assms(7-16) n z hx(1) in \<open>simp_all add: ucast_of_nat_u8\<close>)
    have "stored 0 (map ucast (take k ?xs)) fresh = map ucast (take k ?xs) @ drop k fresh"
      using r(2) assms(15,16) by (simp add: stored_def min_absorb2)
    then show "\<exists>r m s'. omap_i2c_xfer_msg c irqs late ?msg ?s = Some (r, m, s') \<and> ?Q (if r = 0 then 1 else r) m s'"
      using r assms(15) hx by (intro exI [of _ r] exI [of _ "map ucast (take k ?xs) @ drop k fresh"] exI [of _ s'] conjI) auto
  qed (auto simp: same_bus_def)
  then obtain r m s' where r: "omap_i2c_xfer c [(?msg, irqs, late)] s = Some (r, [m], s')" "?Q r m s'" by blast
  have f: "length m = count" if "r = 1" using r(2) that assms(15,16) by auto
  have "I2c_Irq.my_read c irqs late tmp room count s = Some (r, if r = 1 then m else [], s')"
    using r f assms(12-14) by (auto simp: I2c_Irq.my_read_def mem_read_def)
  moreover have "k = count \<or> 100 * t \<le> k" if "k \<le> count" "min count (100 * t) \<le> k" for k using that by auto
  ultimately show ?thesis using r(2) by (intro exI [of _ r] exI [of _ "if r = 1 then m else []"] exI [of _ s']) auto
qed

theorem irq_read_returns_witness:
  "\<exists>s'. I2c_Irq.my_read (sample_irq_device 0 3) [\<lambda>h. h] [\<lambda>h. h] (\<lambda>n. Some (replicate n 0)) 8 3 (sample_omap [7, 8, 9]) = Some (1, [7, 8, 9], s')"
proof -
  let ?irqs = "[\<lambda>h. h] :: (nat \<times> u16 \<times> u16 list \<times> u16 list \<Rightarrow> nat \<times> u16 \<times> u16 list \<times> u16 list) list"
  let ?c = "sample_irq_device 0 3" and ?s = "sample_omap [7, 8, 9]"
  have t: "3 = unat (min (max (of_nat 3) 1) (4 :: u8))" by code_simp
  have "\<exists>r bs s'. I2c_Irq.my_read ?c ?irqs ?irqs (\<lambda>n. Some (replicate n 0)) 8 3 ?s = Some (r, bs, s') \<and>
      s_out (base (core s')) = s_out (base (core ?s)) \<and>
      (r = - 110 \<and> bs = [] \<or>
       r = 1 \<and> (\<exists>k\<le>3. (k = 3 \<or> 100 * 3 \<le> k) \<and> bs = map ucast (take k (s_inp (base (core ?s)))) @ drop k (replicate 3 0))) \<and>
      (free_bus ?c \<longrightarrow> \<not> False \<longrightarrow> ?irqs \<noteq> [] \<longrightarrow> r = 1)"
    by (rule irq_read_returns [OF sample_irq_device(1,2,4,5)])
      (use t sample_irq_device(7) [of 0 3] sample_irq_device(8) in \<open>simp_all add: sample_omap_def sample_i2c_def s_inp_def\<close>)
  then show ?thesis using sample_irq_device(3) [of 0 3] by (auto simp: sample_omap_def sample_i2c_def s_inp_def)
qed

section \<open>Errors\<close>

text \<open>The status of a device that does not acknowledge, and else of a bus lost to another master.\<close>

definition refuses :: "'h i2c_chip \<Rightarrow> bool \<Rightarrow> bool" where
  "refuses c nack \<longleftrightarrow> (\<forall>h v h'. readw c 0x28 h = (v, h') \<longrightarrow> (if nack then v AND 0x2 = 0x2 else v AND 0x3 = 0x1))"

lemma refusesD: "refuses c nack \<Longrightarrow> readw c 0x28 h = (v, h') \<Longrightarrow> if nack then v AND 0x2 = 0x2 else v AND 0x3 = 0x1"
  unfolding refuses_def by blast

lemma refused_round:
  assumes b: "bus c con out inp" and e: "irq_enabled c" and f: "refuses c nack"
  shows "\<exists>h. isr_rounds c rx 100 d = Some (Some (if nack then 0x2 else 0x1), d\<lparr>base := h\<rparr>) \<and> out h = out (base d)"
proof -
  let ?m = "if rx then 0x200F else 0x4017 :: u16"
  obtain v h h' where s: "isr_status c rx d = (v AND ?m, d\<lparr>base := h'\<rparr>)" "readw c 0x28 h = (v, h')" "same_bus con out inp (base d) h'"
    by (rule isr_status_reads [OF b e, of rx d])
  have v: "if nack then v AND 0x2 = 0x2 else v AND 0x3 = 0x1" by (rule refusesD [OF f s(2)])
  have m: "(v AND ?m) AND 0x2 = v AND 0x2" "(v AND ?m) AND 0x1 = v AND 0x1" by (simp_all add: and.assoc)
  have "isr_rounds c rx (Suc 99) d = Some (Some (if nack then 0x2 else 0x1), d\<lparr>base := writew c 0x28 (if nack then 0x2 else 0x1) h'\<rparr>)"
  proof (cases nack)
    case True
    then have n: "v AND 0x2 = 0x2" using v by simp
    have "v AND ?m \<noteq> 0" by (rule mask_nonzero [of v "0x2"]) (simp_all add: n)
    then show ?thesis unfolding isr_rounds.simps s(1) Let_def prod.case i2c_bits m ack_eq using True n by simp
  next
    case False
    then have "v AND 0x3 = 0x1" using v by simp
    then have n: "v AND 0x2 = 0" "v AND 0x1 = 0x1" using mask_bit [of v "0x3" "0x1" "0x2"] mask_bit [of v "0x3" "0x1" "0x1"] by simp_all
    have "v AND ?m \<noteq> 0" by (rule mask_nonzero [of v "0x1"]) (simp_all add: n)
    then show ?thesis unfolding isr_rounds.simps s(1) Let_def prod.case i2c_bits m ack_eq using False n by simp
  qed
  moreover have "out (writew c 0x28 (if nack then 0x2 else 0x1) h') = out (base d)" using s(3) busD(6) [OF b] by (simp add: same_bus_def)
  ultimately show ?thesis by (intro exI [of _ "writew c 0x28 (if nack then 0x2 else 0x1) h'"]) simp
qed

text \<open>The memory and the words sent stay as they are.\<close>

definition untouched :: "('h \<Rightarrow> u16 list) \<Rightarrow> u16 list \<Rightarrow> u8 list \<Rightarrow> bool \<Rightarrow> 'h i2c_dev \<Rightarrow> bool" where
  "untouched out ws m g d \<longleftrightarrow> buf_mem d = m \<and> out (base d) = ws"

lemma refused_law:
  assumes b: "bus c con out inp" and e: "irq_enabled c" and f: "refuses c nack"
  shows "thread_law c con out inp rx (if nack then 0x2 else 0x1) False (untouched out ws m)"
  unfolding thread_law_def
proof (intro conjI allI impI)
  fix g d h assume "untouched out ws m g d" "same_bus con out inp (base d) h"
  then show "untouched out ws m g (d\<lparr>base := h\<rparr>)" by (simp add: untouched_def same_bus_def)
next
  fix g d assume d: "untouched out ws m g d"
  obtain h where h: "isr_rounds c rx 100 d = Some (Some (if nack then 0x2 else 0x1), d\<lparr>base := h\<rparr>)" "out h = out (base d)"
    using refused_round [OF b e f] by blast
  then have "untouched out ws m True (d\<lparr>base := h\<rparr>)" using d by (simp add: untouched_def)
  with h(1) show "\<exists>x d'. isr_rounds c rx 100 d = Some (x, d') \<and>
      (x = None \<and> False \<and> untouched out ws m g d' \<or> x = Some (if nack then 0x2 else 0x1) \<and> untouched out ws m True d')"
    by blast
next
  fix g d v h assume "readw c 0x28 (base d) = (v, h)"
  note v = refusesD [OF f this]
  show "v AND 0x601F \<noteq> 0" by (rule mask_nonzero [of v "if nack then 0x2 else 0x3"]) (use v in \<open>simp_all split: if_splits\<close>)
qed

text \<open>How a message ends that was completed with the error of a refusal.\<close>

lemma end_msg_refused:
  assumes b: "bus c con out inp" and j: "clock_runs c"
  obtains s' where "end_msg c msg True (if nack then 0x2 else 0x1) s =
      Some (if nack then if flags msg AND 0x1000 \<noteq> 0 then 0 else - 121 else - 5, s')" "out (base (core s')) = out (base (core s))"
proof -
  obtain h where rec: "recover c s = Some (s\<lparr>core := (core s)\<lparr>base := h\<rparr>\<rparr>)" "out h = out (base (core s))" by (rule recover_enables [OF b j, of s])
  obtain v h4 where r4: "readw c 0xa4 (base (core s)) = (v, h4)" by (cases "readw c 0xa4 (base (core s))")
  have "\<exists>s'. end_msg c msg True (if nack then 0x2 else 0x1) s =
      Some (if nack then if flags msg AND 0x1000 \<noteq> 0 then 0 else - 121 else - 5, s') \<and> out (base (core s')) = out (base (core s))"
    unfolding end_msg_def using rec r4 busD(2) [OF b r4] busD(6) [OF b]
    by (auto simp: i2c_bits i2c_regs omap_i2c_read_reg_def omap_i2c_write_reg_def)
  then show thesis using that by blast
qed

lemma xfer_refused:
  assumes b: "bus c con out inp" and e: "irq_enabled c" and f: "free_bus c" and j: "clock_runs c"
    and q: "\<forall>ev\<in>set (irqs @ late). quiet con out inp ev" "irqs \<noteq> []"
    and r: "refuses c nack" and d: "\<not> flag_no_fifo (core s)" and l: "len msg \<noteq> 0"
  shows "\<exists>s'. omap_i2c_xfer c [(msg, irqs, late)] s =
      Some (if nack then if flags msg AND 0x1000 \<noteq> 0 then 1 else - 121 else - 5, [buf msg], s') \<and> out (base (core s')) = out (base (core s))"
proof -
  let ?res = "if nack then if flags msg AND 0x1000 \<noteq> 0 then 1 else - 121 else - 5 :: int" and ?o = "out (base (core s))"
  let ?Q = "\<lambda>r m s'. r = ?res \<and> m = buf msg \<and> out (base (core s')) = ?o" and ?P = "untouched out ?o (buf msg)"
  have "\<exists>r m s'. omap_i2c_xfer c [(msg, irqs, late)] s = Some (r, [m], s') \<and> ?Q r m s'"
  proof (rule xfer_single [OF bb_ends_free [OF b f], where Q = ?Q])
    fix h assume h: "same_bus con out inp (base (core s)) h"
    let ?s0 = "s\<lparr>core := (core s)\<lparr>base := h\<rparr>\<rparr>"
    let ?s1 = "start_msg c msg ?s0"
    obtain s1: "?P False (core ?s1)" "cmd_complete ?s1 = 0" "cmd_err ?s1 = 0"
      by (rule start_msg_keeps [OF b, of ?s0 msg]) (use d h in \<open>simp_all add: untouched_def same_data_def same_bus_def\<close>)
    obtain g f' s2 where x: "omap_i2c_xfer_msg c irqs late msg ?s0 =
        do { (r, s') \<leftarrow> end_msg c msg g (if g then if nack then 0x2 else 0x1 else 0) s2; Some (r, buf_mem (core s2), s') }"
        "?P (g \<or> f') (core s2)" "\<not> False \<Longrightarrow> irqs \<noteq> [] \<Longrightarrow> g"
      by (rule xfer_msg_law [where P = ?P, OF b e refused_law [OF b e r] q(1) l refl s1]) (rule that)
    have g: "g" using x(3) q(2) by simp
    obtain s' where "end_msg c msg True (if nack then 0x2 else 0x1) s2 =
        Some (if nack then if flags msg AND 0x1000 \<noteq> 0 then 0 else - 121 else - 5, s')" "out (base (core s')) = out (base (core s2))"
      by (rule end_msg_refused [OF b j])
    then show "\<exists>r m s'. omap_i2c_xfer_msg c irqs late msg ?s0 = Some (r, m, s') \<and> ?Q (if r = 0 then 1 else r) m s'"
      using x(1,2) g by (auto simp: untouched_def)
  qed (use f in \<open>auto simp: same_bus_def\<close>)
  then show ?thesis by blast
qed

lemma xfer_times_out:
  assumes b: "bus c con out inp" and f: "free_bus c" and j: "clock_runs c" and d: "\<not> flag_no_fifo (core s)" and l: "len msg \<noteq> 0"
  shows "\<exists>s'. omap_i2c_xfer c [(msg, [], [])] s = Some (- 110, [buf msg], s') \<and> out (base (core s')) = out (base (core s)) \<and>
    con (base (core s')) = 0x8000"
proof -
  let ?Q = "\<lambda>r m s'. r = - 110 \<and> m = buf msg \<and> out (base (core s')) = out (base (core s)) \<and> con (base (core s')) = 0x8000"
  have "\<exists>r m s'. omap_i2c_xfer c [(msg, [], [])] s = Some (r, [m], s') \<and> ?Q r m s'"
  proof (rule xfer_single [OF bb_ends_free [OF b f], where Q = ?Q])
    fix h assume h: "same_bus con out inp (base (core s)) h"
    let ?s0 = "s\<lparr>core := (core s)\<lparr>base := h\<rparr>\<rparr>"
    let ?s1 = "start_msg c msg ?s0"
    obtain s1: "buf_mem (core ?s1) = buf msg" "out (base (core ?s1)) = out (base (core s))" "cmd_complete ?s1 = 0" "cmd_err ?s1 = 0"
      by (rule start_msg_keeps [OF b, of ?s0 msg]) (use d h in \<open>simp_all add: same_data_def same_bus_def\<close>)
    let ?s2 = "?s1\<lparr>cmd_complete := 0\<rparr>"
    obtain h3 where h3: "recover c ?s2 = Some (?s2\<lparr>core := (core ?s2)\<lparr>base := h3\<rparr>\<rparr>)" "out h3 = out (base (core s))" "con h3 = 0x8000"
      by (rule recover_enables [OF b j, of ?s2]) (use s1(2) in simp)
    have "omap_i2c_xfer_msg c [] [] msg ?s0 = Some (- 110, buf msg, ?s2\<lparr>core := (core ?s2)\<lparr>base := h3\<rparr>\<rparr>)"
      unfolding omap_i2c_xfer_msg_def wait_for_completion_def end_msg_def using l s1 h3(1) by simp
    then show "\<exists>r m s'. omap_i2c_xfer_msg c [] [] msg ?s0 = Some (r, m, s') \<and> ?Q (if r = 0 then 1 else r) m s'"
      using h3(2,3) by simp
  qed (use f in \<open>auto simp: same_bus_def\<close>)
  then show ?thesis by blast
qed

text \<open>
  C40: on a free bus a message that gets no interrupt ends with ETIMEDOUT and leaves the
  controller reset and enabled; one the device does not acknowledge ends with EREMOTEIO, or with
  success when the message says to ignore that; one that lost the bus to another master ends with
  EIO, however many interrupts report it. In no case was a byte sent or the message's buffer changed.
\<close>

theorem irq_errors_reported:
  assumes "bus c con out inp" "irq_enabled c" "free_bus c" "clock_runs c" "\<not> flag_no_fifo (core s)" "len msg \<noteq> 0"
  shows "(\<exists>s'. omap_i2c_xfer c [(msg, [], [])] s = Some (- 110, [buf msg], s') \<and> out (base (core s')) = out (base (core s)) \<and>
      con (base (core s')) = 0x8000) \<and>
    (\<forall>irqs late nack. (\<forall>ev\<in>set (irqs @ late). quiet con out inp ev) \<longrightarrow> irqs \<noteq> [] \<longrightarrow> refuses c nack \<longrightarrow>
      (\<exists>s'. omap_i2c_xfer c [(msg, irqs, late)] s =
         Some (if nack then if flags msg AND 0x1000 \<noteq> 0 then 1 else - 121 else - 5, [buf msg], s') \<and>
       out (base (core s')) = out (base (core s))))"
proof (intro conjI allI impI)
  show "\<exists>s'. omap_i2c_xfer c [(msg, [], [])] s = Some (- 110, [buf msg], s') \<and> out (base (core s')) = out (base (core s)) \<and>
      con (base (core s')) = 0x8000"
    by (rule xfer_times_out [OF assms(1,3,4,5,6)])
next
  fix irqs late nack assume "\<forall>ev\<in>set (irqs @ late). quiet con out inp ev" "irqs \<noteq> []" "refuses c nack"
  then show "\<exists>s'. omap_i2c_xfer c [(msg, irqs, late)] s =
      Some (if nack then if flags msg AND 0x1000 \<noteq> 0 then 1 else - 121 else - 5, [buf msg], s') \<and> out (base (core s')) = out (base (core s))"
    by (intro xfer_refused [OF assms(1-4) _ _ _ assms(5,6)])
qed

theorem irq_errors_reported_witness:
  "\<exists>s'. omap_i2c_xfer ((sample_device 0)\<lparr>readw := \<lambda>r h. (if r = 0x28 then 0x2 else if r = 0x2c then 0x601F else 0, h)\<rparr>)
      [(\<lparr>addr = 0x50, len = 1, buf = [1], flags = 0\<rparr>, [\<lambda>h. h, \<lambda>h. h], [\<lambda>h. h])] (sample_omap []) = Some (- 121, [[1]], s') \<and>
    s_out (base (core s')) = []"
proof -
  let ?c = "(sample_device 0)\<lparr>readw := \<lambda>r h. (if r = 0x28 then 0x2 else if r = 0x2c then 0x601F else 0, h)\<rparr>"
  have "bus ?c s_con s_out (\<lambda>h. [])" "irq_enabled ?c" "free_bus ?c" "clock_runs ?c" "quiet s_con s_out (\<lambda>h. []) (\<lambda>h. h)" "refuses ?c True"
    by (auto simp: bus_def irq_enabled_def free_bus_def clock_runs_def quiet_def refuses_def sample_device_def s_con_def s_out_def)
  note c = this
  let ?msg = "\<lparr>addr = 0x50, len = 1, buf = [1], flags = 0\<rparr> :: i2c_flag_msg" and ?s = "sample_omap []"
  have "\<not> flag_no_fifo (core ?s)" "len ?msg \<noteq> 0" by (simp_all add: sample_omap_def sample_i2c_def)
  note i = conjunct2 [OF irq_errors_reported [OF c(1-4) this], rule_format]
  have "\<exists>s'. omap_i2c_xfer ?c [(?msg, [\<lambda>h. h, \<lambda>h. h], [\<lambda>h. h])] ?s =
      Some (if True then if flags ?msg AND 0x1000 \<noteq> 0 then 1 else - 121 else - 5, [buf ?msg], s') \<and> s_out (base (core s')) = s_out (base (core ?s))"
    by (rule i) (use c(5,6) in auto)
  moreover have "s_out (base (core ?s)) = []" by (simp add: sample_omap_def sample_i2c_def s_out_def)
  ultimately show ?thesis by simp
qed

section \<open>A failed probe\<close>

text \<open>
  When the device numbers, the node or the character device cannot be had, probing fails and the
  adapter stays registered, though its structure is released with the device.
\<close>

lemma irq_probe_leaves_adapter:
  assumes "omap_i2c_probe c p h f = Some (r, d, adapter, f')" "r < 0" "request_threaded_irq p = 0" "add_adapter p = 0"
  shows "adapter \<longleftrightarrow> d \<noteq> None"
  using assms by (auto simp: omap_i2c_probe_def case_prod_unfold Let_def split: if_splits bind_splits)

end
