(* ===== verification/Expt_Pci.thy ===== *)
theory Expt_Pci
  imports Char_Device
begin

text \<open>
  The PCI driver \<^verbatim>\<open>src/PCI/PCIDriver/expt_drv_with_dma.c\<close> for an Ethernet card: packets are written
  to and read from the card by DMA, with one descriptor in each direction.

  The card's registers are a parameter: \<open>'h pci_chip\<close> reads and writes registers of 8, 16 and 32
  bits. \<open>expt\<close> is \<open>struct dev_priv\<close> with the state of the registers, the static \<open>link_ok\<close>, and what
  the driver holds of the PCI device. Memory that is not allocated is \<open>None\<close>; an access to it, and
  one outside a packet buffer, has no result, like a reset the card never finishes. What the card
  does to the descriptors and buffers is not part of the driver's functions.
\<close>

section \<open>Registers, descriptors and state\<close>

record 'h pci_chip =
  ioread8 :: "nat \<Rightarrow> 'h \<Rightarrow> u8 \<times> 'h"
  ioread16 :: "nat \<Rightarrow> 'h \<Rightarrow> u16 \<times> 'h"
  ioread32 :: "nat \<Rightarrow> 'h \<Rightarrow> u32 \<times> 'h"
  iowrite8 :: "u8 \<Rightarrow> nat \<Rightarrow> 'h \<Rightarrow> 'h"
  iowrite16 :: "u16 \<Rightarrow> nat \<Rightarrow> 'h \<Rightarrow> 'h"
  iowrite32 :: "u32 \<Rightarrow> nat \<Rightarrow> 'h \<Rightarrow> 'h"
  udelay :: "nat \<Rightarrow> 'h \<Rightarrow> 'h"

definition TX_DESC_ADDR_LOW_REG :: nat where "TX_DESC_ADDR_LOW_REG = 0x20"
definition TX_DESC_ADDR_HIGH_REG :: nat where "TX_DESC_ADDR_HIGH_REG = 0x24"
definition CHIP_CMD_REG :: nat where "CHIP_CMD_REG = 0x37"
definition TX_POLL_REG :: nat where "TX_POLL_REG = 0x38"
definition INTR_MASK_REG :: nat where "INTR_MASK_REG = 0x3C"
definition INTR_STATUS_REG :: nat where "INTR_STATUS_REG = 0x3E"
definition CFG9346_REG :: nat where "CFG9346_REG = 0x50"
definition PHY_ACCESS_REG :: nat where "PHY_ACCESS_REG = 0x60"
definition PHY_STATUS_REG :: nat where "PHY_STATUS_REG = 0x6C"
definition RX_DESC_ADDR_LOW_REG :: nat where "RX_DESC_ADDR_LOW_REG = 0xE4"
definition RX_DESC_ADDR_HIGH_REG :: nat where "RX_DESC_ADDR_HIGH_REG = 0xE8"
definition INTR_TX_DESC_UNAVAIL :: u16 where "INTR_TX_DESC_UNAVAIL = 0x80"
definition INTR_LINK_CHG_BIT :: u16 where "INTR_LINK_CHG_BIT = 0x20"
definition INTR_RX_DESC_UNAVAIL :: u16 where "INTR_RX_DESC_UNAVAIL = 0x10"
definition INTR_TX_ERR :: u16 where "INTR_TX_ERR = 0x8"
definition INTR_TX_OK_BIT :: u16 where "INTR_TX_OK_BIT = 0x4"
definition INTR_RX_ERR :: u16 where "INTR_RX_ERR = 0x2"
definition INTR_RX_OK_BIT :: u16 where "INTR_RX_OK_BIT = 0x1"
definition INTR_MASK :: u16 where "INTR_MASK = INTR_LINK_CHG_BIT OR INTR_TX_OK_BIT OR INTR_RX_OK_BIT"
definition INTR_ERR_MASK :: u16 where "INTR_ERR_MASK = INTR_TX_DESC_UNAVAIL OR INTR_RX_DESC_UNAVAIL OR INTR_TX_ERR OR INTR_RX_ERR"
definition CMD_RESET :: u8 where "CMD_RESET = 0x10"
definition CMD_RX_ENB :: u8 where "CMD_RX_ENB = 0x8"
definition CMD_TX_ENB :: u8 where "CMD_TX_ENB = 0x4"
definition NPQ_BIT :: u8 where "NPQ_BIT = 0x40"
definition CFG9346_LOCK :: u8 where "CFG9346_LOCK = 0x00"
definition CFG9346_UNLOCK :: u8 where "CFG9346_UNLOCK = 0xC0"
definition PHY_LINK_OK_BIT :: u8 where "PHY_LINK_OK_BIT = 0x2"
definition PKT_SIZE :: nat where "PKT_SIZE = 256"
definition DescOwn :: u32 where "DescOwn = 0x80000000"
definition RingEnd :: u32 where "RingEnd = 0x40000000"
definition FirstFrag :: u32 where "FirstFrag = 0x20000000"
definition LastFrag :: u32 where "LastFrag = 0x10000000"

lemmas expt_regs = TX_DESC_ADDR_LOW_REG_def TX_DESC_ADDR_HIGH_REG_def CHIP_CMD_REG_def TX_POLL_REG_def INTR_MASK_REG_def
  INTR_STATUS_REG_def CFG9346_REG_def PHY_ACCESS_REG_def PHY_STATUS_REG_def RX_DESC_ADDR_LOW_REG_def RX_DESC_ADDR_HIGH_REG_def

lemmas expt_bits = INTR_TX_DESC_UNAVAIL_def INTR_LINK_CHG_BIT_def INTR_RX_DESC_UNAVAIL_def INTR_TX_ERR_def INTR_TX_OK_BIT_def
  INTR_RX_ERR_def INTR_RX_OK_BIT_def INTR_MASK_def INTR_ERR_MASK_def CMD_RESET_def CMD_RX_ENB_def CMD_TX_ENB_def NPQ_BIT_def
  CFG9346_LOCK_def CFG9346_UNLOCK_def PHY_LINK_OK_BIT_def PKT_SIZE_def DescOwn_def RingEnd_def FirstFrag_def LastFrag_def

text \<open>The registers of the kernel's \<^verbatim>\<open>linux/mii.h\<close>.\<close>

abbreviation (input) MII_BMCR :: u8 where "MII_BMCR \<equiv> 0"
abbreviation (input) BMCR_ANENABLE :: u16 where "BMCR_ANENABLE \<equiv> 0x1000"
abbreviation (input) BMCR_PDOWN :: u16 where "BMCR_PDOWN \<equiv> 0x0800"

record desc =
  opts1 :: u32
  opts2 :: u32
  desc_addr :: u64

record 'h expt =
  reg_base :: 'h
  desc_tx :: "desc option"
  desc_rx :: "desc option"
  pkt_tx :: "u8 list option"
  pkt_rx :: "u8 list option"
  rx_pkt_size :: nat
  pkt_tx_busy :: int
  pkt_rx_avail :: int
  link_ok :: int
  enabled :: bool
  regions :: bool
  mapped :: bool
  drvdata :: bool
  msi :: bool
  irq :: bool
  chardev :: fcd

section \<open>Buffers\<close>

text \<open>
  What the allocations give: for the descriptors the bus address, for the packets whether there
  was memory, its contents, and the bus address.
\<close>

record dma_memory =
  alloc_desc_tx :: "u64 option"
  alloc_desc_rx :: "u64 option"
  alloc_pkt_tx :: "(u8 list \<times> u64) option"
  alloc_pkt_rx :: "(u8 list \<times> u64) option"

definition write_desc_addrs :: "'h pci_chip \<Rightarrow> u64 \<Rightarrow> u64 \<Rightarrow> 'h \<Rightarrow> 'h" where
  "write_desc_addrs c tx rx h =
     (let h = iowrite8 c CFG9346_UNLOCK CFG9346_REG h;
          h = iowrite32 c (ucast tx) TX_DESC_ADDR_LOW_REG h;
          h = iowrite32 c (ucast (drop_bit 32 tx)) TX_DESC_ADDR_HIGH_REG h;
          h = iowrite32 c (ucast rx) RX_DESC_ADDR_LOW_REG h;
          h = iowrite32 c (ucast (drop_bit 32 rx)) RX_DESC_ADDR_HIGH_REG h
      in iowrite8 c CFG9346_LOCK CFG9346_REG h)"

text \<open>
  When there is no memory for a packet the descriptors are freed, but the function goes on and
  writes to them.
\<close>

definition setup_buffers :: "'h pci_chip \<Rightarrow> dma_memory \<Rightarrow> 'h expt \<Rightarrow> (int \<times> 'h expt) option" where
  "setup_buffers c a s =
     (case alloc_desc_tx a of
        None \<Rightarrow> Some (- ENOMEM, s\<lparr>desc_tx := None\<rparr>)
      | Some ptx \<Rightarrow>
          case alloc_desc_rx a of
            None \<Rightarrow> Some (- ENOMEM, s\<lparr>desc_tx := None, desc_rx := None\<rparr>)
          | Some prx \<Rightarrow> do {
              (tx, phy_pkt_tx) \<leftarrow> alloc_pkt_tx a;
              (rx, phy_pkt_rx) \<leftarrow> alloc_pkt_rx a;
              Some (0, s\<lparr>
                desc_tx := Some \<lparr>opts1 = RingEnd OR FirstFrag OR LastFrag, opts2 = 0, desc_addr = phy_pkt_tx\<rparr>,
                desc_rx := Some \<lparr>opts1 = DescOwn OR RingEnd OR of_nat PKT_SIZE, opts2 = 0, desc_addr = phy_pkt_rx\<rparr>,
                pkt_tx := Some tx, pkt_rx := Some rx, reg_base := write_desc_addrs c ptx prx (reg_base s),
                pkt_tx_busy := 0, pkt_rx_avail := 0\<rparr>)
            })"

definition cleanup_buffers :: "'h expt \<Rightarrow> 'h expt option" where
  "cleanup_buffers s = do {
     _ \<leftarrow> pkt_rx s;
     _ \<leftarrow> pkt_tx s;
     _ \<leftarrow> desc_rx s;
     _ \<leftarrow> desc_tx s;
     Some (s\<lparr>pkt_rx := None, pkt_tx := None, desc_rx := None, desc_tx := None\<rparr>)
   }"

section \<open>The card\<close>

definition hw_enable_intr :: "'h pci_chip \<Rightarrow> u16 \<Rightarrow> 'h \<Rightarrow> 'h" where
  "hw_enable_intr c m h = (let (v, h) = ioread16 c INTR_MASK_REG h in iowrite16 c (v OR m) INTR_MASK_REG h)"

definition hw_disable_intr :: "'h pci_chip \<Rightarrow> u16 \<Rightarrow> 'h \<Rightarrow> 'h" where
  "hw_disable_intr c m h = (let (v, h) = ioread16 c INTR_MASK_REG h in iowrite16 c (v AND NOT m) INTR_MASK_REG h)"

text \<open>The loop that waits, \<open>n\<close> times at most, until bit 31 of the access register is \<open>b\<close>.\<close>

primrec phy_wait :: "'h pci_chip \<Rightarrow> bool \<Rightarrow> nat \<Rightarrow> 'h \<Rightarrow> 'h" where
  "phy_wait c b 0 h = h"
| "phy_wait c b (Suc n) h =
     (let (v, h) = ioread32 c PHY_ACCESS_REG (udelay c 100 h) in if bit v 31 = b then h else phy_wait c b n h)"

definition phy_reg_write :: "'h pci_chip \<Rightarrow> u8 \<Rightarrow> u16 \<Rightarrow> 'h \<Rightarrow> 'h" where
  "phy_reg_write c reg_addr reg_value h =
     phy_wait c False 10 (iowrite32 c (push_bit 31 1 OR push_bit 16 (ucast reg_addr) OR ucast reg_value) PHY_ACCESS_REG h)"

definition phy_reg_read :: "'h pci_chip \<Rightarrow> u8 \<Rightarrow> 'h \<Rightarrow> u16 \<times> 'h" where
  "phy_reg_read c reg_addr h =
     (let h = phy_wait c True 10 (iowrite32 c (push_bit 16 (ucast reg_addr)) PHY_ACCESS_REG h);
          (v, h) = ioread32 c PHY_ACCESS_REG h
      in (ucast (v AND 0xFFFF), h))"

definition phy_init :: "'h pci_chip \<Rightarrow> 'h \<Rightarrow> 'h" where
  "phy_init c = phy_reg_write c MII_BMCR BMCR_ANENABLE"

definition phy_shut :: "'h pci_chip \<Rightarrow> 'h \<Rightarrow> 'h" where
  "phy_shut c = phy_reg_write c MII_BMCR BMCR_PDOWN"

definition hw_init :: "'h pci_chip \<Rightarrow> 'h \<Rightarrow> 'h" where
  "hw_init c h = hw_enable_intr c (INTR_MASK OR INTR_ERR_MASK) (iowrite8 c (CMD_TX_ENB OR CMD_RX_ENB) CHIP_CMD_REG (phy_init c h))"

text \<open>The counter of this loop is lowered, so that it only ends when the reset is done.\<close>

partial_function (option) reset_wait :: "'h pci_chip \<Rightarrow> 'h \<Rightarrow> 'h option" where
  "reset_wait c h =
     (case ioread8 c CHIP_CMD_REG (udelay c 100 h) of (v, h) \<Rightarrow>
        if v AND CMD_RESET = 0 then Some h else reset_wait c h)"

definition hw_shut :: "'h pci_chip \<Rightarrow> 'h \<Rightarrow> 'h option" where
  "hw_shut c h = do {
     h \<leftarrow> reset_wait c (iowrite8 c CMD_RESET CHIP_CMD_REG (hw_disable_intr c (INTR_MASK OR INTR_ERR_MASK) h));
     Some (phy_shut c h)
   }"

section \<open>Interrupts\<close>

definition intr_link :: "'h pci_chip \<Rightarrow> 'h expt \<Rightarrow> 'h expt" where
  "intr_link c s =
     (let (v, h) = ioread8 c PHY_STATUS_REG (iowrite16 c INTR_LINK_CHG_BIT INTR_STATUS_REG (reg_base s))
      in s\<lparr>reg_base := h, link_ok := (if v AND PHY_LINK_OK_BIT \<noteq> 0 then 1 else 0)\<rparr>)"

definition intr_tx :: "'h pci_chip \<Rightarrow> 'h expt \<Rightarrow> 'h expt" where
  "intr_tx c s = s\<lparr>reg_base := iowrite16 c INTR_TX_OK_BIT INTR_STATUS_REG (reg_base s), pkt_tx_busy := pkt_tx_busy s - 1\<rparr>"

definition intr_rx :: "'h pci_chip \<Rightarrow> 'h expt \<Rightarrow> 'h expt option" where
  "intr_rx c s = do {
     d \<leftarrow> desc_rx s;
     Some (s\<lparr>reg_base := iowrite16 c INTR_RX_OK_BIT INTR_STATUS_REG (reg_base s),
             rx_pkt_size := unat (opts1 d AND 0x3FFF), pkt_rx_avail := pkt_rx_avail s + 1\<rparr>)
   }"

definition intr_err :: "'h pci_chip \<Rightarrow> u16 \<Rightarrow> 'h expt \<Rightarrow> 'h expt" where
  "intr_err c status s =
     (let h = (if status AND INTR_RX_DESC_UNAVAIL \<noteq> 0 then hw_disable_intr c INTR_RX_DESC_UNAVAIL (reg_base s) else reg_base s)
      in s\<lparr>reg_base := iowrite16 c INTR_ERR_MASK INTR_STATUS_REG h\<rparr>)"

text \<open>The result is whether the interrupt was the card's.\<close>

definition expt_pci_intr_handler :: "'h pci_chip \<Rightarrow> 'h expt \<Rightarrow> (bool \<times> 'h expt) option" where
  "expt_pci_intr_handler c s = do {
     let (status, h) = ioread16 c INTR_STATUS_REG (reg_base s);
     let s = s\<lparr>reg_base := h\<rparr>;
     if status AND (INTR_MASK OR INTR_ERR_MASK) = 0 then Some (False, s)
     else do {
       let s = (if status AND INTR_LINK_CHG_BIT \<noteq> 0 then intr_link c s else s);
       let s = (if status AND INTR_TX_OK_BIT \<noteq> 0 then intr_tx c s else s);
       s \<leftarrow> (if status AND INTR_RX_OK_BIT \<noteq> 0 then intr_rx c s else Some s);
       Some (True, if status AND INTR_ERR_MASK \<noteq> 0 then intr_err c status s else s)
     }
   }"

section \<open>The character device\<close>

text \<open>\<open>room\<close>: the bytes that can be stored at the user's address; \<open>off\<close> is the position of the file.\<close>

definition expt_read :: "'h pci_chip \<Rightarrow> nat \<Rightarrow> nat \<Rightarrow> nat \<Rightarrow> 'h expt \<Rightarrow> ((int + u8 list) \<times> nat \<times> 'h expt) option" where
  "expt_read c room count off s =
     (if pkt_rx_avail s = 0 then Some (Inl (- 11), off, s)
      else if off \<ge> rx_pkt_size s
      then do {
        d \<leftarrow> desc_rx s;
        Some (Inr [], 0, s\<lparr>pkt_rx_avail := 0, desc_rx := Some (d\<lparr>opts1 := opts1 d OR DescOwn OR of_nat PKT_SIZE\<rparr>),
          reg_base := hw_enable_intr c INTR_RX_DESC_UNAVAIL (reg_base s)\<rparr>)
      }
      else do {
        let to_read = min count (rx_pkt_size s - off);
        if room < to_read then Some (Inl (- EFAULT), off, s)
        else do {
          b \<leftarrow> pkt_rx s;
          bs \<leftarrow> mem_read b off to_read;
          Some (Inr bs, off + to_read, s)
        }
      })"

text \<open>
  Writing has three parts: the counter is raised; it is looked at, and lowered when another packet
  is under way; the packet is handed to the card. \<open>ubuf\<close> are the bytes that can be read at the user's
  address.
\<close>

definition write_enter :: "'h expt \<Rightarrow> 'h expt" where
  "write_enter s = s\<lparr>pkt_tx_busy := pkt_tx_busy s + 1\<rparr>"

definition write_admitted :: "'h expt \<Rightarrow> bool" where
  "write_admitted s \<longleftrightarrow> pkt_tx_busy s = 1"

definition write_leave :: "'h expt \<Rightarrow> 'h expt" where
  "write_leave s = s\<lparr>pkt_tx_busy := pkt_tx_busy s - 1\<rparr>"

definition write_send :: "'h pci_chip \<Rightarrow> u8 list \<Rightarrow> nat \<Rightarrow> 'h expt \<Rightarrow> (int \<times> 'h expt) option" where
  "write_send c ubuf count s =
     (let to_write = min count PKT_SIZE
      in case mem_read ubuf 0 to_write of
           None \<Rightarrow> Some (- EFAULT, s)
         | Some bs \<Rightarrow> do {
             b \<leftarrow> pkt_tx s;
             b \<leftarrow> mem_write b 0 bs;
             d \<leftarrow> desc_tx s;
             Some (int count, s\<lparr>pkt_tx := Some b, desc_tx := Some (d\<lparr>opts1 := opts1 d OR DescOwn OR of_nat to_write\<rparr>),
               reg_base := iowrite8 c NPQ_BIT TX_POLL_REG (reg_base s)\<rparr>)
           })"

definition expt_write :: "'h pci_chip \<Rightarrow> u8 list \<Rightarrow> nat \<Rightarrow> 'h expt \<Rightarrow> (int \<times> 'h expt) option" where
  "expt_write c ubuf count s =
     (let s = write_enter s
      in if \<not> write_admitted s then Some (- EBUSY, write_leave s) else write_send c ubuf count s)"

section \<open>Binding to the card\<close>

text \<open>The results of the calls: the values of the functions that return one, and the memory.\<close>

record probe_results =
  pci_enable_device :: int
  pci_request_regions :: int
  ioremap :: bool
  pci_enable_msi :: int
  memory :: dma_memory
  request_irq :: int
  chrdev :: "int \<times> int \<times> int \<times> int"

definition char_register_dev :: "int \<times> int \<times> int \<times> int \<Rightarrow> 'h expt \<Rightarrow> int \<times> 'h expt" where
  "char_register_dev calls s = (let (r1, r2, r3, r4) = calls; (r, f) = fcd_init r1 r2 r3 r4 (chardev s) in (r, s\<lparr>chardev := f\<rparr>))"

definition char_deregister_dev :: "'h expt \<Rightarrow> 'h expt" where
  "char_deregister_dev s = s\<lparr>chardev := fcd_release (chardev s)\<rparr>"

text \<open>The releases every error path and the removal end with.\<close>

definition release_pci :: "'h expt \<Rightarrow> 'h expt" where
  "release_pci s = s\<lparr>msi := False, drvdata := False, mapped := False, regions := False, enabled := False\<rparr>"

definition hw_shut_dev :: "'h pci_chip \<Rightarrow> 'h expt \<Rightarrow> 'h expt option" where
  "hw_shut_dev c s = do { h \<leftarrow> hw_shut c (reg_base s); Some (s\<lparr>reg_base := h, irq := False\<rparr>) }"

definition expt_probe :: "'h pci_chip \<Rightarrow> probe_results \<Rightarrow> 'h expt \<Rightarrow> (int \<times> 'h expt) option" where
  "expt_probe c p s =
     (if pci_enable_device p \<noteq> 0 then Some (pci_enable_device p, s)
      else if pci_request_regions p \<noteq> 0 then Some (pci_request_regions p, s\<lparr>enabled := False\<rparr>)
      else if \<not> ioremap p then Some (- ENODEV, s\<lparr>regions := False, enabled := False\<rparr>)
      else do {
        let s = s\<lparr>enabled := True, regions := True, mapped := True, drvdata := True, msi := (pci_enable_msi p = 0)\<rparr>;
        (retval, s) \<leftarrow> setup_buffers c (memory p) s;
        if retval \<noteq> 0 then Some (retval, release_pci s)
        else if request_irq p \<noteq> 0
        then do { s \<leftarrow> cleanup_buffers s; Some (request_irq p, release_pci s) }
        else do {
          let s = s\<lparr>irq := True, reg_base := hw_init c (reg_base s)\<rparr>;
          let (retval, s) = char_register_dev (chrdev p) s;
          if retval \<noteq> 0
          then do {
            s \<leftarrow> hw_shut_dev c s;
            s \<leftarrow> cleanup_buffers s;
            Some (retval, release_pci s)
          }
          else Some (0, s)
        }
      })"

definition expt_remove :: "'h pci_chip \<Rightarrow> 'h expt \<Rightarrow> 'h expt option" where
  "expt_remove c s = do {
     s \<leftarrow> hw_shut_dev c (char_deregister_dev s);
     s \<leftarrow> cleanup_buffers s;
     Some (release_pci s)
   }"

end
