(* ===== verification/Expt_Pci_Props.thy ===== *)
theory Expt_Pci_Props
  imports Expt_Pci
begin

text \<open>
  Properties of the PCI driver: the packet buffer has one owner at a time, packets are delivered
  to the reader, and probing and removing balance.
\<close>

section \<open>Writers and the card\<close>

text \<open>
  Any number of processes write at the same time. A process has raised the counter
  (\<open>Entered\<close>), or was admitted and owns the buffer (\<open>Owner\<close>). The card is quiet, sends the
  packet, or is done and has its interrupt pending. \<open>lost\<close> counts the admitted writes that
  ended with \<open>-EFAULT\<close>.
\<close>

datatype writer = Idle | Entered "u8 list" nat | Owner "u8 list" nat

datatype card = Quiet | Sending | Sent

record 'h system =
  drv :: "'h expt"
  writers :: "nat \<Rightarrow> writer"
  card :: card
  lost :: nat

text \<open>
  The parts of \<open>expt_write\<close> are steps of their own. The interrupt handler finds the transmit bit
  only when the card is done. The card writes the receive descriptor and buffer whenever it likes;
  that it clears the ownership bit of the transmit descriptor when it is done is not a step here,
  as the driver never reads that bit.
\<close>

inductive expt_step :: "'h pci_chip \<Rightarrow> 'h system \<Rightarrow> 'h system \<Rightarrow> bool" for c where
  enter: "writers s i = Idle \<Longrightarrow>
    expt_step c s (s\<lparr>drv := write_enter (drv s), writers := (writers s)(i := Entered b n)\<rparr>)"
| refuse: "writers s i = Entered b n \<Longrightarrow> \<not> write_admitted (drv s) \<Longrightarrow>
    expt_step c s (s\<lparr>drv := write_leave (drv s), writers := (writers s)(i := Idle)\<rparr>)"
| admit: "writers s i = Entered b n \<Longrightarrow> write_admitted (drv s) \<Longrightarrow>
    expt_step c s (s\<lparr>writers := (writers s)(i := Owner b n)\<rparr>)"
| send: "writers s i = Owner b n \<Longrightarrow> write_send c b n (drv s) = Some (r, d) \<Longrightarrow> 0 \<le> r \<Longrightarrow>
    expt_step c s (s\<lparr>drv := d, writers := (writers s)(i := Idle), card := Sending\<rparr>)"
| fault: "writers s i = Owner b n \<Longrightarrow> write_send c b n (drv s) = Some (r, d) \<Longrightarrow> r < 0 \<Longrightarrow>
    expt_step c s (s\<lparr>drv := d, writers := (writers s)(i := Idle), lost := Suc (lost s)\<rparr>)"
| card_sends: "card s = Sending \<Longrightarrow> expt_step c s (s\<lparr>card := Sent\<rparr>)"
| interrupt: "expt_pci_intr_handler c (drv s) = Some (r, d) \<Longrightarrow> ioread16 c 0x3E (reg_base (drv s)) = (v, h) \<Longrightarrow>
    (v AND 4 \<noteq> 0 \<Longrightarrow> card s = Sent) \<Longrightarrow>
    expt_step c s (s\<lparr>drv := d, card := (if v AND 4 \<noteq> 0 then Quiet else card s)\<rparr>)"
| user_read: "expt_read c room count off (drv s) = Some (x, off', d) \<Longrightarrow> expt_step c s (s\<lparr>drv := d\<rparr>)"
| card_receives: "expt_step c s (s\<lparr>drv := (drv s)\<lparr>desc_rx := d, pkt_rx := b, reg_base := h\<rparr>\<rparr>)"

definition busy_set :: "'h system \<Rightarrow> nat set" where
  "busy_set s = {i. writers s i \<noteq> Idle}"

definition owners :: "'h system \<Rightarrow> nat set" where
  "owners s = {i. \<exists>b n. writers s i = Owner b n}"

definition held :: "'h system \<Rightarrow> nat" where
  "held s = (if card s = Quiet then 0 else 1) + lost s"

text \<open>
  The counter is the number of writers in the function plus what holds the buffer without one;
  the buffer is held at most once.
\<close>

definition expt_inv :: "'h system \<Rightarrow> bool" where
  "expt_inv s \<longleftrightarrow> finite (busy_set s) \<and> pkt_tx_busy (drv s) = int (Finite_Set.card (busy_set s) + held s) \<and>
     Finite_Set.card (owners s) + held s \<le> 1"

lemma owners_busy: "owners s \<subseteq> busy_set s"
  by (auto simp: owners_def busy_set_def)

text \<open>The handler changes the counter only for the transmit bit, and not the transmit side.\<close>

lemma handler_busy:
  assumes "expt_pci_intr_handler c d = Some (r, d')" "ioread16 c 0x3E (reg_base d) = (v, h)"
  shows "pkt_tx_busy d' = pkt_tx_busy d - (if v AND 4 \<noteq> 0 then 1 else 0)"
  using assms mask_nonzero [of v 4 "0xBF"]
  by (auto simp: expt_pci_intr_handler_def expt_regs expt_bits intr_link_def intr_tx_def intr_rx_def intr_err_def Let_def
    case_prod_unfold bind_eq_Some_conv split: if_splits)

lemma send_busy: "write_send c b n d = Some (r, d') \<Longrightarrow> pkt_tx_busy d' = pkt_tx_busy d"
  by (auto simp: write_send_def Let_def bind_eq_Some_conv split: option.splits)

lemma read_busy: "expt_read c room count off d = Some (x, off', d') \<Longrightarrow> pkt_tx_busy d' = pkt_tx_busy d"
  by (auto simp: expt_read_def Let_def bind_eq_Some_conv split: if_splits)

lemma sets_cong:
  "writers s' = writers s \<Longrightarrow> busy_set s' = busy_set s" "writers s' = writers s \<Longrightarrow> owners s' = owners s"
  by (simp_all add: busy_set_def owners_def)

text \<open>An owner that leaves finds the card quiet and nothing lost, and hands the buffer on.\<close>

lemma owner_quiet: "expt_inv s \<Longrightarrow> writers s i = Owner b n \<Longrightarrow> held s = 0"
proof -
  assume "expt_inv s" "writers s i = Owner b n"
  moreover from this have "i \<in> owners s" "finite (owners s)"
    by (auto simp: owners_def expt_inv_def intro: finite_subset [OF owners_busy, unfolded owners_def])
  then have "0 < Finite_Set.card (owners s)" by (auto simp: card_gt_0_iff)
  ultimately show "held s = 0" by (simp add: expt_inv_def)
qed

lemma owner_leaves:
  assumes inv: "expt_inv s" and i: "writers s i = Owner b n" and t: "writers t = (writers s)(i := Idle)"
    "pkt_tx_busy (drv t) = pkt_tx_busy (drv s)" "held t = 1"
  shows "expt_inv t"
proof -
  have f: "finite (busy_set s)" "finite (owners s)" using inv finite_subset [OF owners_busy] by (auto simp: expt_inv_def)
  have m: "i \<in> busy_set s" "i \<in> owners s" using i by (simp_all add: busy_set_def owners_def)
  have e: "busy_set t = busy_set s - {i}" "owners t = owners s - {i}" using t(1) by (auto simp: busy_set_def owners_def)
  have "0 < Finite_Set.card (busy_set s)" "0 < Finite_Set.card (owners s)" using f m by (auto simp: card_gt_0_iff)
  moreover have "Finite_Set.card (busy_set t) = Finite_Set.card (busy_set s) - 1" "Finite_Set.card (owners t) = Finite_Set.card (owners s) - 1"
    using e m by (simp_all add: card_Diff_singleton)
  ultimately show ?thesis using inv t(2,3) f(1) e(1) owner_quiet [OF inv i] by (simp add: expt_inv_def of_nat_diff)
qed

lemma expt_inv_cong:
  "expt_inv s \<Longrightarrow> writers t = writers s \<Longrightarrow> pkt_tx_busy (drv t) = pkt_tx_busy (drv s) + int (held t) - int (held s) \<Longrightarrow>
   held t \<le> held s \<Longrightarrow> expt_inv t"
  by (simp add: expt_inv_def sets_cong [of t s])

lemma expt_step_inv: "expt_step c s t \<Longrightarrow> expt_inv s \<Longrightarrow> expt_inv t"
proof (induction rule: expt_step.induct)
  case (enter s i b n)
  have i: "i \<notin> busy_set s" "i \<notin> owners s" using enter.hyps by (simp_all add: busy_set_def owners_def)
  let ?t = "s\<lparr>drv := write_enter (drv s), writers := (writers s)(i := Entered b n)\<rparr>"
  have "busy_set ?t = insert i (busy_set s)" "owners ?t = owners s" "held ?t = held s"
    using i by (auto simp: busy_set_def owners_def held_def)
  then show ?case using enter.prems i by (simp add: expt_inv_def write_enter_def)
next
  case (refuse s i b n)
  have i: "i \<in> busy_set s" "i \<notin> owners s" using refuse.hyps by (simp_all add: busy_set_def owners_def)
  let ?t = "s\<lparr>drv := write_leave (drv s), writers := (writers s)(i := Idle)\<rparr>"
  have "busy_set ?t = busy_set s - {i}" "owners ?t = owners s" "held ?t = held s"
    using i by (auto simp: busy_set_def owners_def held_def)
  moreover have "0 < Finite_Set.card (busy_set s)" using i refuse.prems by (auto simp: expt_inv_def card_gt_0_iff)
  ultimately show ?case using refuse.prems i by (simp add: expt_inv_def write_leave_def of_nat_diff)
next
  case (admit s i b n)
  have i: "i \<in> busy_set s" using admit.hyps by (simp add: busy_set_def)
  have f: "finite (busy_set s)" "Finite_Set.card (busy_set s) + held s = 1" using admit.prems admit.hyps(2) by (simp_all add: expt_inv_def write_admitted_def)
  have "0 < Finite_Set.card (busy_set s)" using i f(1) by (auto simp: card_gt_0_iff)
  then have h: "Finite_Set.card (busy_set s) = 1" "held s = 0" using f(2) by linarith+
  let ?t = "s\<lparr>writers := (writers s)(i := Owner b n)\<rparr>"
  have t: "busy_set ?t = busy_set s" "held ?t = held s" using i by (auto simp: busy_set_def held_def)
  have "owners ?t \<subseteq> busy_set s" using owners_busy [of ?t] t(1) by simp
  then have "Finite_Set.card (owners ?t) \<le> 1" using card_mono [OF f(1)] h(1) by fastforce
  then show ?case using admit.prems t h by (simp add: expt_inv_def)
next
  case (send s i b n r d)
  have "held s = 0" by (rule owner_quiet [OF send.prems send.hyps(1)])
  then show ?case using send_busy [OF send.hyps(2)]
    by (intro owner_leaves [OF send.prems send.hyps(1)]) (simp_all add: held_def split: if_splits)
next
  case (fault s i b n r d)
  have "held s = 0" by (rule owner_quiet [OF fault.prems fault.hyps(1)])
  then show ?case using send_busy [OF fault.hyps(2)]
    by (intro owner_leaves [OF fault.prems fault.hyps(1)]) (simp_all add: held_def split: if_splits)
next
  case (card_sends s)
  then show ?case by (intro expt_inv_cong [OF card_sends.prems]) (simp_all add: held_def)
next
  case (interrupt s r d v h)
  then show ?case using handler_busy [OF interrupt.hyps(1,2)]
    by (intro expt_inv_cong [OF interrupt.prems]) (auto simp: held_def)
next
  case (user_read room count off s x off' d)
  then show ?case using read_busy [OF user_read.hyps] by (intro expt_inv_cong [OF user_read.prems]) (simp_all add: held_def)
next
  case (card_receives s d b h)
  then show ?case by (intro expt_inv_cong [OF card_receives]) (simp_all add: held_def)
qed

lemma handler_tx:
  "expt_pci_intr_handler c d = Some (r, d') \<Longrightarrow> pkt_tx d' = pkt_tx d \<and> desc_tx d' = desc_tx d"
  by (auto simp: expt_pci_intr_handler_def intr_link_def intr_tx_def intr_rx_def intr_err_def Let_def
    case_prod_unfold bind_eq_Some_conv split: if_splits)

lemma read_tx: "expt_read c room count off d = Some (x, off', d') \<Longrightarrow> pkt_tx d' = pkt_tx d \<and> desc_tx d' = desc_tx d"
  by (auto simp: expt_read_def Let_def bind_eq_Some_conv split: if_splits)

lemma step_tx:
  "expt_step c s t \<Longrightarrow> expt_inv s \<Longrightarrow> card s \<noteq> Quiet \<Longrightarrow> pkt_tx (drv t) = pkt_tx (drv s) \<and> desc_tx (drv t) = desc_tx (drv s)"
proof (induction rule: expt_step.induct)
  case (send s i b n r d)
  then show ?case using owner_quiet [OF send.prems(1) send.hyps(1)] by (simp add: held_def)
next
  case (fault s i b n r d)
  then show ?case using owner_quiet [OF fault.prems(1) fault.hyps(1)] by (simp add: held_def)
qed (simp_all add: write_enter_def write_leave_def handler_tx read_tx)

definition expt_start :: "'h expt \<Rightarrow> 'h system" where
  "expt_start d = \<lparr>drv = d, writers = (\<lambda>_. Idle), card = Quiet, lost = 0\<rparr>"

lemma expt_reachable_inv:
  assumes "pkt_tx_busy d = 0" "(expt_step c)\<^sup>*\<^sup>* (expt_start d) s"
  shows "expt_inv s"
  using assms(2)
proof (induction rule: rtranclp_induct)
  case base
  show ?case using assms(1) by (simp add: expt_inv_def expt_start_def busy_set_def owners_def held_def)
next
  case (step s t)
  then show ?case by (blast intro: expt_step_inv)
qed

section \<open>A sample card\<close>

text \<open>Registers that read as 0, but the interrupt status, which is the state.\<close>

definition sample_card :: "u16 pci_chip" where
  "sample_card = \<lparr>ioread8 = (\<lambda>r h. (0, h)), ioread16 = (\<lambda>r h. (if r = 0x3E then h else 0, h)), ioread32 = (\<lambda>r h. (0, h)),
     iowrite8 = (\<lambda>v r h. h), iowrite16 = (\<lambda>v r h. h), iowrite32 = (\<lambda>v r h. h), udelay = (\<lambda>n h. h)\<rparr>"

definition sample_memory :: dma_memory where
  "sample_memory = \<lparr>alloc_desc_tx = Some 0x1000, alloc_desc_rx = Some 0x2000, alloc_pkt_tx = Some (replicate 256 0, 0x3000),
     alloc_pkt_rx = Some (replicate 256 7, 0x4000)\<rparr>"

definition unbound :: "'h \<Rightarrow> 'h expt" where
  "unbound h = \<lparr>reg_base = h, desc_tx = None, desc_rx = None, pkt_tx = None, pkt_rx = None, rx_pkt_size = 0, pkt_tx_busy = 0,
     pkt_rx_avail = 0, link_ok = -1, enabled = False, regions = False, mapped = False, drvdata = False, msi = False, irq = False,
     chardev = \<lparr>region = False, c_dev = False, cl = False, node = False\<rparr>\<rparr>"

definition sample_expt :: "u16 expt" where
  "sample_expt = (unbound 0)\<lparr>desc_tx := Some \<lparr>opts1 = 0x70000000, opts2 = 0, desc_addr = 0x3000\<rparr>,
     desc_rx := Some \<lparr>opts1 = 0xC0000100, opts2 = 0, desc_addr = 0x4000\<rparr>, pkt_tx := Some (replicate 256 0), pkt_rx := Some (replicate 256 7)\<rparr>"

text \<open>
  C34: however writers, readers, interrupts and the card interleave, at most one writer owns
  the transmit buffer, none does while the card has a packet, and no step changes the buffer or
  the descriptor until the card's interrupt was handled.
\<close>

theorem pci_transmit_exclusive:
  assumes "pkt_tx_busy d = 0" and r: "(expt_step c)\<^sup>*\<^sup>* (expt_start d) s"
  shows "(\<forall>i j b b' n n'. writers s i = Owner b n \<longrightarrow> writers s j = Owner b' n' \<longrightarrow> i = j) \<and>
    (\<forall>i b n. writers s i = Owner b n \<longrightarrow> card s = Quiet) \<and>
    (\<forall>t. expt_step c s t \<longrightarrow> card s \<noteq> Quiet \<longrightarrow> pkt_tx (drv t) = pkt_tx (drv s) \<and> desc_tx (drv t) = desc_tx (drv s))"
proof -
  have inv: "expt_inv s" by (rule expt_reachable_inv [OF assms])
  then have f: "finite (owners s)" "Finite_Set.card (owners s) \<le> 1" using finite_subset [OF owners_busy] by (auto simp: expt_inv_def)
  have "i = j" if "writers s i = Owner b n" "writers s j = Owner b' n'" for i j b b' n n'
    using that f by (auto simp: owners_def card_le_Suc0_iff_eq)
  moreover have "card s = Quiet" if "writers s i = Owner b n" for i b n
    using owner_quiet [OF inv that] by (simp add: held_def split: if_splits)
  moreover have "pkt_tx (drv t) = pkt_tx (drv s) \<and> desc_tx (drv t) = desc_tx (drv s)" if "expt_step c s t" "card s \<noteq> Quiet" for t
    by (rule step_tx [OF that(1) inv that(2)])
  ultimately show ?thesis by blast
qed

theorem pci_transmit_exclusive_witness:
  "\<exists>s. (expt_step sample_card)\<^sup>*\<^sup>* (expt_start sample_expt) s \<and> writers s 0 = Owner [1] 1 \<and> (\<forall>i. writers s i = Owner [1] 1 \<longrightarrow> i = 0)"
proof -
  let ?s0 = "expt_start sample_expt"
  let ?s1 = "?s0\<lparr>drv := write_enter (drv ?s0), writers := (writers ?s0)(0 := Entered [1] 1)\<rparr>"
  let ?s2 = "?s1\<lparr>writers := (writers ?s1)(0 := Owner [1] 1)\<rparr>"
  have "expt_step sample_card ?s0 ?s1" by (rule enter) (simp add: expt_start_def)
  moreover have "expt_step sample_card ?s1 ?s2"
    by (rule admit) (simp_all add: expt_start_def write_admitted_def write_enter_def sample_expt_def unbound_def)
  ultimately have r: "(expt_step sample_card)\<^sup>*\<^sup>* ?s0 ?s2" by (meson converse_rtranclp_into_rtranclp r_into_rtranclp)
  have b: "pkt_tx_busy sample_expt = 0" by (simp add: sample_expt_def unbound_def)
  have o: "writers ?s2 0 = Owner [1] 1" by simp
  have "\<forall>i. writers ?s2 i = Owner [1] 1 \<longrightarrow> i = 0" using pci_transmit_exclusive [OF b r] o by blast
  then show ?thesis using r o by blast
qed

text \<open>A write that fails to copy its data is never followed by another: every later one finds the counter above 1.\<close>

lemma pci_fault_blocks: "expt_inv s \<Longrightarrow> 0 < lost s \<Longrightarrow> writers s i = Entered b n \<Longrightarrow> pkt_tx_busy (drv s) \<noteq> 1"
proof -
  assume a: "expt_inv s" "0 < lost s" "writers s i = Entered b n"
  then have "i \<in> busy_set s" by (simp add: busy_set_def)
  then have "0 < Finite_Set.card (busy_set s)" using a(1) by (auto simp: expt_inv_def card_gt_0_iff)
  then show ?thesis using a by (auto simp: expt_inv_def held_def)
qed

section \<open>Sending and receiving\<close>

text \<open>
  C36: with no packet under way a write returns the count it was given and hands the card the
  first 256 bytes of it. The length in the descriptor is the length of the packet only when the
  bits left from earlier packets are among its own: they are never cleared.
\<close>

theorem pci_write_hands_over:
  assumes "pkt_tx_busy s = 0" "pkt_tx s = Some b" "length b = 256" "desc_tx s = Some d" "count \<le> length ubuf"
  shows "\<exists>s' b' d'. expt_write c ubuf count s = Some (int count, s') \<and> pkt_tx s' = Some b' \<and> length b' = 256 \<and>
    take (min count 256) b' = take (min count 256) ubuf \<and> desc_tx s' = Some d' \<and> bit (opts1 d') 31 \<and> pkt_tx_busy s' = 1 \<and>
    opts1 d' AND 0x3FFF = (opts1 d AND 0x3FFF) OR of_nat (min count 256)"
proof -
  let ?n = "min count 256"
  let ?bs = "take ?n ubuf"
  have n: "mem_read ubuf 0 ?n = Some ?bs" "length ?bs = ?n" using assms(5) by (simp_all add: mem_read_def)
  have m: "mem_write b 0 ?bs = Some (?bs @ drop ?n b)" using assms(3) n(2) by (simp add: mem_write_def)
  let ?d = "d\<lparr>opts1 := opts1 d OR 0x80000000 OR of_nat ?n\<rparr>"
  let ?s = "s\<lparr>pkt_tx_busy := 1, pkt_tx := Some (?bs @ drop ?n b), desc_tx := Some ?d, reg_base := iowrite8 c 0x40 0x38 (reg_base s)\<rparr>"
  have e: "expt_write c ubuf count s = Some (int count, ?s)"
    using assms n(1) m by (simp add: expt_write_def write_send_def write_enter_def write_admitted_def Let_def expt_bits expt_regs)
  have "of_nat ?n AND 0x3FFF = (of_nat ?n :: u32)"
  proof -
    have "take_bit 14 (of_nat ?n :: u32) = of_nat (take_bit 14 ?n)" by (simp add: take_bit_of_nat)
    also have "take_bit 14 ?n = ?n" by (rule take_bit_nat_eq_self) simp
    finally show ?thesis using take_bit_eq_mask [of 14 "of_nat ?n :: u32"] by (simp add: mask_eq_exp_minus_1)
  qed
  then have "opts1 ?d AND 0x3FFF = (opts1 d AND 0x3FFF) OR of_nat ?n" by (simp add: bit.conj_disj_distrib2 or.assoc)
  moreover have "bit (opts1 ?d) 31" by (simp add: bit_simps)
  moreover have "length (?bs @ drop ?n b) = 256" "take ?n (?bs @ drop ?n b) = ?bs" using assms(3) n(2) by simp_all
  ultimately show ?thesis using e by (intro exI [of _ ?s] exI [of _ "?bs @ drop ?n b"] exI [of _ ?d] conjI) simp_all
qed

theorem pci_write_hands_over_witness:
  "\<exists>s' b' d'. expt_write sample_card [1, 2, 3] 3 sample_expt = Some (3, s') \<and> pkt_tx s' = Some b' \<and> take 3 b' = [1, 2, 3] \<and>
    desc_tx s' = Some d' \<and> opts1 d' AND 0x3FFF = 3"
  using pci_write_hands_over [of sample_expt "replicate 256 0" "\<lparr>opts1 = 0x70000000, opts2 = 0, desc_addr = 0x3000\<rparr>" 3 "[1, 2, 3]" sample_card]
  by (auto simp: sample_expt_def unbound_def)

text \<open>Reads one after the other, each with its size; an error or the end of the packet stops them.\<close>

primrec expt_reads :: "'h pci_chip \<Rightarrow> nat list \<Rightarrow> nat \<Rightarrow> 'h expt \<Rightarrow> (u8 list \<times> nat \<times> 'h expt) option" where
  "expt_reads c [] off s = Some ([], off, s)"
| "expt_reads c (n # ns) off s = do {
     (x, off, s) \<leftarrow> expt_read c n n off s;
     case x of
       Inl e \<Rightarrow> Some ([], off, s)
     | Inr bs \<Rightarrow> do { (rest, off, s) \<leftarrow> expt_reads c ns off s; Some (bs @ rest, off, s) }
   }"

lemma expt_read_clamps:
  assumes "pkt_rx_avail s \<noteq> 0" "pkt_rx s = Some b" "rx_pkt_size s \<le> length b" "off < rx_pkt_size s"
  shows "expt_read c n n off s = Some (Inr (take n (drop off (take (rx_pkt_size s) b))), min (off + n) (rx_pkt_size s), s)"
  using assms by (auto simp: expt_read_def mem_read_def drop_take min_def Let_def)

lemma expt_reads_prefix:
  assumes s: "pkt_rx_avail s \<noteq> 0" "pkt_rx s = Some b" "rx_pkt_size s \<le> length b"
  shows "ns \<noteq> [] \<Longrightarrow> off + sum_list (butlast ns) < rx_pkt_size s \<Longrightarrow>
    expt_reads c ns off s = Some (take (sum_list ns) (drop off (take (rx_pkt_size s) b)), min (off + sum_list ns) (rx_pkt_size s), s)"
proof (induction ns arbitrary: off)
  case (Cons n ns)
  have o: "off < rx_pkt_size s" using Cons.prems(2) by simp
  note r = expt_read_clamps [OF s o, of c n]
  show ?case
  proof (cases "ns = []")
    case True
    then show ?thesis using r by simp
  next
    case False
    then have n: "off + n + sum_list (butlast ns) < rx_pkt_size s" using Cons.prems(2) by simp
    let ?p = "drop off (take (rx_pkt_size s) b)"
    have "take n ?p @ take (sum_list ns) (drop (off + n) (take (rx_pkt_size s) b)) = take (n + sum_list ns) ?p"
      by (simp add: take_add add.commute)
    then show ?thesis using Cons.IH [OF False n] r n by (simp add: add.assoc)
  qed
qed simp

text \<open>
  C35: after the receive interrupt for a packet that is not empty and fits its buffer, reads of
  any sizes up to and including the first that reaches the end of the packet, which may
  ask for more than is left, give exactly the bytes of the packet, in order, and change nothing;
  the next read reports the end, returns to the start and gives the buffer back to the card.
\<close>

theorem pci_reads_deliver:
  assumes i: "ioread16 c 0x3E (reg_base s) = (1, h)" and d: "desc_rx s = Some d" "pkt_rx s = Some b" "pkt_rx_avail s = 0"
    and n: "unat (opts1 d AND 0x3FFF) \<le> length b"
    and ns: "ns \<noteq> []" "sum_list (butlast ns) < unat (opts1 d AND 0x3FFF)" "unat (opts1 d AND 0x3FFF) \<le> sum_list ns"
  shows "\<exists>s1 s2 d2. expt_pci_intr_handler c s = Some (True, s1) \<and>
    expt_reads c ns 0 s1 = Some (take (unat (opts1 d AND 0x3FFF)) b, unat (opts1 d AND 0x3FFF), s1) \<and>
    expt_read c room count (unat (opts1 d AND 0x3FFF)) s1 = Some (Inr [], 0, s2) \<and> pkt_rx_avail s2 = 0 \<and>
    desc_rx s2 = Some d2 \<and> bit (opts1 d2) 31"
proof -
  let ?n = "unat (opts1 d AND 0x3FFF)"
  let ?s1 = "s\<lparr>reg_base := iowrite16 c 1 0x3E h, rx_pkt_size := ?n, pkt_rx_avail := 1\<rparr>"
  let ?d2 = "d\<lparr>opts1 := opts1 d OR 0x80000000 OR 0x100\<rparr>"
  let ?s2 = "?s1\<lparr>pkt_rx_avail := 0, desc_rx := Some ?d2, reg_base := hw_enable_intr c 0x10 (reg_base ?s1)\<rparr>"
  have 1: "expt_pci_intr_handler c s = Some (True, ?s1)"
    using i d by (simp add: expt_pci_intr_handler_def intr_rx_def expt_regs expt_bits)
  have 2: "expt_reads c ns 0 ?s1 = Some (take ?n b, ?n, ?s1)"
    using expt_reads_prefix [of ?s1 b ns 0 c] d n ns by (simp add: min_absorb2)
  have 3: "expt_read c room count ?n ?s1 = Some (Inr [], 0, ?s2)"
    using d by (simp add: expt_read_def expt_bits)
  have "bit (opts1 ?d2) 31" by (simp add: bit_simps)
  with 1 2 3 show ?thesis by (intro exI [of _ ?s1] exI [of _ ?s2] exI [of _ ?d2] conjI) simp_all
qed

theorem pci_reads_deliver_witness:
  "\<exists>s1. expt_pci_intr_handler sample_card (sample_expt\<lparr>reg_base := 1, desc_rx := Some \<lparr>opts1 = 0x40000003, opts2 = 0, desc_addr = 0\<rparr>\<rparr>) =
      Some (True, s1) \<and> expt_reads sample_card [2, 5] 0 s1 = Some ([7, 7, 7], 3, s1)"
proof -
  let ?d = "\<lparr>opts1 = 0x40000003, opts2 = 0, desc_addr = 0\<rparr>"
  let ?s = "sample_expt\<lparr>reg_base := 1, desc_rx := Some ?d\<rparr>"
  have u: "unat (opts1 ?d AND 0x3FFF) = 3" by simp
  have t: "take 3 (replicate 256 7) = [7, 7, 7 :: u8]" by (simp add: eval_nat_numeral)
  have "ioread16 sample_card 0x3E (reg_base ?s) = (1, 1)" by (simp add: sample_card_def)
  from pci_reads_deliver [OF this, of ?d "replicate 256 7" "[2, 5]"] u t
  show ?thesis by (auto simp: sample_expt_def unbound_def)
qed

text \<open>
  The length of the packet stays in the descriptor: given back after a packet of \<open>n\<close> bytes, the
  buffer of 256 bytes is offered as one of \<open>n OR 256\<close>, and the card may write behind it.
\<close>

lemma pci_buffer_overstated:
  assumes "expt_read c room count off s = Some (Inr [], 0, s')" "pkt_rx_avail s \<noteq> 0" "rx_pkt_size s \<le> off" "desc_rx s = Some d"
  shows "\<exists>d'. desc_rx s' = Some d' \<and> opts1 d' AND 0x3FFF = (opts1 d AND 0x3FFF) OR 0x100"
  using assms by (auto simp: expt_read_def expt_bits bit.conj_disj_distrib2)

section \<open>Binding\<close>

text \<open>Nothing of the card is held.\<close>

definition released :: "'h expt \<Rightarrow> bool" where
  "released s \<longleftrightarrow> desc_tx s = None \<and> desc_rx s = None \<and> pkt_tx s = None \<and> pkt_rx s = None \<and> \<not> enabled s \<and> \<not> regions s \<and> \<not> mapped s \<and>
     \<not> drvdata s \<and> \<not> msi s \<and> \<not> irq s \<and> chardev s = \<lparr>region = False, c_dev = False, cl = False, node = False\<rparr>"

definition bound :: "'h expt \<Rightarrow> bool" where
  "bound s \<longleftrightarrow> desc_tx s \<noteq> None \<and> desc_rx s \<noteq> None \<and> pkt_tx s \<noteq> None \<and> pkt_rx s \<noteq> None \<and> enabled s \<and> regions s \<and> mapped s \<and>
     drvdata s \<and> irq s \<and> chardev s = \<lparr>region = True, c_dev = True, cl = True, node = True\<rparr>"

text \<open>A reset is done after some reads of the command register.\<close>

definition resets :: "'h pci_chip \<Rightarrow> bool" where
  "resets c \<longleftrightarrow> (\<exists>m. \<forall>h v h'. ioread8 c 0x37 (udelay c 100 h) = (v, h') \<longrightarrow> v AND 0x10 = 0 \<or> m h' < (m h :: nat))"

lemma reset_wait_returns:
  assumes "resets c"
  shows "\<exists>h'. reset_wait c h = Some h'"
proof -
  obtain m where m: "\<And>h v h'. ioread8 c 0x37 (udelay c 100 h) = (v, h') \<Longrightarrow> v AND 0x10 = 0 \<or> m h' < (m h :: nat)"
    using assms unfolding resets_def by blast
  show ?thesis
  proof (induction "m h" arbitrary: h rule: less_induct)
    case less
    obtain v h1 where r: "ioread8 c 0x37 (udelay c 100 h) = (v, h1)" by (cases "ioread8 c 0x37 (udelay c 100 h)")
    show ?case
    proof (cases "v AND 0x10 = 0")
      case True
      then show ?thesis using r by (simp add: reset_wait.simps expt_regs expt_bits)
    next
      case False
      then have "\<exists>h'. reset_wait c h1 = Some h'" using m [OF r] less by blast
      then show ?thesis using r False by (subst reset_wait.simps) (simp add: expt_regs expt_bits)
    qed
  qed
qed

lemma hw_shut_returns:
  assumes "resets c"
  obtains h where "hw_shut_dev c s = Some (s\<lparr>reg_base := h, irq := False\<rparr>)"
proof -
  obtain h where "reset_wait c (iowrite8 c CMD_RESET CHIP_CMD_REG (hw_disable_intr c (INTR_MASK OR INTR_ERR_MASK) (reg_base s))) = Some h"
    using reset_wait_returns [OF assms] by blast
  then show thesis by (intro that [of "phy_shut c h"]) (simp add: hw_shut_dev_def hw_shut_def)
qed

lemma remove_releases:
  assumes "resets c" "bound s"
  shows "\<exists>s'. expt_remove c s = Some s' \<and> released s'"
proof -
  obtain h where "hw_shut_dev c (char_deregister_dev s) = Some ((char_deregister_dev s)\<lparr>reg_base := h, irq := False\<rparr>)"
    by (rule hw_shut_returns [OF assms(1)])
  then show ?thesis using assms(2)
    by (auto simp: expt_remove_def cleanup_buffers_def bound_def released_def release_pci_def char_deregister_dev_def fcd_release_def)
qed

text \<open>
  C37: on a card that finishes its reset, whatever the calls return, probing either succeeds and
  holds everything, and removing the card then releases everything; or it returns an error and
  holds nothing. The one exception is memory for the descriptors but not for both packets: the
  code then goes on with the descriptors it has just freed, and the probe has no result.
\<close>

theorem pci_probe_balanced:
  assumes r: "resets c" and s: "released s"
  shows "if pci_enable_device p = 0 \<and> pci_request_regions p = 0 \<and> ioremap p \<and>
       alloc_desc_tx (memory p) \<noteq> None \<and> alloc_desc_rx (memory p) \<noteq> None \<and>
       (alloc_pkt_tx (memory p) = None \<or> alloc_pkt_rx (memory p) = None)
     then expt_probe c p s = None
     else \<exists>v s'. expt_probe c p s = Some (v, s') \<and>
       (if v = 0 then bound s' \<and> (\<exists>s''. expt_remove c s' = Some s'' \<and> released s'') else released s')"
proof (cases "pci_enable_device p \<noteq> 0 \<or> pci_request_regions p \<noteq> 0 \<or> \<not> ioremap p")
  case True
  then show ?thesis using s by (auto simp: expt_probe_def released_def)
next
  case False
  let ?s1 = "s\<lparr>enabled := True, regions := True, mapped := True, drvdata := True, msi := (pci_enable_msi p = 0)\<rparr>"
  note probe = expt_probe_def [of c p s, unfolded Let_def]
  consider (no_desc) "alloc_desc_tx (memory p) = None \<or> alloc_desc_rx (memory p) = None"
    | (no_pkt) "alloc_desc_tx (memory p) \<noteq> None" "alloc_desc_rx (memory p) \<noteq> None"
        "alloc_pkt_tx (memory p) = None \<or> alloc_pkt_rx (memory p) = None"
    | (all) "alloc_desc_tx (memory p) \<noteq> None" "alloc_desc_rx (memory p) \<noteq> None"
        "alloc_pkt_tx (memory p) \<noteq> None" "alloc_pkt_rx (memory p) \<noteq> None" by blast
  then show ?thesis
  proof cases
    case no_pkt
    then have "setup_buffers c (memory p) ?s1 = None"
      by (cases "alloc_pkt_tx (memory p)") (auto simp: setup_buffers_def)
    then show ?thesis using False no_pkt by (simp add: probe)
  next
    case no_desc
    then have "\<exists>s2. setup_buffers c (memory p) ?s1 = Some (- 12, s2) \<and> released (release_pci s2)"
      using s by (cases "alloc_desc_tx (memory p)") (auto simp: setup_buffers_def released_def release_pci_def)
    then obtain s2 where "setup_buffers c (memory p) ?s1 = Some (- 12, s2)" and "released (release_pci s2)" by blast
    then show ?thesis using False no_desc by (auto simp: probe)
  next
    case all
    then obtain s2 where b: "setup_buffers c (memory p) ?s1 = Some (0, s2)" "desc_tx s2 \<noteq> None" "desc_rx s2 \<noteq> None" "pkt_tx s2 \<noteq> None"
        "pkt_rx s2 \<noteq> None" "chardev s2 = chardev s" "irq s2 = irq s" "enabled s2" "regions s2" "mapped s2" "drvdata s2"
      by (auto simp: setup_buffers_def)
    have cl: "cleanup_buffers t = Some (t\<lparr>pkt_rx := None, pkt_tx := None, desc_rx := None, desc_tx := None\<rparr>)"
      if "desc_tx t \<noteq> None" "desc_rx t \<noteq> None" "pkt_tx t \<noteq> None" "pkt_rx t \<noteq> None" for t :: "'a expt"
      using that by (auto simp: cleanup_buffers_def)
    let ?s3 = "s2\<lparr>irq := True, reg_base := hw_init c (reg_base s2)\<rparr>"
    obtain r1 r2 r3 r4 where calls: "chrdev p = (r1, r2, r3, r4)" by (cases "chrdev p")
    obtain v f where f: "fcd_init r1 r2 r3 r4 (chardev s2) = (v, f)" by (cases "fcd_init r1 r2 r3 r4 (chardev s2)")
    have fv: "f = (if v = 0 then \<lparr>region = True, c_dev = True, cl = True, node = True\<rparr> else \<lparr>region = False, c_dev = False, cl = False, node = False\<rparr>)"
      using fcd_init_all_or_nothing [of r1 r2 r3 r4 v f] f b(6) s by (simp add: released_def)
    have ch: "char_register_dev (chrdev p) ?s3 = (v, ?s3\<lparr>chardev := f\<rparr>)" using calls f by (simp add: char_register_dev_def)
    consider "request_irq p \<noteq> 0" | "request_irq p = 0" "v \<noteq> 0" | "request_irq p = 0" "v = 0" by blast
    then show ?thesis
    proof cases
      case 1
      then show ?thesis using False all b cl [of s2] s by (simp add: probe released_def release_pci_def)
    next
      case 2
      obtain h where h: "hw_shut_dev c (?s3\<lparr>chardev := f\<rparr>) = Some (?s3\<lparr>chardev := f\<rparr>\<lparr>reg_base := h, irq := False\<rparr>)"
        by (rule hw_shut_returns [OF r])
      then show ?thesis using 2 False all b ch fv cl [of "?s3\<lparr>chardev := f\<rparr>\<lparr>reg_base := h, irq := False\<rparr>"]
        by (simp add: probe released_def release_pci_def)
    next
      case 3
      have bd: "bound (?s3\<lparr>chardev := f\<rparr>)" using 3 b fv by (simp add: bound_def)
      have "expt_probe c p s = Some (0, ?s3\<lparr>chardev := f\<rparr>)" using 3 False b(1) ch by (simp add: probe)
      then show ?thesis using all bd remove_releases [OF r bd] by simp
    qed
  qed
qed

theorem pci_probe_balanced_witness:
  "\<exists>v s'. expt_probe sample_card \<lparr>pci_enable_device = 0, pci_request_regions = 0, ioremap = True, pci_enable_msi = 0, memory = sample_memory,
      request_irq = 0, chrdev = (0, 0, 0, -12)\<rparr> (unbound 0) = Some (v, s') \<and>
     (if v = 0 then bound s' \<and> (\<exists>s''. expt_remove sample_card s' = Some s'' \<and> released s'') else released s')"
proof -
  let ?p = "\<lparr>pci_enable_device = 0, pci_request_regions = 0, ioremap = True, pci_enable_msi = 0, memory = sample_memory,
      request_irq = 0, chrdev = (0, 0, 0, -12)\<rparr>"
  have "resets sample_card" "released (unbound (0 :: u16))"
    by (simp_all add: resets_def sample_card_def released_def unbound_def)
  from pci_probe_balanced [OF this, of ?p] show ?thesis by (simp add: sample_memory_def)
qed

end
