(* ===== verification/Akp_Simple.thy ===== *)
theory Akp_Simple
  imports Storage_Prelude
begin

text \<open>
  The file system \<^verbatim>\<open>src/FSDriver/akp_simple.c\<close>: one file under two names, kept in the first block
  of the device. The size is in a static variable, not on the device.

  \<open>akpsfs\<close> has that variable, the kernel's inode cache, and the number of the root inode
  (\<open>None\<close>: not mounted). Whether the kernel has memory for an inode or a root entry is a parameter.
  The page operations only forward to the kernel.
\<close>

section \<open>Constants and state\<close>

definition FILE_INODE_NUMBER :: nat where "FILE_INODE_NUMBER = 2"
definition DATA_BLOCK_OFFSET :: nat where "DATA_BLOCK_OFFSET = 0"
definition AKPFS_BLOCK_SIZE :: nat where "AKPFS_BLOCK_SIZE = 512"
definition BLOCK_DEVICE_SIZE :: nat where "BLOCK_DEVICE_SIZE = 1 * 512"
definition BLOCKS_IN_BLOCK_DEVICE :: nat where "BLOCKS_IN_BLOCK_DEVICE = BLOCK_DEVICE_SIZE div AKPFS_BLOCK_SIZE"
definition filename :: string where "filename = ''moksha.txt''"
definition filename2 :: string where "filename2 = ''world.txt''"

lemmas simple_consts = FILE_INODE_NUMBER_def DATA_BLOCK_OFFSET_def AKPFS_BLOCK_SIZE_def BLOCK_DEVICE_SIZE_def
  BLOCKS_IN_BLOCK_DEVICE_def filename_def filename2_def

record simple_inode =
  i_size :: int
  i_mode :: u16

record akpsfs =
  file_size :: int
  icache :: "nat \<Rightarrow> simple_inode option"
  akpsfs_root_inode :: "nat option"
  s_root :: bool

text \<open>The static variables as the module is loaded.\<close>

definition akpsfs_loaded :: akpsfs where
  "akpsfs_loaded = \<lparr>file_size = 12, icache = (\<lambda>_. None), akpsfs_root_inode = None, s_root = False\<rparr>"

section \<open>Directories\<close>

text \<open>
  The two directory readers. \<open>filldir\<close>, and \<open>emit\<close> for \<open>dir_emit\<close>, give the reader's new buffer
  or \<open>None\<close> when the entry does not fit; \<open>dots\<close> is \<open>dir_emit_dots\<close> with the new position. The
  position is raised in the call of \<open>filldir\<close>, and so also when it fails.
\<close>

definition akpsfs_file_readdir :: "('c \<Rightarrow> string \<Rightarrow> nat \<Rightarrow> nat \<Rightarrow> bool \<Rightarrow> 'c option) \<Rightarrow> nat \<Rightarrow> nat \<Rightarrow> nat \<Rightarrow> 'c \<Rightarrow> int \<times> nat \<times> 'c" where
  "akpsfs_file_readdir filldir i_ino parent_ino pos c =
     (if pos > 0 then (0, pos, c)
      else case filldir c ''.'' pos i_ino True of
        None \<Rightarrow> (- ENOSPC, pos + 1, c)
      | Some c \<Rightarrow> (case filldir c ''..'' (pos + 1) parent_ino True of
        None \<Rightarrow> (- ENOSPC, pos + 2, c)
      | Some c \<Rightarrow> (case filldir c filename (pos + 2) FILE_INODE_NUMBER False of
        None \<Rightarrow> (- ENOSPC, pos + 3, c)
      | Some c \<Rightarrow> (case filldir c filename2 (pos + 3) FILE_INODE_NUMBER False of
        None \<Rightarrow> (- ENOSPC, pos + 4, c)
      | Some c \<Rightarrow> (0, pos + 4, c)))))"

definition akpsfs_file_iterate ::
    "(nat \<Rightarrow> 'c \<Rightarrow> bool \<times> nat \<times> 'c) \<Rightarrow> ('c \<Rightarrow> string \<Rightarrow> nat \<Rightarrow> 'c option) \<Rightarrow> nat \<Rightarrow> 'c \<Rightarrow> int \<times> nat \<times> 'c" where
  "akpsfs_file_iterate dots emit pos c =
     (if pos > 0 then (0, pos, c)
      else case dots pos c of
        (False, pos, c) \<Rightarrow> (- ENOSPC, pos, c)
      | (True, pos, c) \<Rightarrow> (case emit c filename FILE_INODE_NUMBER of
        None \<Rightarrow> (- ENOSPC, pos, c)
      | Some c \<Rightarrow> (case emit c filename2 FILE_INODE_NUMBER of
        None \<Rightarrow> (- ENOSPC, pos + 1, c)
      | Some c \<Rightarrow> (0, pos + 2, c))))"

section \<open>Blocks and inodes\<close>

text \<open>An error, or the block of the device.\<close>

definition akpsfs_get_block :: "nat \<Rightarrow> u64 \<Rightarrow> int + u64" where
  "akpsfs_get_block i_ino iblock =
     (if i_ino \<noteq> FILE_INODE_NUMBER then Inl (- EIO)
      else if iblock \<ge> of_nat (BLOCKS_IN_BLOCK_DEVICE - DATA_BLOCK_OFFSET) then Inl (- ENOSPC)
      else Inr (of_nat DATA_BLOCK_OFFSET + iblock))"

text \<open>
  \<open>iget_locked\<close>: the inode of that number from the cache, or a new one that \<open>fill\<close> completes, if
  there is memory.
\<close>

definition iget :: "bool \<Rightarrow> nat \<Rightarrow> simple_inode \<Rightarrow> akpsfs \<Rightarrow> akpsfs option" where
  "iget mem ino new s =
     (case icache s ino of
        Some _ \<Rightarrow> Some s
      | None \<Rightarrow> if mem then Some (s\<lparr>icache := (icache s)(ino \<mapsto> new)\<rparr>) else None)"

text \<open>
  The entry's name has no null character, so that comparing it as far as its length with a name
  of that length is comparing the two. The result is an error or the inode of the entry.
\<close>

definition akpsfs_inode_lookup :: "bool \<Rightarrow> nat \<Rightarrow> string \<Rightarrow> akpsfs \<Rightarrow> (int + nat) \<times> akpsfs" where
  "akpsfs_inode_lookup mem parent_ino name s =
     (if akpsfs_root_inode s \<noteq> Some parent_ino then (Inl (- ENOENT), s)
      else if (length name \<noteq> length filename \<or> take (length name) filename \<noteq> name) \<and>
              (length name \<noteq> length filename2 \<or> take (length name) filename2 \<noteq> name)
      then (Inl (- ENOENT), s)
      else case iget mem FILE_INODE_NUMBER \<lparr>i_size = file_size s, i_mode = 0x8000 OR 0x1A4\<rparr> s of
        None \<Rightarrow> (Inl (- EACCES), s)
      | Some s \<Rightarrow> (Inr FILE_INODE_NUMBER, s))"

definition akpsfs_super_write_inode :: "nat \<Rightarrow> int \<Rightarrow> akpsfs \<Rightarrow> int \<times> akpsfs" where
  "akpsfs_super_write_inode i_ino sz s =
     (0, if i_ino = FILE_INODE_NUMBER then s\<lparr>file_size := signed_take_bit 31 sz\<rparr> else s)"

text \<open>\<open>mem\<close> and \<open>root\<close>: whether there is memory for the inode and for the root entry.\<close>

definition akpsfs_fill_super :: "bool \<Rightarrow> bool \<Rightarrow> akpsfs \<Rightarrow> int \<times> akpsfs" where
  "akpsfs_fill_super mem root s =
     (case iget mem 1 \<lparr>i_size = 0, i_mode = 0x4000 OR 0x1ED\<rparr> s of
        None \<Rightarrow> (- EACCES, s\<lparr>akpsfs_root_inode := None\<rparr>)
      | Some s \<Rightarrow>
          if \<not> root then (- ENOMEM, s\<lparr>akpsfs_root_inode := Some 1, icache := (icache s)(1 := None)\<rparr>)
          else (0, s\<lparr>akpsfs_root_inode := Some 1, s_root := True\<rparr>))"

section \<open>Two names, one file\<close>

text \<open>A reader with room for \<open>n\<close> entries: their names and inodes.\<close>

definition room_emit :: "nat \<Rightarrow> (string \<times> nat) list \<Rightarrow> string \<Rightarrow> nat \<Rightarrow> (string \<times> nat) list option" where
  "room_emit n c name ino = (if length c < n then Some (c @ [(name, ino)]) else None)"

definition room_dots :: "nat \<Rightarrow> nat \<Rightarrow> (string \<times> nat) list \<Rightarrow> bool \<times> nat \<times> (string \<times> nat) list" where
  "room_dots n pos c =
     (case room_emit n c ''.'' 1 of
        None \<Rightarrow> (False, 0, c)
      | Some c \<Rightarrow> (case room_emit n c ''..'' 1 of None \<Rightarrow> (False, 1, c) | Some c \<Rightarrow> (True, 2, c)))"

lemma iterate_lists:
  "4 \<le> n \<Longrightarrow> akpsfs_file_iterate (room_dots n) (room_emit n) 0 [] = (0, 4, [(''.'', 1), (''..'', 1), (filename, 2), (filename2, 2)])"
  by (simp add: akpsfs_file_iterate_def room_dots_def room_emit_def FILE_INODE_NUMBER_def)

lemma prefix_name: "length (name :: 'a list) \<noteq> length f \<or> take (length name) f \<noteq> name \<longleftrightarrow> name \<noteq> f"
  by auto

text \<open>
  On a mounted volume whose file was written back with size \<open>n\<close>, and is no longer in the
  inode cache, a name is found exactly when the directory lists it as the file; both names then
  have the same inode, of size \<open>n\<close>, and of its blocks only the first is on the device.
\<close>

theorem akps_lookup_listed:
  assumes m: "akpsfs_fill_super True True s = (0, s1)" and n: "0 \<le> n" "n < 2 ^ 31" and r: "4 \<le> room"
    and w: "akpsfs_super_write_inode 2 n s1 = (0, s2)" and e: "icache s2 2 = None"
    and l: "akpsfs_file_iterate (room_dots room) (room_emit room) 0 [] = (0, pos, listing)"
  shows "((name, 2) \<in> set listing \<longleftrightarrow>
      (\<exists>s3 i. akpsfs_inode_lookup True 1 name s2 = (Inr 2, s3) \<and> icache s3 2 = Some i \<and> i_size i = n)) \<and>
    (akpsfs_get_block 2 b = Inr b' \<longleftrightarrow> b = 0 \<and> b' = 0)"
proof
  have r1: "akpsfs_root_inode s2 = Some 1" "file_size s2 = n"
    using m w n by (auto simp: akpsfs_fill_super_def akpsfs_super_write_inode_def FILE_INODE_NUMBER_def
        signed_take_bit_int_eq_self split: option.splits if_splits)
  have "(name, 2) \<in> set listing \<longleftrightarrow> name = filename \<or> name = filename2" using l iterate_lists [OF r] by auto
  moreover have "akpsfs_inode_lookup True 1 name s2 =
      (if name = filename \<or> name = filename2 then (Inr 2, s2\<lparr>icache := (icache s2)(2 \<mapsto> \<lparr>i_size = n, i_mode = 0x81A4\<rparr>)\<rparr>) else (Inl (- 2), s2))"
    unfolding akpsfs_inode_lookup_def prefix_name using r1 e by (simp add: iget_def FILE_INODE_NUMBER_def)
  ultimately show "(name, 2) \<in> set listing \<longleftrightarrow>
      (\<exists>s3 i. akpsfs_inode_lookup True 1 name s2 = (Inr 2, s3) \<and> icache s3 2 = Some i \<and> i_size i = n)" by auto
next
  have "b < 1 \<longleftrightarrow> b = 0" by (simp add: word_less_nat_alt unat_eq_0)
  then show "akpsfs_get_block 2 b = Inr b' \<longleftrightarrow> b = 0 \<and> b' = 0" by (auto simp: akpsfs_get_block_def simple_consts not_le)
qed

theorem akps_lookup_listed_witness:
  "\<exists>s3 i. akpsfs_inode_lookup True 1 ''world.txt'' (snd (akpsfs_super_write_inode 2 100 (snd (akpsfs_fill_super True True akpsfs_loaded)))) = (Inr 2, s3) \<and>
    icache s3 2 = Some i \<and> i_size i = 100"
proof -
  let ?s1 = "snd (akpsfs_fill_super True True akpsfs_loaded)" and ?s2 = "snd (akpsfs_super_write_inode 2 100 (snd (akpsfs_fill_super True True akpsfs_loaded)))"
  have "akpsfs_fill_super True True akpsfs_loaded = (0, ?s1)" "akpsfs_super_write_inode 2 100 ?s1 = (0, ?s2)" "icache ?s2 2 = None"
    by (simp_all add: akpsfs_fill_super_def akpsfs_super_write_inode_def iget_def akpsfs_loaded_def simple_consts)
  from akps_lookup_listed [OF this(1) _ _ _ this(2,3) iterate_lists [of 4], of "''world.txt''"]
  show ?thesis by (simp add: filename_def filename2_def)
qed

text \<open>A reader whose buffer is full before the end never gets the rest: the position is no longer 0.\<close>

lemma akps_full_buffer_loses:
  "akpsfs_file_iterate (room_dots 3) (room_emit 3) 0 [] = (- 28, 3, [(''.'', 1), (''..'', 1), (filename, 2)])"
  "akpsfs_file_iterate (room_dots 3) (room_emit 3) 3 [] = (0, 3, [])"
  by (simp_all add: akpsfs_file_iterate_def room_dots_def room_emit_def FILE_INODE_NUMBER_def)

end
