(* ===== verification/Spec2Isabelle.thy ===== *)
theory Spec2Isabelle
  imports Ram_Block Sfs_Props Sfs_Format Sfs_Shell Ddk_Props Akp_Props Ddk_Mem_Props
    Ddk_U2s_Props Ddk_Ctl Uart_Props Spi_Props I2c_Irq_Props Expt_Pci_Props Akp_Simple
begin

text \<open>
  A verification development for the drivers and file systems of this repository: two block
  drivers, three file systems with the user-space tools of two, the USB drivers for the board's
  memory, serial port, registers and LED, the UART, SPI and two I2C character drivers, and the
  driver of a PCI card.

  \<^bold>\<open>The program's parts and how they interact.\<close> A block device is either the RAM disk
  (\<^verbatim>\<open>src/BlockDriver/ram_block.c\<close> over \<^verbatim>\<open>ram_device.c\<close>, whose first sectors are filled by
  \<^verbatim>\<open>partition.c\<close>) or the memory of a USB board (\<^verbatim>\<open>ddk_block.c\<close> over \<^verbatim>\<open>ddk_storage.c\<close>). The same
  board memory is a character device through \<^verbatim>\<open>src/USB/USBDriver/ddk_mem.c\<close>, and the board's serial
  port through \<^verbatim>\<open>ddk_u2s.c\<close>, its registers and LED through \<^verbatim>\<open>ddk_io.c\<close> and \<^verbatim>\<open>ddk_led.c\<close>. On a block device
  sits either Simula FS (kernel module \<^verbatim>\<open>src/FSDriver/SFS\<close>, formatter and browsing shell in
  \<^verbatim>\<open>src/USB/Apps\<close>) or the AKP file system (kernel module \<^verbatim>\<open>src/FSDriver/AKPFS\<close>, formatter
  \<^verbatim>\<open>src/USB/Apps/mkfs.akp.c\<close>), or the single file of \<^verbatim>\<open>src/FSDriver/akp_simple.c\<close>. The modules see the device through the kernel's buffer cache, the
  tools through a file descriptor. Separate from these are the drivers that move bytes between
  a character device and the registers of a controller: the UART (\<^verbatim>\<open>src/Uart/Code/char-serial-new.c\<close>,
  by interrupts), SPI (\<^verbatim>\<open>src/SPI/Driver/spi-omap2-mcspi.c\<close>) and I2C (\<^verbatim>\<open>src/I2C/Code/Driver/i2c-omap.c\<close>,
  both by polling), each with its \<^verbatim>\<open>final_char_driver.c\<close>, I2C by interrupts
  (\<^verbatim>\<open>src/I2C/Code/Driver/omap_i2c.c\<close>), and a network card by DMA (\<^verbatim>\<open>src/PCI/PCIDriver/expt_drv_with_dma.c\<close>).

  \<^bold>\<open>Conventions.\<close> Structures are records, machine integers are words of their width (\<open>int\<close> and
  \<open>nat\<close> stand for values whose range is shown or obvious), byte images are lists of 8-bit words.
  A function returns \<open>None\<close> exactly where the C code has no defined result: an access outside
  an object, a use of freed memory, a division by zero, a lock taken twice, a loop without end.
  Error codes are ordinary return values. Code outside the repository is a parameter: the buffer
  cache (\<open>'d bdev\<close>), the USB core (\<open>'u usb\<close>), the registers of a chip (\<open>'h chip\<close>, \<open>'h spi_chip\<close>, \<open>'h i2c_chip\<close>,
  \<open>'h pci_chip\<close>), the interrupts that come during a wait, allocation results, user memory, the time, the
  results of registration functions. What is assumed of it is an assumption of the locales
  \<open>buffer_cache\<close> and \<open>sector_store\<close> or of predicates on the parameter: \<open>memory_board\<close> and
  \<open>char_board\<close> for the board's memory, \<open>serial_in\<close> and \<open>serial_out\<close> for its serial port,
  \<open>no_line_status\<close>, \<open>rx_chip\<close> and \<open>tx_chip\<close> for the UART, \<open>channel\<close> and \<open>clock_runs\<close> for SPI,
  \<open>bus\<close>, \<open>takes\<close>, \<open>gives\<close>, \<open>free_bus\<close>, \<open>silent\<close> and \<open>clock_runs\<close> for I2C,
  \<open>irq_enabled\<close>, \<open>irq_takes\<close>, \<open>irq_gives\<close>, \<open>quiet\<close> and \<open>refuses\<close> for its interrupts, \<open>register_board\<close> for the
  board's registers, and \<open>resets\<close> for the card.

  \<^bold>\<open>The theories.\<close>
  \<^item> \<open>Storage_Prelude\<close>: words, little-endian byte images, partial reads and writes of memory.
  \<^item> \<open>Partition\<close>: \<^verbatim>\<open>partition.c\<close>; the boot records are parsed back as the source's tables.
  \<^item> \<open>Ram_Device\<close>: \<^verbatim>\<open>ram_device.c\<close>; the locale \<open>buffer_cache\<close>, interpreted on the RAM disk with
    blocks of a sector, and in \<open>Ram_Page\<close> with blocks of a page.
  \<^item> \<open>Block_Transfer\<close>: requests and segments, the locale \<open>sector_store\<close> for what a block driver
    needs of its back end. \<open>Ram_Block\<close>: \<^verbatim>\<open>ram_block.c\<close>, an instance of it.
  \<^item> \<open>Usb_Core\<close>, \<open>Ddk_Storage\<close>, \<open>Ddk_Block\<close>, \<open>Ddk_Props\<close>: \<^verbatim>\<open>ddk_storage.c\<close> and \<^verbatim>\<open>ddk_block.c\<close>. The
    request function and the work item are interleaved steps of a transition relation; a
    transfer has the effect of the RAM driver's, no request is ended twice or lost, except by
    the cancellation at disconnect.
  \<^item> \<open>Usb_Char\<close>: the loops \<^verbatim>\<open>ddk_mem.c\<close> and \<^verbatim>\<open>ddk_u2s.c\<close> share, sending in packets and handing out
    a buffer in parts.
  \<^item> \<open>Ddk_Mem\<close>, \<open>Ddk_Mem_Props\<close>: \<^verbatim>\<open>ddk_mem.c\<close>; reads of any sizes stream the memory, writes end
    and store their bytes, and the error paths of open and seek.
  \<^item> \<open>Ddk_U2s\<close>, \<open>Ddk_U2s_Props\<close>: \<^verbatim>\<open>ddk_u2s.c\<close>; plugging, the three parts of unplugging, opening and
    closing as a transition relation in which one file at most has the device, and the receive
    buffer as a queue.
  \<^item> \<open>Ddk_Ctl\<close>: \<^verbatim>\<open>ddk_io.c\<close>, \<^verbatim>\<open>ddk_led.c\<close> and \<^verbatim>\<open>usb_char_driver.c\<close>; a register read gives what was last
    written, and a use after unplugging has no result.
  \<^item> \<open>Char_Device\<close>: registration of a character device. \<open>Uart\<close>, \<open>Uart_Props\<close>: \<^verbatim>\<open>char-serial-new.c\<close>;
    bounds of the buffers when interrupts come between the single accesses of reads and writes, the
    race in which they fail, what is received is read, what is written is sent, through the interrupt
    handler, and a change of the line settings transmits nothing. \<open>Spi\<close>, \<open>Spi_Props\<close>:
    \<^verbatim>\<open>spi-omap2-mcspi.c\<close>; the bytes a transfer exchanges, its end, and the configuration.
    \<open>I2c\<close>, \<open>I2c_Props\<close>: \<^verbatim>\<open>i2c-omap.c\<close>; messages in both directions, the time out on a silent bus, and
    the clock settings. \<open>Polling\<close> is the wait loop of these two and the proof that it ends.
  \<^item> \<open>I2c_Irq\<close>, \<open>I2c_Irq_Props\<close>: \<^verbatim>\<open>omap_i2c.c\<close> over the registers and copy loops of \<open>I2c\<close>; what a
    message sends and receives, whatever interrupts come and however the device pauses, the limit of
    a hundred rounds that can complete a longer message too early, the errors of the bus, and the
    adapter a failed probe leaves.
  \<^item> \<open>Expt_Pci\<close>, \<open>Expt_Pci_Props\<close>: \<^verbatim>\<open>expt_drv_with_dma.c\<close>. Writers, readers, interrupts and the card are
    interleaved steps of a transition relation with the counter \<open>pkt_tx_busy\<close> as the lock of the
    transmit buffer; packets in both directions, and the resources of probe and remove.
  \<^item> \<open>Sfs_Data\<close>, \<open>Sfs_Ops\<close>, \<open>Sfs_Vfs\<close>: \<^verbatim>\<open>real_sfs_ds.h\<close>, \<^verbatim>\<open>real_sfs_ops.c\<close>, \<^verbatim>\<open>real_sfs.c\<close>. \<open>Sfs_Volume\<close> and
    \<open>Sfs_Inv\<close> hold the consistency invariant of a volume (tracker, file table and blocks agree)
    and its preservation by each operation on files without holes and names that fit. \<open>Sfs_Safe\<close> has
    the weaker invariant that every sequence of VFS calls keeps: no block is listed twice, and what
    is listed is in the data area and marked used. \<open>Sfs_Props\<close> has the properties.
  \<^item> \<open>Posix_File\<close>, \<open>Sfs_Format\<close>, \<open>Sfs_Browse\<close>, \<open>Sfs_Shell\<close>: \<^verbatim>\<open>format_real_sfs.c\<close> and
    \<^verbatim>\<open>browse_real_sfs.c\<close>; the tools and the kernel module agree about the volume.
  \<^item> \<open>Akpfs\<close>: the module of \<^verbatim>\<open>src/FSDriver/AKPFS\<close>; \<open>Akpfs_Vol\<close> and \<open>Akpfs_Files\<close>: layout, bitmap and
    block ownership, preserved by block mapping and inode write-back; \<open>Akp_Mkfs\<close>: \<^verbatim>\<open>mkfs.akp.c\<close>
    and the image it writes; \<open>Akp_Props\<close>: the properties. \<open>Akp_Simple\<close>: \<^verbatim>\<open>akp_simple.c\<close>; the names
    found are those listed.

  \<^bold>\<open>Bounds.\<close> No definition uses fuel. The loops of \<open>ddk_storage.c\<close> have a measure; the loop of
  \<open>ddk_write\<close> in \<open>ddk_mem.c\<close> and \<open>ddk_u2s.c\<close> may run for ever on a board that takes no bytes, and
  the wait for a status bit in the SPI and I2C drivers when the clock stands still, and the reset of
  the PCI card when the card does not finish it: these are partial functions, for which returning
  is proved on a working board, for a running clock, and for a card that resets. The
  interrupt handler of the UART runs at most 257 rounds, the I2C messages ten and the I2C interrupt thread a hundred,
  the bounds in the code. The clock
  \<open>jiffies\<close> does not wrap. Device sizes are bounded where the
  code's own integers are: below 4 GiB for the RAM disk, 2 GiB for \<open>mkfs.akp\<close>, whose device size
  is an \<open>int\<close>, and 32 KiB for the board, whose size is a \<open>short\<close>.

  \<^bold>\<open>Not modelled.\<close> Functions that only forward to the kernel (page cache, registration, module
  entry points), printed text apart from the shell's messages, and the concurrency of the file
  systems, which the sources leave to the VFS or mark as not handled. Simula FS is modelled with one
  block size, that of its super block: on a block device with another block size
  \<^verbatim>\<open>real_sfs.c\<close> reads blocks of one size by numbers computed for the other. Errors that the tools'
  file descriptor reports are left out. The network and
  sound drivers are copies of vendor and kernel drivers or templates that forward to the network
  stack; the other UART, I2C and PCI drivers and the other Simula FS modules are earlier stages of
  the ones modelled, and the USB test programs are menus around system calls. Of the PCI card the
  part under \<open>PKT_FLOW_CFG\<close>, which is not defined, is left out, and the card's write-back to the
  transmit descriptor is not a step. The UART steps are those of one processor, one reader and one
  writer. An I2C interrupt is handled while the process waits or after it has looked at the result;
  one in the middle of the reset after an error, or after the call has returned, is not modelled. The
  clock of the SPI and I2C drivers goes on in each pause.
\<close>

end
